(* ===== verification/Prelude.thy ===== *)
theory Prelude
  imports Main "HOL-Library.Sublist"
begin

section \<open>Shared list, option and result operations\<close>

text \<open>
  The generic facts the component theories share: Python's ordered deduplication
  (\<open>tuple(dict.fromkeys(xs))\<close>), splitting and joining a list at a separator, and the
  traversal of a list with an operation that may fail. The collections declared here gather
  the definitional equations that component proofs unfold.
\<close>

named_theorems text_defs "definitions of the text primitives"
named_theorems path_defs "definitions of the path operations"

subsection \<open>Ordered deduplication\<close>

text \<open>\<open>dict.fromkeys\<close> keeps the first occurrence of every element, in order.\<close>

fun dedup :: "'a list \<Rightarrow> 'a list" where
  "dedup [] = []"
| "dedup (x # xs) = x # removeAll x (dedup xs)"

lemma set_dedup [simp]: "set (dedup xs) = set xs"
  by (induction xs) auto

lemma distinct_removeAll_dedup: "distinct xs \<Longrightarrow> distinct (removeAll x xs)"
  by (simp add: distinct_removeAll)

lemma distinct_dedup [simp]: "distinct (dedup xs)"
  by (induction xs) (auto simp: distinct_removeAll)

lemma dedup_distinct [simp]: "distinct xs \<Longrightarrow> dedup xs = xs"
  by (induction xs) (auto simp: removeAll_id)

lemma dedup_idem [simp]: "dedup (dedup xs) = dedup xs"
  by simp

lemma dedup_Nil_iff [simp]: "dedup xs = [] \<longleftrightarrow> xs = []"
  by (cases xs) auto

lemma filter_dedup: "filter P (dedup xs) = dedup (filter P xs)"
proof (induction xs)
  case Nil
  then show ?case by simp
next
  case (Cons x xs)
  have "filter P (removeAll x (dedup xs)) = removeAll x (filter P (dedup xs))"
    by (simp add: removeAll_filter_not_eq conj_commute)
  moreover have "removeAll x (dedup (filter P xs)) = dedup (filter P xs)" if "\<not> P x"
    using that by (simp add: removeAll_id)
  ultimately show ?case using Cons by auto
qed

lemma dedup_append: "dedup (xs @ ys) = dedup xs @ filter (\<lambda>y. y \<notin> set xs) (dedup ys)"
  by (induction xs) (auto simp: removeAll_filter_not_eq intro: filter_cong)

lemma dedup_append_subset: "set ys \<subseteq> set xs \<Longrightarrow> dedup (xs @ ys) = dedup xs"
  by (auto simp: dedup_append filter_empty_conv)

subsection \<open>Splitting and joining at a separator\<close>

text \<open>\<open>text.split(c)\<close> for a one-character separator: never the empty list.\<close>

fun split_on :: "'a \<Rightarrow> 'a list \<Rightarrow> 'a list list" where
  "split_on c [] = [[]]"
| "split_on c (x # xs) =
     (if x = c then [] # split_on c xs
      else (x # hd (split_on c xs)) # tl (split_on c xs))"

text \<open>\<open>sep.join(parts)\<close>.\<close>

fun join :: "'a list \<Rightarrow> 'a list list \<Rightarrow> 'a list" where
  "join sep [] = []"
| "join sep [w] = w"
| "join sep (w # v # ws) = w @ sep @ join sep (v # ws)"

lemma split_on_not_Nil [simp]: "split_on c xs \<noteq> []"
  by (cases xs) auto

lemma split_on_free: "w \<in> set (split_on c xs) \<Longrightarrow> c \<notin> set w"
proof (induction xs arbitrary: w)
  case Nil
  then show ?case by simp
next
  case (Cons x xs)
  have hd: "c \<notin> set (hd (split_on c xs))"
    using Cons.IH by simp
  have tl: "v \<in> set (tl (split_on c xs)) \<Longrightarrow> c \<notin> set v" for v
    using Cons.IH by (meson list.set_sel(2) split_on_not_Nil)
  from Cons.prems show ?case
    using Cons.IH hd tl by (auto split: if_splits)
qed

lemma join_Cons: "ws \<noteq> [] \<Longrightarrow> join sep (w # ws) = w @ sep @ join sep ws"
  by (cases ws) auto

lemma join_split_on [simp]: "join [c] (split_on c xs) = xs"
proof (induction xs)
  case Nil
  then show ?case by simp
next
  case (Cons x xs)
  show ?case
  proof (cases "x = c")
    case True
    with Cons show ?thesis by (simp add: join_Cons)
  next
    case False
    obtain w ws where "split_on c xs = w # ws"
      using split_on_not_Nil by (metis list.exhaust)
    with Cons False show ?thesis by (cases ws) auto
  qed
qed

lemma split_on_append_free:
  "c \<notin> set w \<Longrightarrow> split_on c (w @ c # xs) = w # split_on c xs"
  by (induction w) auto

lemma split_on_free_id: "c \<notin> set w \<Longrightarrow> split_on c w = [w]"
  by (induction w) auto

lemma split_on_join:
  "ws \<noteq> [] \<Longrightarrow> (\<forall>w \<in> set ws. c \<notin> set w) \<Longrightarrow> split_on c (join [c] ws) = ws"
proof (induction ws)
  case Nil
  then show ?case by simp
next
  case (Cons w ws)
  then show ?case
    by (cases "ws = []") (auto simp: join_Cons split_on_append_free split_on_free_id)
qed

lemma join_append:
  "xs \<noteq> [] \<Longrightarrow> ys \<noteq> [] \<Longrightarrow> join sep (xs @ ys) = join sep xs @ sep @ join sep ys"
proof (induction xs)
  case Nil
  then show ?case by simp
next
  case (Cons x xs)
  then show ?case by (cases "xs = []") (auto simp: join_Cons)
qed

lemma split_on_append: "split_on c (xs @ c # ys) = split_on c xs @ split_on c ys"
proof (induction xs)
  case Nil
  then show ?case by simp
next
  case (Cons x xs)
  then show ?case by (auto simp: hd_append tl_append split: list.splits)
qed

lemma join_eq_Nil_iff: "join [c] ws = [] \<longleftrightarrow> ws = [] \<or> ws = [[]]"
  by (cases ws rule: remdups_adj.cases) auto

text \<open>\<open>text.split(c, n)\<close>: at most \<open>n\<close> cuts, the rest stays one piece.\<close>

fun split_max :: "'a \<Rightarrow> nat \<Rightarrow> 'a list \<Rightarrow> 'a list list" where
  "split_max c 0 xs = [xs]"
| "split_max c (Suc n) xs =
     (if c \<in> set xs
      then takeWhile (\<lambda>x. x \<noteq> c) xs # split_max c n (tl (dropWhile (\<lambda>x. x \<noteq> c) xs))
      else [xs])"

text \<open>\<open>text.partition(c)\<close>: what stands before the first separator, whether there is one, and
  what stands after it.\<close>

definition partition_on :: "'a \<Rightarrow> 'a list \<Rightarrow> 'a list \<times> bool \<times> 'a list" where
  "partition_on c xs =
     (takeWhile (\<lambda>x. x \<noteq> c) xs, c \<in> set xs, tl (dropWhile (\<lambda>x. x \<noteq> c) xs))"

text \<open>\<open>text.rpartition(c)\<close>: the cut is at the last separator; without one the whole text is
  the last component.\<close>

definition rpartition_on :: "'a \<Rightarrow> 'a list \<Rightarrow> 'a list \<times> bool \<times> 'a list" where
  "rpartition_on c xs =
     (if c \<in> set xs
      then (rev (tl (dropWhile (\<lambda>x. x \<noteq> c) (rev xs))), True, rev (takeWhile (\<lambda>x. x \<noteq> c) (rev xs)))
      else ([], False, xs))"

subsection \<open>Stripping\<close>

definition rdrop_while :: "('a \<Rightarrow> bool) \<Rightarrow> 'a list \<Rightarrow> 'a list" where
  "rdrop_while P xs = rev (dropWhile P (rev xs))"

lemma rdrop_while_Nil [simp]: "rdrop_while P [] = []"
  by (simp add: rdrop_while_def)

lemma rdrop_while_snoc [simp]:
  "rdrop_while P (xs @ [x]) = (if P x then rdrop_while P xs else xs @ [x])"
  by (simp add: rdrop_while_def)

lemma set_rdrop_while: "x \<in> set (rdrop_while P xs) \<Longrightarrow> x \<in> set xs"
  by (auto simp: rdrop_while_def dest: set_dropWhileD)

lemma rdrop_while_last: "rdrop_while P xs \<noteq> [] \<Longrightarrow> \<not> P (last (rdrop_while P xs))"
  by (simp add: rdrop_while_def last_rev hd_dropWhile)

lemma rdrop_while_id: "xs = [] \<or> \<not> P (last xs) \<Longrightarrow> rdrop_while P xs = xs"
  by (cases xs rule: rev_cases) auto

lemma rdrop_while_idem [simp]: "rdrop_while P (rdrop_while P xs) = rdrop_while P xs"
  by (metis rdrop_while_id rdrop_while_last)

lemma prefix_rdrop_while: "prefix (rdrop_while P xs) xs"
  by (induction xs rule: rev_induct) (auto intro: prefixI)

subsection \<open>Traversals that may fail\<close>

fun map_result :: "('a \<Rightarrow> 'e + 'b) \<Rightarrow> 'a list \<Rightarrow> 'e + 'b list" where
  "map_result f [] = Inr []"
| "map_result f (x # xs) =
     (case f x of Inl e \<Rightarrow> Inl e
      | Inr y \<Rightarrow> (case map_result f xs of Inl e \<Rightarrow> Inl e | Inr ys \<Rightarrow> Inr (y # ys)))"

lemma map_result_Inr_iff:
  "map_result f xs = Inr ys \<longleftrightarrow> list_all2 (\<lambda>x y. f x = Inr y) xs ys"
proof (induction xs arbitrary: ys)
  case Nil
  then show ?case by auto
next
  case (Cons x xs)
  show ?case by (cases ys) (auto simp: Cons.IH [symmetric] split: sum.splits)
qed

fun map_option_list :: "('a \<Rightarrow> 'b option) \<Rightarrow> 'a list \<Rightarrow> 'b list option" where
  "map_option_list f [] = Some []"
| "map_option_list f (x # xs) =
     (case f x of None \<Rightarrow> None
      | Some y \<Rightarrow> (case map_option_list f xs of None \<Rightarrow> None | Some ys \<Rightarrow> Some (y # ys)))"

lemma map_option_list_Some_iff:
  "map_option_list f xs = Some ys \<longleftrightarrow> list_all2 (\<lambda>x y. f x = Some y) xs ys"
proof (induction xs arbitrary: ys)
  case Nil
  then show ?case by auto
next
  case (Cons x xs)
  show ?case by (cases ys) (auto simp: Cons.IH [symmetric] split: option.splits)
qed

text \<open>\<open>next((f x for x in xs if f x is not None), None)\<close>.\<close>

fun first_some :: "('a \<Rightarrow> 'b option) \<Rightarrow> 'a list \<Rightarrow> 'b option" where
  "first_some f [] = None"
| "first_some f (x # xs) = (case f x of Some y \<Rightarrow> Some y | None \<Rightarrow> first_some f xs)"

lemma first_some_None_iff: "first_some f xs = None \<longleftrightarrow> (\<forall>x \<in> set xs. f x = None)"
  by (induction xs) (auto split: option.splits)

lemma first_some_Some_ex: "first_some f xs = Some y \<Longrightarrow> \<exists>x \<in> set xs. f x = Some y"
  by (induction xs) (auto split: option.splits)

lemma first_some_append:
  "first_some f (xs @ ys) =
     (case first_some f xs of Some y \<Rightarrow> Some y | None \<Rightarrow> first_some f ys)"
  by (induction xs) (auto split: option.splits)

text \<open>\<open>any\<close> over tests that may raise (\<open>None\<close>): the first true one decides.\<close>

fun any_option :: "('a \<Rightarrow> bool option) \<Rightarrow> 'a list \<Rightarrow> bool option" where
  "any_option f [] = Some False"
| "any_option f (x # xs) =
     (case f x of None \<Rightarrow> None | Some True \<Rightarrow> Some True | Some False \<Rightarrow> any_option f xs)"

lemma any_option_True: "any_option f xs = Some True \<Longrightarrow> \<exists>x \<in> set xs. f x = Some True"
  by (induction xs) (auto split: option.splits bool.splits)

lemma any_option_False_iff: "any_option f xs = Some False \<longleftrightarrow> (\<forall>x \<in> set xs. f x = Some False)"
  by (induction xs) (auto split: option.splits bool.splits)

lemma any_option_simple: "(\<And>x. x \<in> set xs \<Longrightarrow> f x = Some (g x)) \<Longrightarrow> any_option f xs = Some (list_ex g xs)"
  by (induction xs) (auto split: bool.splits)

lemma find_SomeD: "find P xs = Some x \<Longrightarrow> x \<in> set xs \<and> P x"
  by (induction xs) (auto split: if_splits)

lemma map_option_list_set:
  "map_option_list f xs = Some ys \<Longrightarrow> y \<in> set ys \<longleftrightarrow> (\<exists>x \<in> set xs. f x = Some y)"
  by (induction xs arbitrary: ys) (auto split: option.splits)

lemma map_option_list_cong:
  "(\<And>x. x \<in> set xs \<Longrightarrow> f x = g x) \<Longrightarrow> map_option_list f xs = map_option_list g xs"
  by (induction xs) (simp_all split: option.splits)

lemma map_option_list_defined:
  "map_option_list f xs = Some ys \<Longrightarrow> x \<in> set xs \<Longrightarrow> \<exists>y \<in> set ys. f x = Some y"
  by (induction xs arbitrary: ys) (auto split: option.splits)

lemma in_concat_map: "x \<in> set xs \<Longrightarrow> y \<in> set (f x) \<Longrightarrow> y \<in> set (concat (map f xs))"
  by auto

end
