(* ===== verification/Py_Text.thy ===== *)
theory Py_Text
  imports Prelude
begin

section \<open>The text operations the program uses\<close>

text \<open>
  A Python \<open>str\<close> is a list of characters; a \<open>char\<close> stands for the code point of its number, so
  the model's texts are the texts over the code points below 256. On those the operations below
  are Python's: \<open>isspace\<close> (also what \<open>strip()\<close>, \<open>split()\<close> and the regular expression \<open>\s\<close> use),
  \<open>lower\<close>, \<open>casefold\<close> (which writes the sharp s as two letters; the micro sign, which folds to a
  Greek letter, stays as it is) and the character classes of the program's regular expressions.
\<close>

definition code :: "char \<Rightarrow> nat" where
  "code c = of_char c"

definition is_space :: "char \<Rightarrow> bool" where
  "is_space c \<longleftrightarrow>
     (let n = code c in (9 \<le> n \<and> n \<le> 13) \<or> (28 \<le> n \<and> n \<le> 32) \<or> n = 133 \<or> n = 160)"

definition is_upper_ascii :: "char \<Rightarrow> bool" where
  "is_upper_ascii c \<longleftrightarrow> 65 \<le> code c \<and> code c \<le> 90"

definition is_lower_ascii :: "char \<Rightarrow> bool" where
  "is_lower_ascii c \<longleftrightarrow> 97 \<le> code c \<and> code c \<le> 122"

definition is_letter :: "char \<Rightarrow> bool" where
  "is_letter c \<longleftrightarrow> is_upper_ascii c \<or> is_lower_ascii c"

definition is_digit :: "char \<Rightarrow> bool" where
  "is_digit c \<longleftrightarrow> 48 \<le> code c \<and> code c \<le> 57"

definition is_hex_digit :: "char \<Rightarrow> bool" where
  "is_hex_digit c \<longleftrightarrow>
     is_digit c \<or> (65 \<le> code c \<and> code c \<le> 70) \<or> (97 \<le> code c \<and> code c \<le> 102)"

definition is_ascii :: "char \<Rightarrow> bool" where
  "is_ascii c \<longleftrightarrow> code c < 128"

text \<open>The class \<open>[\x00-\x1f\x7f]\<close>.\<close>

definition is_control :: "char \<Rightarrow> bool" where
  "is_control c \<longleftrightarrow> code c < 32 \<or> code c = 127"

definition lower_char :: "char \<Rightarrow> char" where
  "lower_char c =
     (let n = code c in
      if (65 \<le> n \<and> n \<le> 90) \<or> (192 \<le> n \<and> n \<le> 222 \<and> n \<noteq> 215) then char_of (n + 32) else c)"

definition lower :: "string \<Rightarrow> string" where
  "lower s = map lower_char s"

definition casefold :: "string \<Rightarrow> string" where
  "casefold s = concat (map (\<lambda>c. if code c = 223 then ''ss'' else [lower_char c]) s)"

definition upper_char_ascii :: "char \<Rightarrow> char" where
  "upper_char_ascii c = (if is_lower_ascii c then char_of (code c - 32) else c)"

lemmas char_class_defs [text_defs] =
  code_def is_space_def is_upper_ascii_def is_lower_ascii_def is_letter_def is_digit_def
  is_hex_digit_def is_ascii_def is_control_def Let_def

subsection \<open>Prefixes and suffixes\<close>

definition starts_with :: "string \<Rightarrow> string \<Rightarrow> bool" where
  "starts_with p s \<longleftrightarrow> take (length p) s = p"

definition ends_with :: "string \<Rightarrow> string \<Rightarrow> bool" where
  "ends_with p s \<longleftrightarrow> length p \<le> length s \<and> drop (length s - length p) s = p"

definition remove_prefix :: "string \<Rightarrow> string \<Rightarrow> string" where
  "remove_prefix p s = (if starts_with p s then drop (length p) s else s)"

definition remove_suffix :: "string \<Rightarrow> string \<Rightarrow> string" where
  "remove_suffix p s = (if p \<noteq> [] \<and> ends_with p s then take (length s - length p) s else s)"

lemma starts_with_iff: "starts_with p s \<longleftrightarrow> (\<exists>r. s = p @ r)"
  by (metis append_eq_conv_conj append_take_drop_id starts_with_def)

lemma starts_with_prefix: "starts_with p s \<longleftrightarrow> prefix p s"
  by (auto simp: starts_with_iff prefix_def)

lemma ends_with_iff: "ends_with p s \<longleftrightarrow> (\<exists>r. s = r @ p)"
proof
  assume "ends_with p s"
  then show "\<exists>r. s = r @ p"
    by (metis append_take_drop_id ends_with_def)
next
  assume "\<exists>r. s = r @ p"
  then show "ends_with p s" by (auto simp: ends_with_def)
qed

lemma starts_with_append [simp]: "starts_with p (p @ r)"
  by (simp add: starts_with_def)

lemma ends_with_append [simp]: "ends_with p (r @ p)"
  by (simp add: ends_with_def)

lemma starts_with_Nil [simp]: "starts_with [] s"
  by (simp add: starts_with_def)

lemma starts_with_refl [simp]: "starts_with s s"
  by (simp add: starts_with_def)

lemma starts_with_trans: "starts_with p q \<Longrightarrow> starts_with q s \<Longrightarrow> starts_with p s"
  by (auto simp: starts_with_iff)

lemma ends_with_trans: "ends_with p q \<Longrightarrow> ends_with q s \<Longrightarrow> ends_with p s"
  by (auto simp: ends_with_iff)

lemma starts_with_Cons [simp]: "starts_with (c # p) (d # s) \<longleftrightarrow> c = d \<and> starts_with p s"
  by (auto simp: starts_with_def)

lemma starts_with_Cons_Nil [simp]: "\<not> starts_with (c # p) []"
  by (simp add: starts_with_def)

subsection \<open>Stripping, replacing, whitespace runs\<close>

definition strip :: "string \<Rightarrow> string" where
  "strip s = rdrop_while is_space (dropWhile is_space s)"

definition rstrip_char :: "char \<Rightarrow> string \<Rightarrow> string" where
  "rstrip_char c s = rdrop_while (\<lambda>x. x = c) s"

definition lstrip_char :: "char \<Rightarrow> string \<Rightarrow> string" where
  "lstrip_char c s = dropWhile (\<lambda>x. x = c) s"

definition replace_char :: "char \<Rightarrow> char \<Rightarrow> string \<Rightarrow> string" where
  "replace_char a b s = map (\<lambda>c. if c = a then b else c) s"

text \<open>\<open>text.split()\<close>: the maximal runs of characters that are no whitespace.\<close>

function words :: "string \<Rightarrow> string list" where
  "words s =
     (let t = dropWhile is_space s in
      if t = [] then []
      else takeWhile (\<lambda>c. \<not> is_space c) t # words (dropWhile (\<lambda>c. \<not> is_space c) t))"
  by pat_completeness auto
termination
proof (relation "measure length", simp)
  fix s x assume x: "x = dropWhile is_space s" "x \<noteq> []"
  obtain c cs where c: "x = c # cs" using x(2) by (cases x) auto
  have "\<not> is_space c" using x(1) c by (metis dropWhile_eq_Cons_conv)
  with c have "length (dropWhile (\<lambda>c. \<not> is_space c) x) < length x"
    by (simp add: length_dropWhile_le le_imp_less_Suc)
  also have "\<dots> \<le> length s" using x(1) by (simp add: length_dropWhile_le)
  finally show "(dropWhile (\<lambda>c. \<not> is_space c) x, s) \<in> measure length" by simp
qed

declare words.simps [simp del]

text \<open>The words of \<open>text.split()\<close> joined by single spaces: no space at the ends.\<close>

definition single_spaced :: "string \<Rightarrow> string" where
  "single_spaced s = join '' '' (words s)"

lemma words_word: "w \<in> set (words s) \<Longrightarrow> w \<noteq> [] \<and> (\<forall>c \<in> set w. \<not> is_space c)"
proof (induction s rule: words.induct)
  case (1 s)
  let ?t = "dropWhile is_space s"
  show ?case
  proof (cases "?t = []")
    case True
    with "1.prems" show ?thesis by (simp add: words.simps [of s])
  next
    case False
    then obtain c cs where t: "?t = c # cs" by (cases ?t) auto
    then have c: "\<not> is_space c" by (metis dropWhile_eq_Cons_conv)
    from "1.prems" False
    have "w = takeWhile (\<lambda>c. \<not> is_space c) ?t \<or> w \<in> set (words (dropWhile (\<lambda>c. \<not> is_space c) ?t))"
      by (subst (asm) words.simps) (simp add: Let_def split: if_splits)
    then show ?thesis
    proof
      assume "w = takeWhile (\<lambda>c. \<not> is_space c) ?t"
      with t c show ?thesis by (auto dest: set_takeWhileD)
    next
      assume "w \<in> set (words (dropWhile (\<lambda>c. \<not> is_space c) ?t))"
      with "1.IH" False show ?thesis by blast
    qed
  qed
qed

lemma words_append_space:
  assumes "w \<noteq> []" "\<forall>c \<in> set w. \<not> is_space c"
  shows "words (w @ CHR '' '' # s) = w # words s" and "words w = [w]"
proof -
  obtain c cs where w: "w = c # cs" using assms(1) by (cases w) auto
  have sp: "is_space (CHR '' '')" by (simp add: is_space_def code_def)
  have dw: "dropWhile is_space (w @ r) = w @ r" for r using assms w by simp
  have tw: "takeWhile (\<lambda>c. \<not> is_space c) (w @ CHR '' '' # s) = w"
    using assms(2) sp by (simp add: takeWhile_append)
  have dr: "dropWhile (\<lambda>c. \<not> is_space c) (w @ CHR '' '' # s) = CHR '' '' # s"
    using assms(2) sp by (simp add: dropWhile_append)
  have skip: "words (CHR '' '' # s) = words s"
    by (simp add: words.simps [of "CHR '' '' # s"] words.simps [of s] sp)
  show "words (w @ CHR '' '' # s) = w # words s"
    using assms(1) by (subst words.simps) (simp only: dw tw dr skip Let_def, simp)
  show "words w = [w]"
    proof -
    have "dropWhile (\<lambda>c. \<not> is_space c) w = []" "takeWhile (\<lambda>c. \<not> is_space c) w = w"
      using assms(2) by (simp_all add: takeWhile_eq_all_conv)
    then have "words (dropWhile (\<lambda>c. \<not> is_space c) w) = []"
      by (simp only: words.simps [of "[]"]) simp
    with assms dw [of "[]"] show ?thesis
      by (subst words.simps) (simp add: Let_def takeWhile_eq_all_conv)
  qed
qed

lemma words_join_spaces:
  "(\<forall>w \<in> set ws. w \<noteq> [] \<and> (\<forall>c \<in> set w. \<not> is_space c)) \<Longrightarrow> words (join '' '' ws) = ws"
proof (induction ws)
  case Nil
  then show ?case by (simp add: words.simps)
next
  case (Cons w ws)
  then show ?case
    by (cases "ws = []") (auto simp: join_Cons words_append_space)
qed

lemma words_single_spaced [simp]: "words (single_spaced s) = words s"
  unfolding single_spaced_def using words_word by (intro words_join_spaces) blast

lemma single_spaced_idem [simp]: "single_spaced (single_spaced s) = single_spaced s"
  by (simp add: single_spaced_def [of "single_spaced s"]) (simp add: single_spaced_def)

subsection \<open>Numbers as text\<close>

fun digit_value :: "char \<Rightarrow> nat" where
  "digit_value c =
     (let n = code c in
      if 48 \<le> n \<and> n \<le> 57 then n - 48
      else if 97 \<le> n \<and> n \<le> 102 then n - 87
      else if 65 \<le> n \<and> n \<le> 70 then n - 55 else 0)"

text \<open>The value of a digit sequence that a caller has checked, \<open>int(text, base)\<close>.\<close>

definition int_of_digits :: "nat \<Rightarrow> string \<Rightarrow> nat" where
  "int_of_digits base s = foldl (\<lambda>n c. n * base + digit_value c) 0 s"

definition digit_char :: "nat \<Rightarrow> char" where
  "digit_char d = (if d < 10 then char_of (48 + d) else char_of (87 + d))"

text \<open>The shortest writing of a number: \<open>str(n)\<close> in base 10, \<open>%x\<close> in base 16. The base is
  at least 2 in every use.\<close>

function digits_of :: "nat \<Rightarrow> nat \<Rightarrow> string" where
  "digits_of base n =
     (if n < base \<or> base < 2 then [digit_char n]
      else digits_of base (n div base) @ [digit_char (n mod base)])"
  by pat_completeness auto
termination
  by (relation "measure snd") auto

declare digits_of.simps [simp del]

lemma digits_of_not_Nil [simp]: "digits_of base n \<noteq> []"
  by (subst digits_of.simps) simp

lemma digit_value_digit_char: "d < 16 \<Longrightarrow> digit_value (digit_char d) = d"
  by (auto simp: digit_char_def code_def Let_def)

lemma int_of_digits_snoc:
  "int_of_digits base (s @ [c]) = int_of_digits base s * base + digit_value c"
  by (simp add: int_of_digits_def)

lemma int_of_digits_digits_of:
  "2 \<le> base \<Longrightarrow> base \<le> 16 \<Longrightarrow> int_of_digits base (digits_of base n) = n"
proof (induction base n rule: digits_of.induct)
  case (1 base n)
  show ?case
  proof (cases "n < base")
    case True
    with 1 show ?thesis
      by (subst digits_of.simps) (simp add: int_of_digits_def digit_value_digit_char del: digit_value.simps)
  next
    case False
    have "n mod base < base" using "1.prems" by simp
    with "1.prems" have "n mod base < 16" by linarith
    then have "digit_value (digit_char (n mod base)) = n mod base"
      by (rule digit_value_digit_char)
    with 1 False show ?thesis
      by (subst digits_of.simps) (simp add: int_of_digits_snoc del: digit_value.simps)
  qed
qed

lemma digits_of_range:
  "2 \<le> base \<Longrightarrow> base \<le> 16 \<Longrightarrow> c \<in> set (digits_of base n) \<Longrightarrow> \<exists>d < base. c = digit_char d"
proof (induction base n rule: digits_of.induct)
  case (1 base n)
  show ?case
  proof (cases "n < base")
    case True
    with 1 show ?thesis by (auto simp: digits_of.simps [of base n])
  next
    case False
    have "n mod base < base" using "1.prems" by simp
    then have "\<exists>d < base. digit_char (n mod base) = digit_char d" by blast
    with 1 False show ?thesis by (auto simp: digits_of.simps [of base n])
  qed
qed

lemma is_digit_digit_char: "d < 10 \<Longrightarrow> is_digit (digit_char d)"
  by (auto simp: digit_char_def is_digit_def code_def)

lemma digits_of_10_digits: "c \<in> set (digits_of 10 n) \<Longrightarrow> is_digit c"
  using digits_of_range [of 10 c n] is_digit_digit_char by auto

end
