(* ===== verification/Py_Ip.thy ===== *)
theory Py_Ip
  imports Py_Text
begin

section \<open>The standard library's IP addresses\<close>

text \<open>
  The part of Python's \<open>ipaddress\<close> the permission checks use: \<open>ip_address\<close> (strict dotted
  IPv4, IPv6 with an optional scope id), \<open>str\<close>, \<open>ipv4_mapped\<close>, \<open>is_loopback\<close> and
  \<open>is_unspecified\<close>. \<open>None\<close> stands for the \<open>ValueError\<close> of a text that is no address.
\<close>

datatype ip = IPv4 nat | IPv6 nat "string option"

definition parse_octet :: "string \<Rightarrow> nat option" where
  "parse_octet s =
     (if s = [] \<or> \<not> list_all is_digit s \<or> 3 < length s \<or> (s \<noteq> ''0'' \<and> hd s = CHR ''0'')
        \<or> 255 < int_of_digits 10 s
      then None else Some (int_of_digits 10 s))"

definition bytes_value :: "nat list \<Rightarrow> nat" where
  "bytes_value bs = foldl (\<lambda>n b. n * 256 + b) 0 bs"

definition parse_ipv4_strict :: "string \<Rightarrow> nat option" where
  "parse_ipv4_strict s =
     (let parts = split_on (CHR ''.'') s in
      if length parts \<noteq> 4 then None
      else map_option bytes_value (map_option_list parse_octet parts))"

definition show_ipv4 :: "nat \<Rightarrow> string" where
  "show_ipv4 n =
     join ''.'' (map (digits_of 10)
       [n div 256 ^ 3 mod 256, n div 256 ^ 2 mod 256, n div 256 mod 256, n mod 256])"

definition parse_hextet :: "string \<Rightarrow> nat option" where
  "parse_hextet s =
     (if s = [] \<or> \<not> list_all is_hex_digit s \<or> 4 < length s then None
      else Some (int_of_digits 16 s))"

definition hextets_value :: "nat list \<Rightarrow> nat" where
  "hextets_value hs = foldl (\<lambda>n h. n * 65536 + h) 0 hs"

text \<open>The parts of an IPv6 text, a dotted tail written as two hextets.\<close>

definition ipv6_parts :: "string \<Rightarrow> string list option" where
  "ipv6_parts s =
     (let parts = split_on (CHR '':'') s in
      if length parts < 3 then None
      else if CHR ''.'' \<in> set (last parts)
      then (case parse_ipv4_strict (last parts) of None \<Rightarrow> None
            | Some v \<Rightarrow> Some (butlast parts @ [digits_of 16 (v div 65536), digits_of 16 (v mod 65536)]))
      else Some parts)"

text \<open>Which hextets a text with one \<open>::\<close> at index \<open>skip\<close> gives before and after it.\<close>

definition ipv6_skipped :: "string list \<Rightarrow> nat \<Rightarrow> nat option" where
  "ipv6_skipped parts skip =
     (let hi = skip; lo = length parts - skip - 1;
          hi' = (if hd parts = [] then hi - 1 else hi);
          lo' = (if last parts = [] then lo - 1 else lo) in
      if (hd parts = [] \<and> hi' \<noteq> 0) \<or> (last parts = [] \<and> lo' \<noteq> 0) \<or> 8 < hi' + lo' + 1 then None
      else (case (map_option_list parse_hextet (take hi' parts),
                  map_option_list parse_hextet (drop (length parts - lo') parts)) of
              (Some hs, Some ls) \<Rightarrow>
                Some (hextets_value (hs @ replicate (8 - (hi' + lo')) 0 @ ls))
            | _ \<Rightarrow> None))"

definition parse_ipv6_value :: "string \<Rightarrow> nat option" where
  "parse_ipv6_value s =
     (case ipv6_parts s of None \<Rightarrow> None
      | Some parts \<Rightarrow>
          if 9 < length parts then None
          else (case filter (\<lambda>i. parts ! i = []) [1..<length parts - 1] of
                  [] \<Rightarrow> if length parts \<noteq> 8 \<or> hd parts = [] \<or> last parts = [] then None
                        else map_option hextets_value (map_option_list parse_hextet parts)
                | [skip] \<Rightarrow> ipv6_skipped parts skip
                | _ \<Rightarrow> None))"

definition parse_ipv6 :: "string \<Rightarrow> ip option" where
  "parse_ipv6 s =
     (if CHR ''/'' \<in> set s then None
      else (case partition_on (CHR ''%'') s of (addr, sep, scope) \<Rightarrow>
        if sep \<and> (scope = [] \<or> CHR ''%'' \<in> set scope) then None
        else map_option (\<lambda>n. IPv6 n (if sep then Some scope else None)) (parse_ipv6_value addr)))"

definition ip_address :: "string \<Rightarrow> ip option" where
  "ip_address s =
     (case parse_ipv4_strict s of Some n \<Rightarrow> Some (IPv4 n) | None \<Rightarrow> parse_ipv6 s)"

definition ipv4_mapped :: "nat \<Rightarrow> nat option" where
  "ipv4_mapped n = (if n div 2 ^ 32 = 65535 then Some (n mod 2 ^ 32) else None)"

subsection \<open>Printing\<close>

definition hextets_of :: "nat \<Rightarrow> nat list" where
  "hextets_of n = map (\<lambda>i. n div 65536 ^ (7 - i) mod 65536) [0..<8]"

text \<open>The first longest run of zero hextets, as its start and length: the loop of
  \<open>_compress_hextets\<close> over (index, best start, best length, current start, current length).\<close>

fun zero_run :: "nat list \<Rightarrow> nat \<Rightarrow> nat \<times> nat \<Rightarrow> nat \<times> nat \<Rightarrow> nat \<times> nat" where
  "zero_run [] i best cur = best"
| "zero_run (h # hs) i best cur =
     (if h = 0
      then (let start = (if snd cur = 0 then i else fst cur); len = Suc (snd cur) in
            zero_run hs (Suc i) (if snd best < len then (start, len) else best) (start, len))
      else zero_run hs (Suc i) best (0, 0))"

definition show_ipv6_value :: "nat \<Rightarrow> string" where
  "show_ipv6_value n =
     (let hs = hextets_of n; texts = map (digits_of 16) hs;
          (start, len) = zero_run hs 0 (0, 0) (0, 0) in
      if 1 < len
      then join '':'' ((if start = 0 then [[]] else []) @ take start texts @ [[]] @ drop (start + len) texts
             @ (if start + len = 8 then [[]] else []))
      else join '':'' texts)"

definition show_ip :: "ip \<Rightarrow> string" where
  "show_ip a =
     (case a of IPv4 n \<Rightarrow> show_ipv4 n
      | IPv6 n scope \<Rightarrow>
          (let text = (case ipv4_mapped n of
                         None \<Rightarrow> show_ipv6_value n
                       | Some m \<Rightarrow> ''::ffff:'' @ show_ipv4 m) in
           case scope of None \<Rightarrow> text | Some z \<Rightarrow> text @ ''%'' @ z))"

definition is_loopback :: "ip \<Rightarrow> bool" where
  "is_loopback a =
     (case a of IPv4 n \<Rightarrow> n div 2 ^ 24 = 127
      | IPv6 n _ \<Rightarrow> (case ipv4_mapped n of Some m \<Rightarrow> m div 2 ^ 24 = 127 | None \<Rightarrow> n = 1))"

definition is_unspecified :: "ip \<Rightarrow> bool" where
  "is_unspecified a =
     (case a of IPv4 n \<Rightarrow> n = 0
      | IPv6 n _ \<Rightarrow> (case ipv4_mapped n of Some m \<Rightarrow> m = 0 | None \<Rightarrow> n = 0))"

subsection \<open>Dotted IPv4 texts\<close>

lemma digits_of_10_no_leading_zero: "0 < n \<Longrightarrow> hd (digits_of 10 n) \<noteq> CHR ''0''"
proof (induction "10::nat" n rule: digits_of.induct)
  case (1 n)
  show ?case
  proof (cases "n < 10")
    case True
    then have "code (digit_char n) = 48 + n" by (simp add: digit_char_def code_def)
    with True "1.prems" show ?thesis
      by (subst digits_of.simps) (auto simp: code_def dest: arg_cong [where f = code])
  next
    case False
    with 1 show ?thesis by (subst digits_of.simps) simp
  qed
qed

lemma digit_char_0 [simp]: "digit_char 0 = CHR ''0''"
  by code_simp

lemma digits_of_10_zero [simp]: "digits_of 10 0 = ''0''"
  by (subst digits_of.simps) simp

lemma dot_not_in_digits: "CHR ''.'' \<notin> set (digits_of 10 n)"
  using digits_of_10_digits [of "CHR ''.''" n] by (auto simp: is_digit_def code_def)

lemma bytes_value_4: "bytes_value [a, b, c, d] = ((a * 256 + b) * 256 + c) * 256 + d"
  by (simp add: bytes_value_def)

lemma bytes_of_value:
  fixes n :: nat
  assumes n: "n < 2 ^ 32"
  shows "bytes_value [n div 256 ^ 3 mod 256, n div 256 ^ 2 mod 256, n div 256 mod 256, n mod 256] = n"
proof -
  define a where "a = n div 256"
  define b where "b = a div 256"
  define c where "c = b div 256"
  have b: "n div 256 ^ 2 = b" unfolding a_def b_def by (simp add: div_mult2_eq [symmetric])
  have c: "n div 256 ^ 3 = c" unfolding a_def b_def c_def by (simp add: div_mult2_eq [symmetric])
  have "c < 256" using n unfolding c [symmetric] by (simp add: less_mult_imp_div_less)
  then have "c mod 256 = c" by simp
  moreover have "c * 256 + b mod 256 = b" unfolding c_def by (rule div_mult_mod_eq)
  moreover have "b * 256 + a mod 256 = a" unfolding b_def by (rule div_mult_mod_eq)
  moreover have "a * 256 + n mod 256 = n" unfolding a_def by (rule div_mult_mod_eq)
  ultimately show ?thesis by (simp only: bytes_value_4 b c a_def [symmetric])
qed

lemma split_show_ipv4:
  "split_on (CHR ''.'') (show_ipv4 n) = map (digits_of 10)
     [n div 256 ^ 3 mod 256, n div 256 ^ 2 mod 256, n div 256 mod 256, n mod 256]"
  unfolding show_ipv4_def by (rule split_on_join) (auto simp: dot_not_in_digits)

end
