(* ===== verification/Py_Url.thy ===== *)
theory Py_Url
  imports Py_Ip
begin

section \<open>The standard library's URL splitting\<close>

text \<open>
  \<open>urllib.parse.urlsplit\<close> as the program calls it (no default scheme, fragments allowed), the
  \<open>hostname\<close> and \<open>port\<close> of its result, and \<open>unquote\<close>. \<open>None\<close> stands for the \<open>ValueError\<close>
  of a bad bracketed host or port. \<open>unquote\<close> decodes escapes of ASCII bytes; an escape of a
  byte from 80 on belongs to a UTF-8 sequence and stays as written, outside the model's texts.
\<close>

record split_url =
  url_scheme :: string
  url_netloc :: string
  url_path :: string
  url_query :: string

definition is_scheme_char :: "char \<Rightarrow> bool" where
  "is_scheme_char c \<longleftrightarrow> is_letter c \<or> is_digit c \<or> c \<in> {CHR ''+'', CHR ''-'', CHR ''.''}"

definition bracketed_host_ok :: "string \<Rightarrow> bool" where
  "bracketed_host_ok hostname =
     (if starts_with ''v'' hostname
      then (case partition_on (CHR ''.'') (tl hostname) of (version, dot, rest) \<Rightarrow>
              dot \<and> version \<noteq> [] \<and> list_all is_hex_digit version \<and> rest \<noteq> []
              \<and> CHR 0x0A \<notin> set rest)
      else (case ip_address hostname of Some (IPv6 _ _) \<Rightarrow> True | _ \<Rightarrow> False))"

definition bracketed_netloc_ok :: "string \<Rightarrow> bool" where
  "bracketed_netloc_ok netloc =
     (case rpartition_on (CHR ''@'') netloc of (_, _, hostport) \<Rightarrow>
      (case partition_on (CHR ''['') hostport of (lead, have_open, bracketed) \<Rightarrow>
        if have_open
        then (case partition_on (CHR '']'') bracketed of (hostname, _, port) \<Rightarrow>
                lead = [] \<and> (port = [] \<or> starts_with '':'' port) \<and> bracketed_host_ok hostname)
        else (case partition_on (CHR '':'') hostport of (hostname, _, _) \<Rightarrow> bracketed_host_ok hostname)))"

definition urlsplit :: "string \<Rightarrow> split_url option" where
  "urlsplit url0 =
     (let url1 = dropWhile (\<lambda>c. code c \<le> 32) url0;
          url2 = filter (\<lambda>c. c \<notin> {CHR 0x09, CHR 0x0D, CHR 0x0A}) url1;
          (lead, colon, after) = partition_on (CHR '':'') url2;
          has_scheme = colon \<and> lead \<noteq> [] \<and> is_letter (hd lead) \<and> list_all is_scheme_char lead;
          scheme = (if has_scheme then lower lead else []);
          url3 = (if has_scheme then after else url2);
          has_netloc = starts_with ''//'' url3;
          is_delim = (\<lambda>c. c \<in> {CHR ''/'', CHR ''?'', CHR ''#''});
          netloc = (if has_netloc then takeWhile (\<lambda>c. \<not> is_delim c) (drop 2 url3) else []);
          url4 = (if has_netloc then dropWhile (\<lambda>c. \<not> is_delim c) (drop 2 url3) else url3);
          opens = CHR ''['' \<in> set netloc; closes = CHR '']'' \<in> set netloc in
      if opens \<noteq> closes then None
      else if opens \<and> \<not> bracketed_netloc_ok netloc then None
      else (let url5 = takeWhile (\<lambda>c. c \<noteq> CHR ''#'') url4 in
        case partition_on (CHR ''?'') url5 of (path, _, query) \<Rightarrow>
          Some \<lparr>url_scheme = scheme, url_netloc = netloc, url_path = path, url_query = query\<rparr>))"

text \<open>\<open>_hostinfo\<close>: the host and port texts of a netloc.\<close>

definition host_info :: "string \<Rightarrow> string \<times> string option" where
  "host_info netloc =
     (case rpartition_on (CHR ''@'') netloc of (_, _, hostinfo) \<Rightarrow>
      (case partition_on (CHR ''['') hostinfo of (_, have_open, bracketed) \<Rightarrow>
        if have_open
        then (case partition_on (CHR '']'') bracketed of (hostname, _, rest) \<Rightarrow>
              (case partition_on (CHR '':'') rest of (_, _, port) \<Rightarrow>
                (hostname, if port = [] then None else Some port)))
        else (case partition_on (CHR '':'') hostinfo of (hostname, _, port) \<Rightarrow>
                (hostname, if port = [] then None else Some port))))"

text \<open>\<open>hostname\<close>: lower case up to a zone id; no host is the empty text here and \<open>None\<close> there.\<close>

definition url_hostname :: "split_url \<Rightarrow> string" where
  "url_hostname u =
     (case partition_on (CHR ''%'') (fst (host_info (url_netloc u))) of (name, percent, zone) \<Rightarrow>
       lower name @ (if percent then CHR ''%'' # zone else []))"

text \<open>\<open>port\<close>: \<open>Some None\<close> without one, \<open>None\<close> for the \<open>ValueError\<close>.\<close>

definition url_port :: "split_url \<Rightarrow> nat option option" where
  "url_port u =
     (case snd (host_info (url_netloc u)) of None \<Rightarrow> Some None
      | Some port \<Rightarrow>
          if list_all is_digit port \<and> int_of_digits 10 port \<le> 65535
          then Some (Some (int_of_digits 10 port)) else None)"

fun unquote :: "string \<Rightarrow> string" where
  "unquote [] = []"
| "unquote [a] = [a]"
| "unquote [a, b] = [a, b]"
| "unquote (a # b # c # rest) =
     (if a = CHR ''%'' \<and> is_hex_digit b \<and> is_hex_digit c \<and> int_of_digits 16 [b, c] < 128
      then char_of (int_of_digits 16 [b, c]) # unquote rest
      else a # unquote (b # c # rest))"

end
