(* ===== verification/Paths.thy ===== *)
theory Paths
  imports Py_Url
begin

section \<open>Path normalization\<close>

text \<open>
  The path half of \<open>core/permissions/_paths.py\<close>: \<open>LexicalPath\<close>, \<open>split_lexical\<close>,
  \<open>join_lexical\<close>, \<open>normalize_access_path\<close> and their helpers. A path is compared in its lexical
  form (nothing followed) and its resolved form (\<open>os.path.realpath\<close>). The operating system is a
  parameter: the record \<open>host\<close> holds \<open>os.path.realpath\<close>, \<open>os.path.lexists\<close> and
  \<open>GetLongPathNameW\<close>. \<open>None\<close> is the \<open>ValueError\<close> of \<open>urlsplit\<close> on a malformed \<open>file:\<close> URL.
\<close>

datatype unsafe_form = NetworkPath | DevicePath | AlternateDataStream | DriveRelativePath

record lexical_path =
  root :: string
  segments :: "string list"
  unsafe :: "unsafe_form option"

record normalized_path =
  np_lexical :: string
  np_resolved :: string
  np_unsafe :: "unsafe_form option"

record host =
  realpath :: "string \<Rightarrow> string"
  lexists :: "string \<Rightarrow> bool"
  long_path_name :: "string \<Rightarrow> string option"

definition absolute :: "lexical_path \<Rightarrow> bool" where
  "absolute p \<longleftrightarrow> root p \<noteq> []"

definition path_text :: "lexical_path \<Rightarrow> string" where
  "path_text p =
     (if root p = []
      then (if join ''/'' (segments p) = [] then ''.'' else join ''/'' (segments p))
      else root p @ join ''/'' (segments p))"

definition path_key :: "bool \<Rightarrow> string \<Rightarrow> string" where
  "path_key windows t = (if windows then casefold t else t)"

definition is_inside :: "string \<Rightarrow> string \<Rightarrow> bool" where
  "is_inside key folder_key =
     (if key = folder_key then True
      else (let prefix = (if ends_with ''/'' folder_key then folder_key else folder_key @ ''/'') in
            starts_with prefix key))"

definition has_wildcard :: "string \<Rightarrow> bool" where
  "has_wildcard t \<longleftrightarrow> list_ex (\<lambda>c. c = CHR ''*'' \<or> c = CHR ''?'') t"

subsection \<open>Roots and segments\<close>

text \<open>One step of the loop of \<open>_normalize_segments\<close>, over the segments kept so far.\<close>

definition normalize_step :: "bool \<Rightarrow> bool \<Rightarrow> string list \<Rightarrow> string \<Rightarrow> string list" where
  "normalize_step windows anchored kept segment0 =
     (let segment = (if windows \<and> segment0 \<noteq> ''.'' \<and> segment0 \<noteq> ''..''
                     then rdrop_while (\<lambda>c. c = CHR '' '' \<or> c = CHR ''.'') segment0 else segment0) in
      if segment = [] \<or> segment = ''.'' then kept
      else if segment = ''..''
      then (if kept \<noteq> [] \<and> last kept \<noteq> ''..'' then butlast kept
            else if \<not> anchored then kept @ [segment] else kept)
      else kept @ [segment])"

definition normalize_segments :: "bool \<Rightarrow> bool \<Rightarrow> string list \<Rightarrow> string list" where
  "normalize_segments windows anchored raw = foldl (normalize_step windows anchored) [] raw"

definition server_share :: "string \<Rightarrow> string \<times> string \<times> string" where
  "server_share t =
     (let parts = split_max (CHR ''/'') 2 (lstrip_char (CHR ''/'') t) in
      (parts ! 0,
       if 1 < length parts then parts ! 1 else [],
       if 2 < length parts then parts ! 2 else []))"

definition network_root :: "string \<Rightarrow> string \<times> string \<times> unsafe_form option" where
  "network_root t =
     (case server_share t of (server, share, rest) \<Rightarrow>
       (''//'' @ server @ ''/'' @ share @ ''/'', rest, Some NetworkPath))"

text \<open>\<open>[A-Za-z]:\<close> at the start.\<close>

definition has_drive :: "string \<Rightarrow> bool" where
  "has_drive t \<longleftrightarrow> (case t of a # b # _ \<Rightarrow> is_letter a \<and> b = CHR '':'' | _ \<Rightarrow> False)"

text \<open>\<open>[A-Za-z]:(/|$)\<close>; \<open>$\<close> also matches before a closing newline.\<close>

definition has_drive_root :: "string \<Rightarrow> bool" where
  "has_drive_root t \<longleftrightarrow>
     has_drive t \<and> (let rest = drop 2 t in rest = [] \<or> rest = [CHR 0x0A] \<or> starts_with ''/'' rest)"

text \<open>The end of \<open>_windows_root\<close>, after the device and network forms.\<close>

definition drive_root :: "string \<Rightarrow> string \<times> string \<times> unsafe_form option" where
  "drive_root t =
     (if has_drive t
      then (let rest = drop 2 t; r = [upper_char_ascii (hd t)] @ '':/'' in
            if starts_with ''/'' rest then (r, rest, None) else (r, rest, Some DriveRelativePath))
      else if starts_with ''/'' t then (''/'', t, None)
      else ([], t, None))"

definition windows_root :: "string \<Rightarrow> string \<times> string \<times> unsafe_form option" where
  "windows_root t =
     (if starts_with ''//?/'' t \<or> starts_with ''//./'' t
      then (let rest = drop 4 t in
            if t ! 2 = CHR ''?'' \<and> has_drive_root rest then drive_root rest
            else if t ! 2 = CHR ''?'' \<and> lower (take 4 rest) = ''unc/'' then network_root (drop 4 rest)
            else (''//./'', rest, Some DevicePath))
      else if starts_with ''/??/'' t then (''//./'', drop 4 t, Some DevicePath)
      else if starts_with ''//'' t then network_root (drop 2 t)
      else drive_root t)"

definition file_url_path :: "bool \<Rightarrow> string \<Rightarrow> (string \<times> unsafe_form option) option" where
  "file_url_path windows t =
     (case urlsplit t of None \<Rightarrow> None
      | Some parts \<Rightarrow>
          (let netloc = url_netloc parts; path0 = unquote (url_path parts);
               path = (if windows \<and> starts_with ''/'' path0 \<and> has_drive (drop 1 path0)
                       then drop 1 path0 else path0) in
           if netloc \<noteq> [] \<and> lower netloc \<noteq> ''localhost''
           then Some (''//'' @ netloc @ path, Some NetworkPath)
           else Some (path, None)))"

definition split_root :: "bool \<Rightarrow> string \<Rightarrow> string \<times> string \<times> unsafe_form option" where
  "split_root windows t =
     (if windows then windows_root (replace_char (CHR 0x5C) (CHR ''/'') t)
      else (if starts_with ''/'' t then ''/'' else [], t, None))"

definition split_text :: "bool \<Rightarrow> string \<Rightarrow> unsafe_form option \<Rightarrow> lexical_path" where
  "split_text windows t unsafe0 =
     (case split_root windows t of (r, rest, form) \<Rightarrow>
       (let unsafe1 = (case unsafe0 of Some u \<Rightarrow> Some u | None \<Rightarrow> form);
            unsafe2 = (if windows \<and> unsafe1 = None \<and> CHR '':'' \<in> set rest
                       then Some AlternateDataStream else unsafe1) in
        \<lparr>root = r, segments = normalize_segments windows (r \<noteq> []) (split_on (CHR ''/'') rest),
         unsafe = unsafe2\<rparr>))"

definition split_lexical :: "bool \<Rightarrow> string \<Rightarrow> lexical_path option" where
  "split_lexical windows t =
     (if lower (take 5 t) = ''file:''
      then (case file_url_path windows t of None \<Rightarrow> None
            | Some (path, form) \<Rightarrow> Some (split_text windows path form))
      else Some (split_text windows t None))"

definition join_lexical :: "lexical_path \<Rightarrow> lexical_path \<Rightarrow> lexical_path" where
  "join_lexical base path =
     (let un = (case unsafe path of Some u \<Rightarrow> Some u | None \<Rightarrow> unsafe base) in
      if root path = ''/'' \<and> has_drive (root base)
      then \<lparr>root = root base, segments = normalize_segments False True (segments path), unsafe = un\<rparr>
      else if absolute path then path
      else \<lparr>root = root base,
            segments = normalize_segments False True (segments base @ segments path), unsafe = un\<rparr>)"

definition lexical_text :: "bool \<Rightarrow> string \<Rightarrow> string option" where
  "lexical_text windows t = map_option path_text (split_lexical windows t)"

definition literal_prefix :: "lexical_path \<Rightarrow> lexical_path" where
  "literal_prefix p = p\<lparr>segments := takeWhile (\<lambda>s. \<not> has_wildcard s) (segments p)\<rparr>"

subsection \<open>Resolution\<close>

definition resolve_text :: "host \<Rightarrow> bool \<Rightarrow> string \<Rightarrow> string option" where
  "resolve_text h windows t = lexical_text windows (realpath h t)"

text \<open>The loop of \<open>_expand_short_names\<close>, from the longest prefix down; \<open>n\<close> is its \<open>end\<close>.\<close>

fun expand_short_loop :: "host \<Rightarrow> lexical_path \<Rightarrow> nat \<Rightarrow> lexical_path option" where
  "expand_short_loop h p 0 = Some p"
| "expand_short_loop h p (Suc n) =
     (let front = take (Suc n) (segments p) in
      if \<not> list_ex (\<lambda>s. CHR ''~'' \<in> set s) front then Some p
      else (case long_path_name h (root p @ join ''/'' front) of
              None \<Rightarrow> expand_short_loop h p n
            | Some expanded \<Rightarrow>
                (case split_lexical True expanded of None \<Rightarrow> None
                 | Some head \<Rightarrow>
                     if casefold (root head) \<noteq> casefold (root p) \<or> unsafe head \<noteq> None then Some p
                     else Some \<lparr>root = root p, segments = segments head @ drop (Suc n) (segments p),
                                unsafe = None\<rparr>)))"

definition expand_short_names :: "host \<Rightarrow> lexical_path \<Rightarrow> lexical_path option" where
  "expand_short_names h p =
     (if \<not> list_ex (\<lambda>s. CHR ''~'' \<in> set s) (segments p) then Some p
      else expand_short_loop h p (length (segments p)))"

definition expand_home :: "bool \<Rightarrow> string \<Rightarrow> string \<Rightarrow> string" where
  "expand_home windows home t =
     (if t = ''~'' \<or> starts_with ''~/'' t \<or> (windows \<and> starts_with [CHR ''~'', CHR 0x5C] t)
      then home @ drop 1 t else t)"

text \<open>What \<open>normalize_access_path\<close> hands to \<open>realpath\<close>, and the lexical path it reports.\<close>

definition resolution_input ::
  "host \<Rightarrow> bool \<Rightarrow> string \<Rightarrow> string \<Rightarrow> lexical_path \<Rightarrow> (lexical_path \<times> string) option" where
  "resolution_input h windows base t lexical =
     (if windows
      then map_option (\<lambda>p. (p, path_text p)) (expand_short_names h lexical)
      else if lower (take 5 t) = ''file:'' then Some (lexical, path_text lexical)
      else Some (lexical, if starts_with ''/'' t then t
                          else rstrip_char (CHR ''/'') base @ ''/'' @ t))"

definition normalize_access_path ::
  "host \<Rightarrow> bool \<Rightarrow> string \<Rightarrow> string \<Rightarrow> bool \<Rightarrow> string \<Rightarrow> normalized_path option" where
  "normalize_access_path h windows base home follow_missing path =
     (if CHR 0x00 \<in> set path
      then Some \<lparr>np_lexical = path, np_resolved = path, np_unsafe = Some DevicePath\<rparr>
      else (let t = expand_home windows home path in
        Option.bind (split_lexical windows base) (\<lambda>base_path.
        Option.bind (split_lexical windows t) (\<lambda>split_path.
        let lexical = join_lexical base_path split_path in
        if unsafe lexical \<noteq> None
        then Some \<lparr>np_lexical = path_text lexical, np_resolved = path_text lexical,
                   np_unsafe = unsafe lexical\<rparr>
        else Option.bind (resolution_input h windows base t lexical) (\<lambda>(lexical', input).
          if \<not> follow_missing \<and> \<not> lexists h input
          then Some \<lparr>np_lexical = path_text lexical', np_resolved = path_text lexical',
                     np_unsafe = None\<rparr>
          else map_option (\<lambda>resolved. \<lparr>np_lexical = path_text lexical', np_resolved = resolved,
                                       np_unsafe = None\<rparr>)
                 (resolve_text h windows input))))))"

lemmas path_definitions [path_defs] =
  absolute_def path_text_def path_key_def split_root_def split_text_def split_lexical_def
  windows_root_def drive_root_def network_root_def server_share_def has_drive_def
  has_drive_root_def file_url_path_def normalize_segments_def normalize_step_def
  join_lexical_def lexical_text_def

end
