(* ===== verification/Path_Facts.thy ===== *)
theory Path_Facts
  imports Paths
begin

section \<open>Canonical paths\<close>

text \<open>
  What \<open>split_lexical\<close> and \<open>join_lexical\<close> promise: their segments are clean (no empty, \<open>.\<close> or
  \<open>..\<close> segment under an absolute root), the text of a canonical path splits back into that path,
  and being inside a folder, a comparison of texts, is the prefix order on segments.
\<close>

subsection \<open>Clean segments\<close>

definition clean_segment :: "bool \<Rightarrow> string \<Rightarrow> bool" where
  "clean_segment w s \<longleftrightarrow>
     s \<noteq> [] \<and> s \<noteq> ''.'' \<and> s \<noteq> ''..'' \<and> CHR ''/'' \<notin> set s \<and>
     (w \<longrightarrow> last s \<noteq> CHR '' '' \<and> last s \<noteq> CHR ''.'')"

definition clean :: "bool \<Rightarrow> string list \<Rightarrow> bool" where
  "clean w ss \<longleftrightarrow> list_all (clean_segment w) ss"

lemma clean_simps [simp]:
  "clean w []"
  "clean w (s # ss) \<longleftrightarrow> clean_segment w s \<and> clean w ss"
  "clean w (ss @ ts) \<longleftrightarrow> clean w ss \<and> clean w ts"
  by (auto simp: clean_def)

lemma clean_butlast [intro]: "clean w ss \<Longrightarrow> clean w (butlast ss)"
  by (cases ss rule: rev_cases) auto

lemma clean_take [intro]: "clean w ss \<Longrightarrow> clean w (take n ss)"
  by (auto simp: clean_def list_all_iff dest: in_set_takeD)

lemma clean_posix: "clean w ss \<Longrightarrow> clean False ss"
  by (auto simp: clean_def clean_segment_def list_all_iff)

lemma clean_slash_free: "clean w ss \<Longrightarrow> s \<in> set ss \<Longrightarrow> CHR ''/'' \<notin> set s"
  by (auto simp: clean_def clean_segment_def list_all_iff)

lemma clean_no_dots: "clean w ss \<Longrightarrow> [] \<notin> set ss \<and> ''.'' \<notin> set ss \<and> ''..'' \<notin> set ss"
  by (auto simp: clean_def clean_segment_def list_all_iff)

lemma normalize_step_clean [intro]:
  assumes "clean w kept" "CHR ''/'' \<notin> set s"
  shows "clean w (normalize_step w True kept s)"
proof (cases "w \<and> s \<noteq> ''.'' \<and> s \<noteq> ''..''")
  case True
  let ?P = "\<lambda>c. c = CHR '' '' \<or> c = CHR ''.''"
  let ?s = "rdrop_while ?P s"
  have "?s = [] \<or> clean_segment w ?s"
  proof (cases "?s = []")
    case False
    have l: "\<not> ?P (last ?s)" by (rule rdrop_while_last [OF False])
    moreover have "CHR ''/'' \<notin> set ?s" using assms(2) by (auto dest: set_rdrop_while)
    moreover have "?s \<noteq> ''.''" "?s \<noteq> ''..''" using l by auto
    ultimately show ?thesis using False by (auto simp: clean_segment_def)
  qed simp
  moreover have "?s = ''..'' \<Longrightarrow> False" "?s = ''.'' \<Longrightarrow> False"
    using rdrop_while_last [of ?P s] by auto
  ultimately show ?thesis using True assms(1) by (auto simp: normalize_step_def Let_def)
next
  case False
  then show ?thesis using assms
    by (auto simp: normalize_step_def clean_segment_def)
qed

lemma normalize_step_id [simp]:
  assumes "clean_segment w s" shows "normalize_step w a kept s = kept @ [s]"
proof (cases w)
  case True
  with assms have "rdrop_while (\<lambda>c. c = CHR '' '' \<or> c = CHR ''.'') s = s"
    by (auto simp: clean_segment_def intro!: rdrop_while_id)
  with assms True show ?thesis by (auto simp: normalize_step_def clean_segment_def)
next
  case False
  with assms show ?thesis by (auto simp: normalize_step_def clean_segment_def)
qed

lemma foldl_normalize_clean:
  "clean w kept \<Longrightarrow> (\<forall>s \<in> set raw. CHR ''/'' \<notin> set s) \<Longrightarrow>
     clean w (foldl (normalize_step w True) kept raw)"
  by (induction raw arbitrary: kept) auto

lemma normalize_segments_clean:
  "(\<forall>s \<in> set raw. CHR ''/'' \<notin> set s) \<Longrightarrow> clean w (normalize_segments w True raw)"
  by (simp add: normalize_segments_def foldl_normalize_clean)

lemma foldl_normalize_id: "clean w ss \<Longrightarrow> foldl (normalize_step w a) kept ss = kept @ ss"
  by (induction ss arbitrary: kept) auto

lemma normalize_segments_id [simp]: "clean w ss \<Longrightarrow> normalize_segments w a ss = ss"
  by (simp add: normalize_segments_def foldl_normalize_id)

lemma normalize_segments_Nil_Cons [simp]:
  "normalize_segments w a ([] # ss) = normalize_segments w a ss"
  by (simp add: normalize_segments_def normalize_step_def)

text \<open>Climbing: with the kept segments clean, a run of \<open>..\<close> takes that many segments off the end
  and stays at the root.\<close>

lemma foldl_normalize_climb:
  "clean w kept \<Longrightarrow>
     foldl (normalize_step w True) kept (replicate n ''..'') = take (length kept - n) kept"
proof (induction n arbitrary: kept)
  case 0
  then show ?case by simp
next
  case (Suc n)
  have "normalize_step w True kept ''..'' = butlast kept"
    using Suc.prems by (cases kept rule: rev_cases)
      (auto simp: normalize_step_def clean_segment_def)
  moreover have "clean w (butlast kept)" using Suc.prems by auto
  ultimately show ?case using Suc.IH [of "butlast kept"]
    by (simp add: butlast_conv_take take_take min_def)
qed

subsection \<open>Canonical absolute paths\<close>

definition canonical_root :: "bool \<Rightarrow> string \<Rightarrow> bool" where
  "canonical_root w r \<longleftrightarrow>
     (if w then (\<exists>c. is_upper_ascii c \<and> r = c # '':/'') else r = ''/'')"

definition canonical :: "bool \<Rightarrow> lexical_path \<Rightarrow> bool" where
  "canonical w p \<longleftrightarrow>
     canonical_root w (root p) \<and> clean w (segments p) \<and> unsafe p = None \<and>
     (w \<longrightarrow> (\<forall>s \<in> set (segments p). CHR '':'' \<notin> set s \<and> CHR 0x5C \<notin> set s))"

lemma normalize_step_chars:
  assumes "s' \<in> set (normalize_step w a kept s)" "c \<in> set s'"
  shows "(\<exists>t \<in> set kept. c \<in> set t) \<or> c \<in> set s"
proof -
  let ?P = "\<lambda>c. c = CHR '' '' \<or> c = CHR ''.''"
  define t where "t = (if w \<and> s \<noteq> ''.'' \<and> s \<noteq> ''..'' then rdrop_while ?P s else s)"
  have "c \<in> set t \<Longrightarrow> c \<in> set s" for c
    by (auto simp: t_def dest: set_rdrop_while split: if_splits)
  moreover have "s' \<in> set kept \<or> s' = t"
    using assms(1) unfolding normalize_step_def t_def [symmetric] Let_def
    by (auto dest: in_set_butlastD split: if_splits)
  ultimately show ?thesis using assms(2) by auto
qed

lemma foldl_normalize_chars:
  "s' \<in> set (foldl (normalize_step w a) kept raw) \<Longrightarrow> c \<in> set s' \<Longrightarrow>
     (\<exists>t \<in> set kept. c \<in> set t) \<or> (\<exists>t \<in> set raw. c \<in> set t)"
proof (induction raw arbitrary: kept)
  case Nil
  then show ?case by auto
next
  case (Cons s raw)
  then show ?case using normalize_step_chars [of _ w a kept s c] by fastforce
qed

lemma normalize_segments_chars:
  "s \<in> set (normalize_segments w a raw) \<Longrightarrow> c \<in> set s \<Longrightarrow> \<exists>t \<in> set raw. c \<in> set t"
  using foldl_normalize_chars [of s w a "[]" raw c] by (auto simp: normalize_segments_def)

lemma split_on_chars: "w \<in> set (split_on c xs) \<Longrightarrow> x \<in> set w \<Longrightarrow> x \<in> set xs"
proof (induction xs arbitrary: w)
  case Nil
  then show ?case by simp
next
  case (Cons y xs)
  obtain v vs where "split_on c xs = v # vs"
    using split_on_not_Nil by (metis list.exhaust)
  with Cons.prems Cons.IH [of v] Cons.IH [of w] show ?case by (auto split: if_splits)
qed

lemma segment_chars:
  "s \<in> set (normalize_segments w a (split_on (CHR ''/'') t)) \<Longrightarrow> c \<in> set s \<Longrightarrow> c \<in> set t"
  using normalize_segments_chars split_on_chars by metis

lemma split_slash_free: "s \<in> set (split_on (CHR ''/'') t) \<Longrightarrow> CHR ''/'' \<notin> set s"
  by (rule split_on_free)

lemma normalize_split_clean [simp]:
  "clean w (normalize_segments w True (split_on (CHR ''/'') t))"
  by (rule normalize_segments_clean) (auto dest: split_slash_free)

lemma normalize_split_join [simp]:
  assumes "clean w ss"
  shows "normalize_segments w True (split_on (CHR ''/'') (join ''/'' ss)) = ss"
proof (cases "ss = []")
  case False
  then have "split_on (CHR ''/'') (join ''/'' ss) = ss"
    using assms by (intro split_on_join) (auto dest: clean_slash_free)
  then show ?thesis using assms by simp
qed (simp add: normalize_segments_def normalize_step_def)

lemma split_on_slash_Cons [simp]:
  "split_on (CHR ''/'') (CHR ''/'' # t) = [] # split_on (CHR ''/'') t"
  by simp

lemma join_chars: "c \<in> set (join ''/'' ss) \<Longrightarrow> c = CHR ''/'' \<or> (\<exists>s \<in> set ss. c \<in> set s)"
proof (induction ss)
  case Nil
  then show ?case by simp
next
  case (Cons s ss)
  then show ?case by (cases "ss = []") (auto simp: join_Cons)
qed

lemma replace_char_absent: "a \<notin> set s \<Longrightarrow> replace_char a b s = s"
  by (auto simp: replace_char_def intro: map_idI)

lemma replace_char_gone: "a \<noteq> b \<Longrightarrow> a \<notin> set (replace_char a b s)"
  by (auto simp: replace_char_def)

lemma upper_ascii_letter [simp]: "is_upper_ascii c \<Longrightarrow> is_letter c"
  by (simp add: is_letter_def)

lemma upper_ascii_id [simp]: "is_upper_ascii c \<Longrightarrow> upper_char_ascii c = c"
  by (simp add: upper_char_ascii_def is_upper_ascii_def is_lower_ascii_def)

lemma upper_ascii_not_slash [simp]: "is_upper_ascii c \<Longrightarrow> c \<noteq> CHR ''/''"
  by (auto simp: is_upper_ascii_def code_def)

lemma upper_char_upper [simp]: "is_letter c \<Longrightarrow> is_upper_ascii (upper_char_ascii c)"
  by (auto simp: upper_char_ascii_def is_letter_def is_upper_ascii_def is_lower_ascii_def code_def)

text \<open>The text of a canonical path is no \<open>file:\<close> URL and splits back into the path.\<close>

lemma lower_take_file_slash [simp]: "lower (CHR ''/'' # t) \<noteq> ''file:''"
  by (simp add: lower_def lower_char_def code_def)

lemma lower_take_file_drive [simp]: "lower (c # CHR '':'' # t) \<noteq> ''file:''"
  by (simp add: lower_def lower_char_def code_def)

lemma drive_root_drive [simp]:
  "is_upper_ascii c \<Longrightarrow>
     drive_root (c # CHR '':'' # CHR ''/'' # t) = (c # '':/'', CHR ''/'' # t, None)"
  by (simp add: drive_root_def has_drive_def)

lemma windows_root_drive [simp]:
  "is_upper_ascii c \<Longrightarrow>
     windows_root (c # CHR '':'' # CHR ''/'' # t) = (c # '':/'', CHR ''/'' # t, None)"
  by (simp add: windows_root_def)

lemma split_lexical_canonical_text:
  assumes "canonical w p" shows "split_lexical w (path_text p) = Some p"
proof (cases w)
  case False
  with assms have p: "root p = ''/''" "clean False (segments p)" "unsafe p = None"
    by (auto simp: canonical_def canonical_root_def)
  then have t: "path_text p = CHR ''/'' # join ''/'' (segments p)"
    by (simp add: path_text_def)
  show ?thesis unfolding t using p False
    by (cases p) (simp add: split_lexical_def split_text_def split_root_def)
next
  case True
  with assms obtain c where c: "is_upper_ascii c" "root p = c # '':/''"
    and p: "clean True (segments p)" "unsafe p = None"
      "\<forall>s \<in> set (segments p). CHR '':'' \<notin> set s \<and> CHR 0x5C \<notin> set s"
    by (auto simp: canonical_def canonical_root_def)
  let ?j = "join ''/'' (segments p)"
  have t: "path_text p = c # CHR '':'' # CHR ''/'' # ?j"
    using c by (simp add: path_text_def)
  have j: "CHR '':'' \<notin> set ?j" "CHR 0x5C \<notin> set ?j"
    using p(3) by (auto dest: join_chars)
  have "replace_char (CHR 0x5C) (CHR ''/'') (path_text p) = path_text p"
    using j c(1) by (intro replace_char_absent) (auto simp: t is_upper_ascii_def code_def)
  then show ?thesis unfolding t using p c j True
    by (cases p) (simp add: split_lexical_def split_text_def split_root_def)
qed

text \<open>Every safe absolute path that \<open>split_lexical\<close> returns is canonical, except a Windows path
  rooted without a drive, which \<open>join_lexical\<close> moves to the base's drive.\<close>

definition driveless :: "bool \<Rightarrow> lexical_path \<Rightarrow> bool" where
  "driveless w p \<longleftrightarrow> w \<and> root p = ''/''"

lemma drive_root_cases:
  "drive_root t = (r, rest, form) \<Longrightarrow>
     form = Some DriveRelativePath \<or>
     (form = None \<and> (\<exists>c. is_upper_ascii c \<and> r = c # '':/'') \<and> set rest \<subseteq> set t) \<or>
     (form = None \<and> r = ''/'' \<and> rest = t) \<or> (form = None \<and> r = [] \<and> rest = t)"
  by (auto simp: drive_root_def has_drive_def Let_def split: if_splits list.splits
      dest: in_set_dropD)

lemma windows_root_cases:
  assumes "windows_root t = (r, rest, None)"
  shows "(\<exists>c. is_upper_ascii c \<and> r = c # '':/'') \<or> r = ''/'' \<or> r = []"
    and "set rest \<subseteq> set t"
proof -
  obtain u where u: "drive_root u = (r, rest, None)" "set u \<subseteq> set t"
    using assms set_drop_subset [of 4 t]
    by (auto simp: windows_root_def network_root_def Let_def split: if_splits prod.splits)
  then show "(\<exists>c. is_upper_ascii c \<and> r = c # '':/'') \<or> r = ''/'' \<or> r = []" "set rest \<subseteq> set t"
    using drive_root_cases [OF u(1)] by auto
qed

lemma split_text_canonical:
  assumes "unsafe (split_text w t form) = None" "absolute (split_text w t form)"
    "\<not> driveless w (split_text w t form)"
  shows "canonical w (split_text w t form)"
proof (cases w)
  case False
  with assms show ?thesis
    by (auto simp: split_text_def split_root_def canonical_def canonical_root_def absolute_def
        split: option.splits if_splits)
next
  case True
  let ?t = "replace_char (CHR 0x5C) (CHR ''/'') t"
  obtain r rest f where w: "windows_root ?t = (r, rest, f)" by (metis prod_cases3)
  have f: "f = None" "form = None" "CHR '':'' \<notin> set rest"
    using assms(1) True w by (auto simp: split_text_def split_root_def Let_def
        split: option.splits if_splits)
  have "CHR 0x5C \<notin> set rest"
    using windows_root_cases(2) [OF w [unfolded f]] replace_char_gone [of "CHR 0x5C" "CHR ''/''" t]
    by auto
  moreover have "\<exists>c. is_upper_ascii c \<and> r = c # '':/''"
    using windows_root_cases(1) [OF w [unfolded f]] assms(2,3) True w
    by (auto simp: split_text_def split_root_def absolute_def driveless_def Let_def)
  ultimately show ?thesis using True w f
    by (auto simp: split_text_def split_root_def canonical_def canonical_root_def Let_def
        dest: segment_chars)
qed

lemma split_lexical_canonical:
  assumes "split_lexical w t = Some p" "unsafe p = None" "absolute p" "\<not> driveless w p"
  shows "canonical w p"
  using assms split_text_canonical
  by (fastforce simp: split_lexical_def split: if_splits option.splits prod.splits)

subsection \<open>Joining stays below the root\<close>

definition step_segment :: "bool \<Rightarrow> string \<Rightarrow> bool" where
  "step_segment w s \<longleftrightarrow>
     (s = ''..'' \<or> clean_segment w s) \<and> (w \<longrightarrow> CHR '':'' \<notin> set s \<and> CHR 0x5C \<notin> set s)"

lemma normalize_step_steps:
  assumes "\<forall>k \<in> set kept. k = ''..'' \<or> clean_segment w k" "CHR ''/'' \<notin> set s"
  shows "\<forall>k \<in> set (normalize_step w a kept s). k = ''..'' \<or> clean_segment w k"
proof -
  let ?P = "\<lambda>c. c = CHR '' '' \<or> c = CHR ''.''"
  define t where "t = (if w \<and> s \<noteq> ''.'' \<and> s \<noteq> ''..'' then rdrop_while ?P s else s)"
  have "t = [] \<or> t = ''.'' \<or> t = ''..'' \<or> clean_segment w t"
    using assms(2) rdrop_while_last [of ?P s]
    by (auto simp: t_def clean_segment_def dest: set_rdrop_while split: if_splits)
  then show ?thesis using assms(1) unfolding normalize_step_def t_def [symmetric] Let_def
    by (auto dest: in_set_butlastD split: if_splits)
qed

lemma normalize_segments_steps:
  assumes "\<forall>s \<in> set raw. CHR ''/'' \<notin> set s"
  shows "\<forall>s \<in> set (normalize_segments w a raw). s = ''..'' \<or> clean_segment w s"
proof -
  have "\<forall>k \<in> set kept. k = ''..'' \<or> clean_segment w k \<Longrightarrow>
      \<forall>k \<in> set (foldl (normalize_step w a) kept raw). k = ''..'' \<or> clean_segment w k" for kept
    using assms
  proof (induction raw arbitrary: kept)
    case Nil
    then show ?case by simp
  next
    case (Cons s raw)
    then show ?case using normalize_step_steps [of kept w s a] by simp
  qed
  from this [of "[]"] show ?thesis by (simp add: normalize_segments_def)
qed

lemma normalize_steps_clean:
  assumes "\<forall>s \<in> set raw. s = ''..'' \<or> clean_segment w s"
  shows "clean w (normalize_segments False True raw)"
proof -
  have "clean w kept \<Longrightarrow> clean w (foldl (normalize_step False True) kept raw)" for kept
    using assms
  proof (induction raw arbitrary: kept)
    case Nil
    then show ?case by simp
  next
    case (Cons s raw)
    have "clean w (normalize_step False True kept s)"
      using Cons.prems by (auto simp: normalize_step_def clean_segment_def)
    then show ?case using Cons by simp
  qed
  then show ?thesis by (simp add: normalize_segments_def)
qed

lemma split_text_steps:
  assumes "unsafe (split_text w t form) = None"
  shows "\<forall>s \<in> set (segments (split_text w t form)). step_segment w s"
proof -
  obtain r rest f where w: "split_root w t = (r, rest, f)" by (metis prod_cases3)
  have s: "segments (split_text w t form) = normalize_segments w (r \<noteq> []) (split_on (CHR ''/'') rest)"
    by (simp add: split_text_def w Let_def)
  have u: "unsafe (split_text w t form) =
      (let u = (case form of Some u \<Rightarrow> Some u | None \<Rightarrow> f) in
       if w \<and> u = None \<and> CHR '':'' \<in> set rest then Some AlternateDataStream else u)"
    by (simp add: split_text_def w Let_def)
  have "w \<Longrightarrow> CHR '':'' \<notin> set rest" and f: "f = None"
    using assms unfolding u Let_def by (auto split: option.splits if_splits)
  moreover have "w \<Longrightarrow> CHR 0x5C \<notin> set rest"
    using w f windows_root_cases(2) replace_char_gone [of "CHR 0x5C" "CHR ''/''" t]
    by (fastforce simp: split_root_def)
  ultimately show ?thesis
    using normalize_segments_steps [of "split_on (CHR ''/'') rest" w "r \<noteq> []"] split_slash_free
    unfolding s step_segment_def by (blast dest: segment_chars)
qed

lemma split_lexical_steps:
  assumes "split_lexical w t = Some p" "unsafe p = None" "s \<in> set (segments p)"
  shows "step_segment w s"
  using assms split_text_steps
  by (fastforce simp: split_lexical_def split: if_splits option.splits prod.splits)

lemma canonical_steps: "canonical w p \<Longrightarrow> s \<in> set (segments p) \<Longrightarrow> step_segment w s"
  by (auto simp: canonical_def step_segment_def clean_def list_all_iff)

lemma join_segments_canonical:
  assumes "canonical_root w r" "\<forall>s \<in> set raw. step_segment w s"
  shows "canonical w \<lparr>root = r, segments = normalize_segments False True raw, unsafe = None\<rparr>"
proof -
  have "clean w (normalize_segments False True raw)"
    using assms(2) by (intro normalize_steps_clean) (auto simp: step_segment_def)
  moreover have "c \<in> set s \<Longrightarrow> s \<in> set (normalize_segments False True raw) \<Longrightarrow>
      \<exists>t \<in> set raw. c \<in> set t" for c s
    using normalize_segments_chars by metis
  ultimately show ?thesis using assms by (fastforce simp: canonical_def step_segment_def)
qed

lemma join_lexical_canonical:
  assumes base: "canonical w base"
    and p: "split_lexical w t = Some p" "unsafe p = None"
  shows "canonical w (join_lexical base p)"
proof -
  have b: "unsafe base = None" "canonical_root w (root base)" "absolute base"
    using base by (auto simp: canonical_def canonical_root_def absolute_def split: if_splits)
  have steps: "\<forall>s \<in> set (segments p). step_segment w s" "\<forall>s \<in> set (segments base). step_segment w s"
    using split_lexical_steps [OF p] canonical_steps [OF base] by auto
  have drive: "root p = ''/'' \<Longrightarrow> w \<Longrightarrow> has_drive (root base)"
    using b(2) by (auto simp: canonical_root_def has_drive_def)
  show ?thesis
  proof (cases "absolute p \<and> \<not> (root p = ''/'' \<and> has_drive (root base))")
    case True
    then have "canonical w p"
      using split_lexical_canonical [OF p] drive by (auto simp: driveless_def)
    with True show ?thesis by (auto simp: join_lexical_def)
  next
    case False
    then show ?thesis using b p(2) steps join_segments_canonical [of w "root base" "segments p"]
        join_segments_canonical [of w "root base" "segments base @ segments p"]
      by (auto simp: join_lexical_def)
  qed
qed

subsection \<open>Inside a folder\<close>

lemma is_inside_segments:
  assumes "ends_with ''/'' r" "\<forall>s \<in> set ss \<union> set ts. CHR ''/'' \<notin> set s \<and> s \<noteq> []"
  shows "is_inside (r @ join ''/'' ss) (r @ join ''/'' ts) \<longleftrightarrow> prefix ts ss"
proof (cases "ts = []")
  case True
  then show ?thesis using assms(1) by (simp add: is_inside_def)
next
  case False
  let ?t = "join ''/'' ts"
  obtain us u where u: "ts = us @ [u]" using False by (cases ts rule: rev_cases) auto
  have uu: "u \<noteq> []" "CHR ''/'' \<notin> set u" using assms(2) u by auto
  have t: "\<exists>v. r @ ?t = v @ u" unfolding u by (cases "us = []") (auto simp: join_append)
  have no: "\<not> ends_with ''/'' (r @ ?t)"
    using t uu by (metis append_is_Nil_conv ends_with_iff last_appendR last_in_set last_snoc)
  have nn: "?t \<noteq> []" using assms(2) False by (auto simp: join_eq_Nil_iff)
  have spt: "split_on (CHR ''/'') ?t = ts"
    by (rule split_on_join) (use assms(2) False in blast)+
  have sps: "ss \<noteq> [] \<Longrightarrow> split_on (CHR ''/'') (join ''/'' ss) = ss"
    by (rule split_on_join) (use assms(2) in blast)+
  have eq: "?t = join ''/'' ss \<longleftrightarrow> ts = ss"
  proof
    assume a: "?t = join ''/'' ss"
    then have "ss \<noteq> []" using nn by (metis join.simps(1))
    then show "ts = ss" using spt sps by (metis a)
  qed simp
  have "starts_with (?t @ ''/'') (join ''/'' ss) \<longleftrightarrow> strict_prefix ts ss"
  proof
    assume "starts_with (?t @ ''/'') (join ''/'' ss)"
    then obtain x where x: "join ''/'' ss = ?t @ CHR ''/'' # x" by (auto simp: starts_with_iff)
    have "ss \<noteq> []" using x by (cases ss) auto
    then have "ss = ts @ split_on (CHR ''/'') x"
      using sps spt split_on_append [of "CHR ''/''" ?t x] by (metis x)
    then show "strict_prefix ts ss" by (auto simp: strict_prefix_def)
  next
    assume "strict_prefix ts ss"
    then obtain y ys where "ss = ts @ y # ys" by (auto elim: strict_prefixE')
    then show "starts_with (?t @ ''/'') (join ''/'' ss)"
      using False by (auto simp: join_append starts_with_iff)
  qed
  then have "starts_with (r @ ?t @ ''/'') (r @ join ''/'' ss) \<longleftrightarrow> strict_prefix ts ss"
    by (auto simp: starts_with_iff)
  with no eq show ?thesis by (auto simp: is_inside_def strict_prefix_def)
qed

lemma casefold_append [simp]: "casefold (s @ t) = casefold s @ casefold t"
  by (simp add: casefold_def)

lemma casefold_slash [simp]: "casefold (CHR ''/'' # t) = CHR ''/'' # casefold t"
  by (simp add: casefold_def lower_char_def code_def)

lemma casefold_Nil [simp]: "casefold [] = []"
  by (simp add: casefold_def)

lemma lower_char_slash: "lower_char c = CHR ''/'' \<Longrightarrow> c = CHR ''/''"
proof (rule ccontr)
  assume a: "lower_char c = CHR ''/''" "c \<noteq> CHR ''/''"
  then have "\<exists>n::nat. 65 \<le> n \<and> n \<le> 222 \<and> char_of (n + 32) = CHR ''/''"
    by (auto simp: lower_char_def Let_def split: if_splits intro!: exI [of _ "code c"])
  then obtain n :: nat where n: "65 \<le> n" "n \<le> 222" "char_of (n + 32) = CHR ''/''"
    by auto
  have "(n + 32) mod 256 = 47" using arg_cong [OF n(3), of "of_char :: char \<Rightarrow> nat"] by simp
  with n(1,2) show False by simp
qed

lemma casefold_slash_free: "CHR ''/'' \<in> set (casefold s) \<longleftrightarrow> CHR ''/'' \<in> set s"
proof
  assume "CHR ''/'' \<in> set (casefold s)"
  then show "CHR ''/'' \<in> set s"
    by (auto simp: casefold_def dest: lower_char_slash [OF sym] split: if_splits)
next
  assume "CHR ''/'' \<in> set s"
  then obtain a b where "s = a @ CHR ''/'' # b" by (auto dest: split_list)
  then show "CHR ''/'' \<in> set (casefold s)" by simp
qed

lemma casefold_eq_Nil [simp]: "casefold s = [] \<longleftrightarrow> s = []"
  by (cases s) (simp_all add: casefold_def)

lemma path_key_join:
  "path_key w (join ''/'' ss) = join ''/'' (map (path_key w) ss)"
proof (cases w)
  case True
  have "casefold (join ''/'' ss) = join ''/'' (map casefold ss)"
  proof (induction ss)
    case (Cons s ss)
    then show ?case by (cases "ss = []") (auto simp: join_Cons)
  qed simp
  then show ?thesis using True by (simp add: path_key_def [abs_def])
qed (simp add: path_key_def [abs_def])

lemma path_key_append: "path_key w (s @ t) = path_key w s @ path_key w t"
  by (simp add: path_key_def)

lemma path_key_clean:
  "clean w ss \<Longrightarrow> s \<in> set ss \<Longrightarrow> CHR ''/'' \<notin> set (path_key w s) \<and> path_key w s \<noteq> []"
  by (auto simp: path_key_def clean_def list_all_iff clean_segment_def casefold_slash_free)

lemma canonical_root_nonempty: "canonical w p \<Longrightarrow> root p \<noteq> []"
  by (auto simp: canonical_def canonical_root_def split: if_splits)

lemma canonical_root_slash: "canonical w p \<Longrightarrow> ends_with ''/'' (path_key w (root p))"
proof -
  assume "canonical w p"
  then have "\<exists>r. root p = r @ ''/''"
    by (auto simp: canonical_def canonical_root_def split: if_splits)
  then show ?thesis by (auto simp: path_key_append ends_with_iff) (auto simp: path_key_def)
qed

lemma canonical_key:
  "canonical w p \<Longrightarrow>
     path_key w (path_text p) = path_key w (root p) @ join ''/'' (map (path_key w) (segments p))"
  by (simp add: path_text_def canonical_root_nonempty path_key_append path_key_join)

lemma is_inside_canonical:
  assumes "canonical w p" "canonical w f" "path_key w (root p) = path_key w (root f)"
  shows "is_inside (path_key w (path_text p)) (path_key w (path_text f)) \<longleftrightarrow>
    prefix (map (path_key w) (segments f)) (map (path_key w) (segments p))"
  unfolding canonical_key [OF assms(1)] canonical_key [OF assms(2)] assms(3)
  using assms canonical_root_slash [OF assms(2)]
  by (intro is_inside_segments) (auto simp: canonical_def dest: path_key_clean)

end
