(* ===== verification/Globs.thy ===== *)
theory Globs
  imports Paths
begin

section \<open>Glob patterns\<close>

text \<open>
  The pattern half of \<open>core/permissions/_paths.py\<close>: \<open>compile_pattern\<close> with the matching of
  the regular expression it builds, \<open>patterns_below\<close>, \<open>spelled_like\<close>, \<open>reaches\<close>,
  \<open>_segments_meet\<close>, \<open>_segment_meets\<close> and \<open>pruned_away\<close>. The abstract specification is
  \<open>glob_match\<close>, the declarative meaning of a pattern with wildcards, used for the characters of
  one segment (\<open>seg_match\<close>) and for the segments of a path (\<open>segs_match\<close>).
\<close>

subsection \<open>The meaning of a wildcard pattern\<close>

fun glob_match :: "('p \<Rightarrow> bool) \<Rightarrow> ('p \<Rightarrow> 'a \<Rightarrow> bool) \<Rightarrow> 'p list \<Rightarrow> 'a list \<Rightarrow> bool" where
  "glob_match star one [] ws \<longleftrightarrow> ws = []"
| "glob_match star one (p # ps) [] \<longleftrightarrow> star p \<and> glob_match star one ps []"
| "glob_match star one (p # ps) (w # ws) \<longleftrightarrow>
     (if star p then glob_match star one ps (w # ws) \<or> glob_match star one (p # ps) ws
      else one p w \<and> glob_match star one ps ws)"

definition char_star :: "char \<Rightarrow> bool" where
  "char_star p \<longleftrightarrow> p = CHR ''*''"

definition char_one :: "char \<Rightarrow> char \<Rightarrow> bool" where
  "char_one p c \<longleftrightarrow> p = CHR ''?'' \<or> p = c"

definition seg_match :: "string \<Rightarrow> string \<Rightarrow> bool" where
  "seg_match p s \<longleftrightarrow> glob_match char_star char_one p s"

definition seg_star :: "string \<Rightarrow> bool" where
  "seg_star p \<longleftrightarrow> p = ''**''"

definition segs_match :: "string list \<Rightarrow> string list \<Rightarrow> bool" where
  "segs_match ps ws \<longleftrightarrow> glob_match seg_star seg_match ps ws"

subsection \<open>Compiled patterns\<close>

text \<open>
  The pieces of the regular expression: a literal character, \<open>[^/]*\<close>, \<open>[^/]\<close>,
  \<open>/(?:.*/)?\<close>, \<open>(?:/.*)?\<close> and \<open>.*\<close> (also written \<open>(?:.*)?\<close>). The expression is compiled
  without \<open>DOTALL\<close>, so \<open>.\<close> matches every character but a newline.
\<close>

datatype piece = Lit char | SegStar | SegChar | AnyDirs | Below | All

fun rx_match :: "piece list \<Rightarrow> string \<Rightarrow> bool" where
  "rx_match [] s \<longleftrightarrow> s = []"
| "rx_match (Lit c # ts) [] \<longleftrightarrow> False"
| "rx_match (Lit c # ts) (d # s) \<longleftrightarrow> c = d \<and> rx_match ts s"
| "rx_match (SegChar # ts) [] \<longleftrightarrow> False"
| "rx_match (SegChar # ts) (d # s) \<longleftrightarrow> d \<noteq> CHR ''/'' \<and> rx_match ts s"
| "rx_match (SegStar # ts) [] \<longleftrightarrow> rx_match ts []"
| "rx_match (SegStar # ts) (d # s) \<longleftrightarrow>
     rx_match ts (d # s) \<or> (d \<noteq> CHR ''/'' \<and> rx_match (SegStar # ts) s)"
| "rx_match (All # ts) [] \<longleftrightarrow> rx_match ts []"
| "rx_match (All # ts) (d # s) \<longleftrightarrow>
     rx_match ts (d # s) \<or> (d \<noteq> CHR 0x0A \<and> rx_match (All # ts) s)"
| "rx_match (Below # ts) [] \<longleftrightarrow> rx_match ts []"
| "rx_match (Below # ts) (d # s) \<longleftrightarrow>
     rx_match ts (d # s) \<or> (d = CHR ''/'' \<and> rx_match (All # ts) s)"
| "rx_match (AnyDirs # ts) [] \<longleftrightarrow> False"
| "rx_match (AnyDirs # ts) (d # s) \<longleftrightarrow>
     d = CHR ''/'' \<and> (rx_match ts s \<or> rx_match (All # Lit (CHR ''/'') # ts) s)"

text \<open>
  The loop of \<open>compile_pattern\<close> from one index on: the character before it, the text left, and
  the flag \<open>covers_below\<close>.
\<close>

function compile_loop :: "char option \<Rightarrow> string \<Rightarrow> bool \<Rightarrow> piece list \<times> bool" where
  "compile_loop prev text covers =
     (if text = [] then ([], covers)
      else if starts_with ''/**/'' text
      then (case compile_loop (Some (CHR ''/'')) (drop 4 text) covers of (ts, c) \<Rightarrow> (AnyDirs # ts, c))
      else if text = ''/**'' then ([Below], False)
      else if starts_with ''**'' text
      then (if (prev = None \<or> prev = Some (CHR ''/'')) \<and> (length text = 2 \<or> text ! 2 = CHR ''/'')
            then (case compile_loop (Some (CHR ''*'')) (drop 2 text) (length text \<noteq> 2) of
                    (ts, c) \<Rightarrow> (All # ts, c))
            else (case compile_loop (Some (CHR ''*'')) (drop 2 text) covers of
                    (ts, c) \<Rightarrow> (SegStar # ts, c)))
      else (case compile_loop (Some (hd text)) (tl text) covers of
              (ts, c) \<Rightarrow>
                (if hd text = CHR ''*'' then SegStar # ts
                 else if hd text = CHR ''?'' then SegChar # ts
                 else Lit (hd text) # ts, c)))"
  by pat_completeness auto
termination
  by (relation "measure (\<lambda>(prev, text, covers). length text)") (auto simp: starts_with_iff)

declare compile_loop.simps [simp del]

definition compile_pattern :: "string \<Rightarrow> piece list" where
  "compile_pattern pattern_key =
     (case compile_loop None pattern_key True of (ts, covers) \<Rightarrow>
       if covers then ts @ [if ends_with ''/'' pattern_key then All else Below] else ts)"

subsection \<open>Whether two patterns share a path\<close>

fun segment_meets :: "string \<Rightarrow> string \<Rightarrow> bool" where
  "segment_meets [] [] \<longleftrightarrow> True"
| "segment_meets (p # ps) [] \<longleftrightarrow> p = CHR ''*'' \<and> segment_meets ps []"
| "segment_meets [] (q # qs) \<longleftrightarrow> q = CHR ''*'' \<and> segment_meets [] qs"
| "segment_meets (p # ps) (q # qs) \<longleftrightarrow>
     (if p = CHR ''*'' \<and> segment_meets ps (q # qs) then True
      else if q = CHR ''*'' \<and> segment_meets (p # ps) qs then True
      else if p = CHR ''*'' then segment_meets (p # ps) qs
      else if q = CHR ''*'' then segment_meets ps (q # qs)
      else (p = q \<or> p = CHR ''?'' \<or> q = CHR ''?'') \<and> segment_meets ps qs)"

fun segments_meet :: "string list \<Rightarrow> string list \<Rightarrow> bool" where
  "segments_meet [] qs \<longleftrightarrow> list_all (\<lambda>s. s = ''**'') qs"
| "segments_meet (p # ps) [] \<longleftrightarrow> list_all (\<lambda>s. s = ''**'') (p # ps)"
| "segments_meet (p # ps) (q # qs) \<longleftrightarrow>
     (if p = ''**'' \<and> (segments_meet ps (q # qs) \<or> segments_meet (p # ps) qs) then True
      else if q = ''**'' \<and> (segments_meet (p # ps) qs \<or> segments_meet ps (q # qs)) then True
      else if p = ''**'' \<or> q = ''**'' then False
      else segment_meets p q \<and> segments_meet ps qs)"

text \<open>\<open>text.replace(""**"", ""*"")\<close>, left to right without overlap.\<close>

fun single_stars :: "string \<Rightarrow> string" where
  "single_stars [] = []"
| "single_stars [c] = [c]"
| "single_stars (c # d # s) =
     (if c = CHR ''*'' \<and> d = CHR ''*'' then CHR ''*'' # single_stars s
      else c # single_stars (d # s))"

definition segment :: "string \<Rightarrow> string" where
  "segment t = (if t = ''**'' then ''**'' else single_stars t)"

definition key_segments :: "string \<Rightarrow> string list" where
  "key_segments key = split_on (CHR ''/'') (rstrip_char (CHR ''/'') key)"

definition reaches :: "string \<Rightarrow> string list \<Rightarrow> string \<Rightarrow> bool" where
  "reaches folder_key reach pattern_key =
     segments_meet (map segment (key_segments folder_key @ reach))
       (map segment (key_segments pattern_key @ [''**'']))"

subsection \<open>What of a pattern lies below a folder\<close>

fun relative :: "string list \<Rightarrow> string list \<Rightarrow> string list" where
  "relative pattern [] = [if pattern = [] then ''**'' else join ''/'' pattern]"
| "relative [] (f # fs) = [''**'']"
| "relative (p # ps) (f # fs) =
     (if p = ''**''
      then join ''/'' (''**'' # ps) # concat (map (\<lambda>skip. relative ps (drop skip (f # fs))) [0..<length (f # fs)])
      else if rx_match (compile_pattern p) f then relative ps fs else [])"

text \<open>The set comprehension, as a list without repetitions.\<close>

definition patterns_below :: "string \<Rightarrow> string \<Rightarrow> string list" where
  "patterns_below pattern_key folder_key =
     remdups (map (remove_suffix ''/**'') (relative (key_segments pattern_key) (key_segments folder_key)))"

definition last_n :: "nat \<Rightarrow> 'a list \<Rightarrow> 'a list" where
  "last_n n xs = drop (length xs - n) xs"

definition spelled_like :: "string \<Rightarrow> string \<Rightarrow> string \<Rightarrow> string" where
  "spelled_like rel pattern_key written =
     (let tail = split_on (CHR ''/'') rel;
          core = split_on (CHR ''/'') (remove_suffix ''/**'' (rstrip_char (CHR ''/'') pattern_key));
          t = rstrip_char (CHR ''/'') (replace_char (CHR 0x5C) (CHR ''/'') written);
          segs = split_on (CHR ''/'') (remove_suffix ''/**'' t) in
      if rel = ''**'' \<or> last_n (length tail) core \<noteq> tail \<or> length segs < length tail then rel
      else (let spelled = join ''/'' (last_n (length tail) segs) in
            if ends_with ''/**'' t then spelled @ ''/**'' else spelled))"

definition has_double_star :: "string \<Rightarrow> bool" where
  "has_double_star s \<longleftrightarrow> list_ex (\<lambda>i. take 2 (drop i s) = ''**'') [0..<length s]"

fun pruned_loop :: "nat \<Rightarrow> string list \<Rightarrow> nat \<Rightarrow> string list \<Rightarrow> bool" where
  "pruned_loop depth pruned index [] = False"
| "pruned_loop depth pruned index (s # ss) =
     (if has_double_star s
      then (if index < depth then False else pruned_loop depth pruned (Suc index) ss)
      else if depth \<le> index \<and> \<not> has_wildcard s \<and> s \<in> set pruned then True
      else pruned_loop depth pruned (Suc index) ss)"

definition pruned_away :: "string \<Rightarrow> string \<Rightarrow> string list \<Rightarrow> bool" where
  "pruned_away pattern_key folder_key pruned =
     (if pruned = [] then False
      else pruned_loop (length (key_segments folder_key)) pruned 0 (key_segments pattern_key))"

end
