(* ===== verification/Glob_Facts.thy ===== *)
theory Glob_Facts
  imports Globs Path_Facts
begin

section \<open>What patterns match\<close>

text \<open>
  The locale \<open>wildcards\<close> states what a meet test over patterns with wildcards promises; its one
  theorem is that the test is exact: it holds iff some word matches both patterns. It is
  interpreted twice, on \<open>segment_meets\<close> (characters) and on \<open>segments_meet\<close> (segments). The rest
  relates \<open>compile_pattern\<close>, a regular expression over text, to the segment-wise meaning of a
  pattern, and draws what \<open>reaches\<close>, \<open>patterns_below\<close> and \<open>pruned_away\<close> promise.
\<close>

subsection \<open>Meet tests are exact\<close>

locale wildcards =
  fixes star :: "'p \<Rightarrow> bool" and one :: "'p \<Rightarrow> 'a \<Rightarrow> bool"
    and meets_one :: "'p \<Rightarrow> 'p \<Rightarrow> bool" and meets :: "'p list \<Rightarrow> 'p list \<Rightarrow> bool"
  assumes meets_one_iff:
      "\<not> star p \<Longrightarrow> \<not> star q \<Longrightarrow> meets_one p q \<longleftrightarrow> (\<exists>a. one p a \<and> one q a)"
    and one_inhabited: "\<not> star p \<Longrightarrow> \<exists>a. one p a"
    and meets_Nil: "meets [] []"
    and meets_Nil_right: "meets (p # ps) [] \<longleftrightarrow> star p \<and> meets ps []"
    and meets_Nil_left: "meets [] (q # qs) \<longleftrightarrow> star q \<and> meets [] qs"
    and meets_star_left:
      "star p \<Longrightarrow> meets (p # ps) (q # qs) \<longleftrightarrow> meets ps (q # qs) \<or> meets (p # ps) qs"
    and meets_star_right:
      "star q \<Longrightarrow> meets (p # ps) (q # qs) \<longleftrightarrow> meets ps (q # qs) \<or> meets (p # ps) qs"
    and meets_plain:
      "\<not> star p \<Longrightarrow> \<not> star q \<Longrightarrow> meets (p # ps) (q # qs) \<longleftrightarrow> meets_one p q \<and> meets ps qs"
begin

abbreviation matches :: "'p list \<Rightarrow> 'a list \<Rightarrow> bool" where
  "matches \<equiv> glob_match star one"

lemma matches_star_skip: "star p \<Longrightarrow> matches ps ws \<Longrightarrow> matches (p # ps) ws"
  by (cases ws) auto

lemma matches_star_eat: "star p \<Longrightarrow> matches (p # ps) ws \<Longrightarrow> matches (p # ps) (w # ws)"
  by simp

lemma matches_star_append: "star p \<Longrightarrow> matches ps ws \<Longrightarrow> matches (p # ps) (us @ ws)"
  by (induction us) (auto intro: matches_star_skip)

lemma meets_common: "meets P Q \<Longrightarrow> \<exists>w. matches P w \<and> matches Q w"
proof (induction "length P + length Q" arbitrary: P Q rule: less_induct)
  case less
  show ?case
  proof (cases P; cases Q)
    fix p ps q qs assume PQ: "P = p # ps" "Q = q # qs"
    have swallow: "\<exists>w. matches (a # as) w \<and> matches (b # bs) w"
      if "star a" "matches (a # as) w" "matches bs w" for a as b bs w
    proof (cases "star b")
      case True
      then show ?thesis using that matches_star_skip by metis
    next
      case False
      obtain c where "one b c" using one_inhabited [OF False] by auto
      then have "matches (b # bs) (c # w)" "matches (a # as) (c # w)" using False that by auto
      then show ?thesis by blast
    qed
    show ?thesis
    proof (cases "star p \<or> star q")
      case True
      then have "meets ps Q \<or> meets P qs"
        using less.prems PQ meets_star_left meets_star_right by metis
      then show ?thesis
      proof
        assume "meets ps Q"
        then obtain w where "matches ps w" "matches Q w" using less.hyps [of ps Q] PQ by auto
        then show ?thesis
          using True PQ matches_star_skip [of p ps w] swallow [of q qs w ps p] by metis
      next
        assume "meets P qs"
        then obtain w where "matches P w" "matches qs w" using less.hyps [of P qs] PQ by auto
        then show ?thesis
          using True PQ matches_star_skip [of q qs w] swallow [of p ps w qs q] by metis
      qed
    next
      case False
      then have "meets_one p q" "meets ps qs" using less.prems PQ meets_plain by auto
      then obtain a w where "one p a" "one q a" "matches ps w" "matches qs w"
        using less.hyps [of ps qs] PQ False meets_one_iff [of p q] by auto
      then have "matches P (a # w)" "matches Q (a # w)" using False PQ by auto
      then show ?thesis by blast
    qed
  next
    fix q qs assume PQ: "P = []" "Q = q # qs"
    then have "star q" "meets [] qs" using less.prems meets_Nil_left by auto
    then show ?thesis using less.hyps [of "[]" qs] PQ by auto
  next
    fix p ps assume PQ: "P = p # ps" "Q = []"
    then have "star p" "meets ps []" using less.prems meets_Nil_right by auto
    then show ?thesis using less.hyps [of ps "[]"] PQ by auto
  qed auto
qed

lemma common_meets: "matches P w \<Longrightarrow> matches Q w \<Longrightarrow> meets P Q"
proof (induction "length P + length Q + length w" arbitrary: P Q w rule: less_induct)
  case less
  show ?case
  proof (cases P; cases Q)
    fix p ps q qs assume PQ: "P = p # ps" "Q = q # qs"
    show ?thesis
    proof (cases w)
      case Nil
      then show ?thesis using less.prems less.hyps [of ps Q w] PQ meets_star_left by auto
    next
      case (Cons a v)
      have left: "matches ps w \<Longrightarrow> meets ps Q"
        by (rule less.hyps [OF _ _ less.prems(2)]) (simp_all add: PQ)
      have right: "matches qs w \<Longrightarrow> meets P qs"
        by (rule less.hyps [OF _ less.prems(1)]) (simp_all add: PQ)
      have "matches P v \<Longrightarrow> matches Q v \<Longrightarrow> meets P Q" "matches P v \<Longrightarrow> matches qs v \<Longrightarrow> meets P qs"
        "matches ps v \<Longrightarrow> matches Q v \<Longrightarrow> meets ps Q" "matches ps v \<Longrightarrow> matches qs v \<Longrightarrow> meets ps qs"
        by (rule less.hyps [of _ _ v], simp_all add: PQ Cons)+
      note hyps = left right this
      show ?thesis
      proof (cases "star p \<or> star q")
        case True
        then have "meets ps Q \<or> meets P qs \<or> meets P Q"
          using less.prems hyps PQ Cons by (auto split: if_splits)
        then show ?thesis using True PQ meets_star_left meets_star_right by metis
      next
        case False
        then have "one p a" "one q a" "meets ps qs" using less.prems hyps PQ Cons by auto
        then show ?thesis using False PQ meets_plain meets_one_iff by auto
      qed
    qed
  next
    fix q qs assume PQ: "P = []" "Q = q # qs"
    then show ?thesis using less.prems less.hyps [of P qs w] meets_Nil_left by auto
  next
    fix p ps assume PQ: "P = p # ps" "Q = []"
    then show ?thesis using less.prems less.hyps [of ps Q w] meets_Nil_right by auto
  qed (simp add: meets_Nil)
qed

lemma meets_iff: "meets P Q \<longleftrightarrow> (\<exists>w. matches P w \<and> matches Q w)"
  using meets_common common_meets by blast

lemma matches_inhabited: "\<exists>w. matches P w"
proof (induction P)
  case Nil
  then show ?case by auto
next
  case (Cons p P)
  then obtain w where w: "matches P w" by auto
  show ?case
  proof (cases "star p")
    case True
    then show ?thesis using w matches_star_skip by blast
  next
    case False
    then obtain a where "one p a" using one_inhabited by auto
    then have "matches (p # P) (a # w)" using False w by simp
    then show ?thesis by blast
  qed
qed

end

interpretation chars: wildcards char_star char_one
  "\<lambda>p q. p = q \<or> p = CHR ''?'' \<or> q = CHR ''?''" segment_meets
  by unfold_locales (auto simp: char_star_def char_one_def)

lemma segment_meets_iff: "segment_meets p q \<longleftrightarrow> (\<exists>w. seg_match p w \<and> seg_match q w)"
  unfolding seg_match_def by (rule chars.meets_iff)

lemma segments_meet_Nil: "segments_meet P [] \<longleftrightarrow> list_all (\<lambda>s. s = ''**'') P"
  by (cases P) auto

interpretation segs: wildcards seg_star seg_match segment_meets segments_meet
proof unfold_locales
  show "\<exists>a. seg_match p a" for p
    unfolding seg_match_def by (rule chars.matches_inhabited)
qed (auto simp: seg_star_def segment_meets_iff segments_meet_Nil)

lemma segments_meet_iff: "segments_meet P Q \<longleftrightarrow> (\<exists>w. segs_match P w \<and> segs_match Q w)"
  using segs.meets_iff by (simp add: segs_match_def [abs_def])

subsection \<open>The compiled expression against the segments\<close>

lemma rx_All: "rx_match (All # ts) k \<Longrightarrow> \<exists>x l. k = x @ l \<and> rx_match ts l"
proof (induction k)
  case Nil
  then show ?case by simp
next
  case (Cons d k)
  then show ?case
    by (metis append_Cons append_Nil rx_match.simps(9))
qed

lemma rx_SegStar:
  "rx_match (SegStar # ts) k \<Longrightarrow> \<exists>x l. k = x @ l \<and> CHR ''/'' \<notin> set x \<and> rx_match ts l"
proof (induction k)
  case Nil
  then show ?case by simp
next
  case (Cons d k)
  show ?case
  proof (cases "rx_match ts (d # k)")
    case True
    then have "d # k = [] @ d # k \<and> CHR ''/'' \<notin> set [] \<and> rx_match ts (d # k)" by simp
    then show ?thesis by blast
  next
    case False
    with Cons obtain x l where "k = x @ l" "CHR ''/'' \<notin> set x" "rx_match ts l" "d \<noteq> CHR ''/''"
      by auto
    then have "d # k = (d # x) @ l \<and> CHR ''/'' \<notin> set (d # x) \<and> rx_match ts l" by simp
    then show ?thesis by blast
  qed
qed

lemma rx_AnyDirs:
  "rx_match (AnyDirs # ts) k \<Longrightarrow>
     \<exists>x l. k = CHR ''/'' # x @ l \<and> (x = [] \<or> (\<exists>y. x = y @ ''/'')) \<and> rx_match ts l"
proof (cases k)
  case (Cons d s)
  assume a: "rx_match (AnyDirs # ts) k"
  then consider "d = CHR ''/''" "rx_match ts s" |
    "d = CHR ''/''" "rx_match (All # Lit (CHR ''/'') # ts) s" using Cons by auto
  then show ?thesis
  proof cases
    case 1
    then show ?thesis using Cons by auto
  next
    case 2
    then obtain x l where "s = x @ l" "rx_match (Lit (CHR ''/'') # ts) l"
      using rx_All by blast
    then have "\<exists>l'. s = (x @ ''/'') @ l' \<and> rx_match ts l'" by (cases l) auto
    then show ?thesis using Cons 2(1) by blast
  qed
qed simp

lemma rx_Below: "rx_match [Below] k \<Longrightarrow> k = [] \<or> (\<exists>r. k = CHR ''/'' # r)"
  by (cases k) auto

text \<open>The segments a pattern with these raw segments covers, \<open>**\<close> standing for what lies below.\<close>

definition covered :: "string list \<Rightarrow> string list" where
  "covered ss = (if ss \<noteq> [] \<and> last ss = [] then butlast ss @ [''**''] else ss @ [''**''])"

lemma covered_simps [simp]:
  "covered [] = [''**'']"
  "covered [[]] = [''**'']"
  "covered [c # s] = [c # s, ''**'']"
  "covered (s # t # ss) = s # covered (t # ss)"
  by (auto simp: covered_def)

lemma segs_star_any: "segs_match [''**''] ws"
  unfolding segs_match_def using segs.matches_star_append [of "''**''" "[]" "[]" ws]
  by (simp add: seg_star_def)

lemma segs_star_append: "segs_match ps ws \<Longrightarrow> segs_match (''**'' # ps) (us @ ws)"
  unfolding segs_match_def by (rule segs.matches_star_append) (simp add: seg_star_def)

lemma segs_plain [simp]:
  "p \<noteq> ''**'' \<Longrightarrow> segs_match (p # ps) (w # ws) \<longleftrightarrow> seg_match p w \<and> segs_match ps ws"
  by (simp add: segs_match_def seg_star_def)

lemma seg_match_Nil [simp]: "seg_match [] w \<longleftrightarrow> w = []"
  by (simp add: seg_match_def)

lemma seg_match_star_append: "seg_match p w \<Longrightarrow> seg_match (CHR ''*'' # p) (x @ w)"
  unfolding seg_match_def by (rule chars.matches_star_append) (simp add: char_star_def)

lemma seg_match_plain [simp]:
  "c \<noteq> CHR ''*'' \<Longrightarrow> seg_match (c # p) (d # w) \<longleftrightarrow> (c = CHR ''?'' \<or> c = d) \<and> seg_match p w"
  by (auto simp: seg_match_def char_star_def char_one_def)

text \<open>The claim about a rest of the pattern: \<open>start\<close> says it begins a segment.\<close>

definition rest_match :: "bool \<Rightarrow> string list \<Rightarrow> string list \<Rightarrow> bool" where
  "rest_match start ss ws \<longleftrightarrow>
     (if start then segs_match (covered ss) ws
      else seg_match (hd ss) (hd ws) \<and> segs_match (covered (tl ss)) (tl ws))"

definition starts :: "char option \<Rightarrow> bool" where
  "starts prev \<longleftrightarrow> prev = None \<or> prev = Some (CHR ''/'')"

lemma rest_match_segment:
  "\<not> start \<or> (s \<noteq> ''**'' \<and> s \<noteq> []) \<Longrightarrow>
     rest_match start (s # ss) (w # ws) \<longleftrightarrow> seg_match s w \<and> segs_match (covered ss) ws"
  by (cases ss; cases s) (auto simp: rest_match_def)

lemma seg_match_stars_append: "seg_match p w \<Longrightarrow> seg_match (''**'' @ p) (x @ w)"
  using seg_match_star_append [of "CHR ''*'' # p" w x] seg_match_star_append [of p w "[]"] by simp

lemma split_Cons_free:
  "d \<noteq> c \<Longrightarrow> split_on c (d # k) = (d # hd (split_on c k)) # tl (split_on c k)"
  by simp

lemma split_append_free:
  "c \<notin> set x \<Longrightarrow> split_on c (x @ k) = (x @ hd (split_on c k)) # tl (split_on c k)"
  by (induction x) (auto simp: hd_Cons_tl)

lemma split_cons_ex: obtains s ss where "split_on c k = s # ss"
  using split_on_not_Nil by (metis list.exhaust)

lemma covered_slash [simp]:
  "covered ([] # split_on c k) = [] # covered (split_on c k)"
  by (rule split_cons_ex [of c k]) simp

lemma covered_stars [simp]:
  "covered (s # split_on c k) = s # covered (split_on c k)"
  by (rule split_cons_ex [of c k]) simp

text \<open>The five branches of the loop.\<close>

lemma compile_nil: "compile_loop prev [] c = ([], c)"
  by (simp add: compile_loop.simps)

lemma compile_any:
  "compile_loop prev (''/**/'' @ r) c =
     (case compile_loop (Some (CHR ''/'')) r c of (ts, c) \<Rightarrow> (AnyDirs # ts, c))"
  by (subst compile_loop.simps) simp

lemma compile_below: "compile_loop prev ''/**'' c = ([Below], False)"
  by (subst compile_loop.simps) simp

lemma compile_stars:
  "compile_loop prev (''**'' @ r) c =
     (if starts prev \<and> (r = [] \<or> hd r = CHR ''/'')
      then (case compile_loop (Some (CHR ''*'')) r (r \<noteq> []) of (ts, c) \<Rightarrow> (All # ts, c))
      else (case compile_loop (Some (CHR ''*'')) r c of (ts, c) \<Rightarrow> (SegStar # ts, c)))"
  by (subst compile_loop.simps) (cases r; auto simp: starts_def)

definition piece_of :: "char \<Rightarrow> piece" where
  "piece_of c = (if c = CHR ''*'' then SegStar else if c = CHR ''?'' then SegChar else Lit c)"

lemma compile_one:
  "\<not> starts_with ''/**/'' (d # r) \<Longrightarrow> d # r \<noteq> ''/**'' \<Longrightarrow> \<not> starts_with ''**'' (d # r) \<Longrightarrow>
     compile_loop prev (d # r) c =
     (case compile_loop (Some d) r c of (ts, c) \<Rightarrow> (piece_of d # ts, c))"
  by (subst compile_loop.simps) (auto simp: piece_of_def split: prod.splits)

definition ends_slash :: "bool \<Rightarrow> char option \<Rightarrow> string \<Rightarrow> bool" where
  "ends_slash e prev rest \<longleftrightarrow>
     (if rest = [] then e \<longleftrightarrow> prev = Some (CHR ''/'') else e \<longleftrightarrow> last rest = CHR ''/'')"

definition closing :: "bool \<Rightarrow> piece list \<times> bool \<Rightarrow> piece list" where
  "closing e tc = (case tc of (ts, covers) \<Rightarrow> if covers then ts @ [if e then All else Below] else ts)"

lemma closing_Cons [simp]:
  "closing e (case tc of (ts, c) \<Rightarrow> (t # ts, c)) = t # closing e tc"
  by (auto simp: closing_def split: prod.splits)

lemma compile_loop_sound:
  "rx_match (closing e (compile_loop prev rest True)) k \<Longrightarrow> ends_slash e prev rest \<Longrightarrow>
     rest_match (starts prev) (split_on (CHR ''/'') rest) (split_on (CHR ''/'') k)"
proof (induction rest arbitrary: prev k rule: length_induct)
  case (1 rest)
  let ?sp = "split_on (CHR ''/'')"
  have IH: "rest_match (starts p) (?sp r) (?sp l)"
    if "length r < length rest" "rx_match (closing e (compile_loop p r True)) l" "ends_slash e p r"
    for p r l using 1 that by blast
  consider (nil) "rest = []" | (any) r where "rest = ''/**/'' @ r" | (below) "rest = ''/**''"
    | (stars) r where "rest = ''**'' @ r" "\<not> starts_with ''/**/'' rest" "rest \<noteq> ''/**''"
    | (one) c r where "rest = c # r" "\<not> starts_with ''/**/'' rest" "rest \<noteq> ''/**''"
        "\<not> starts_with ''**'' rest"
    by (cases rest) (auto simp: starts_with_iff)
  then show ?case
  proof cases
    case nil
    then have "rx_match [if e then All else Below] k" "e \<longleftrightarrow> prev = Some (CHR ''/'')"
      using 1(2,3) by (simp_all add: compile_nil closing_def ends_slash_def)
    then show ?thesis using nil rx_Below [of k]
      by (auto simp: rest_match_def starts_def segs_star_any)
  next
    case any
    then have "rx_match (AnyDirs # closing e (compile_loop (Some (CHR ''/'')) r True)) k"
      using 1(2) by (simp only: compile_any closing_Cons)
    then obtain x l where k: "k = CHR ''/'' # x @ l" "x = [] \<or> (\<exists>y. x = y @ ''/'')"
      and l: "rx_match (closing e (compile_loop (Some (CHR ''/'')) r True)) l"
      using rx_AnyDirs by blast
    have "ends_slash e (Some (CHR ''/'')) r"
      using 1(3) any by (auto simp: ends_slash_def split: if_splits)
    then have "segs_match (covered (?sp r)) (?sp l)"
      using IH [OF _ l] any by (simp add: rest_match_def starts_def)
    then have "segs_match (''**'' # covered (?sp r)) (?sp (x @ l))"
      using k(2) segs_star_append [of "covered (?sp r)" "?sp l" "[]"] segs_star_append
      by (auto simp: split_on_append)
    then show ?thesis using any k by (simp add: rest_match_def)
  next
    case below
    then have "rx_match [Below] k" using 1(2) by (simp add: compile_below closing_def)
    then show ?thesis using rx_Below [of k] below segs_star_any
        segs_star_append [of "[''**'']" "[]"]  segs_star_append [of "[''**'']" "[]" "_"]
      by (auto simp: rest_match_def)
  next
    case stars
    show ?thesis
    proof (cases "starts prev \<and> (r = [] \<or> hd r = CHR ''/'')")
      case True
      show ?thesis
      proof (cases r)
        case Nil
        then show ?thesis using stars True segs_star_append [of "[''**'']" "[]"] segs_star_any [of "[]"]
          by (auto simp: rest_match_def)
      next
        case (Cons d r')
        then have d: "d = CHR ''/''" using True by simp
        have "rx_match (All # closing e (compile_loop (Some (CHR ''*'')) r True)) k"
          using 1(2) stars(1) True Cons by (simp only: compile_stars closing_Cons) simp
        then obtain x l where k: "k = x @ l"
          and l: "rx_match (closing e (compile_loop (Some (CHR ''*'')) r True)) l"
          using rx_All by blast
        have "ends_slash e (Some (CHR ''*'')) r" using 1(3) stars(1) Cons by (auto simp: ends_slash_def)
        then have m: "hd (?sp l) = []" "segs_match (covered (?sp r')) (tl (?sp l))"
          using IH [OF _ l] stars(1) Cons d by (auto simp: rest_match_def starts_def)
        have "\<exists>us. ?sp k = us @ tl (?sp l)"
        proof (cases l)
          case Nil
          then show ?thesis using k by simp
        next
          case (Cons b l')
          then have "b = CHR ''/''" using m(1) by (auto split: if_splits)
          then show ?thesis using k Cons by (auto simp: split_on_append)
        qed
        then show ?thesis using m(2) stars(1) Cons d True segs_star_append
          by (fastforce simp: rest_match_def)
      qed
    next
      case False
      then have "rx_match (SegStar # closing e (compile_loop (Some (CHR ''*'')) r True)) k"
        using 1(2) stars(1) by (simp only: compile_stars closing_Cons) simp
      then obtain x l where k: "k = x @ l" "CHR ''/'' \<notin> set x"
        and l: "rx_match (closing e (compile_loop (Some (CHR ''*'')) r True)) l"
        using rx_SegStar by blast
      have "ends_slash e (Some (CHR ''*'')) r" using 1(3) stars(1) by (auto simp: ends_slash_def)
      then have "rest_match False (?sp r) (?sp l)" using IH [OF _ l] stars(1) by (simp add: starts_def)
      then have "seg_match (''**'' @ hd (?sp r)) (x @ hd (?sp l))"
        "segs_match (covered (tl (?sp r))) (tl (?sp l))"
        unfolding rest_match_def by (auto intro: seg_match_stars_append simp del: append_Cons)
      moreover have "\<not> starts prev \<or> hd (?sp r) \<noteq> []" using False by (cases r) auto
      ultimately show ?thesis unfolding k(1) stars(1) split_append_free [OF k(2)]
        by (simp add: rest_match_segment)
    qed
  next
    case one
    have "rx_match (piece_of c # closing e (compile_loop (Some c) r True)) k"
      using 1(2) unfolding one(1)
      by (simp only: compile_one [OF one(2-4) [unfolded one(1)]] closing_Cons)
    note r1 = this
    have e: "ends_slash e (Some c) r" using 1(3) one(1) by (auto simp: ends_slash_def split: if_splits)
    have IH': "rest_match (c = CHR ''/'') (?sp r) (?sp l)"
      if "rx_match (closing e (compile_loop (Some c) r True)) l" for l
      using IH [OF _ that e] one(1) by (simp add: starts_def)
    show ?thesis
    proof (cases "c = CHR ''*''")
      case True
      then obtain x l where k: "k = x @ l" "CHR ''/'' \<notin> set x"
        and l: "rx_match (closing e (compile_loop (Some c) r True)) l"
        using r1 by (auto simp: piece_of_def dest: rx_SegStar)
      then have "seg_match (CHR ''*'' # hd (?sp r)) (x @ hd (?sp l))"
        "segs_match (covered (tl (?sp r))) (tl (?sp l))"
        using IH' [OF l] True by (auto simp: rest_match_def intro: seg_match_star_append)
      moreover have "hd (?sp r) \<noteq> ''*''"
        using one(1,4) True by (cases r) auto
      ultimately show ?thesis unfolding k(1) one(1) split_append_free [OF k(2)]
        by (simp add: rest_match_segment True)
    next
      case False
      then obtain d l where k: "k = d # l" "rx_match (closing e (compile_loop (Some c) r True)) l"
        "c = CHR ''?'' \<and> d \<noteq> CHR ''/'' \<or> c \<noteq> CHR ''?'' \<and> c = d"
        using r1 by (cases k) (auto simp: piece_of_def split: if_splits)
      note m = IH' [OF k(2)]
      show ?thesis
      proof (cases "c = CHR ''/''")
        case True
        then show ?thesis using k m one(1) by (auto simp: rest_match_def)
      next
        case False
        then show ?thesis using k m one(1) \<open>c \<noteq> CHR ''*''\<close>
          by (auto simp: rest_match_segment) (auto simp: rest_match_def)
      qed
    qed
  qed
qed

lemma compile_pattern_covered:
  assumes "rx_match (compile_pattern p) k" "p \<noteq> []"
  shows "segs_match (covered (split_on (CHR ''/'') p)) (split_on (CHR ''/'') k)"
proof -
  let ?e = "ends_with ''/'' p"
  have "compile_pattern p = closing ?e (compile_loop None p True)"
    by (simp add: compile_pattern_def closing_def)
  moreover have "ends_slash ?e None p"
    using assms(2) by (cases p rule: rev_cases) (auto simp: ends_slash_def ends_with_def)
  ultimately have "rest_match (starts None) (split_on (CHR ''/'') p) (split_on (CHR ''/'') k)"
    using compile_loop_sound assms(1) by metis
  then show ?thesis by (simp add: rest_match_def starts_def)
qed

lemma split_on_snoc: "split_on c (q @ [c]) = split_on c q @ [[]]"
  using split_on_append [of c q "[]"] by simp

lemma last_split_on: "p \<noteq> [] \<Longrightarrow> last p \<noteq> c \<Longrightarrow> last (split_on c p) \<noteq> []"
proof (induction p)
  case (Cons x p)
  then show ?case
    by (cases "p = []"; cases "tl (split_on c p) = []")
      (auto simp: last_tl hd_Cons_tl [symmetric] split: if_splits)
qed simp

lemma segs_match_any_tail:
  "segs_match (ps @ qs) ws \<Longrightarrow> segs_match (ps @ [''**'']) ws"
proof (induction ps arbitrary: ws)
  case Nil
  then show ?case by (simp add: segs_star_any)
next
  case (Cons p ps)
  then show ?case
    unfolding segs_match_def
    by (induction ws) (auto split: if_splits)
qed

lemma split_on_replicate:
  "split_on c (q @ replicate n c) = split_on c q @ replicate n []"
proof (induction n)
  case (Suc n)
  have "split_on c ((q @ replicate n c) @ c # []) = split_on c (q @ replicate n c) @ split_on c []"
    by (rule split_on_append)
  then show ?case using Suc by (simp add: replicate_append_same)
qed simp

lemma rstrip_char_split: "\<exists>n. s = rstrip_char c s @ replicate n c"
proof (induction s rule: rev_induct)
  case (snoc x s)
  show ?case
  proof (cases "x = c")
    case True
    then obtain n where n: "s = rstrip_char c (s @ [x]) @ replicate n c"
      using snoc by (auto simp: rstrip_char_def)
    have "s @ [x] = rstrip_char c (s @ [x]) @ replicate n c @ [c]"
      using n True by (metis append_assoc)
    then have "s @ [x] = rstrip_char c (s @ [x]) @ replicate (Suc n) c"
      by (simp add: replicate_append_same)
    then show ?thesis by blast
  qed (simp add: rstrip_char_def)
qed (simp add: rstrip_char_def)

lemma key_segments_prefix: "\<exists>n. split_on (CHR ''/'') p = key_segments p @ replicate n []"
  unfolding key_segments_def using rstrip_char_split [of p "CHR ''/''"] split_on_replicate by metis

lemma covered_prefix: "\<exists>qs. covered (split_on (CHR ''/'') p) = key_segments p @ qs \<or> p = []"
proof -
  obtain n where n: "split_on (CHR ''/'') p = key_segments p @ replicate n []"
    using key_segments_prefix by blast
  show ?thesis
  proof (cases n)
    case 0
    then have k: "split_on (CHR ''/'') p = key_segments p" using n by simp
    show ?thesis
    proof (cases "p = [] \<or> last p \<noteq> CHR ''/''")
      case True
      then show ?thesis using k last_split_on [of p "CHR ''/''"] by (auto simp: covered_def)
    next
      case False
      then obtain q where "p = q @ [CHR ''/'']" by (cases p rule: rev_cases) auto
      then have "rstrip_char (CHR ''/'') p = rstrip_char (CHR ''/'') q" by (simp add: rstrip_char_def)
      moreover have "length (split_on (CHR ''/'') p) = Suc (length (split_on (CHR ''/'') q))"
        using \<open>p = q @ [CHR ''/'']\<close> by (simp add: split_on_snoc)
      moreover have "length (key_segments q) \<le> length (split_on (CHR ''/'') q)"
        using key_segments_prefix [of q] by auto
      ultimately show ?thesis using k by (simp add: key_segments_def)
    qed
  next
    case (Suc m)
    then show ?thesis using n
      by (auto simp: covered_def butlast_append butlast_snoc replicate_append_same [symmetric])
  qed
qed

lemma compile_pattern_sound:
  assumes "rx_match (compile_pattern p) k"
  shows "segs_match (key_segments p @ [''**'']) (split_on (CHR ''/'') k)"
proof (cases "p = []")
  case True
  then have "k = [] \<or> (\<exists>r. k = CHR ''/'' # r)"
    using assms rx_Below [of k] by (simp add: compile_pattern_def compile_nil ends_with_def)
  then show ?thesis using True segs_star_any by (auto simp: key_segments_def rstrip_char_def)
next
  case False
  then obtain qs where "covered (split_on (CHR ''/'') p) = key_segments p @ qs"
    using covered_prefix by blast
  then show ?thesis using compile_pattern_covered [OF assms False] segs_match_any_tail by metis
qed

subsection \<open>Segments with doubled stars\<close>

lemma seg_match_star_cases:
  "seg_match (CHR ''*'' # p) w \<Longrightarrow> \<exists>x v. w = x @ v \<and> seg_match p v"
proof (induction w)
  case Nil
  then show ?case by (simp add: seg_match_def)
next
  case (Cons c w)
  then have "seg_match p (c # w) \<or> seg_match (CHR ''*'' # p) w"
    by (simp add: seg_match_def char_star_def)
  then show ?case
  proof
    assume "seg_match p (c # w)"
    then have "c # w = [] @ c # w \<and> seg_match p (c # w)" by simp
    then show ?thesis by blast
  next
    assume "seg_match (CHR ''*'' # p) w"
    then obtain x v where "w = x @ v" "seg_match p v" using Cons.IH by auto
    then have "c # w = (c # x) @ v \<and> seg_match p v" by simp
    then show ?thesis by blast
  qed
qed

lemma seg_match_stars_cases:
  assumes "seg_match (''**'' @ r) w" shows "\<exists>x v. w = x @ v \<and> seg_match r v"
proof -
  obtain x u where x: "w = x @ u" "seg_match (CHR ''*'' # r) u"
    using assms seg_match_star_cases [of "CHR ''*'' # r" w] by auto
  obtain y v where "u = y @ v" "seg_match r v" using seg_match_star_cases [OF x(2)] by auto
  then have "w = (x @ y) @ v \<and> seg_match r v" using x by simp
  then show ?thesis by blast
qed

lemma seg_match_Cons_Nil: "c \<noteq> CHR ''*'' \<Longrightarrow> \<not> seg_match (c # p) []"
  by (simp add: seg_match_def char_star_def)

lemma seg_match_single_stars: "seg_match p w \<Longrightarrow> seg_match (single_stars p) w"
proof (induction p arbitrary: w rule: single_stars.induct)
  case (3 c d s)
  show ?case
  proof (cases "c = CHR ''*'' \<and> d = CHR ''*''")
    case True
    then obtain x v where "w = x @ v" "seg_match s v"
      using 3(3) seg_match_stars_cases [of s w] by auto
    then show ?thesis using True 3(1) seg_match_star_append [of "single_stars s" v x] by simp
  next
    case False
    show ?thesis
    proof (cases "c = CHR ''*''")
      case True
      then obtain x v where "w = x @ v" "seg_match (d # s) v" using 3(3) seg_match_star_cases by blast
      then show ?thesis using False True 3(2) seg_match_star_append by simp
    next
      case c: False
      then obtain e v where "w = e # v" using 3(3) seg_match_Cons_Nil by (cases w) auto
      then show ?thesis using c 3 by simp
    qed
  qed
qed auto

lemma segs_match_star_skip: "segs_match ps ws \<Longrightarrow> segs_match (''**'' # ps) ws"
  using segs_star_append [of ps ws "[]"] by simp

lemma segs_match_segments: "segs_match ps ws \<Longrightarrow> segs_match (map segment ps) ws"
  unfolding segs_match_def
proof (induction seg_star seg_match ps ws rule: glob_match.induct)
  case (2 p ps)
  then show ?case by (auto simp: seg_star_def segment_def)
next
  case (3 p ps w ws)
  show ?case
  proof (cases "p = ''**''")
    case True
    then show ?thesis using 3 by (auto simp: seg_star_def segment_def)
  next
    case False
    then have m: "seg_match (single_stars p) w" "segs_match (map segment ps) ws"
      using 3 seg_match_single_stars by (auto simp: seg_star_def segs_match_def)
    show ?thesis
    proof (cases "single_stars p = ''**''")
      case True
      then show ?thesis using m segs_star_append [of "map segment ps" ws "[w]"] False
        by (simp add: segment_def segs_match_def)
    next
      case s: False
      then show ?thesis using m False by (simp add: segment_def segs_match_def seg_star_def)
    qed
  qed
qed simp

lemma char_one_refl [simp]: "char_one c c"
  by (simp add: char_one_def)

lemma seg_match_refl [simp]: "seg_match s s"
  unfolding seg_match_def
  by (induction s) (auto intro: chars.matches_star_skip)

lemma segs_match_refl_append: "segs_match qs vs \<Longrightarrow> segs_match (ps @ qs) (ps @ vs)"
  unfolding segs_match_def
  by (induction ps) (auto intro: segs.matches_star_skip)

lemma segs_match_append: "segs_match qs vs \<Longrightarrow> segs_match ps us \<Longrightarrow> segs_match (ps @ qs) (us @ vs)"
  unfolding segs_match_def
proof (induction seg_star seg_match ps us rule: glob_match.induct)
  case (2 p ps)
  then show ?case by (auto intro: segs.matches_star_skip)
next
  case (3 p ps w ws)
  then show ?case by (auto split: if_splits)
qed simp

subsection \<open>\<open>reaches\<close> misses nothing\<close>

lemma reaches_common:
  assumes "rx_match (compile_pattern p) k"
    and "segs_match (key_segments folder @ reach) (split_on (CHR ''/'') k)"
  shows "reaches folder reach p"
proof -
  let ?k = "split_on (CHR ''/'') k"
  have "segs_match (map segment (key_segments p @ [''**''])) ?k"
    using compile_pattern_sound assms segs_match_segments by blast
  moreover have "segs_match (map segment (key_segments folder @ reach)) ?k"
    using assms(2) segs_match_segments by blast
  ultimately show ?thesis unfolding reaches_def segments_meet_iff by blast
qed

text \<open>Every entry at or below a folder belongs to the access \<open>**\<close> below it.\<close>

lemma below_folder:
  "rstrip_char (CHR ''/'') folder = f \<Longrightarrow> k = f \<or> (\<exists>r. k = f @ CHR ''/'' # r) \<Longrightarrow>
     segs_match (key_segments folder @ [''**'']) (split_on (CHR ''/'') k)"
proof -
  assume f: "rstrip_char (CHR ''/'') folder = f" "k = f \<or> (\<exists>r. k = f @ CHR ''/'' # r)"
  then obtain us where "split_on (CHR ''/'') k = split_on (CHR ''/'') f @ us"
    by (metis append_Nil2 split_on_append)
  then show ?thesis using f(1) segs_match_refl_append segs_star_any by (simp add: key_segments_def)
qed

text \<open>What lies inside a folder belongs to the pattern of the folder with \<open>**\<close> below it.\<close>

lemma inside_covered:
  assumes "is_inside k f"
  shows "segs_match (key_segments f @ [''**'']) (split_on (CHR ''/'') k)"
proof -
  obtain g n where g: "rstrip_char (CHR ''/'') f = g" "f = g @ replicate n (CHR ''/'')"
    using rstrip_char_split by metis
  obtain r where r: "k = f @ r" "r = [] \<or> ends_with ''/'' f \<or> (\<exists>s. r = CHR ''/'' # s)"
    using assms by (auto simp: is_inside_def starts_with_iff Let_def split: if_splits)
  have "k = g \<or> (\<exists>r. k = g @ CHR ''/'' # r)"
  proof (cases n)
    case 0
    then have "f = [] \<or> last f \<noteq> CHR ''/''"
      using g rdrop_while_last [of "\<lambda>x. x = CHR ''/''" f] by (auto simp: rstrip_char_def)
    then have "\<not> ends_with ''/'' f" by (auto simp: ends_with_iff)
    then show ?thesis using r g(2) 0 by auto
  next
    case (Suc m)
    then show ?thesis using r(1) g(2) by auto
  qed
  then show ?thesis using below_folder [OF g(1)] by blast
qed

subsection \<open>One segment, exactly\<close>

lemma rx_SegStar_append:
  "CHR ''/'' \<notin> set x \<Longrightarrow> rx_match ts l \<Longrightarrow> rx_match (SegStar # ts) (x @ l)"
proof (induction x)
  case Nil
  then show ?case by (cases l) auto
qed auto

lemma compile_segment_complete:
  "seg_match p f \<Longrightarrow> CHR ''/'' \<notin> set p \<Longrightarrow> CHR ''/'' \<notin> set f \<Longrightarrow>
     \<not> (starts prev \<and> p = ''**'') \<Longrightarrow> rx_match (closing False (compile_loop prev p True)) f"
proof (induction p arbitrary: prev f rule: length_induct)
  case (1 p)
  consider (nil) "p = []" | (stars) r where "p = ''**'' @ r"
    | (one) c r where "p = c # r" "\<not> starts_with ''**'' p"
    by (cases p) (auto simp: starts_with_iff)
  then show ?case
  proof cases
    case nil
    then show ?thesis using 1(2) by (simp add: compile_nil closing_def)
  next
    case stars
    then obtain x v where f: "f = x @ v" "seg_match r v"
      using 1(2) seg_match_stars_cases by metis
    have "rx_match (closing False (compile_loop (Some (CHR ''*'')) r True)) v"
      using 1 stars f by (auto simp: starts_def)
    moreover have "CHR ''/'' \<notin> set x" using 1(4) f(1) by simp
    ultimately have "rx_match (SegStar # closing False (compile_loop (Some (CHR ''*'')) r True)) f"
      unfolding f(1) by (rule rx_SegStar_append [rotated])
    moreover have "\<not> (starts prev \<and> (r = [] \<or> hd r = CHR ''/''))"
      using 1(3,5) stars by (cases r) auto
    ultimately show ?thesis unfolding stars by (simp only: compile_stars closing_Cons) simp
  next
    case one
    have rec: "rx_match (closing False (compile_loop (Some c) r True)) v"
      if "seg_match r v" "CHR ''/'' \<notin> set v" for v
      using 1 one(1) that by (auto simp: starts_def)
    have "rx_match (piece_of c # closing False (compile_loop (Some c) r True)) f"
    proof (cases "c = CHR ''*''")
      case True
      then obtain x v where f: "f = x @ v" "seg_match r v"
        using 1(2) one(1) seg_match_star_cases by blast
      then have "rx_match (SegStar # closing False (compile_loop (Some c) r True)) (x @ v)"
        using rec 1(4) by (intro rx_SegStar_append) auto
      then show ?thesis using f(1) True by (simp add: piece_of_def)
    next
      case False
      then obtain e v where f: "f = e # v" using 1(2) one(1) seg_match_Cons_Nil by (cases f) auto
      then show ?thesis using rec [of v] False 1(2-4) one(1) by (auto simp: piece_of_def)
    qed
    moreover have "\<not> starts_with ''/**/'' (c # r)" "c # r \<noteq> ''/**''" "\<not> starts_with ''**'' (c # r)"
      using one 1(3) by auto
    note compile_one [OF this]
    ultimately show ?thesis unfolding one(1) by (simp only: closing_Cons)
  qed
qed

lemma compile_segment_iff:
  assumes "CHR ''/'' \<notin> set p" "CHR ''/'' \<notin> set f" "p \<noteq> ''**''"
  shows "rx_match (compile_pattern p) f \<longleftrightarrow> seg_match p f"
proof
  have e: "\<not> ends_with ''/'' p" using assms(1) by (auto simp: ends_with_iff)
  then have c: "compile_pattern p = closing False (compile_loop None p True)"
    by (simp add: compile_pattern_def closing_def)
  show "rx_match (compile_pattern p) f" if "seg_match p f"
    unfolding c using that assms by (intro compile_segment_complete) auto
  show "seg_match p f" if r: "rx_match (compile_pattern p) f"
  proof (cases "p = []")
    case True
    then show ?thesis using r assms(2) rx_Below [of f]
      by (auto simp: compile_pattern_def compile_nil ends_with_def)
  next
    case False
    then show ?thesis using compile_pattern_covered [OF r] assms
      by (cases p) (auto simp: split_on_free_id)
  qed
qed

lemma seg_match_literal: "\<not> has_wildcard p \<Longrightarrow> seg_match p w \<longleftrightarrow> p = w"
proof (induction p arbitrary: w)
  case Nil
  then show ?case by auto
next
  case (Cons c p)
  then show ?case by (cases w) (auto simp: has_wildcard_def seg_match_Cons_Nil)
qed

text \<open>A pattern without wildcards covers its entry and, as long as no newline occurs, what lies
  below it: the compiled expression's dot does not match a newline.\<close>

lemma rx_lits: "rx_match (map Lit p @ ts) k \<longleftrightarrow> (\<exists>r. k = p @ r \<and> rx_match ts r)"
proof (induction p arbitrary: k)
  case (Cons c p)
  then show ?case by (cases k) auto
qed simp

lemma rx_All_iff: "rx_match [All] k \<longleftrightarrow> CHR 0x0A \<notin> set k"
  by (induction k) auto

lemma rx_Below_iff: "rx_match [Below] k \<longleftrightarrow> k = [] \<or> (\<exists>r. k = CHR ''/'' # r \<and> CHR 0x0A \<notin> set r)"
  by (cases k) (auto simp: rx_All_iff)

lemma compile_literal:
  "\<not> has_wildcard p \<Longrightarrow> compile_loop prev p c = (map Lit p, c)"
proof (induction p arbitrary: prev)
  case (Cons d p)
  then show ?case
    by (subst compile_loop.simps) (auto simp: has_wildcard_def starts_with_iff)
qed (simp add: compile_nil)

lemma compile_pattern_literal:
  assumes "\<not> has_wildcard p" "\<not> ends_with ''/'' p"
  shows "rx_match (compile_pattern p) k \<longleftrightarrow>
    k = p \<or> (\<exists>r. k = p @ CHR ''/'' # r \<and> CHR 0x0A \<notin> set r)"
  using assms by (auto simp: compile_pattern_def compile_literal rx_lits rx_Below_iff)

subsection \<open>What lies below a folder\<close>

lemma segs_match_star_cases:
  "segs_match (''**'' # ps) ws \<Longrightarrow> \<exists>us vs. ws = us @ vs \<and> segs_match ps vs"
proof (induction ws)
  case Nil
  then show ?case by (simp add: segs_match_def)
next
  case (Cons w ws)
  then have "segs_match ps (w # ws) \<or> segs_match (''**'' # ps) ws"
    by (simp add: segs_match_def seg_star_def)
  then show ?case
  proof
    assume "segs_match ps (w # ws)"
    then have "w # ws = [] @ w # ws \<and> segs_match ps (w # ws)" by simp
    then show ?thesis by blast
  next
    assume "segs_match (''**'' # ps) ws"
    then obtain us vs where "ws = us @ vs" "segs_match ps vs" using Cons.IH by auto
    then have "w # ws = (w # us) @ vs \<and> segs_match ps vs" by simp
    then show ?thesis by blast
  qed
qed

lemma segs_match_Cons_Nil: "p \<noteq> ''**'' \<Longrightarrow> \<not> segs_match (p # ps) []"
  by (simp add: segs_match_def seg_star_def)

text \<open>A result of \<open>relative\<close> is read segment-wise.\<close>

definition below_match :: "string \<Rightarrow> string list \<Rightarrow> bool" where
  "below_match r ws \<longleftrightarrow> segs_match (split_on (CHR ''/'') r @ [''**'']) ws"

lemma below_match_join:
  "ps \<noteq> [] \<Longrightarrow> \<forall>s \<in> set ps. CHR ''/'' \<notin> set s \<Longrightarrow>
     below_match (join ''/'' ps) ws \<longleftrightarrow> segs_match (ps @ [''**'']) ws"
  by (simp add: below_match_def split_on_join)

lemma below_match_all: "below_match ''**'' ws"
  unfolding below_match_def using segs_star_append [of "[''**'']" "[]" ws] segs_star_any by simp

lemma relative_covers:
  "segs_match (ps @ [''**'']) (fs @ ws) \<Longrightarrow> \<forall>s \<in> set ps \<union> set fs. CHR ''/'' \<notin> set s \<Longrightarrow>
     \<exists>r \<in> set (relative ps fs). below_match r ws"
proof (induction ps fs rule: relative.induct)
  case (1 ps)
  then show ?case by (auto simp: below_match_all below_match_join)
next
  case (2 f fs)
  then show ?case by (simp add: below_match_all)
next
  case (3 p ps f fs)
  show ?case
  proof (cases "p = ''**''")
    case False
    then have "seg_match p f" "segs_match (ps @ [''**'']) (fs @ ws)" using 3(3) by auto
    moreover have "rx_match (compile_pattern p) f \<longleftrightarrow> seg_match p f"
      using 3(4) False by (intro compile_segment_iff) auto
    ultimately show ?thesis using 3(2) 3(4) False by auto
  next
    case True
    then obtain us vs where uv: "(f # fs) @ ws = us @ vs" "segs_match (ps @ [''**'']) vs"
      using 3(3) segs_match_star_cases [of "ps @ [''**'']" "(f # fs) @ ws"] by auto
    show ?thesis
    proof (cases "length us < length (f # fs)")
      case less: True
      let ?n = "length us"
      have n: "?n \<in> set [0..<length (f # fs)]" using less by auto
      have "vs = drop ?n (f # fs) @ ws" using uv(1) less
        by (metis append_eq_conv_conj drop_append diff_is_0_eq drop0 less_imp_le_nat)
      moreover have "\<forall>s \<in> set ps \<union> set (drop ?n (f # fs)). CHR ''/'' \<notin> set s"
        using 3(4) set_drop_subset [of ?n "f # fs"] by auto
      ultimately have "\<exists>r \<in> set (relative ps (drop ?n (f # fs))). below_match r ws"
        using 3(1) [OF True n] uv(2) by simp
      then obtain r where "r \<in> set (relative ps (drop ?n (f # fs)))" "below_match r ws" by blast
      moreover from this(1) n have "r \<in> set (relative (p # ps) (f # fs))"
        using True by (simp del: upt_Suc drop_Cons') (metis atLeastLessThan_iff zero_le)
      ultimately show ?thesis by blast
    next
      case False
      then have "ws = drop (length (f # fs)) us @ vs"
        using arg_cong [OF uv(1), of "drop (length (f # fs))"] by (simp del: drop_Suc_Cons append_Cons)
      then have "\<exists>us'. ws = us' @ vs" by blast
      then have "segs_match ((''**'' # ps) @ [''**'']) ws"
        using uv(2) segs_star_append by auto
      then have "below_match (join ''/'' (''**'' # ps)) ws"
        using 3(4) by (subst below_match_join) auto
      then show ?thesis using True by simp
    qed
  qed
qed

lemma split_remove_below:
  assumes "ends_with ''/**'' r"
  shows "split_on (CHR ''/'') r = split_on (CHR ''/'') (remove_suffix ''/**'' r) @ [''**'']"
proof -
  obtain q where "r = q @ ''/**''" using assms by (auto simp: ends_with_iff)
  then show ?thesis by (simp add: remove_suffix_def split_on_append)
qed

lemma segs_match_double_star:
  "segs_match (ps @ [''**'', ''**'']) ws \<Longrightarrow> segs_match (ps @ [''**'']) ws"
proof (induction ps arbitrary: ws)
  case Nil
  then show ?case by (simp add: segs_star_any)
next
  case (Cons p ps)
  show ?case
  proof (cases "p = ''**''")
    case True
    then obtain us vs where "ws = us @ vs" "segs_match (ps @ [''**'', ''**'']) vs"
      using Cons.prems segs_match_star_cases [of "ps @ [''**'', ''**'']" ws] by auto
    then show ?thesis using True Cons.IH segs_star_append by auto
  next
    case False
    then show ?thesis using Cons segs_match_Cons_Nil [of p] by (cases ws) auto
  qed
qed

lemma below_match_remove: "below_match r ws \<Longrightarrow> below_match (remove_suffix ''/**'' r) ws"
proof (cases "ends_with ''/**'' r")
  case True
  assume "below_match r ws"
  then show ?thesis using split_remove_below [OF True] segs_match_double_star
    by (simp add: below_match_def)
qed (simp add: remove_suffix_def)

lemma patterns_below_covers:
  assumes "rx_match (compile_pattern p) k"
    and "split_on (CHR ''/'') k = key_segments folder @ ws"
  shows "\<exists>r \<in> set (patterns_below p folder). below_match r ws"
proof -
  have "segs_match (key_segments p @ [''**'']) (key_segments folder @ ws)"
    using compile_pattern_sound [OF assms(1)] assms(2) by simp
  moreover have "\<forall>s \<in> set (key_segments p) \<union> set (key_segments folder). CHR ''/'' \<notin> set s"
    by (auto simp: key_segments_def dest: split_on_free)
  ultimately obtain r where "r \<in> set (relative (key_segments p) (key_segments folder))" "below_match r ws"
    using relative_covers by blast
  then show ?thesis using below_match_remove by (auto simp: patterns_below_def)
qed

subsection \<open>Pruned folders\<close>

lemma has_double_star_star [simp]: "has_double_star ''**''"
  by (simp add: has_double_star_def upt_rec)

lemma pruned_loop_sound:
  "pruned_loop depth pruned i ss \<Longrightarrow> segs_match (ss @ [''**'']) ws \<Longrightarrow>
     pos = i \<or> (depth \<le> i \<and> depth \<le> pos) \<Longrightarrow>
     \<exists>j < length ws. depth \<le> pos + j \<and> ws ! j \<in> set pruned"
proof (induction ss arbitrary: i ws pos)
  case Nil
  then show ?case by simp
next
  case (Cons s ss)
  show ?case
  proof (cases "s = ''**''")
    case True
    then have i: "depth \<le> i" "pruned_loop depth pruned (Suc i) ss"
      using Cons.prems(1) by (auto split: if_splits)
    obtain us vs where uv: "ws = us @ vs" "segs_match (ss @ [''**'']) vs"
      using True Cons.prems(2) segs_match_star_cases [of "ss @ [''**'']" ws] by auto
    obtain j where "j < length vs" "depth \<le> pos + length us + j" "vs ! j \<in> set pruned"
      using Cons.IH [OF i(2) uv(2), of "pos + length us"] i(1) Cons.prems(3) by auto
    then show ?thesis using uv(1)
      by (intro exI [of _ "length us + j"]) (auto simp: nth_append)
  next
    case False
    then obtain w vs where w: "ws = w # vs" "seg_match s w" "segs_match (ss @ [''**'']) vs"
      using Cons.prems(2) segs_match_Cons_Nil [of s] by (cases ws) auto
    show ?thesis
    proof (cases "\<not> has_double_star s \<and> depth \<le> i \<and> \<not> has_wildcard s \<and> s \<in> set pruned")
      case True
      then have "ws ! 0 \<in> set pruned" using w seg_match_literal by auto
      then show ?thesis using True w(1) Cons.prems(3) by (intro exI [of _ 0]) auto
    next
      case rest: False
      then have "pruned_loop depth pruned (Suc i) ss"
        using Cons.prems(1) by (auto split: if_splits)
      then obtain j where "j < length vs" "depth \<le> Suc pos + j" "vs ! j \<in> set pruned"
        using Cons.IH [OF _ w(3), of "Suc i" "Suc pos"] Cons.prems(3) by (auto split: if_splits)
      then show ?thesis using w(1) by (intro exI [of _ "Suc j"]) auto
    qed
  qed
qed

lemma pruned_away_sound:
  assumes "pruned_away p folder pruned"
    and "rx_match (compile_pattern p) k"
  shows "\<exists>s \<in> set (drop (length (key_segments folder)) (split_on (CHR ''/'') k)). s \<in> set pruned"
proof -
  let ?d = "length (key_segments folder)"
  have "pruned_loop ?d pruned 0 (key_segments p)"
    using assms(1) by (auto simp: pruned_away_def split: if_splits)
  then obtain j where "j < length (split_on (CHR ''/'') k)" "?d \<le> j"
      "split_on (CHR ''/'') k ! j \<in> set pruned"
    using pruned_loop_sound [of ?d pruned 0 "key_segments p" _ 0] compile_pattern_sound [OF assms(2)]
    by auto
  then show ?thesis
    by (intro bexI [of _ "split_on (CHR ''/'') k ! j"])
      (auto simp: in_set_conv_nth intro!: exI [of _ "j - ?d"])
qed

end
