(* ===== verification/Addresses.thy ===== *)
theory Addresses
  imports Py_Ip
begin

section \<open>Host names that are IPv4 addresses in any resolver form\<close>

text \<open>
  \<open>core/permissions/_addresses.py\<close>: the C resolver reads \<open>127.1\<close>, \<open>2130706433\<close>, \<open>0x7f000001\<close>
  and \<open>0177.0.0.1\<close> as \<open>127.0.0.1\<close>, so every check compares the one dotted form.
\<close>

unbundle bit_operations_syntax

text \<open>\<open>_PART\<close>: its \<open>$\<close> also matches before a closing newline, which \<open>int\<close> then strips.\<close>

definition part_body :: "string \<Rightarrow> string" where
  "part_body part =
     (if part \<noteq> [] \<and> last part = CHR 0x0A then butlast part else part)"

definition part_matches :: "string \<Rightarrow> bool" where
  "part_matches part \<longleftrightarrow>
     (let body = part_body part in
      (starts_with ''0x'' body \<or> starts_with ''0X'' body) \<and> list_all is_hex_digit (drop 2 body)
      \<or> body \<noteq> [] \<and> list_all is_digit body)"

text \<open>The value of one part that matched; \<open>None\<close> is the \<open>ValueError\<close> of \<open>int\<close>.\<close>

definition part_value :: "string \<Rightarrow> nat option" where
  "part_value part =
     (let body = part_body part in
      if lower (take 2 part) = ''0x''
      then (if drop 2 part = [] then Some 0
            else if drop 2 body = [] then None
            else Some (int_of_digits 16 (drop 2 body)))
      else if 1 < length part \<and> hd part = CHR ''0''
      then (if tl body = [] \<or> \<not> list_all (\<lambda>c. code c < 56) (tl body) then None
            else Some (int_of_digits 8 (tl body)))
      else Some (int_of_digits 10 body))"

definition parse_ipv4 :: "string \<Rightarrow> nat option" where
  "parse_ipv4 text =
     (let parts = split_on (CHR ''.'') text in
      if \<not> (1 \<le> length parts \<and> length parts \<le> 4) \<or> \<not> list_all part_matches parts then None
      else (case map_option_list part_value parts of None \<Rightarrow> None
            | Some values \<Rightarrow>
                (let head = butlast values; lst = last values in
                 if list_ex (\<lambda>v. 255 < v) head \<or> 256 ^ (4 - length head) \<le> lst then None
                 else Some (push_bit (8 * (4 - length head)) (bytes_value head) OR lst))))"

definition canonical_host :: "string \<Rightarrow> string" where
  "canonical_host host =
     (case parse_ipv4 (rstrip_char (CHR ''.'') host) of
        Some address \<Rightarrow> show_ipv4 address | None \<Rightarrow> host)"

subsection \<open>Bounds, round trip, canonical form\<close>

lemma push_bit_or_add:
  fixes y :: nat
  assumes "y < 2 ^ k"
  shows "push_bit k x OR y = x * 2 ^ k + y"
proof -
  have "take_bit k y = y" using assms by (rule take_bit_nat_eq_self)
  then have "\<not> bit y i" if "k \<le> i" for i
    using that by (metis bit_take_bit_iff not_le)
  then have "\<not> bit (push_bit k x) i \<or> \<not> bit y i" for i
    by (cases "k \<le> i") (auto simp: bit_push_bit_iff_nat)
  then have "push_bit k x + y = push_bit k x OR y"
    by (rule disjunctive_add)
  then show ?thesis by (simp add: push_bit_eq_mult)
qed

lemma bytes_value_snoc: "bytes_value (bs @ [b]) = bytes_value bs * 256 + b"
  by (simp add: bytes_value_def)

lemma bytes_value_bound: "(\<forall>b \<in> set bs. b < 256) \<Longrightarrow> bytes_value bs < 256 ^ length bs"
proof (induction bs rule: rev_induct)
  case Nil
  then show ?case by (simp add: bytes_value_def)
next
  case (snoc b bs)
  then have "bytes_value bs + 1 \<le> 256 ^ length bs" "b < 256" by auto
  then have "bytes_value bs * 256 + b < 256 ^ length bs * 256" by linarith
  then show ?case by (simp add: bytes_value_snoc)
qed

lemma parse_ipv4_bound:
  assumes "parse_ipv4 text = Some n"
  shows "n < 2 ^ 32"
proof -
  from assms obtain vs where
    parts: "map_option_list part_value (split_on (CHR ''.'') text) = Some vs"
    and len: "1 \<le> length (split_on (CHR ''.'') text)" "length (split_on (CHR ''.'') text) \<le> 4"
    and head: "\<not> list_ex (\<lambda>v. 255 < v) (butlast vs)"
    and lst: "last vs < 256 ^ (4 - length (butlast vs))"
    and n: "n = push_bit (8 * (4 - length (butlast vs))) (bytes_value (butlast vs)) OR last vs"
    by (auto simp: parse_ipv4_def Let_def split: if_splits option.splits)
  let ?k = "4 - length (butlast vs)"
  have "length vs = length (split_on (CHR ''.'') text)"
    using parts by (auto simp: map_option_list_Some_iff dest: list_all2_lengthD)
  with len have k: "length (butlast vs) + ?k = 4" by simp
  have p: "(256::nat) ^ ?k = 2 ^ (8 * ?k)" by (simp add: power_mult)
  have "n = bytes_value (butlast vs) * 2 ^ (8 * ?k) + last vs"
    unfolding n by (rule push_bit_or_add) (use lst p in simp)
  moreover have "bytes_value (butlast vs) < 256 ^ length (butlast vs)"
    by (rule bytes_value_bound) (use head in \<open>auto simp: list_ex_iff\<close>)
  then have "bytes_value (butlast vs) + 1 \<le> 256 ^ length (butlast vs)" by simp
  then have "(bytes_value (butlast vs) + 1) * 256 ^ ?k \<le> 256 ^ length (butlast vs) * 256 ^ ?k"
    by (rule mult_le_mono1)
  then have "bytes_value (butlast vs) * 256 ^ ?k + last vs < 256 ^ length (butlast vs) * 256 ^ ?k"
    using lst by (simp only: add_mult_distrib mult_1)
  ultimately have "n < 256 ^ length (butlast vs) * 256 ^ ?k"
    by (simp only: p)
  also have "\<dots> = 256 ^ 4" by (simp only: power_add [symmetric] k)
  finally show ?thesis by simp
qed

lemma digits_not_special:
  "c \<in> set (digits_of 10 n) \<Longrightarrow> c \<noteq> CHR 0x0A \<and> c \<noteq> CHR ''x'' \<and> c \<noteq> CHR ''X'' \<and> c \<noteq> CHR ''.''"
  using digits_of_10_digits [of c n] by (auto simp: is_digit_def code_def)

lemma part_of_digits:
  shows "part_matches (digits_of 10 n)" and "part_value (digits_of 10 n) = Some n"
proof -
  let ?d = "digits_of 10 n"
  have body: "part_body ?d = ?d"
    using digits_not_special [of "last ?d" n] by (auto simp: part_body_def)
  show "part_matches ?d"
    unfolding part_matches_def using digits_of_10_digits by (auto simp: body list_all_iff)
  have no_x: "lower (take 2 ?d) \<noteq> ''0x''"
  proof
    assume "lower (take 2 ?d) = ''0x''"
    then obtain a b where ab: "take 2 ?d = [a, b]" "lower_char b = CHR ''x''"
      by (auto simp: lower_def map_eq_Cons_conv)
    then have "b \<in> set ?d" by (metis in_set_takeD list.set_intros(1) list.set_intros(2))
    then have "is_digit b" by (rule digits_of_10_digits)
    then have "lower_char b = b" by (simp add: lower_char_def is_digit_def Let_def)
    with ab(2) \<open>is_digit b\<close> show False by (auto simp: is_digit_def code_def)
  qed
  have no_zero: "\<not> (1 < length ?d \<and> hd ?d = CHR ''0'')"
  proof (cases "n = 0")
    case True
    then show ?thesis by simp
  next
    case False
    then show ?thesis using digits_of_10_no_leading_zero by simp
  qed
  show "part_value ?d = Some n"
    unfolding part_value_def Let_def body
    using no_x no_zero by (simp only: if_False not_False_eq_True) (simp add: int_of_digits_digits_of)
qed

lemma map_option_list_map: "(\<And>x. x \<in> set xs \<Longrightarrow> g (f x) = Some x) \<Longrightarrow> map_option_list g (map f xs) = Some xs"
  by (induction xs) auto

lemma parse_ipv4_bytes:
  assumes "\<forall>b \<in> {a, b, c, d}. b < 256"
  shows "parse_ipv4 (join ''.'' (map (digits_of 10) [a, b, c, d])) = Some (bytes_value [a, b, c, d])"
proof -
  let ?bs = "[a, b, c, d]"
  have parts: "split_on (CHR ''.'') (join ''.'' (map (digits_of 10) ?bs)) = map (digits_of 10) ?bs"
    by (rule split_on_join) (auto dest: digits_not_special)
  have matched: "list_all part_matches (map (digits_of 10) ?bs)"
    by (simp add: part_of_digits)
  have vals: "map_option_list part_value (map (digits_of 10) ?bs) = Some ?bs"
    by (rule map_option_list_map) (rule part_of_digits)
  have "push_bit 8 (bytes_value [a, b, c]) OR d = bytes_value [a, b, c] * 2 ^ 8 + d"
    by (rule push_bit_or_add) (use assms in simp)
  then have "push_bit 8 (bytes_value [a, b, c]) OR d = bytes_value ?bs"
    by (simp add: bytes_value_def)
  then show ?thesis
    unfolding parse_ipv4_def parts Let_def using matched vals assms
    by (simp del: map_option_list.simps list.map)
qed

lemma parse_ipv4_show_ipv4:
  assumes "n < 2 ^ 32"
  shows "parse_ipv4 (show_ipv4 n) = Some n"
proof -
  have "\<forall>b \<in> {n div 256 ^ 3 mod 256, n div 256 ^ 2 mod 256, n div 256 mod 256, n mod 256}. b < 256"
    by (simp only: ball_simps insert_iff empty_iff) (intro conjI mod_less_divisor, simp_all)
  from parse_ipv4_bytes [OF this] show ?thesis
    unfolding show_ipv4_def bytes_of_value [OF assms] .
qed

lemma show_ipv4_no_closing_dot: "rstrip_char (CHR ''.'') (show_ipv4 n) = show_ipv4 n"
proof -
  have "last (show_ipv4 n) = last (digits_of 10 (n mod 256))"
    by (simp add: show_ipv4_def last_append)
  then have "last (show_ipv4 n) \<noteq> CHR ''.''"
    using digits_not_special [of "last (digits_of 10 (n mod 256))" "n mod 256"] by simp
  then show ?thesis by (simp add: rstrip_char_def rdrop_while_id)
qed

lemma canonical_host_parse:
  "parse_ipv4 (rstrip_char (CHR ''.'') (canonical_host host)) = parse_ipv4 (rstrip_char (CHR ''.'') host)"
  using parse_ipv4_bound parse_ipv4_show_ipv4
  by (auto simp: canonical_host_def show_ipv4_no_closing_dot split: option.splits)

end
