(* ===== verification/Path_Properties.thy ===== *)
theory Path_Properties
  imports Path_Facts Glob_Facts Addresses
begin

section \<open>Properties of paths, patterns and addresses\<close>

text \<open>
  What the lexical layer below the boundary promises: the comparison form of a path is stable, an
  access path is always a canonical absolute path, \<open>is_inside\<close> is the prefix order on segments,
  and the pattern functions agree with the meaning of a pattern as a set of segment lists.
\<close>

subsection \<open>Access paths are canonical\<close>

lemma expand_short_loop_canonical:
  assumes "canonical True p" "expand_short_loop h p n = Some q"
  shows "canonical True q"
  using assms(2)
proof (induction n)
  case 0
  then show ?case using assms(1) by simp
next
  case (Suc n)
  let ?front = "take (Suc n) (segments p)"
  have step: "q = p \<or> expand_short_loop h p n = Some q \<or> (\<exists>expanded head.
      split_lexical True expanded = Some head \<and> casefold (root head) = casefold (root p)
      \<and> unsafe head = None
      \<and> q = \<lparr>root = root p, segments = segments head @ drop (Suc n) (segments p), unsafe = None\<rparr>)"
  proof (cases "list_ex (\<lambda>s. CHR ''~'' \<in> set s) ?front")
    case True
    then show ?thesis using Suc.prems
      by (cases "long_path_name h (root p @ join ''/'' ?front)")
        (auto simp: Let_def split: if_splits option.splits)
  qed (use Suc.prems in \<open>simp add: Let_def\<close>)
  then consider "q = p" | "expand_short_loop h p n = Some q"
    | expanded head where "split_lexical True expanded = Some head"
        "casefold (root head) = casefold (root p)" "unsafe head = None"
        "q = \<lparr>root = root p, segments = segments head @ drop (Suc n) (segments p), unsafe = None\<rparr>"
    by blast
  then show ?case
  proof cases
    case 3
    have "\<exists>c. is_upper_ascii c \<and> root p = c # '':/''"
      using assms(1) by (simp add: canonical_def canonical_root_def)
    then have head: "root head \<noteq> []" "root head \<noteq> ''/''"
      using 3(2) by (auto simp: casefold_def split: if_splits)
    then have "canonical True head"
      using split_lexical_canonical [OF 3(1,3)] by (simp add: absolute_def driveless_def)
    then show ?thesis
      using assms(1) unfolding 3(4) by (auto simp: canonical_def clean_def list_all_iff dest: in_set_dropD)
  qed (use assms(1) Suc.IH in simp_all)
qed

lemma resolution_input_canonical:
  assumes "canonical w p" "resolution_input h w base t p = Some (q, input)"
  shows "canonical w q"
  using assms expand_short_loop_canonical
  by (fastforce simp: resolution_input_def expand_short_names_def split: if_splits)

text \<open>A safe access path is canonical: below an absolute base, the lexical form of every access
  path is an absolute path without \<open>.\<close>, \<open>..\<close> and empty segments (on Windows with a drive and without
  trailing dots), so comparing its key is comparing places.\<close>

theorem access_path_is_canonical:
  assumes "normalize_access_path h w base home follow path = Some n" "np_unsafe n = None"
    and "split_lexical w base = Some b" "canonical w b"
  shows "\<exists>p. canonical w p \<and> np_lexical n = path_text p"
proof -
  from assms(1-3) obtain sp q input where q:
    "split_lexical w (expand_home w home path) = Some sp" "unsafe (join_lexical b sp) = None"
    "resolution_input h w base (expand_home w home path) (join_lexical b sp) = Some (q, input)"
    "np_lexical n = path_text q"
    by (auto simp: normalize_access_path_def Let_def bind_eq_Some_conv split: if_splits)
  have "unsafe sp = None"
    using q(2) by (cases "unsafe sp") (auto simp: join_lexical_def Let_def split: if_splits)
  then have "canonical w (join_lexical b sp)"
    by (rule join_lexical_canonical [OF assms(4) q(1)])
  from resolution_input_canonical [OF this q(3)] q(4) show ?thesis by blast
qed

definition plain_host :: host where
  "plain_host = \<lparr>realpath = (\<lambda>t. t), lexists = (\<lambda>_. True), long_path_name = (\<lambda>_. None)\<rparr>"

theorem access_path_is_canonical_witness:
  "\<exists>p. canonical True p \<and> ''C:/w/b'' = path_text p"
proof -
  let ?n = "\<lparr>np_lexical = ''C:/w/b'', np_resolved = ''C:/w/b'', np_unsafe = None\<rparr>"
  let ?b = "\<lparr>root = ''C:/'', segments = [''w''], unsafe = None\<rparr>"
  have n: "normalize_access_path plain_host True ''C:/w'' ''C:/h'' True ''a/../b.'' = Some ?n" by code_simp
  have b: "split_lexical True ''c:/w/'' = Some ?b" "split_lexical True ''C:/w'' = Some ?b" by code_simp+
  have "canonical True ?b" by (rule split_lexical_canonical [OF b(1)]) code_simp+
  from access_path_is_canonical [OF n _ b(2) this] show ?thesis by simp
qed

text \<open>Printing and splitting an absolute path again gives the same path: the text of every safe
  path with a root (on Windows with a drive) is a fixed point of normalization.\<close>

theorem normalized_text_is_stable:
  assumes "split_lexical w t = Some p" "unsafe p = None" "absolute p" "\<not> driveless w p"
  shows "split_lexical w (path_text p) = Some p"
  by (rule split_lexical_canonical_text) (rule split_lexical_canonical [OF assms])

theorem normalized_text_is_stable_witness:
  "split_lexical True ''C:/b'' = Some \<lparr>root = ''C:/'', segments = [''b''], unsafe = None\<rparr>"
proof -
  let ?p = "\<lparr>root = ''C:/'', segments = [''b''], unsafe = None\<rparr>"
  have "split_lexical True [CHR ''c'', CHR '':'', CHR 0x5C, CHR ''a'', CHR ''/'', CHR ''.'', CHR ''.'', CHR ''/'', CHR ''b'', CHR '' ''] = Some ?p" by code_simp
  from normalized_text_is_stable [OF this] show ?thesis
    by (simp add: absolute_def driveless_def path_text_def)
qed

text \<open>On canonical paths with one root, \<open>is_inside\<close> of the comparison keys is the prefix order on
  their segments: no sibling whose name merely starts alike counts as inside.\<close>

theorem inside_is_segment_prefix:
  assumes "canonical w p" "canonical w f" "path_key w (root p) = path_key w (root f)"
  shows "is_inside (path_key w (path_text p)) (path_key w (path_text f)) \<longleftrightarrow>
    prefix (map (path_key w) (segments f)) (map (path_key w) (segments p))"
  by (rule is_inside_canonical [OF assms])

theorem inside_is_segment_prefix_witness: "\<not> is_inside ''/ab/c'' ''/a''"
proof -
  let ?p = "\<lparr>root = ''/'', segments = [''ab'', ''c''], unsafe = None\<rparr>"
  let ?f = "\<lparr>root = ''/'', segments = [''a''], unsafe = None\<rparr>"
  have "canonical False ?p" "canonical False ?f" by code_simp+
  from inside_is_segment_prefix [OF this] show ?thesis by (simp add: path_text_def path_key_def)
qed

subsection \<open>Patterns\<close>

text \<open>\<open>_segments_meet\<close> decides exactly whether two segment patterns share a path, the question the
  subtree checks ask of an access and a deny rule.\<close>

theorem segments_meet_decides_common_path:
  "segments_meet P Q \<longleftrightarrow> (\<exists>w. segs_match P w \<and> segs_match Q w)"
  by (rule segments_meet_iff)

text \<open>C40. The compiled expression of a pattern without wildcards matches its own text and whatever
  follows it after a slash on one line: an entry below whose name holds a newline is not covered.\<close>

theorem literal_pattern_matches:
  assumes "\<not> has_wildcard p" "\<not> ends_with ''/'' p"
  shows "rx_match (compile_pattern p) k \<longleftrightarrow>
    k = p \<or> (\<exists>r. k = p @ CHR ''/'' # r \<and> CHR 0x0A \<notin> set r)"
  by (rule compile_pattern_literal [OF assms])

theorem literal_pattern_matches_witness:
  "rx_match (compile_pattern ''/a'') ''/a/b'' \<and> \<not> rx_match (compile_pattern ''/a'') (''/a/'' @ [CHR 0x0A])"
proof -
  have "\<not> has_wildcard ''/a''" "\<not> ends_with ''/'' ''/a''" by code_simp+
  from literal_pattern_matches [OF this] show ?thesis by simp
qed

text \<open>Whatever the compiled expression matches lies in the segment meaning of the pattern followed
  by anything below, so a check on segments never misses what a rule matches.\<close>

theorem compiled_pattern_within_segments:
  assumes "rx_match (compile_pattern p) k"
  shows "segs_match (key_segments p @ [''**'']) (split_on (CHR ''/'') k)"
  by (rule compile_pattern_sound [OF assms])

theorem compiled_pattern_within_segments_witness:
  "segs_match (key_segments ''/a/**/b*'' @ [''**'']) [[], ''a'', ''x'', ''by'', ''z'']"
proof -
  have "rx_match (compile_pattern ''/a/**/b*'') ''/a/x/by/z''" by code_simp
  from compiled_pattern_within_segments [OF this] show ?thesis by simp
qed

text \<open>\<open>patterns_below\<close> is complete: every match of a pattern below a folder is covered by one of
  the relative patterns it returns for the folder.\<close>

theorem patterns_below_is_complete:
  assumes "rx_match (compile_pattern p) k"
    and "split_on (CHR ''/'') k = key_segments folder @ ws"
  shows "\<exists>r \<in> set (patterns_below p folder). below_match r ws"
  by (rule patterns_below_covers [OF assms])

theorem patterns_below_is_complete_witness:
  "\<exists>r \<in> set (patterns_below ''/a/**/b'' ''/a''). below_match r [''x'', ''b'']"
  by (rule patterns_below_is_complete [of _ "''/a/x/b''"]) code_simp+

text \<open>\<open>pruned_away\<close> is sound: when it holds, every match of the pattern has a pruned name among its
  segments below the folder.\<close>

theorem pruned_away_is_sound:
  assumes "pruned_away p folder pruned" "rx_match (compile_pattern p) k"
  shows "\<exists>s \<in> set (drop (length (key_segments folder)) (split_on (CHR ''/'') k)). s \<in> set pruned"
  by (rule pruned_away_sound [OF assms])

theorem pruned_away_is_sound_witness:
  "\<exists>s \<in> set (drop (length (key_segments ''/a'')) (split_on (CHR ''/'') ''/a/v/x'')). s \<in> set [''v'']"
  by (rule pruned_away_is_sound [of "''/a/v/*''"]) code_simp+

subsection \<open>Addresses\<close>

text \<open>What \<open>parse_ipv4\<close> reads fits 32 bits, whatever the number of parts and their bases.\<close>

theorem parsed_address_fits:
  assumes "parse_ipv4 text = Some n"
  shows "n < 2 ^ 32"
  by (rule parse_ipv4_bound [OF assms])

theorem parsed_address_fits_witness: "(258::nat) < 2 ^ 32"
proof -
  have "parse_ipv4 ''0.00.0x1.2'' = Some 258" by code_simp
  then show ?thesis by (rule parsed_address_fits)
qed

text \<open>The canonical form of a host is stable: taking it twice changes nothing more, so rules and
  checks that compare canonical forms agree however often it was taken.\<close>

theorem canonical_host_is_stable: "canonical_host (canonical_host host) = canonical_host host"
  using canonical_host_parse [of host] by (auto simp: canonical_host_def split: option.splits)

end
