(* ===== verification/Py_Json.thy ===== *)
theory Py_Json
  imports Py_Text
begin

section \<open>Stored values\<close>

text \<open>
  The values of a parsed JSON document, as the program's readers receive them. An object is the
  list of its members in order (a Python dict keeps insertion order); the readers below take the
  member of a key as \<open>dict.get\<close> does. A number is modelled by its integer value.
\<close>

datatype pyval =
    PNone | PBool bool | PNum int | PStr string | PList "pyval list"
  | PDict "(string \<times> pyval) list"

definition member :: "(string \<times> pyval) list \<Rightarrow> string \<Rightarrow> pyval" where
  "member fields key = (case map_of fields key of Some v \<Rightarrow> v | None \<Rightarrow> PNone)"

definition has_member :: "(string \<times> pyval) list \<Rightarrow> string \<Rightarrow> bool" where
  "has_member fields key \<longleftrightarrow> key \<in> set (map fst fields)"

definition is_pstr :: "pyval \<Rightarrow> bool" where
  "is_pstr v = (case v of PStr _ \<Rightarrow> True | _ \<Rightarrow> False)"

lemma member_Cons [simp]:
  "member ((k, v) # fields) key = (if k = key then v else member fields key)"
  by (simp add: member_def)

lemma member_Nil [simp]: "member [] key = PNone"
  by (simp add: member_def)

lemma has_member_simps [simp]:
  "\<not> has_member [] key"
  "has_member ((k, v) # fields) key \<longleftrightarrow> k = key \<or> has_member fields key"
  "has_member (xs @ ys) key \<longleftrightarrow> has_member xs key \<or> has_member ys key"
  by (auto simp: has_member_def)

lemma member_append:
  "member (xs @ ys) key = (if has_member xs key then member xs key else member ys key)"
proof (induction xs)
  case (Cons x xs)
  then show ?case by (cases x) auto
qed simp

end
