(* ===== verification/Rules.thy ===== *)
theory Rules
  imports Paths Addresses Py_Json
begin

section \<open>The rule language\<close>

text \<open>
  \<open>core/permissions/_rules.py\<close>: the parts of a rule set, the strict normalizer of stored rule
  sets and rule strings, the resolution of levels and the intersection of two levels, and the
  comparison forms of hosts. A raise is a value of an error type; its sentence is left out. A
  \<open>ValueError\<close> of \<open>urlsplit\<close> (\<open>Escaped\<close>) is none of the errors the normalizer handles and passes
  through it. The third-party package \<open>idna\<close> is a parameter.
\<close>

datatype rule_kind = Read | Edit | Shell | Web

datatype read_base = Read_Anywhere | Read_Work_Area
datatype write_base = Write_Anywhere | Write_Work_Area | Write_Scratch
datatype list_base = Any | Listed

record permission_rule =
  kind :: rule_kind
  pattern :: string

record permission_rules =
  rs_read :: "read_base option"
  rs_write :: "write_base option"
  rs_commands :: "list_base option"
  rs_web :: "list_base option"
  rs_allow :: "permission_rule list option"
  rs_deny :: "permission_rule list option"

record idna =
  idna_encode :: "bool \<Rightarrow> string \<Rightarrow> string option"
  uts46_remap :: "string \<Rightarrow> string option"

definition placeholders :: "string list" where
  "placeholders = [''workdir'', ''project'', ''scratch'', ''workspace'', ''home'']"

definition rule_parts :: "string list" where
  "rule_parts = [''read'', ''write'', ''commands'', ''web'', ''allow'', ''deny'']"

definition kind_text :: "rule_kind \<Rightarrow> string" where
  "kind_text k = (case k of Read \<Rightarrow> ''Read'' | Edit \<Rightarrow> ''Edit'' | Shell \<Rightarrow> ''Shell'' | Web \<Rightarrow> ''Web'')"

definition rule_text :: "permission_rule \<Rightarrow> string" where
  "rule_text r = kind_text (kind r) @ ''('' @ pattern r @ '')''"

text \<open>\<open>_KINDS\<close> and \<open>_ALIASES\<close>.\<close>

definition own_kinds :: "(string \<times> rule_kind) list" where
  "own_kinds = [(''read'', Read), (''edit'', Edit), (''shell'', Shell), (''web'', Web)]"

definition alias_kinds :: "(string \<times> rule_kind) list" where
  "alias_kinds =
     [(''write'', Edit), (''multiedit'', Edit), (''notebookedit'', Edit), (''glob'', Read),
      (''grep'', Read), (''ls'', Read), (''list'', Read), (''bash'', Shell),
      (''powershell'', Shell), (''webfetch'', Web)]"

definition path_kind :: "rule_kind \<Rightarrow> bool" where
  "path_kind k \<longleftrightarrow> k = Read \<or> k = Edit"

definition restricts :: "permission_rules \<Rightarrow> bool" where
  "restricts r \<longleftrightarrow>
     (rs_deny r \<noteq> None \<and> rs_deny r \<noteq> Some [])
     \<or> rs_read r \<notin> {None, Some Read_Anywhere} \<or> rs_write r \<notin> {None, Some Write_Anywhere}
     \<or> rs_commands r \<notin> {None, Some Any} \<or> rs_web r \<notin> {None, Some Any}"

definition write_within_read :: "read_base option \<Rightarrow> write_base \<Rightarrow> write_base" where
  "write_within_read read write =
     (if read = Some Read_Work_Area \<and> write = Write_Anywhere then Write_Work_Area else write)"

subsection \<open>Errors\<close>

datatype rule_problem =
    No_Rule_Form | Unknown_Kind string | Needs_Path rule_kind | Control_In_Path
  | Unknown_Placeholder string | Placeholder_Must_End string | Placeholder_Inside string
  | Not_Relative string string | Drive_Needs_Slash | Control_In_Command
  | Needs_Host | Star_Inside | Address_Wildcard | Not_A_Host | Invalid_Host string
  | Escaped

datatype rules_error =
    Not_An_Object pyval | Unknown_Part string | Bad_Base string pyval | Write_Wider_Than_Read
  | Not_A_Rule_List string pyval | Not_A_Rule_String string nat pyval
  | Bad_Rule string nat string rule_problem | Value_Error

subsection \<open>Hosts\<close>

definition contains :: "string \<Rightarrow> string \<Rightarrow> bool" where
  "contains sub s \<longleftrightarrow> list_ex (\<lambda>i. starts_with sub (drop i s)) [0..<Suc (length s)]"

definition address_form :: "string \<Rightarrow> string option" where
  "address_form t =
     (case ip_address t of None \<Rightarrow> None
      | Some (IPv6 n scope) \<Rightarrow>
          (case ipv4_mapped n of Some m \<Rightarrow> Some (show_ipv4 m) | None \<Rightarrow> Some (show_ip (IPv6 n scope)))
      | Some (IPv4 n) \<Rightarrow> Some (show_ip (IPv4 n)))"

definition is_ip :: "string \<Rightarrow> bool" where
  "is_ip t \<longleftrightarrow> ip_address t \<noteq> None"

definition host_name_char :: "char \<Rightarrow> bool" where
  "host_name_char c \<longleftrightarrow> is_lower_ascii c \<or> is_digit c \<or> c \<in> {CHR ''_'', CHR ''.'', CHR ''-''}"

text \<open>\<open>_IDNA_DEVIATIONS\<close> on the model's texts: the sharp s.\<close>

definition transitional :: "string \<Rightarrow> string" where
  "transitional t = concat (map (\<lambda>c. if code c = 223 then ''ss'' else [c]) t)"

text \<open>What \<open>host_forms\<close> and \<open>_host_pattern\<close> do about brackets and resolver forms.\<close>

definition unbracketed :: "string \<Rightarrow> string" where
  "unbracketed t =
     (if starts_with ''['' t \<and> ends_with '']'' t then drop 1 (take (length t - 1) t)
      else canonical_host t)"

definition host_forms :: "idna \<Rightarrow> string \<Rightarrow> string list" where
  "host_forms idn host =
     (let t = unbracketed (rstrip_char (CHR ''.'') (lower (strip host))) in
      case address_form t of Some a \<Rightarrow> [a]
      | None \<Rightarrow>
          if list_all is_ascii t then (if t \<noteq> [] \<and> list_all host_name_char t then [t] else [])
          else (case uts46_remap idn t of None \<Rightarrow> []
                | Some mapped \<Rightarrow>
                    (case map_option_list (idna_encode idn False) [t, transitional mapped] of
                       None \<Rightarrow> []
                     | Some names \<Rightarrow> dedup (map (rstrip_char (CHR ''.'')) names))))"

definition normalize_host :: "idna \<Rightarrow> string \<Rightarrow> string option" where
  "normalize_host idn host =
     (case host_forms idn host of [] \<Rightarrow> None | form # _ \<Rightarrow> Some form)"

definition host_matches :: "string \<Rightarrow> string \<Rightarrow> bool" where
  "host_matches pat host \<longleftrightarrow>
     (if pat = ''*'' then True
      else if starts_with ''*.'' pat then ends_with (drop 1 pat) host
      else if is_ip pat then host = pat
      else host = pat \<or> ends_with (''.'' @ pat) host)"

definition host_label :: "string \<Rightarrow> bool" where
  "host_label l \<longleftrightarrow>
     l \<noteq> [] \<and> length l \<le> 63 \<and> list_all (\<lambda>c. is_lower_ascii c \<or> is_digit c \<or> c = CHR ''-'') l
     \<and> hd l \<noteq> CHR ''-'' \<and> last l \<noteq> CHR ''-''"

text \<open>The end of \<open>_host_pattern\<close>, from the encoded name on.\<close>

definition encoded_host :: "idna \<Rightarrow> bool \<Rightarrow> string \<Rightarrow> rule_problem + string" where
  "encoded_host idn wildcard body =
     (case idna_encode idn True body of None \<Rightarrow> Inl (Invalid_Host body)
      | Some encoded \<Rightarrow>
          if 253 < length encoded \<or> \<not> list_all host_label (split_on (CHR ''.'') encoded)
          then Inl (Invalid_Host body)
          else Inr ((if wildcard then ''*.'' else []) @ encoded))"

definition host_of_text :: "string \<Rightarrow> string option" where
  "host_of_text t =
     (let host0 = lower (strip t);
          host = (if starts_with ''domain:'' host0 then strip (drop 7 host0) else host0) in
      if contains ''://'' host then map_option url_hostname (urlsplit host) else Some host)"

definition host_pattern :: "idna \<Rightarrow> string \<Rightarrow> rule_problem + string" where
  "host_pattern idn t =
     (case host_of_text t of None \<Rightarrow> Inl Escaped
      | Some host \<Rightarrow>
          if host = ''*'' then Inr ''*''
          else (let wildcard = starts_with ''*.'' host;
                    body = rstrip_char (CHR ''.'') (if wildcard then drop 2 host else host) in
            if body = [] then Inl Needs_Host
            else if CHR ''*'' \<in> set body then Inl Star_Inside
            else (case address_form (unbracketed body) of
                    Some address \<Rightarrow> if wildcard then Inl Address_Wildcard else Inr address
                  | None \<Rightarrow>
                      if list_ex (\<lambda>c. c = CHR ''/'' \<or> c = CHR '':'' \<or> is_control c \<or> c = CHR '' '') body
                      then Inl Not_A_Host
                      else encoded_host idn wildcard body)))"

subsection \<open>Command and path patterns\<close>

definition command_pattern :: "string \<Rightarrow> rule_problem + string" where
  "command_pattern t =
     (if list_ex is_control (replace_char (CHR 0x09) (CHR '' '') t) then Inl Control_In_Command
      else (let command = single_spaced t in
            if ends_with '':*'' command
            then Inr (rdrop_while is_space (take (length command - 2) command) @ '' *'')
            else Inr command))"

text \<open>Claude Code's \<open>//path\<close> for an absolute path, \<open>//c/\<close> for a Windows drive.\<close>

definition foreign_absolute :: "bool \<Rightarrow> string \<Rightarrow> string" where
  "foreign_absolute windows t =
     (if starts_with ''//'' t \<and> \<not> starts_with ''///'' t \<and> \<not> starts_with ''//?/'' t
          \<and> \<not> starts_with ''//./'' t
      then (let rest = drop 2 t in
            if windows
            then (if rest \<noteq> [] \<and> is_letter (hd rest)
                      \<and> (tl rest = [] \<or> starts_with ''/'' (tl rest) \<or> tl rest = [CHR 0x0A])
                  then upper_char_ascii (hd rest) # '':/'' @ drop 2 rest else t)
            else ''/'' @ rest)
      else t)"

text \<open>\<open>_PLACEHOLDER_AT_START\<close>: the name and the text after it.\<close>

definition placeholder_at_start :: "string \<Rightarrow> (string \<times> string) option" where
  "placeholder_at_start t =
     (if starts_with ''{'' t
      then (let name = takeWhile (\<lambda>c. c \<notin> {CHR ''{'', CHR ''}'', CHR ''/'', CHR 0x5C}) (tl t);
                rest = drop (length name) (tl t) in
            if starts_with ''}'' rest then Some (name, tl rest) else None)
      else None)"

text \<open>\<open>_ANY_PLACEHOLDER.search\<close>: the first name in braces.\<close>

fun any_placeholder :: "string \<Rightarrow> string option" where
  "any_placeholder [] = None"
| "any_placeholder (c # s) =
     (let name = takeWhile (\<lambda>c. is_letter c \<or> c = CHR ''_'' \<or> c = CHR '' '') s in
      if c = CHR ''{'' \<and> name \<noteq> [] \<and> starts_with ''}'' (drop (length name) s) then Some name
      else any_placeholder s)"

text \<open>The lead of a path pattern (a placeholder, the home sign or nothing) and the text after it.\<close>

definition path_lead :: "bool \<Rightarrow> string \<Rightarrow> rule_problem + string \<times> string" where
  "path_lead windows t =
     (case placeholder_at_start t of
        Some (written, rest) \<Rightarrow>
          (let name = lower (strip written) in
           if name \<notin> set placeholders then Inl (Unknown_Placeholder written)
           else if rest \<noteq> [] \<and> hd rest \<noteq> CHR ''/'' \<and> hd rest \<noteq> CHR 0x5C
           then Inl (Placeholder_Must_End name)
           else Inr (''{'' @ name @ ''}'', rest))
      | None \<Rightarrow>
          if t = ''~'' \<or> starts_with ''~/'' t \<or> (windows \<and> starts_with [CHR ''~'', CHR 0x5C] t)
          then Inr (''~'', drop 1 t) else Inr ([], t))"

definition path_pattern :: "bool \<Rightarrow> string \<Rightarrow> rule_problem + string" where
  "path_pattern windows t0 =
     (if list_ex is_control t0 then Inl Control_In_Path
      else (case path_lead windows (foreign_absolute windows t0) of Inl e \<Rightarrow> Inl e
        | Inr (lead, t) \<Rightarrow>
            (case any_placeholder t of
               Some written \<Rightarrow>
                 (let name = lower (strip written) in
                  if name \<in> set placeholders then Inl (Placeholder_Inside name)
                  else Inl (Unknown_Placeholder written))
             | None \<Rightarrow>
                 if lead \<noteq> []
                 then (case split_lexical windows
                              (dropWhile (\<lambda>c. c = CHR ''/'' \<or> c = CHR 0x5C) t) of
                         None \<Rightarrow> Inl Escaped
                       | Some p \<Rightarrow>
                           if unsafe p \<noteq> None then Inl (Not_Relative lead t)
                           else Inr (lead @ (if segments p \<noteq> [] then ''/'' @ path_text p else [])))
                 else (case split_lexical windows t of
                         None \<Rightarrow> Inl Escaped
                       | Some p \<Rightarrow>
                           if unsafe p = Some DriveRelativePath then Inl Drive_Needs_Slash
                           else Inr (path_text p)))))"

subsection \<open>One rule string\<close>

text \<open>\<open>_RULE\<close>: the kind as written and what stands between the outermost brackets.\<close>

definition rule_form :: "string \<Rightarrow> (string \<times> string option) option" where
  "rule_form t0 =
     (let t = dropWhile is_space t0; letters = takeWhile is_letter t;
          rest = dropWhile is_space (dropWhile is_letter t); closed = rdrop_while is_space rest in
      if letters = [] then None
      else if rest = [] then Some (letters, None)
      else if hd rest = CHR ''('' \<and> last closed = CHR '')'' then Some (letters, Some (butlast (tl closed)))
      else None)"

definition kind_named :: "string \<Rightarrow> rule_kind option" where
  "kind_named written =
     (case map_of own_kinds (lower written) of Some k \<Rightarrow> Some k
      | None \<Rightarrow> map_of alias_kinds (lower written))"

text \<open>The pattern of a rule and whether the text was another harness's spelling.\<close>

definition kind_pattern ::
  "idna \<Rightarrow> bool \<Rightarrow> rule_kind \<Rightarrow> string \<Rightarrow> rule_problem + string \<times> bool" where
  "kind_pattern idn windows k t =
     (if path_kind k
      then (case path_pattern windows t of Inl e \<Rightarrow> Inl e
            | Inr p \<Rightarrow> Inr (p, starts_with ''//'' t \<and> \<not> starts_with ''//'' p))
      else if k = Shell
      then (case command_pattern t of Inl e \<Rightarrow> Inl e | Inr p \<Rightarrow> Inr (p, ends_with '':*'' t))
      else (case host_pattern idn t of Inl e \<Rightarrow> Inl e
            | Inr p \<Rightarrow> Inr (p, starts_with ''domain:'' (lower t) \<or> contains ''://'' (lower t))))"

text \<open>The rule and, for a rewritten text, the note: what was written and how it was saved.\<close>

definition parse_rule ::
  "idna \<Rightarrow> bool \<Rightarrow> string \<Rightarrow> rule_problem + permission_rule \<times> (string \<times> string) option" where
  "parse_rule idn windows t =
     (case rule_form t of None \<Rightarrow> Inl No_Rule_Form
      | Some (written, inner) \<Rightarrow>
          (case kind_named written of None \<Rightarrow> Inl (Unknown_Kind written)
           | Some k \<Rightarrow>
               (let body = strip (case inner of None \<Rightarrow> [] | Some i \<Rightarrow> i);
                    foreign = map_of own_kinds (lower written) = None \<or> body = [] in
                if body = [] \<and> path_kind k then Inl (Needs_Path k)
                else (case kind_pattern idn windows k (if body = [] then ''*'' else body) of
                        Inl e \<Rightarrow> Inl e
                      | Inr (p, rewritten) \<Rightarrow>
                          (let rule = \<lparr>kind = k, pattern = p\<rparr> in
                           Inr (rule, if foreign \<or> rewritten then Some (strip t, rule_text rule)
                                      else None))))))"

text \<open>\<open>normalize_permission_rule\<close> and \<open>parse_permission_rule\<close>: \<open>None\<close> is the escaping error.\<close>

datatype rule_error = Not_A_String pyval | Is_No_Rule string rule_problem

definition normalize_permission_rule ::
  "idna \<Rightarrow> bool \<Rightarrow> pyval \<Rightarrow> (rule_error + permission_rule \<times> (string \<times> string) option) option" where
  "normalize_permission_rule idn windows v =
     (case v of
        PStr t \<Rightarrow>
          (case parse_rule idn windows t of
             Inl Escaped \<Rightarrow> None
           | Inl problem \<Rightarrow> Some (Inl (Is_No_Rule (strip t) problem))
           | Inr outcome \<Rightarrow> Some (Inr outcome))
      | _ \<Rightarrow> Some (Inl (Not_A_String v)))"

definition parse_permission_rule ::
  "idna \<Rightarrow> bool \<Rightarrow> string \<Rightarrow> rule_problem + permission_rule" where
  "parse_permission_rule idn windows t =
     (case parse_rule idn windows t of Inl e \<Rightarrow> Inl e | Inr (r, _) \<Rightarrow> Inr r)"

subsection \<open>Rule sets\<close>

text \<open>\<open>_base\<close>: the value named by a text, up to case, spaces and hyphens.\<close>

definition base_key :: "string \<Rightarrow> string" where
  "base_key t = map (\<lambda>c. if c = CHR ''-'' \<or> c = CHR '' '' then CHR ''_'' else c) (lower (strip t))"

definition base_of :: "(string \<times> 'b) list \<Rightarrow> string \<Rightarrow> pyval \<Rightarrow> rules_error + 'b option" where
  "base_of choices part v =
     (case v of PNone \<Rightarrow> Inr None
      | PStr t \<Rightarrow> (case map_of choices (base_key t) of Some b \<Rightarrow> Inr (Some b) | None \<Rightarrow> Inl (Bad_Base part v))
      | _ \<Rightarrow> Inl (Bad_Base part v))"

definition read_bases :: "(string \<times> read_base) list" where
  "read_bases = [(''anywhere'', Read_Anywhere), (''work_area'', Read_Work_Area)]"

definition write_bases :: "(string \<times> write_base) list" where
  "write_bases =
     [(''anywhere'', Write_Anywhere), (''work_area'', Write_Work_Area), (''scratch'', Write_Scratch)]"

definition list_bases :: "(string \<times> list_base) list" where
  "list_bases = [(''any'', Any), (''listed'', Listed)]"

text \<open>One item of a rule list, with the index its error names.\<close>

definition list_item ::
  "idna \<Rightarrow> bool \<Rightarrow> string \<Rightarrow> nat \<Rightarrow> pyval \<Rightarrow> rules_error + permission_rule \<times> (string \<times> string) option" where
  "list_item idn windows part index v =
     (case v of
        PStr t \<Rightarrow>
          (case parse_rule idn windows t of
             Inl Escaped \<Rightarrow> Inl Value_Error
           | Inl problem \<Rightarrow> Inl (Bad_Rule part index (strip t) problem)
           | Inr outcome \<Rightarrow> Inr outcome)
      | _ \<Rightarrow> Inl (Not_A_Rule_String part index v))"

fun list_items ::
  "idna \<Rightarrow> bool \<Rightarrow> string \<Rightarrow> nat \<Rightarrow> pyval list \<Rightarrow>
     rules_error + (permission_rule \<times> (string \<times> string) option) list" where
  "list_items idn windows part index [] = Inr []"
| "list_items idn windows part index (v # vs) =
     (case list_item idn windows part index v of Inl e \<Rightarrow> Inl e
      | Inr x \<Rightarrow> (case list_items idn windows part (Suc index) vs of Inl e \<Rightarrow> Inl e
                 | Inr xs \<Rightarrow> Inr (x # xs)))"

text \<open>The notes of the items that were rewritten, in order.\<close>

definition notes_of :: "('r \<times> 'n option) list \<Rightarrow> 'n list" where
  "notes_of items = concat (map (\<lambda>(_, note). case note of None \<Rightarrow> [] | Some n \<Rightarrow> [n]) items)"

definition rule_list ::
  "idna \<Rightarrow> bool \<Rightarrow> string \<Rightarrow> pyval \<Rightarrow> rules_error + permission_rule list option \<times> (string \<times> string) list" where
  "rule_list idn windows part v =
     (case v of PNone \<Rightarrow> Inr (None, [])
      | PList items \<Rightarrow>
          (case list_items idn windows part 0 items of Inl e \<Rightarrow> Inl e
           | Inr parsed \<Rightarrow> Inr (Some (dedup (map fst parsed)), notes_of parsed))
      | _ \<Rightarrow> Inl (Not_A_Rule_List part v))"

definition require_write_within_read ::
  "read_base option \<Rightarrow> write_base option \<Rightarrow> bool" where
  "require_write_within_read read write \<longleftrightarrow>
     \<not> (read = Some Read_Work_Area \<and> write = Some Write_Anywhere)"

datatype submitted = Ready permission_rules | Stored pyval

text \<open>\<open>normalize_permission_rules\<close>: the normalized set and the notes.\<close>

definition normalize_permission_rules ::
  "idna \<Rightarrow> bool \<Rightarrow> submitted \<Rightarrow> rules_error + permission_rules \<times> (string \<times> string) list" where
  "normalize_permission_rules idn windows v =
     (case v of Ready r \<Rightarrow> Inr (r, [])
      | Stored (PDict doc) \<Rightarrow>
          (case filter (\<lambda>k. k \<notin> set rule_parts) (map fst doc) of
             k # _ \<Rightarrow> Inl (Unknown_Part k)
           | [] \<Rightarrow>
          (case base_of read_bases ''read'' (member doc ''read'') of Inl e \<Rightarrow> Inl e | Inr read \<Rightarrow>
          (case base_of write_bases ''write'' (member doc ''write'') of Inl e \<Rightarrow> Inl e | Inr write \<Rightarrow>
          (case base_of list_bases ''commands'' (member doc ''commands'') of Inl e \<Rightarrow> Inl e | Inr commands \<Rightarrow>
          (case base_of list_bases ''web'' (member doc ''web'') of Inl e \<Rightarrow> Inl e | Inr web \<Rightarrow>
           if \<not> require_write_within_read read write then Inl Write_Wider_Than_Read
           else
          (case rule_list idn windows ''allow'' (member doc ''allow'') of Inl e \<Rightarrow> Inl e
           | Inr (allow, notes) \<Rightarrow>
          (case rule_list idn windows ''deny'' (member doc ''deny'') of Inl e \<Rightarrow> Inl e
           | Inr (deny, notes') \<Rightarrow>
               Inr (\<lparr>rs_read = read, rs_write = write, rs_commands = commands, rs_web = web,
                     rs_allow = allow, rs_deny = deny\<rparr>, notes @ notes'))))))))
      | Stored other \<Rightarrow> Inl (Not_An_Object other))"

definition base_text :: "(string \<times> 'b) list \<Rightarrow> 'b \<Rightarrow> string" where
  "base_text choices b = (case find (\<lambda>(_, c). c = b) choices of Some (t, _) \<Rightarrow> t | None \<Rightarrow> [])"

definition part_field :: "string \<Rightarrow> ('b \<Rightarrow> pyval) \<Rightarrow> 'b option \<Rightarrow> (string \<times> pyval) list" where
  "part_field part f b = (case b of None \<Rightarrow> [] | Some x \<Rightarrow> [(part, f x)])"

definition rules_value :: "permission_rule list \<Rightarrow> pyval" where
  "rules_value rules = PList (map (\<lambda>r. PStr (rule_text r)) rules)"

definition permission_rules_to_dict :: "permission_rules \<Rightarrow> (string \<times> pyval) list" where
  "permission_rules_to_dict r =
     part_field ''read'' (\<lambda>b. PStr (base_text read_bases b)) (rs_read r) @
     part_field ''write'' (\<lambda>b. PStr (base_text write_bases b)) (rs_write r) @
     part_field ''commands'' (\<lambda>b. PStr (base_text list_bases b)) (rs_commands r) @
     part_field ''web'' (\<lambda>b. PStr (base_text list_bases b)) (rs_web r) @
     part_field ''allow'' rules_value (rs_allow r) @
     part_field ''deny'' rules_value (rs_deny r)"

subsection \<open>Every problem of a rule set\<close>

text \<open>\<open>check_permission_rules\<close> collects the problems; a problem names its part, its error, and
  the index and text of the rule string it is about.\<close>

record rule_set_problem =
  rp_part :: "string option"
  rp_error :: rules_error
  rp_index :: "nat option"
  rp_rule :: "string option"

record rule_set_check =
  rc_rules :: "permission_rules option"
  rc_notes :: "(string \<times> string) list"
  rc_problems :: "rule_set_problem list"

definition part_problem :: "string \<Rightarrow> rules_error \<Rightarrow> rule_set_problem" where
  "part_problem part e = \<lparr>rp_part = Some part, rp_error = e, rp_index = None, rp_rule = None\<rparr>"

definition problem_of :: "string \<Rightarrow> rules_error + 'a \<Rightarrow> rule_set_problem list" where
  "problem_of part r = (case r of Inl e \<Rightarrow> [part_problem part e] | Inr _ \<Rightarrow> [])"

text \<open>The problems and notes of one \<open>allow\<close> or \<open>deny\<close> list; \<open>None\<close> is the escaping error. Each item
  is checked as a list of its own, its index put into the error.\<close>

fun item_problems ::
  "idna \<Rightarrow> bool \<Rightarrow> string \<Rightarrow> nat \<Rightarrow> pyval list \<Rightarrow>
     (rule_set_problem list \<times> (string \<times> string) list) option" where
  "item_problems idn windows part index [] = Some ([], [])"
| "item_problems idn windows part index (v # vs) =
     (case list_item idn windows part index v of
        Inl Value_Error \<Rightarrow> None
      | Inl e \<Rightarrow>
          map_option (\<lambda>(ps, notes).
              (\<lparr>rp_part = Some part, rp_error = e, rp_index = Some index,
                rp_rule = (case v of PStr t \<Rightarrow> Some t | _ \<Rightarrow> None)\<rparr> # ps, notes))
            (item_problems idn windows part (Suc index) vs)
      | Inr (_, note) \<Rightarrow>
          map_option (\<lambda>(ps, notes). (ps, (case note of None \<Rightarrow> notes | Some n \<Rightarrow> n # notes)))
            (item_problems idn windows part (Suc index) vs))"

definition list_problems ::
  "idna \<Rightarrow> bool \<Rightarrow> string \<Rightarrow> pyval \<Rightarrow>
     (rule_set_problem list \<times> (string \<times> string) list) option" where
  "list_problems idn windows part v =
     (case v of PNone \<Rightarrow> Some ([], [])
      | PList items \<Rightarrow> item_problems idn windows part 0 items
      | _ \<Rightarrow> Some ([part_problem part (Not_A_Rule_List part v)], []))"

definition base_problems :: "(string \<times> pyval) list \<Rightarrow> rule_set_problem list" where
  "base_problems doc =
     (let read = base_of read_bases ''read'' (member doc ''read'');
          write = base_of write_bases ''write'' (member doc ''write'') in
      problem_of ''read'' read @ problem_of ''write'' write @
      problem_of ''commands'' (base_of list_bases ''commands'' (member doc ''commands'')) @
      problem_of ''web'' (base_of list_bases ''web'' (member doc ''web'')) @
      (case (read, write) of
         (Inr r, Inr w) \<Rightarrow>
           if require_write_within_read r w then [] else [part_problem ''write'' Write_Wider_Than_Read]
       | _ \<Rightarrow> []))"

definition check_permission_rules :: "idna \<Rightarrow> bool \<Rightarrow> submitted \<Rightarrow> rule_set_check option" where
  "check_permission_rules idn windows v =
     (case v of
        Ready r \<Rightarrow> Some \<lparr>rc_rules = Some r, rc_notes = [], rc_problems = []\<rparr>
      | Stored (PDict doc) \<Rightarrow>
          Option.bind (list_problems idn windows ''allow'' (member doc ''allow'')) (\<lambda>(allow, notes).
          Option.bind (list_problems idn windows ''deny'' (member doc ''deny'')) (\<lambda>(deny, notes').
          let problems =
                map (\<lambda>k. part_problem k (Unknown_Part k)) (filter (\<lambda>k. k \<notin> set rule_parts) (map fst doc))
                @ base_problems doc @ allow @ deny in
          if problems \<noteq> []
          then Some \<lparr>rc_rules = None, rc_notes = notes @ notes', rc_problems = problems\<rparr>
          else (case normalize_permission_rules idn windows v of
                  Inl _ \<Rightarrow> None
                | Inr (r, _) \<Rightarrow> Some \<lparr>rc_rules = Some r, rc_notes = notes @ notes', rc_problems = []\<rparr>)))
      | Stored other \<Rightarrow>
          Some \<lparr>rc_rules = None, rc_notes = [],
                rc_problems = [\<lparr>rp_part = None, rp_error = Not_An_Object other, rp_index = None,
                                rp_rule = None\<rparr>]\<rparr>)"

subsection \<open>Levels\<close>

definition first_set :: "(permission_rules \<Rightarrow> 'a option) \<Rightarrow> permission_rules list \<Rightarrow> 'a option" where
  "first_set part levels = first_some part levels"

definition present_levels :: "'a option list \<Rightarrow> 'a list" where
  "present_levels levels = concat (map (\<lambda>l. case l of None \<Rightarrow> [] | Some r \<Rightarrow> [r]) levels)"

definition resolve_rule_set :: "permission_rules option list \<Rightarrow> permission_rules option" where
  "resolve_rule_set levels =
     (let present = present_levels levels in
      if present = [] then None
      else (let read = first_set rs_read present;
                resolved =
                  \<lparr>rs_read = read,
                   rs_write = map_option (write_within_read read) (first_set rs_write present),
                   rs_commands = first_set rs_commands present,
                   rs_web = first_set rs_web present,
                   rs_allow = first_set rs_allow present,
                   rs_deny = first_set rs_deny present\<rparr> in
            if restricts resolved then Some resolved else None))"

text \<open>\<open>_stricter\<close>: \<open>max\<close> by the index in the part's list; the first argument wins a tie.\<close>

definition stricter :: "('b \<Rightarrow> nat) \<Rightarrow> 'b option \<Rightarrow> 'b option \<Rightarrow> 'b option" where
  "stricter rank a b =
     (case (a, b) of
        (Some x, Some y) \<Rightarrow> Some (if rank x < rank y then y else x)
      | (None, _) \<Rightarrow> b
      | (_, None) \<Rightarrow> a)"

definition read_rank :: "read_base \<Rightarrow> nat" where
  "read_rank b = (case b of Read_Anywhere \<Rightarrow> 0 | Read_Work_Area \<Rightarrow> 1)"

definition write_rank :: "write_base \<Rightarrow> nat" where
  "write_rank b = (case b of Write_Anywhere \<Rightarrow> 0 | Write_Work_Area \<Rightarrow> 1 | Write_Scratch \<Rightarrow> 2)"

definition list_rank :: "list_base \<Rightarrow> nat" where
  "list_rank b = (case b of Any \<Rightarrow> 0 | Listed \<Rightarrow> 1)"

definition rules_of :: "permission_rule list option \<Rightarrow> permission_rule list" where
  "rules_of l = (case l of None \<Rightarrow> [] | Some rules \<Rightarrow> rules)"

definition command_covers :: "string \<Rightarrow> string \<Rightarrow> bool" where
  "command_covers allowed pat =
     (if allowed = ''*'' \<or> allowed = pat then True
      else if \<not> ends_with '' *'' allowed then False
      else pat = take (length allowed - 2) allowed \<or> starts_with (take (length allowed - 1) allowed) pat)"

definition permits_command :: "permission_rules \<Rightarrow> string \<Rightarrow> bool" where
  "permits_command r pat =
     (if rs_commands r \<in> {None, Some Any} then True
      else list_ex (\<lambda>a. kind a = Shell \<and> command_covers (pattern a) pat) (rules_of (rs_allow r)))"

definition permits_host :: "permission_rules \<Rightarrow> string \<Rightarrow> bool" where
  "permits_host r pat =
     (if rs_web r \<in> {None, Some Any} then True
      else list_ex (\<lambda>a. kind a = Web \<and>
                       (pattern a = ''*'' \<or> pattern a = pat
                        \<or> host_matches (pattern a) (remove_prefix ''*.'' pat)))
             (rules_of (rs_allow r)))"

text \<open>\<open>_ROOT.match\<close>: the length of the root a pattern starts with.\<close>

definition root_length :: "string \<Rightarrow> nat option" where
  "root_length pat =
     (let server = takeWhile (\<lambda>c. c \<noteq> CHR ''/'') (drop 2 pat);
          rest = drop (2 + length server) pat;
          share = takeWhile (\<lambda>c. c \<noteq> CHR ''/'') (drop 1 rest) in
      if starts_with ''//'' pat \<and> server \<noteq> [] \<and> share \<noteq> []
         \<and> starts_with ''/'' (drop (Suc (length share)) rest)
      then Some (4 + length server + length share)
      else if has_drive pat \<and> starts_with ''/'' (drop 2 pat) then Some 3
      else if starts_with ''/'' pat then Some 1
      else None)"

definition anchored :: "string \<Rightarrow> string list" where
  "anchored pat =
     (let (anchor, rest) =
            (if starts_with ''{'' pat
             then (case partition_on (CHR ''}'') pat of (lead, _, rest) \<Rightarrow> (lead @ ''}'', rest))
             else if pat = ''~'' \<or> starts_with ''~/'' pat then (''{home}'', drop 1 pat)
             else (case root_length pat of
                     Some n \<Rightarrow> (take n pat, drop n pat)
                   | None \<Rightarrow> (''{workdir}'', pat))) in
      anchor # filter (\<lambda>s. s \<noteq> [] \<and> s \<noteq> ''.'') (split_on (CHR ''/'') rest))"

definition path_covers :: "string \<Rightarrow> string \<Rightarrow> bool \<Rightarrow> bool" where
  "path_covers allowed pat exact =
     (if allowed = pat then True
      else if exact then \<not> has_wildcard allowed \<and> is_inside pat allowed
      else (let folder0 = anchored allowed;
                folder = (if last folder0 = ''**'' then butlast folder0 else folder0);
                place = anchored pat in
            if list_ex has_wildcard folder then False
            else take (length folder) place = folder \<and> ''..'' \<notin> set (drop (length folder) place)))"

text \<open>\<open>None\<close> is the error of \<open>split_lexical\<close>.\<close>

definition permits_path :: "permission_rules \<Rightarrow> string \<Rightarrow> bool \<Rightarrow> bool option" where
  "permits_path r pat write =
     (case split_lexical True pat of None \<Rightarrow> None
      | Some p \<Rightarrow>
          (let uns = unsafe p \<noteq> None;
               read = (case rs_read r of None \<Rightarrow> Read_Anywhere | Some b \<Rightarrow> b);
               wbase = write_within_read (Some read)
                         (case rs_write r of None \<Rightarrow> Write_Anywhere | Some b \<Rightarrow> b);
               open = (if write then wbase = Write_Anywhere else read = Read_Anywhere);
               place = anchored pat;
               free = (if write
                       then (if wbase = Write_Work_Area then [''{scratch}'', ''{workdir}''] else [''{scratch}''])
                       else [''{scratch}'', ''{workdir}'', ''{workspace}'']) in
           Some ((\<not> uns \<and> (open \<or> (''..'' \<notin> set place \<and> hd place \<in> set free)))
             \<or> list_ex (\<lambda>a. (kind a = Edit \<or> (\<not> write \<and> kind a = Read)) \<and> path_covers (pattern a) pat uns)
                 (rules_of (rs_allow r)))))"

definition within_rules :: "permission_rules \<Rightarrow> permission_rule \<Rightarrow> permission_rule option option" where
  "within_rules r rule =
     (case kind rule of
        Shell \<Rightarrow> Some (if permits_command r (pattern rule) then Some rule else None)
      | Web \<Rightarrow> Some (if permits_host r (pattern rule) then Some rule else None)
      | k \<Rightarrow>
          Option.bind (if k = Edit then permits_path r (pattern rule) True else Some False) (\<lambda>edits.
          if edits then Some (Some rule)
          else map_option (\<lambda>reads. if reads then Some \<lparr>kind = Read, pattern = pattern rule\<rparr> else None)
                 (permits_path r (pattern rule) False)))"

definition union_rules ::
  "permission_rule list option \<Rightarrow> permission_rule list option \<Rightarrow> permission_rule list option" where
  "union_rules a b = (if a = None \<and> b = None then None else Some (dedup (rules_of a @ rules_of b)))"

text \<open>The allow rules both sets permit; \<open>None\<close> inside is a part neither sets.\<close>

definition intersect_allow ::
  "permission_rules \<Rightarrow> permission_rules \<Rightarrow> permission_rule list option option" where
  "intersect_allow a b =
     (if rs_allow a = None \<and> rs_allow b = None then Some None
      else map_option (\<lambda>kept. Some (dedup (present_levels kept)))
             (map_option_list (\<lambda>(rule, other). within_rules other rule)
                (map (\<lambda>r. (r, b)) (rules_of (rs_allow a)) @ map (\<lambda>r. (r, a)) (rules_of (rs_allow b)))))"

definition intersect_rule_sets ::
  "permission_rules option \<Rightarrow> permission_rules option \<Rightarrow> permission_rules option option" where
  "intersect_rule_sets a0 b0 =
     (case (a0, b0) of
        (None, _) \<Rightarrow> Some b0
      | (_, None) \<Rightarrow> Some a0
      | (Some a, Some b) \<Rightarrow>
          map_option (\<lambda>allow. Some
            \<lparr>rs_read = stricter read_rank (rs_read a) (rs_read b),
             rs_write = stricter write_rank (rs_write a) (rs_write b),
             rs_commands = stricter list_rank (rs_commands a) (rs_commands b),
             rs_web = stricter list_rank (rs_web a) (rs_web b),
             rs_allow = allow,
             rs_deny = union_rules (rs_deny a) (rs_deny b)\<rparr>)
          (intersect_allow a b))"

end
