(* ===== verification/Rule_Facts.thy ===== *)
theory Rule_Facts
  imports Rules
begin

section \<open>Facts about rule sets\<close>

text \<open>
  The checker of an editor against the strict normalizer, the resolution of levels, and the
  intersection of two levels, whose hosts stay within those of both.
\<close>

subsection \<open>The checker agrees with the normalizer\<close>

lemma present_levels_simps [simp]:
  "present_levels [] = []" "present_levels (None # ls) = present_levels ls"
  "present_levels (Some r # ls) = r # present_levels ls"
  by (simp_all add: present_levels_def)

lemma notes_of_simps [simp]:
  "notes_of [] = []"
  "notes_of ((r, None) # items) = notes_of items"
  "notes_of ((r, Some n) # items) = n # notes_of items"
  by (simp_all add: notes_of_def)

lemma list_item_index:
  "list_item idn w part i v = Inr x \<longleftrightarrow> list_item idn w part j v = Inr x"
  by (auto simp: list_item_def split: pyval.splits sum.splits rule_problem.splits)

text \<open>The items of a list have no problem iff the list parses, with the same notes; the first
  problem is the error the list is refused with.\<close>

lemma item_problems_list_items:
  assumes "item_problems idn w part i vs = Some (ps, saved)"
  shows "case list_items idn w part i vs of
      Inr parsed \<Rightarrow> ps = [] \<and> saved = notes_of parsed
    | Inl e \<Rightarrow> ps \<noteq> [] \<and> rp_error (hd ps) = e"
  using assms
proof (induction vs arbitrary: i ps saved)
  case (Cons v vs)
  show ?case
  proof (cases "list_item idn w part i v")
    case (Inl e)
    with Cons.prems show ?thesis by (auto split: rules_error.splits)
  next
    case (Inr x)
    obtain r n where x: "x = (r, n)" by (cases x)
    from Cons.prems Inr x obtain ns where rest:
      "item_problems idn w part (Suc i) vs = Some (ps, ns)"
      "saved = (case n of None \<Rightarrow> ns | Some m \<Rightarrow> m # ns)" by auto
    show ?thesis using Cons.IH [OF rest(1)] rest(2) Inr x
      by (cases n) (auto split: sum.splits)
  qed
qed simp

lemma list_problems_rule_list:
  assumes "list_problems idn w part v = Some (ps, saved)"
  shows "case rule_list idn w part v of
      Inr (rules, ns) \<Rightarrow> ps = [] \<and> saved = ns
    | Inl e \<Rightarrow> ps \<noteq> [] \<and> rp_error (hd ps) = e"
proof (cases v)
  case (PList items)
  then show ?thesis
    using item_problems_list_items [of idn w part 0 items ps saved] assms
    by (auto simp: list_problems_def rule_list_def split: sum.splits)
qed (use assms in \<open>auto simp: list_problems_def rule_list_def part_problem_def\<close>)

lemma problem_of_simps [simp]:
  "problem_of part (Inr x) = []" "problem_of part (Inl e) = [part_problem part e]"
  by (simp_all add: problem_of_def)

lemma rp_error_part_problem [simp]: "rp_error (part_problem part e) = e"
  by (simp add: part_problem_def)

text \<open>What \<open>normalize_permission_rules\<close> does on an object, as a sequence of results.\<close>

lemma normalize_object:
  "normalize_permission_rules idn w (Stored (PDict doc)) = Inr (r, saved) \<longleftrightarrow>
    filter (\<lambda>k. k \<notin> set rule_parts) (map fst doc) = [] \<and>
    base_of read_bases ''read'' (member doc ''read'') = Inr (rs_read r) \<and>
    base_of write_bases ''write'' (member doc ''write'') = Inr (rs_write r) \<and>
    base_of list_bases ''commands'' (member doc ''commands'') = Inr (rs_commands r) \<and>
    base_of list_bases ''web'' (member doc ''web'') = Inr (rs_web r) \<and>
    require_write_within_read (rs_read r) (rs_write r) \<and>
    (\<exists>ns ns'. rule_list idn w ''allow'' (member doc ''allow'') = Inr (rs_allow r, ns) \<and>
       rule_list idn w ''deny'' (member doc ''deny'') = Inr (rs_deny r, ns') \<and> saved = ns @ ns')"
proof (cases "filter (\<lambda>k. k \<notin> set rule_parts) (map fst doc)")
  case Nil
  show ?thesis
    unfolding normalize_permission_rules_def submitted.case pyval.case Nil list.case
    by (cases "base_of read_bases ''read'' (member doc ''read'')";
        cases "base_of write_bases ''write'' (member doc ''write'')";
        cases "base_of list_bases ''commands'' (member doc ''commands'')";
        cases "base_of list_bases ''web'' (member doc ''web'')";
        cases "rule_list idn w ''allow'' (member doc ''allow'')";
        cases "rule_list idn w ''deny'' (member doc ''deny'')"; cases r) auto
qed (simp add: normalize_permission_rules_def)

lemma base_problems_Nil:
  "base_problems doc = [] \<longleftrightarrow>
    (\<exists>r w c b. base_of read_bases ''read'' (member doc ''read'') = Inr r \<and>
       base_of write_bases ''write'' (member doc ''write'') = Inr w \<and>
       base_of list_bases ''commands'' (member doc ''commands'') = Inr c \<and>
       base_of list_bases ''web'' (member doc ''web'') = Inr b \<and> require_write_within_read r w)"
  unfolding base_problems_def Let_def
  by (cases "base_of read_bases ''read'' (member doc ''read'')";
      cases "base_of write_bases ''write'' (member doc ''write'')";
      cases "base_of list_bases ''commands'' (member doc ''commands'')";
      cases "base_of list_bases ''web'' (member doc ''web'')") auto

lemma normalize_total:
  assumes "filter (\<lambda>k. k \<notin> set rule_parts) (map fst doc) = []" "base_problems doc = []"
    and "rule_list idn w ''allow'' (member doc ''allow'') = Inr (a, ns)"
    and "rule_list idn w ''deny'' (member doc ''deny'') = Inr (d, ns')"
  shows "\<exists>r. normalize_permission_rules idn w (Stored (PDict doc)) = Inr (r, ns @ ns')"
proof -
  from assms(2) obtain re wr c b where bases:
    "base_of read_bases ''read'' (member doc ''read'') = Inr re"
    "base_of write_bases ''write'' (member doc ''write'') = Inr wr"
    "base_of list_bases ''commands'' (member doc ''commands'') = Inr c"
    "base_of list_bases ''web'' (member doc ''web'') = Inr b"
    "require_write_within_read re wr"
    unfolding base_problems_Nil by blast
  let ?r = "\<lparr>rs_read = re, rs_write = wr, rs_commands = c, rs_web = b, rs_allow = a, rs_deny = d\<rparr>"
  have "normalize_permission_rules idn w (Stored (PDict doc)) = Inr (?r, ns @ ns')"
    unfolding normalize_object using assms(1,3,4) bases by simp
  then show ?thesis ..
qed

lemma check_agrees:
  assumes "check_permission_rules idn w v = Some c"
  shows "(rc_problems c = [] \<longleftrightarrow> (\<exists>r saved. normalize_permission_rules idn w v = Inr (r, saved)))
    \<and> (\<forall>r saved. normalize_permission_rules idn w v = Inr (r, saved) \<longrightarrow>
         rc_rules c = Some r \<and> rc_notes c = saved)
    \<and> (rc_problems c \<noteq> [] \<longrightarrow> rc_rules c = None)"
proof (cases "\<exists>doc. v = Stored (PDict doc)")
  case False
  then show ?thesis using assms
    by (cases v) (auto simp: check_permission_rules_def normalize_permission_rules_def
        split: pyval.splits)
next
  case True
  then obtain doc where v: "v = Stored (PDict doc)" by blast
  let ?N = "normalize_permission_rules idn w (Stored (PDict doc))"
  let ?U = "filter (\<lambda>k. k \<notin> set rule_parts) (map fst doc)"
  from assms obtain allow ns deny ns' where parts:
    "list_problems idn w ''allow'' (member doc ''allow'') = Some (allow, ns)"
    "list_problems idn w ''deny'' (member doc ''deny'') = Some (deny, ns')"
    by (auto simp: v check_permission_rules_def bind_eq_Some_conv)
  let ?ps = "map (\<lambda>k. part_problem k (Unknown_Part k)) ?U @ base_problems doc @ allow @ deny"
  note a = list_problems_rule_list [OF parts(1)] and d = list_problems_rule_list [OF parts(2)]
  show ?thesis
  proof (cases "?ps = []")
    case True
    then obtain r1 r2 where
      "rule_list idn w ''allow'' (member doc ''allow'') = Inr (r1, ns)"
      "rule_list idn w ''deny'' (member doc ''deny'') = Inr (r2, ns')"
      using a d by (auto split: sum.splits)
    with True obtain r where n: "?N = Inr (r, ns @ ns')" using normalize_total by fastforce
    have "c = \<lparr>rc_rules = Some r, rc_notes = ns @ ns', rc_problems = []\<rparr>"
      using assms parts True n by (simp add: v check_permission_rules_def)
    with n show ?thesis by (simp add: v)
  next
    case False
    then have c: "rc_problems c = ?ps" "rc_rules c = None"
      using assms parts by (auto simp: v check_permission_rules_def Let_def)
    have "\<nexists>r saved. ?N = Inr (r, saved)"
    proof
      assume "\<exists>r saved. ?N = Inr (r, saved)"
      then have "?U = []" "base_problems doc = []" "allow = []" "deny = []"
        using a d by (auto simp: normalize_object base_problems_Nil)
      with False show False by simp
    qed
    then show ?thesis using c False by (simp add: v)
  qed
qed

subsection \<open>Resolution of levels\<close>

lemma resolve_parts:
  assumes "resolve_rule_set levels = Some r"
  shows "rs_read r = first_some rs_read (present_levels levels)"
    and "rs_commands r = first_some rs_commands (present_levels levels)"
    and "rs_web r = first_some rs_web (present_levels levels)"
    and "rs_allow r = first_some rs_allow (present_levels levels)"
    and "rs_deny r = first_some rs_deny (present_levels levels)"
    and "rs_write r = map_option (write_within_read (rs_read r))
          (first_some rs_write (present_levels levels))"
    and "restricts r"
  using assms by (auto simp: resolve_rule_set_def first_set_def Let_def split: if_splits)

lemma resolve_within_read:
  "resolve_rule_set levels = Some r \<Longrightarrow> require_write_within_read (rs_read r) (rs_write r)"
  by (auto simp: require_write_within_read_def resolve_parts(6) write_within_read_def
      split: if_splits)

lemma resolve_None_iff:
  "resolve_rule_set levels = None \<longleftrightarrow>
     (let ps = present_levels levels in
      first_some rs_deny ps \<in> {None, Some []} \<and> first_some rs_read ps \<in> {None, Some Read_Anywhere}
      \<and> first_some rs_write ps \<in> {None, Some Write_Anywhere}
      \<and> first_some rs_commands ps \<in> {None, Some Any} \<and> first_some rs_web ps \<in> {None, Some Any})"
  by (auto simp: resolve_rule_set_def restricts_def first_set_def write_within_read_def Let_def
      split: if_splits)

subsection \<open>Intersections\<close>

text \<open>The abstract meaning of a rule set for hosts, whatever the Run.\<close>

definition rules_permit_host :: "permission_rules \<Rightarrow> string \<Rightarrow> bool" where
  "rules_permit_host r host \<longleftrightarrow>
     (rs_web r = Some Listed \<longrightarrow>
        (\<exists>a \<in> set (rules_of (rs_allow r)). kind a = Web \<and> host_matches (pattern a) host))
     \<and> (\<forall>d \<in> set (rules_of (rs_deny r)). kind d = Web \<longrightarrow> \<not> host_matches (pattern d) host)"

definition wild_address :: "string \<Rightarrow> bool" where
  "wild_address p \<longleftrightarrow> starts_with ''*.'' p \<and> is_ip (drop 2 p)"

text \<open>A host pattern another one covers by its own text covers no further hosts.\<close>

lemma host_matches_trans:
  assumes "host_matches p h" "\<not> wild_address p"
    and "q = ''*'' \<or> q = p \<or> host_matches q (remove_prefix ''*.'' p)"
  shows "host_matches q h"
proof (cases "q = ''*'' \<or> q = p")
  case True
  then show ?thesis using assms(1) by (auto simp: host_matches_def)
next
  case False
  then have q: "host_matches q (remove_prefix ''*.'' p)" using assms(3) by simp
  show ?thesis
  proof (cases "starts_with ''*.'' p")
    case True
    then obtain x where x: "p = ''*.'' @ x" by (auto simp: starts_with_iff)
    then have "ends_with (''.'' @ x) h" "\<not> is_ip x" "host_matches q x"
      using assms(1,2) q True by (auto simp: host_matches_def wild_address_def remove_prefix_def)
    then show ?thesis
      using False by (auto simp: host_matches_def ends_with_iff starts_with_iff split: if_splits)
  next
    case False
    then have p: "host_matches q p" using q by (simp add: remove_prefix_def)
    show ?thesis
    proof (cases "h = p")
      case True
      then show ?thesis using p by simp
    next
      case h: False
      then have "p = ''*'' \<or> (\<not> is_ip p \<and> ends_with (''.'' @ p) h)"
        using assms(1) False by (auto simp: host_matches_def split: if_splits)
      then show ?thesis
        using p \<open>\<not> (q = ''*'' \<or> q = p)\<close>
        by (auto simp: host_matches_def ends_with_iff starts_with_iff append_eq_append_conv2 append_eq_Cons_conv split: if_splits)
    qed
  qed
qed

lemma permits_host_listed:
  assumes "permits_host r p" "host_matches p h" "\<not> wild_address p" "rs_web r = Some Listed"
  shows "\<exists>a \<in> set (rules_of (rs_allow r)). kind a = Web \<and> host_matches (pattern a) h"
  using assms host_matches_trans [OF assms(2,3)]
  by (auto simp: permits_host_def list_ex_iff split: if_splits)

text \<open>An intersection keeps an allow rule only as far as the other set permits it.\<close>

lemma intersect_allow_origin:
  assumes "intersect_allow a b = Some kept" "x \<in> set (rules_of kept)"
  shows "(\<exists>r \<in> set (rules_of (rs_allow a)). within_rules b r = Some (Some x))
    \<or> (\<exists>r \<in> set (rules_of (rs_allow b)). within_rules a r = Some (Some x))"
proof -
  let ?pairs = "map (\<lambda>r. (r, b)) (rules_of (rs_allow a)) @ map (\<lambda>r. (r, a)) (rules_of (rs_allow b))"
  from assms obtain found where found: "x \<in> set (present_levels found)"
    "map_option_list (\<lambda>(rule, other). within_rules other rule) ?pairs = Some found"
    by (auto simp: intersect_allow_def rules_of_def split: if_splits)
  then have "Some x \<in> set found"
    by (auto simp: present_levels_def split: option.splits)
  then obtain rule other where "(rule, other) \<in> set ?pairs" "within_rules other rule = Some (Some x)"
    using map_option_list_set [OF found(2)] by auto
  then show ?thesis by auto
qed

lemma within_rules_web:
  assumes "within_rules r rule = Some (Some x)" "kind x = Web"
  shows "x = rule" "permits_host r (pattern rule)"
  using assms by (auto simp: within_rules_def bind_eq_Some_conv split: rule_kind.splits if_splits)

lemma within_rules_shell:
  assumes "within_rules r rule = Some (Some x)" "kind x = Shell"
  shows "x = rule" "permits_command r (pattern rule)"
  using assms by (auto simp: within_rules_def bind_eq_Some_conv split: rule_kind.splits if_splits)

lemma intersect_fields:
  assumes "intersect_rule_sets (Some a) (Some b) = Some (Some r)"
  shows "rs_web r = stricter list_rank (rs_web a) (rs_web b)"
    "rs_commands r = stricter list_rank (rs_commands a) (rs_commands b)"
    "rs_read r = stricter read_rank (rs_read a) (rs_read b)"
    "rs_write r = stricter write_rank (rs_write a) (rs_write b)"
    "intersect_allow a b = Some (rs_allow r)"
    "rs_deny r = union_rules (rs_deny a) (rs_deny b)"
  using assms by (auto simp: intersect_rule_sets_def)

lemma stricter_listed:
  "stricter list_rank x y = Some Listed \<longleftrightarrow> x = Some Listed \<or> y = Some Listed"
  by (cases x; cases y; cases "the x"; cases "the y") (auto simp: stricter_def list_rank_def)

lemma rules_of_union: "set (rules_of (union_rules x y)) = set (rules_of x) \<union> set (rules_of y)"
  by (auto simp: union_rules_def rules_of_def split: option.splits)

lemma intersect_host:
  assumes "intersect_rule_sets (Some a) (Some b) = Some (Some r)" "rules_permit_host r h"
    and "\<forall>x \<in> set (rules_of (rs_allow a) @ rules_of (rs_allow b)). kind x = Web \<longrightarrow> \<not> wild_address (pattern x)"
  shows "rules_permit_host a h \<and> rules_permit_host b h"
proof -
  note f = intersect_fields [OF assms(1)]
  have deny: "\<not> host_matches (pattern d) h"
    if "d \<in> set (rules_of (rs_deny a)) \<union> set (rules_of (rs_deny b))" "kind d = Web" for d
    using assms(2) that by (auto simp: rules_permit_host_def f(6) rules_of_union)
  have allow: "\<exists>y \<in> set (rules_of (rs_allow c)). kind y = Web \<and> host_matches (pattern y) h"
    if c: "c = a \<or> c = b" and listed: "rs_web c = Some Listed" for c
  proof -
    have "rs_web r = Some Listed" using c listed by (auto simp: f(1) stricter_listed)
    then obtain x where x: "x \<in> set (rules_of (rs_allow r))" "kind x = Web" "host_matches (pattern x) h"
      using assms(2) by (auto simp: rules_permit_host_def)
    consider rule where "rule \<in> set (rules_of (rs_allow a))" "within_rules b rule = Some (Some x)"
      | rule where "rule \<in> set (rules_of (rs_allow b))" "within_rules a rule = Some (Some x)"
      using intersect_allow_origin [OF f(5) x(1)] by blast
    then show ?thesis
    proof cases
      case 1
      then show ?thesis
        using c listed x assms(3) within_rules_web [OF 1(2) x(2)] permits_host_listed [of b "pattern x" h]
        by auto
    next
      case 2
      then show ?thesis
        using c listed x assms(3) within_rules_web [OF 2(2) x(2)] permits_host_listed [of a "pattern x" h]
        by auto
    qed
  qed
  show ?thesis using deny allow by (auto simp: rules_permit_host_def)
qed

end
