(* ===== verification/Refusal.thy ===== *)
theory Refusal
  imports Py_Text
begin

section \<open>Refusals\<close>

text \<open>
  \<open>core/permissions/_refusal.py\<close>: what a boundary refused and the sentences an Agent or the
  reader of a watch failure gets. A path access and a host access are kinds of access.
\<close>

datatype access = Reading | Writing | Start_Dir | Commanding | Fetching | Connecting
datatype refusal_reason = Deny_Rule | Protected_Location | Not_Permitted | Unsafe_Form | Unanalyzable
datatype layer_source = Agent | Parent | Cron | Extension

record permission_refusal =
  rf_access :: access
  rf_target :: string
  rf_reason :: refusal_reason
  rf_source :: layer_source
  rf_rule :: "string option"
  rf_base :: "string option"
  rf_location :: "string option"
  rf_detail :: "string option"
  rf_resolved :: "string option"
  rf_allowed :: "string list option"
  rf_hint :: "string option"
  rf_below :: "string option"
  rf_retryable :: bool

definition source_text :: "layer_source \<Rightarrow> string" where
  "source_text s =
     (case s of Agent \<Rightarrow> ''agent'' | Parent \<Rightarrow> ''parent'' | Cron \<Rightarrow> ''cron'' | Extension \<Rightarrow> ''extension'')"

definition layer_sources :: "layer_source list" where
  "layer_sources = [Agent, Parent, Cron, Extension]"

datatype voice = Agent_Voice | Watch_Voice

text \<open>\<open>_Voice.inherited\<close>: \<open>None\<close> for the Agent's own rules.\<close>

definition inherited :: "voice \<Rightarrow> layer_source \<Rightarrow> string option" where
  "inherited v s =
     (case (v, s) of
        (_, Agent) \<Rightarrow> None
      | (Agent_Voice, Parent) \<Rightarrow> Some ''inherited from the Session that started you''
      | (Agent_Voice, Cron) \<Rightarrow> Some ''inherited from the Session that scheduled this job''
      | (Agent_Voice, Extension) \<Rightarrow> Some ''set by the Extension that runs you''
      | (Watch_Voice, _) \<Rightarrow> Some ''inherited from the Session that scheduled this job'')"

definition rule_file_text :: "voice \<Rightarrow> string" where
  "rule_file_text v =
     (case v of Agent_Voice \<Rightarrow> ''what is written there decides your permission rules''
      | Watch_Voice \<Rightarrow> ''what is written there decides the Agent's permission rules'')"

text \<open>\<open>_LISTED\<close> and \<open>_Voice.outside\<close>.\<close>

definition outside_text :: "voice \<Rightarrow> access \<Rightarrow> string" where
  "outside_text v a =
     (case (a, v) of
        (Commanding, _) \<Rightarrow> ''only commands that match an allow rule can run''
      | (Fetching, _) \<Rightarrow> ''only hosts that match an allow rule can be fetched''
      | (Connecting, _) \<Rightarrow> ''only hosts that match an allow rule can be reached''
      | (Reading, Agent_Voice) \<Rightarrow> ''it is outside the folders you can read''
      | (Writing, Agent_Voice) \<Rightarrow> ''it is outside the folders you can change''
      | (Start_Dir, Agent_Voice) \<Rightarrow> ''it is outside the folders you can work in''
      | (Reading, Watch_Voice) \<Rightarrow> ''it is outside the folders these rules allow reading''
      | (Writing, Watch_Voice) \<Rightarrow> ''it is outside the folders these rules allow changing''
      | (Start_Dir, Watch_Voice) \<Rightarrow> ''it is outside the folders these rules allow working in'')"

definition action_text :: "access \<Rightarrow> string \<Rightarrow> string" where
  "action_text a target =
     (case a of
        Reading \<Rightarrow> ''reading '' @ target
      | Writing \<Rightarrow> ''changing '' @ target
      | Start_Dir \<Rightarrow> ''working in '' @ target
      | Commanding \<Rightarrow> ''running '' @ [CHR 0x22] @ target @ [CHR 0x22]
      | Fetching \<Rightarrow> ''fetching '' @ target
      | Connecting \<Rightarrow> ''connecting to '' @ target)"

definition protected_text :: "string \<Rightarrow> string" where
  "protected_text location =
     (if location = ''data_dir'' then ''it is in vBot's data folder''
      else if location = ''installation'' then ''it is part of vBot's installation''
      else if location = ''vbot_server'' then ''it is the vBot server itself''
      else if location = ''vbot_cli'' then ''it is vBot's own command line''
      else ''it is a protected location'')"

text \<open>\<open>_ALLOWED\<close>: the sentence that lists what an access may reach.\<close>

definition allowed_text :: "access \<Rightarrow> string list \<Rightarrow> string" where
  "allowed_text a items =
     (let listed = join '', '' items in
      if items \<noteq> []
      then (case a of
              Reading \<Rightarrow> ''You can read in: '' @ listed @ ''.''
            | Start_Dir \<Rightarrow> ''You can work in: '' @ listed @ ''.''
            | Writing \<Rightarrow> ''You can change files in: '' @ listed @ ''.''
            | Commanding \<Rightarrow> ''You can run only: '' @ listed @ ''.''
            | Fetching \<Rightarrow> ''You can fetch only from: '' @ listed @ ''.''
            | Connecting \<Rightarrow> ''You can connect only to: '' @ listed @ ''.'')
      else (case a of
              Reading \<Rightarrow> ''You cannot read any files.''
            | Start_Dir \<Rightarrow> ''You cannot work in any folder.''
            | Writing \<Rightarrow> ''You cannot change any files.''
            | Commanding \<Rightarrow> ''You cannot run any commands.''
            | Fetching \<Rightarrow> ''You cannot fetch from any host.''
            | Connecting \<Rightarrow> ''You cannot connect to any host.''))"

definition same_everywhere :: string where
  "same_everywhere =
     ''vBot's Tools and commands refuse the same access, and the limits also apply to '' @
     ''scripts and programs that vBot does not check.''"

definition next_step :: string where
  "next_step = ''If the task needs this access, tell the user.''"

definition refusal_action :: "permission_refusal \<Rightarrow> string" where
  "refusal_action r =
     action_text (rf_access r) (rf_target r) @
     (case rf_resolved r of None \<Rightarrow> [] | Some d \<Rightarrow> '', which leads to '' @ d)"

definition text_of :: "string option \<Rightarrow> string" where
  "text_of t = (case t of None \<Rightarrow> ''None'' | Some s \<Rightarrow> s)"

definition or_text :: "string option \<Rightarrow> string \<Rightarrow> string" where
  "or_text t other = (case t of None \<Rightarrow> other | Some s \<Rightarrow> if s = [] then other else s)"

definition reason_text :: "voice \<Rightarrow> permission_refusal \<Rightarrow> string" where
  "reason_text v r =
     (let inh = inherited v (rf_source r) in
      case rf_reason r of
        Deny_Rule \<Rightarrow>
          (case rf_below r of
             Some below \<Rightarrow>
               ''it would also '' @ (if rf_access r = Writing then ''change'' else ''read'') @ '' '' @ below
               @ '', which the rule ''
               @ (case inh of Some i \<Rightarrow> text_of (rf_rule r) @ '', '' @ i @ '','' | None \<Rightarrow> text_of (rf_rule r))
               @ '' denies''
           | None \<Rightarrow>
               (case inh of
                  Some i \<Rightarrow> ''the rule '' @ text_of (rf_rule r) @ '', '' @ i @ '', denies it''
                | None \<Rightarrow> ''the rule '' @ text_of (rf_rule r) @ '' denies it''))
      | Protected_Location \<Rightarrow>
          (if rf_location r = Some ''agent_config'' then rule_file_text v
           else protected_text (or_text (rf_location r) []))
      | Unsafe_Form \<Rightarrow>
          (let form = or_text (rf_location r) ''path form'' in
           ''it is '' @ (if hd form \<in> set ''aeiou'' then ''an'' else ''a'') @ '' '' @ form
           @ '' that no allow rule names'')
      | Unanalyzable \<Rightarrow>
          rstrip_char (CHR ''.'') (or_text (rf_detail r) ''it could not be analyzed'')
      | Not_Permitted \<Rightarrow>
          outside_text v (rf_access r) @ (case inh of Some i \<Rightarrow> '' ('' @ i @ '')'' | None \<Rightarrow> []))"

definition refusal_message :: "permission_refusal \<Rightarrow> string option \<Rightarrow> string option \<Rightarrow> string" where
  "refusal_message r tool outcome0 =
     (let outcome = (case (outcome0, tool) of
                       (None, Some t) \<Rightarrow> if t = [] then None else Some (t @ '' was not run'')
                     | _ \<Rightarrow> outcome0);
          lead = (if or_text outcome [] \<noteq> []
                  then or_text outcome [] @ '': the permission rules refuse '' @ refusal_action r
                  else ''The permission rules refuse '' @ refusal_action r) in
      join '' ''
        ([lead @ '', because '' @ reason_text Agent_Voice r @ ''.'']
         @ (if rf_reason r \<noteq> Unanalyzable \<and> rf_hint r = None then [same_everywhere] else [])
         @ (case rf_hint r of Some h \<Rightarrow> [h] | None \<Rightarrow> [])
         @ (case rf_allowed r of Some items \<Rightarrow> [allowed_text (rf_access r) items] | None \<Rightarrow> [])
         @ (if rf_hint r = None then [next_step] else [])))"

definition watch_message :: "permission_refusal \<Rightarrow> string" where
  "watch_message r =
     (let first = ''the permission rules refuse '' @ refusal_action r @ '', because ''
                  @ reason_text Watch_Voice r @ ''.'' in
      if rf_retryable r then first
      else if rf_reason r = Unanalyzable \<and> rf_hint r \<noteq> None
      then first @ '' '' @ text_of (rf_hint r)
      else first @ '' '' @ (if rf_access r = Fetching
                            then ''Change the watch to an address these rules allow.''
                            else ''Change the watch to a command these rules allow.''))"

text \<open>\<open>PermissionApprovalRejected\<close>: the refusal with the hint that the user declined.\<close>

definition rejected :: "permission_refusal \<Rightarrow> permission_refusal" where
  "rejected r = r\<lparr>rf_hint := Some (''The user declined this additional access for this Run. '' @
                                   ''Continue with work that does not need it.'')\<rparr>"

end
