(* ===== verification/Layers.thy ===== *)
theory Layers
  imports Rules Refusal "HOL-Library.List_Lexorder" "HOL-Library.Char_ord"
begin

section \<open>Layers and ceilings\<close>

text \<open>
  \<open>core/permissions/_layers.py\<close>: one expanded rule set (a layer), the layers a Run inherits (a
  ceiling), and their stored form, read strictly. The JSON text of a fingerprint is modelled by
  the document it prints: the members in key order.
\<close>

record permission_layer =
  ly_source :: layer_source
  ly_read :: read_base
  ly_write :: write_base
  ly_commands :: list_base
  ly_web :: list_base
  ly_workdir :: string
  ly_scratch :: "string option"
  ly_allow :: "permission_rule list"
  ly_deny :: "permission_rule list"
  ly_rule_files :: "string list"

record permission_ceiling =
  pc_layers :: "permission_layer list"

definition shell_allow :: "permission_layer \<Rightarrow> string list" where
  "shell_allow l = map pattern (filter (\<lambda>r. kind r = Shell) (ly_allow l))"

definition shell_deny :: "permission_layer \<Rightarrow> string list" where
  "shell_deny l = map pattern (filter (\<lambda>r. kind r = Shell) (ly_deny l))"

definition optional_text :: "string option \<Rightarrow> pyval" where
  "optional_text t = (case t of None \<Rightarrow> PNone | Some s \<Rightarrow> PStr s)"

definition layer_to_dict :: "permission_layer \<Rightarrow> (string \<times> pyval) list" where
  "layer_to_dict l =
     [(''source'', PStr (source_text (ly_source l))),
      (''read'', PStr (base_text read_bases (ly_read l))),
      (''write'', PStr (base_text write_bases (ly_write l))),
      (''commands'', PStr (base_text list_bases (ly_commands l))),
      (''web'', PStr (base_text list_bases (ly_web l))),
      (''workdir'', PStr (ly_workdir l)),
      (''scratch'', optional_text (ly_scratch l)),
      (''allow'', rules_value (ly_allow l)),
      (''deny'', rules_value (ly_deny l))]
     @ (if ly_rule_files l \<noteq> [] then [(''rule_files'', PList (map PStr (ly_rule_files l)))] else [])"

definition fingerprint :: "permission_layer \<Rightarrow> (string \<times> pyval) list" where
  "fingerprint l = sort_key fst (filter (\<lambda>(k, _). k \<noteq> ''source'') (layer_to_dict l))"

definition retagged :: "permission_layer \<Rightarrow> layer_source \<Rightarrow> permission_layer" where
  "retagged l s = l\<lparr>ly_source := s\<rparr>"

definition ceiling_to_dict :: "permission_ceiling \<Rightarrow> (string \<times> pyval) list" where
  "ceiling_to_dict c = [(''layers'', PList (map (\<lambda>l. PDict (layer_to_dict l)) (pc_layers c)))]"

definition joined :: "permission_ceiling \<Rightarrow> permission_ceiling option \<Rightarrow> permission_ceiling" where
  "joined c other =
     (case other of None \<Rightarrow> c | Some d \<Rightarrow> \<lparr>pc_layers = dedup (pc_layers c @ pc_layers d)\<rparr>)"

definition join_ceilings ::
  "permission_ceiling option \<Rightarrow> permission_ceiling option \<Rightarrow> permission_ceiling option" where
  "join_ceilings stored added =
     (case stored of None \<Rightarrow> added | Some c \<Rightarrow> Some (joined c added))"

subsection \<open>Reading a stored ceiling\<close>

datatype layer_error =
    Layer_Not_Object | Unknown_Field string | Missing_Field string | Bad_Source pyval
  | Bad_Layer_Base string pyval | Not_Absolute string pyval | Files_Not_A_List
  | Rules_Not_A_List string | Rule_Not_String string nat | Bad_Layer_Rule string nat rule_problem
  | Relative_Rule string nat permission_rule | Layer_Value_Error

datatype ceiling_error = Not_A_Ceiling | No_Layers | Bad_Layer nat layer_error

definition required_fields :: "string list" where
  "required_fields =
     [''source'', ''read'', ''write'', ''commands'', ''web'', ''workdir'', ''allow'', ''deny'']"

definition layer_fields :: "string list" where
  "layer_fields = required_fields @ [''scratch'', ''rule_files'']"

definition source_named :: "pyval \<Rightarrow> layer_source option" where
  "source_named v =
     (case v of PStr t \<Rightarrow> find (\<lambda>s. source_text s = t) layer_sources | _ \<Rightarrow> None)"

definition validated_base :: "(string \<times> 'b) list \<Rightarrow> string \<Rightarrow> pyval \<Rightarrow> layer_error + 'b" where
  "validated_base choices part v =
     (case base_of choices part v of Inr (Some b) \<Rightarrow> Inr b | _ \<Rightarrow> Inl (Bad_Layer_Base part v))"

definition absolute_path :: "bool \<Rightarrow> string \<Rightarrow> pyval \<Rightarrow> layer_error + string" where
  "absolute_path windows field v =
     (case v of
        PStr t \<Rightarrow>
          (case split_lexical windows t of None \<Rightarrow> Inl Layer_Value_Error
           | Some p \<Rightarrow> if \<not> absolute p \<or> unsafe p \<noteq> None then Inl (Not_Absolute field v)
                      else Inr (path_text p))
      | _ \<Rightarrow> Inl (Not_Absolute field v))"

definition layer_rule ::
  "idna \<Rightarrow> bool \<Rightarrow> string \<Rightarrow> nat \<Rightarrow> pyval \<Rightarrow> layer_error + permission_rule" where
  "layer_rule idn windows part index v =
     (case v of
        PStr t \<Rightarrow>
          (case parse_permission_rule idn windows t of
             Inl Escaped \<Rightarrow> Inl Layer_Value_Error
           | Inl problem \<Rightarrow> Inl (Bad_Layer_Rule part index problem)
           | Inr rule \<Rightarrow>
               if path_kind (kind rule)
               then (if starts_with ''{'' (pattern rule) \<or> starts_with ''~'' (pattern rule)
                     then Inl (Relative_Rule part index rule)
                     else (case split_lexical windows (pattern rule) of
                             None \<Rightarrow> Inl Layer_Value_Error
                           | Some p \<Rightarrow> if absolute p then Inr rule
                                      else Inl (Relative_Rule part index rule)))
               else Inr rule)
      | _ \<Rightarrow> Inl (Rule_Not_String part index))"

fun indexed :: "(nat \<Rightarrow> 'a \<Rightarrow> 'e + 'b) \<Rightarrow> nat \<Rightarrow> 'a list \<Rightarrow> 'e + 'b list" where
  "indexed f i [] = Inr []"
| "indexed f i (x # xs) =
     (case f i x of Inl e \<Rightarrow> Inl e
      | Inr y \<Rightarrow> (case indexed f (Suc i) xs of Inl e \<Rightarrow> Inl e | Inr ys \<Rightarrow> Inr (y # ys)))"

definition layer_rules ::
  "idna \<Rightarrow> bool \<Rightarrow> string \<Rightarrow> pyval \<Rightarrow> layer_error + permission_rule list" where
  "layer_rules idn windows part v =
     (case v of PList items \<Rightarrow> indexed (layer_rule idn windows part) 0 items
      | _ \<Rightarrow> Inl (Rules_Not_A_List part))"

definition bind_result :: "'e + 'a \<Rightarrow> ('a \<Rightarrow> 'e + 'b) \<Rightarrow> 'e + 'b" where
  "bind_result r f = (case r of Inl e \<Rightarrow> Inl e | Inr x \<Rightarrow> f x)"

lemma bind_result_simps [simp]:
  "bind_result (Inl e) f = Inl e" "bind_result (Inr x) f = f x"
  by (simp_all add: bind_result_def)

lemma bind_result_Inr_iff: "bind_result r f = Inr y \<longleftrightarrow> (\<exists>x. r = Inr x \<and> f x = Inr y)"
  by (cases r) auto

text \<open>The members of a layer once its field names are checked.\<close>

definition layer_members ::
  "idna \<Rightarrow> bool \<Rightarrow> (string \<times> pyval) list \<Rightarrow> layer_error + permission_layer" where
  "layer_members idn windows doc =
     bind_result (case source_named (member doc ''source'') of
                    None \<Rightarrow> Inl (Bad_Source (member doc ''source'')) | Some s \<Rightarrow> Inr s) (\<lambda>source.
     bind_result (validated_base read_bases ''read'' (member doc ''read'')) (\<lambda>read.
     bind_result (validated_base write_bases ''write'' (member doc ''write'')) (\<lambda>write.
     bind_result (validated_base list_bases ''commands'' (member doc ''commands'')) (\<lambda>commands.
     bind_result (validated_base list_bases ''web'' (member doc ''web'')) (\<lambda>web.
     bind_result (absolute_path windows ''workdir'' (member doc ''workdir'')) (\<lambda>workdir.
     bind_result (case member doc ''scratch'' of PNone \<Rightarrow> Inr None
                  | v \<Rightarrow> bind_result (absolute_path windows ''scratch'' v) (\<lambda>t. Inr (Some t))) (\<lambda>scratch.
     bind_result (if has_member doc ''rule_files''
                  then (case member doc ''rule_files'' of
                          PList items \<Rightarrow> indexed (\<lambda>_. absolute_path windows ''rule_files'') 0 items
                        | _ \<Rightarrow> Inl Files_Not_A_List)
                  else Inr []) (\<lambda>files.
     bind_result (layer_rules idn windows ''allow'' (member doc ''allow'')) (\<lambda>allow.
     bind_result (layer_rules idn windows ''deny'' (member doc ''deny'')) (\<lambda>deny.
       Inr \<lparr>ly_source = source, ly_read = read, ly_write = write_within_read (Some read) write,
            ly_commands = commands, ly_web = web, ly_workdir = workdir, ly_scratch = scratch,
            ly_allow = allow, ly_deny = deny, ly_rule_files = files\<rparr>))))))))))"

definition layer_from_dict :: "idna \<Rightarrow> bool \<Rightarrow> pyval \<Rightarrow> layer_error + permission_layer" where
  "layer_from_dict idn windows v =
     (case v of
        PDict doc \<Rightarrow>
          (case sort (filter (\<lambda>k. k \<notin> set layer_fields) (map fst doc)) of
             k # _ \<Rightarrow> Inl (Unknown_Field k)
           | [] \<Rightarrow>
               (case sort (filter (\<lambda>k. \<not> has_member doc k) required_fields) of
                  k # _ \<Rightarrow> Inl (Missing_Field k)
                | [] \<Rightarrow> layer_members idn windows doc))
      | _ \<Rightarrow> Inl Layer_Not_Object)"

definition ceiling_from_dict :: "idna \<Rightarrow> bool \<Rightarrow> pyval \<Rightarrow> ceiling_error + permission_ceiling" where
  "ceiling_from_dict idn windows v =
     (case v of
        PDict doc \<Rightarrow>
          if set (map fst doc) \<noteq> {''layers''} then Inl Not_A_Ceiling
          else (case member doc ''layers'' of
                  PList items \<Rightarrow>
                    if items = [] then Inl No_Layers
                    else (case indexed (\<lambda>i x. case layer_from_dict idn windows x of
                                          Inl e \<Rightarrow> Inl (Bad_Layer i e) | Inr l \<Rightarrow> Inr l) 0 items of
                            Inl e \<Rightarrow> Inl e | Inr ls \<Rightarrow> Inr \<lparr>pc_layers = ls\<rparr>)
                | _ \<Rightarrow> Inl No_Layers)
      | _ \<Rightarrow> Inl Not_A_Ceiling)"

end
