(* ===== verification/Trip_Facts.thy ===== *)
theory Trip_Facts
  imports Rule_Facts Layers Path_Facts
begin

section \<open>Stored rules and ceilings\<close>

text \<open>
  The round trips of the stored forms: a rule string, a rule set and a ceiling are read back as they
  were written. A rule is stable when its text parses to itself without a note; rules that name a
  canonical absolute path and one-line commands are.
\<close>

definition stable_rule :: "idna \<Rightarrow> bool \<Rightarrow> permission_rule \<Rightarrow> bool" where
  "stable_rule idn w r \<longleftrightarrow> parse_rule idn w (rule_text r) = Inr (r, None)"

lemma kind_text_letters: "c \<in> set (kind_text k) \<Longrightarrow> is_letter c \<and> \<not> is_space c"
  by (cases k) (auto simp: kind_text_def text_defs)

lemma kind_text_not_Nil [simp]: "kind_text k \<noteq> []"
  by (cases k) (auto simp: kind_text_def)

lemma dropWhile_all: "\<forall>x \<in> set xs. P x \<Longrightarrow> dropWhile P (xs @ ys) = dropWhile P ys"
  by (induction xs) auto

lemma takeWhile_all: "\<forall>x \<in> set xs. P x \<Longrightarrow> takeWhile P (xs @ ys) = xs @ takeWhile P ys"
  by (induction xs) auto

lemma bracket_plain: "\<not> is_space (CHR ''('')" "\<not> is_letter (CHR ''('')" "\<not> is_space (CHR '')'')"
  by (auto simp: text_defs)

lemma rule_form_text: "rule_form (rule_text r) = Some (kind_text (kind r), Some (pattern r))"
proof -
  let ?k = "kind_text (kind r)"
  let ?rest = "''('' @ pattern r @ '')''"
  have k: "\<forall>c \<in> set ?k. is_letter c" "\<not> is_space (hd ?k)"
    using kind_text_letters hd_in_set [OF kind_text_not_Nil] by blast+
  then have "dropWhile is_space (?k @ ?rest) = ?k @ ?rest"
    by (cases ?k) auto
  moreover have "takeWhile is_letter (?k @ ?rest) = ?k" "dropWhile is_letter (?k @ ?rest) = ?rest"
    using k bracket_plain by (auto simp: dropWhile_all takeWhile_all)
  moreover have "rdrop_while is_space ?rest = ?rest"
    using bracket_plain by (intro rdrop_while_id) simp
  ultimately show ?thesis
    unfolding rule_form_def rule_text_def using bracket_plain by (simp add: butlast_append)
qed

lemma own_kind_text: "map_of own_kinds (lower (kind_text k)) = Some k"
  by (cases k; hypsubst; code_simp)

lemma kind_named_text: "kind_named (kind_text k) = Some k"
  by (simp add: kind_named_def own_kind_text)

lemma parse_rule_text:
  assumes "strip (pattern r) = pattern r" "pattern r \<noteq> []"
    and "kind_pattern idn w (kind r) (pattern r) = Inr (pattern r, False)"
  shows "stable_rule idn w r"
  using assms by (simp add: stable_rule_def parse_rule_def rule_form_text kind_named_text own_kind_text Let_def)

lemma strip_id: "t = [] \<or> (\<not> is_space (hd t) \<and> \<not> is_space (last t)) \<Longrightarrow> strip t = t"
  by (cases t) (auto simp: strip_def rdrop_while_id)

lemma canonical_text_root:
  assumes "canonical w p"
  shows "(\<not> w \<and> path_text p = CHR ''/'' # join ''/'' (segments p)) \<or>
    (w \<and> (\<exists>c. is_upper_ascii c \<and> path_text p = c # '':/'' @ join ''/'' (segments p)))"
  using assms by (cases w) (auto simp: canonical_def canonical_root_def path_text_def)

lemma clean_join_slash: "clean w ss \<Longrightarrow> \<not> starts_with ''/'' (join ''/'' ss)"
  by (cases ss; cases "tl ss")
    (auto simp: clean_def clean_segment_def starts_with_iff append_eq_Cons_conv Cons_eq_append_conv)

lemma upper_letter: "is_upper_ascii c \<Longrightarrow> is_letter c \<and> \<not> is_space c \<and> c \<noteq> CHR ''/'' \<and> c \<noteq> CHR ''{'' \<and> c \<noteq> CHR ''~''"
  by (auto simp: text_defs)

text \<open>A rule for a canonical absolute path without braces, control characters and closing spaces.\<close>

lemma stable_path_rule:
  assumes "canonical w p" "path_kind k" "\<not> list_ex is_control (path_text p)"
    and "any_placeholder (path_text p) = None" "\<not> is_space (last (path_text p))"
  shows "stable_rule idn w \<lparr>kind = k, pattern = path_text p\<rparr>"
proof (rule parse_rule_text)
  let ?t = "path_text p"
  consider (posix) ss where "\<not> w" "?t = CHR ''/'' # ss" "\<not> starts_with ''/'' ss"
    | (windows) c ss where "w" "is_upper_ascii c" "?t = c # '':/'' @ ss"
    using canonical_text_root [OF assms(1)] clean_join_slash assms(1)
    by (auto simp: canonical_def)
  then have t: "\<not> starts_with ''//'' ?t" "?t \<noteq> []" "\<not> is_space (hd ?t)"
    "placeholder_at_start ?t = None" "?t \<noteq> ''~''" "\<not> starts_with ''~/'' ?t"
    "\<not> starts_with [CHR ''~'', CHR 0x5C] ?t"
    by (cases; auto simp: placeholder_at_start_def upper_letter text_defs)+
  then show "strip (pattern \<lparr>kind = k, pattern = ?t\<rparr>) = pattern \<lparr>kind = k, pattern = ?t\<rparr>"
    using assms(5) by (simp add: strip_id)
  show "pattern \<lparr>kind = k, pattern = ?t\<rparr> \<noteq> []" using t by simp
  have "unsafe p \<noteq> Some DriveRelativePath" using assms(1) by (simp add: canonical_def)
  then have "path_pattern w ?t = Inr ?t"
    using t assms(3,4) split_lexical_canonical_text [OF assms(1)]
    by (simp add: path_pattern_def foreign_absolute_def path_lead_def)
  then show "kind_pattern idn w (kind \<lparr>kind = k, pattern = ?t\<rparr>) (pattern \<lparr>kind = k, pattern = ?t\<rparr>)
      = Inr (pattern \<lparr>kind = k, pattern = ?t\<rparr>, False)"
    using assms(2) t(1) by (simp add: kind_pattern_def)
qed

lemma stable_command_rule:
  assumes "single_spaced c = c" "c \<noteq> []" "\<not> list_ex is_control c" "\<not> ends_with '':*'' c" "strip c = c"
  shows "stable_rule idn w \<lparr>kind = Shell, pattern = c\<rparr>"
proof (rule parse_rule_text)
  have "\<not> list_ex is_control (replace_char (CHR 0x09) (CHR '' '') c)"
    using assms(3) by (auto simp: list_ex_iff replace_char_def text_defs)
  then show "kind_pattern idn w (kind \<lparr>kind = Shell, pattern = c\<rparr>) (pattern \<lparr>kind = Shell, pattern = c\<rparr>)
      = Inr (pattern \<lparr>kind = Shell, pattern = c\<rparr>, False)"
    using assms by (simp add: kind_pattern_def path_kind_def command_pattern_def Let_def)
qed (use assms in simp_all)

subsection \<open>Rule sets\<close>

lemma list_items_stable:
  "\<forall>r \<in> set rs. stable_rule idn w r \<Longrightarrow>
     list_items idn w part i (map (\<lambda>r. PStr (rule_text r)) rs) = Inr (map (\<lambda>r. (r, None)) rs)"
  by (induction rs arbitrary: i) (auto simp: list_item_def stable_rule_def)

lemma notes_of_none: "notes_of (map (\<lambda>r. (r, None)) rs) = []"
  by (induction rs) simp_all

lemma rule_list_stable:
  assumes "\<forall>r \<in> set (rules_of rs). stable_rule idn w r" "distinct (rules_of rs)"
  shows "rule_list idn w part (case rs of None \<Rightarrow> PNone | Some l \<Rightarrow> rules_value l) = Inr (rs, [])"
  using assms
  by (auto simp: rule_list_def rules_value_def rules_of_def list_items_stable notes_of_none o_def
      split: option.splits)

lemma base_of_read: "base_of read_bases part (PStr (base_text read_bases b)) = Inr (Some b)"
  by (cases b; hypsubst; code_simp)

lemma base_of_write: "base_of write_bases part (PStr (base_text write_bases b)) = Inr (Some b)"
  by (cases b; hypsubst; code_simp)

lemma base_of_list: "base_of list_bases part (PStr (base_text list_bases b)) = Inr (Some b)"
  by (cases b; hypsubst; code_simp)

lemmas base_of_text = base_of_read base_of_write base_of_list

text \<open>A part that is not set is left out and reads back as not set.\<close>

lemma member_part_field:
  "member (part_field part f b @ rest) key =
     (if part = key \<and> b \<noteq> None then f (the b) else member rest key)"
  by (auto simp: part_field_def split: option.splits)

lemma member_last_field:
  "member (part_field part f b) key = (if part = key \<and> b \<noteq> None then f (the b) else PNone)"
  by (cases b) (auto simp: part_field_def)

lemma part_field_keys: "k \<in> set (map fst (part_field part f b)) \<Longrightarrow> k = part"
  by (auto simp: part_field_def split: option.splits)

lemma base_of_part:
  "base_of read_bases key (if b \<noteq> None then PStr (base_text read_bases (the b)) else PNone) = Inr b"
  "base_of write_bases key (if c \<noteq> None then PStr (base_text write_bases (the c)) else PNone) = Inr c"
  "base_of list_bases key (if d \<noteq> None then PStr (base_text list_bases (the d)) else PNone) = Inr d"
  by (cases b; cases c; cases d; simp add: base_of_text base_of_def [of _ _ PNone])+

lemma rules_part:
  assumes "\<forall>r \<in> set (rules_of rs). stable_rule idn w r" "distinct (rules_of rs)"
  shows "rule_list idn w part (if rs \<noteq> None then rules_value (the rs) else PNone) = Inr (rs, [])"
  using rule_list_stable [OF assms] by (cases rs) simp_all

lemma rule_set_round_trip:
  assumes "\<forall>x \<in> set (rules_of (rs_allow r) @ rules_of (rs_deny r)). stable_rule idn w x"
    and "distinct (rules_of (rs_allow r))" "distinct (rules_of (rs_deny r))"
    and "require_write_within_read (rs_read r) (rs_write r)"
  shows "normalize_permission_rules idn w (Stored (PDict (permission_rules_to_dict r))) = Inr (r, [])"
proof -
  let ?d = "permission_rules_to_dict r"
  have "filter (\<lambda>k. k \<notin> set rule_parts) (map fst ?d) = []"
    by (auto simp: permission_rules_to_dict_def rule_parts_def filter_empty_conv part_field_def
        split: option.splits)
  moreover have members:
    "member ?d ''read'' = (if rs_read r \<noteq> None then PStr (base_text read_bases (the (rs_read r))) else PNone)"
    "member ?d ''write'' = (if rs_write r \<noteq> None then PStr (base_text write_bases (the (rs_write r))) else PNone)"
    "member ?d ''commands'' = (if rs_commands r \<noteq> None then PStr (base_text list_bases (the (rs_commands r))) else PNone)"
    "member ?d ''web'' = (if rs_web r \<noteq> None then PStr (base_text list_bases (the (rs_web r))) else PNone)"
    "member ?d ''allow'' = (if rs_allow r \<noteq> None then rules_value (the (rs_allow r)) else PNone)"
    "member ?d ''deny'' = (if rs_deny r \<noteq> None then rules_value (the (rs_deny r)) else PNone)"
    by (simp_all add: permission_rules_to_dict_def member_part_field member_last_field)
  moreover have "rule_list idn w ''allow'' (member ?d ''allow'') = Inr (rs_allow r, [])"
    "rule_list idn w ''deny'' (member ?d ''deny'') = Inr (rs_deny r, [])"
    unfolding members using assms(1-3) by (intro rules_part; simp)+
  ultimately show ?thesis
    unfolding normalize_object using assms(4) by (simp add: base_of_part del: not_None_eq)
qed

subsection \<open>Ceilings\<close>

text \<open>What a stored layer promises: writing within reading, absolute safe folders in their normalized
  text, and path rules that are absolute and without placeholders.\<close>

definition settled_path :: "bool \<Rightarrow> string \<Rightarrow> bool" where
  "settled_path w t \<longleftrightarrow>
     (case split_lexical w t of None \<Rightarrow> False
      | Some p \<Rightarrow> absolute p \<and> unsafe p = None \<and> path_text p = t)"

definition settled_rule :: "bool \<Rightarrow> permission_rule \<Rightarrow> bool" where
  "settled_rule w r \<longleftrightarrow>
     (path_kind (kind r) \<longrightarrow>
        \<not> starts_with ''{'' (pattern r) \<and> \<not> starts_with ''~'' (pattern r) \<and>
        (case split_lexical w (pattern r) of None \<Rightarrow> False | Some p \<Rightarrow> absolute p))"

definition settled_layer :: "idna \<Rightarrow> bool \<Rightarrow> permission_layer \<Rightarrow> bool" where
  "settled_layer idn w l \<longleftrightarrow>
     write_within_read (Some (ly_read l)) (ly_write l) = ly_write l \<and>
     settled_path w (ly_workdir l) \<and> list_all (settled_path w) (ly_rule_files l) \<and>
     (case ly_scratch l of None \<Rightarrow> True | Some s \<Rightarrow> settled_path w s) \<and>
     list_all (\<lambda>r. stable_rule idn w r \<and> settled_rule w r) (ly_allow l @ ly_deny l)"

lemma absolute_path_settled: "settled_path w t \<Longrightarrow> absolute_path w field (PStr t) = Inr t"
  by (auto simp: settled_path_def absolute_path_def split: option.splits)

lemma validated_base_text:
  "validated_base read_bases part (PStr (base_text read_bases b)) = Inr b"
  "validated_base write_bases part (PStr (base_text write_bases c)) = Inr c"
  "validated_base list_bases part (PStr (base_text list_bases d)) = Inr d"
  by (simp_all add: validated_base_def base_of_text)

lemma source_named_text: "source_named (PStr (source_text s)) = Some s"
  by (cases s; hypsubst; code_simp)

lemma layer_rule_settled:
  "stable_rule idn w r \<Longrightarrow> settled_rule w r \<Longrightarrow> layer_rule idn w part i (PStr (rule_text r)) = Inr r"
  by (auto simp: layer_rule_def parse_permission_rule_def stable_rule_def settled_rule_def
      split: option.splits)

lemma indexed_map: "\<forall>x \<in> set xs. \<forall>i. f i (g x) = Inr x \<Longrightarrow> indexed f i (map g xs) = Inr xs"
  by (induction xs arbitrary: i) auto

lemma layer_rules_settled:
  "list_all (\<lambda>r. stable_rule idn w r \<and> settled_rule w r) rs \<Longrightarrow>
     layer_rules idn w part (rules_value rs) = Inr rs"
  by (auto simp: layer_rules_def rules_value_def list_all_iff layer_rule_settled intro!: indexed_map)

lemma member_layer:
  "member (layer_to_dict l) ''source'' = PStr (source_text (ly_source l))"
  "member (layer_to_dict l) ''read'' = PStr (base_text read_bases (ly_read l))"
  "member (layer_to_dict l) ''write'' = PStr (base_text write_bases (ly_write l))"
  "member (layer_to_dict l) ''commands'' = PStr (base_text list_bases (ly_commands l))"
  "member (layer_to_dict l) ''web'' = PStr (base_text list_bases (ly_web l))"
  "member (layer_to_dict l) ''workdir'' = PStr (ly_workdir l)"
  "member (layer_to_dict l) ''scratch'' = optional_text (ly_scratch l)"
  "member (layer_to_dict l) ''allow'' = rules_value (ly_allow l)"
  "member (layer_to_dict l) ''deny'' = rules_value (ly_deny l)"
  "has_member (layer_to_dict l) ''rule_files'' \<longleftrightarrow> ly_rule_files l \<noteq> []"
  "ly_rule_files l \<noteq> [] \<Longrightarrow> member (layer_to_dict l) ''rule_files'' = PList (map PStr (ly_rule_files l))"
  by (simp_all add: layer_to_dict_def)

lemma layer_members_round_trip:
  assumes "settled_layer idn w l"
  shows "layer_members idn w (layer_to_dict l) = Inr l"
proof -
  note l = assms [unfolded settled_layer_def]
  have "indexed (\<lambda>_. absolute_path w ''rule_files'') 0 (map PStr (ly_rule_files l)) = Inr (ly_rule_files l)"
    using l by (intro indexed_map) (auto simp: list_all_iff absolute_path_settled)
  then show ?thesis
    using l unfolding layer_members_def member_layer
    by (cases "ly_scratch l"; cases "ly_rule_files l = []")
      (simp_all add: member_layer source_named_text validated_base_text optional_text_def
        absolute_path_settled layer_rules_settled)
qed

lemma layer_round_trip:
  assumes "settled_layer idn w l"
  shows "layer_from_dict idn w (PDict (layer_to_dict l)) = Inr l"
proof -
  have "filter (\<lambda>k. k \<notin> set layer_fields) (map fst (layer_to_dict l)) = []"
    "filter (\<lambda>k. \<not> has_member (layer_to_dict l) k) required_fields = []"
    by (simp_all add: layer_to_dict_def layer_fields_def required_fields_def)
  then show ?thesis
    using layer_members_round_trip [OF assms] by (simp add: layer_from_dict_def)
qed

lemma ceiling_round_trip:
  assumes "pc_layers c \<noteq> []" "\<forall>l \<in> set (pc_layers c). settled_layer idn w l"
  shows "ceiling_from_dict idn w (PDict (ceiling_to_dict c)) = Inr c"
proof -
  have "indexed (\<lambda>i x. case layer_from_dict idn w x of Inl e \<Rightarrow> Inl (Bad_Layer i e) | Inr l \<Rightarrow> Inr l) 0
      (map (\<lambda>l. PDict (layer_to_dict l)) (pc_layers c)) = Inr (pc_layers c)"
    by (rule indexed_map) (use assms(2) layer_round_trip in simp)
  then show ?thesis
    using assms(1) by (cases c) (simp add: ceiling_from_dict_def ceiling_to_dict_def)
qed

end
