(* ===== verification/Boundary.thy ===== *)
theory Boundary
  imports Layers Globs
begin

section \<open>The permission boundary\<close>

text \<open>
  \<open>core/permissions/permissions.py\<close>: the boundary of one Run, built from the Agent's resolved
  rules, the ceilings it inherited and the facts of the Run, and every check it answers. What the
  code asks of the machine is the record \<open>world\<close>: the file system, the package \<open>idna\<close> and the
  host name of the machine. A check has three outcomes: permitted, refused, or the \<open>ValueError\<close> of
  a malformed \<open>file:\<close> URL, which passes through it.
\<close>

record world =
  w_host :: host
  w_idna :: idna
  w_machine :: string

datatype verdict = Permitted | Refused permission_refusal | Raised

record run_facts =
  cx_workdir :: string
  cx_home :: string
  cx_data_dir :: string
  cx_project_root :: "string option"
  cx_scratch_root :: "string option"
  cx_workspace :: "string option"
  cx_agent_config :: "string option"
  cx_rule_files :: "string list"
  cx_install_dirs :: "string list"
  cx_readable_dirs :: "string list"
  cx_loopback_port :: "nat option"
  cx_own_hosts :: "string list"
  cx_windows :: bool

subsection \<open>Areas\<close>

text \<open>\<open>_Area\<close>: a folder in its lexical and resolved comparison keys.\<close>

type_synonym area = "string list"

definition area_of :: "host \<Rightarrow> bool \<Rightarrow> string \<Rightarrow> area option" where
  "area_of h windows t =
     Option.bind (split_lexical windows t) (\<lambda>p.
       let key = path_key windows (path_text p) in
       if unsafe p \<noteq> None then Some [key]
       else map_option (\<lambda>r. dedup [key, path_key windows r]) (resolve_text h windows (path_text p)))"

definition area_optional :: "host \<Rightarrow> bool \<Rightarrow> string option \<Rightarrow> area option option" where
  "area_optional h windows t =
     (case t of None \<Rightarrow> Some None | Some s \<Rightarrow> map_option Some (area_of h windows s))"

definition area_union :: "host \<Rightarrow> bool \<Rightarrow> string list \<Rightarrow> area option" where
  "area_union h windows paths =
     map_option (\<lambda>areas. dedup (concat areas)) (map_option_list (area_of h windows) paths)"

definition area_contains :: "area \<Rightarrow> string \<Rightarrow> bool" where
  "area_contains a key \<longleftrightarrow> list_ex (is_inside key) a"

definition opt_contains :: "area option \<Rightarrow> string \<Rightarrow> bool" where
  "opt_contains a key = (case a of None \<Rightarrow> False | Some x \<Rightarrow> area_contains x key)"

subsection \<open>Compiled rules and layers\<close>

text \<open>\<open>_PathRule\<close>; its compiled patterns are \<open>compile_pattern\<close> of its keys.\<close>

record path_rule =
  pl_rule :: permission_rule
  pl_keys :: "string list"
  pl_literal :: "string option"

text \<open>The pattern as written and, where it can be resolved, with its literal prefix resolved.\<close>

definition rule_variants :: "host \<Rightarrow> bool \<Rightarrow> lexical_path \<Rightarrow> string list option" where
  "rule_variants h windows lexical =
     (let prefix = literal_prefix lexical in
      if unsafe lexical = None \<and> segments prefix \<noteq> []
      then Option.bind (resolve_text h windows (path_text prefix)) (\<lambda>r.
           map_option (\<lambda>resolved.
               [path_text lexical,
                path_text \<lparr>root = root resolved,
                           segments = segments resolved @ drop (length (segments prefix)) (segments lexical),
                           unsafe = None\<rparr>])
             (split_lexical windows r))
      else Some [path_text lexical])"

definition path_rule_of :: "host \<Rightarrow> bool \<Rightarrow> permission_rule \<Rightarrow> path_rule option" where
  "path_rule_of h windows rule =
     Option.bind (split_lexical windows (pattern rule)) (\<lambda>lexical.
       map_option (\<lambda>variants.
           \<lparr>pl_rule = rule, pl_keys = dedup (map (path_key windows) variants),
            pl_literal = (if has_wildcard (path_text lexical) then None
                          else Some (path_key windows (path_text lexical)))\<rparr>)
         (rule_variants h windows lexical))"

definition rule_matches :: "path_rule \<Rightarrow> string \<Rightarrow> bool" where
  "rule_matches r key \<longleftrightarrow> list_ex (\<lambda>p. rx_match (compile_pattern p) key) (pl_keys r)"

record compiled_layer =
  cl_layer :: permission_layer
  cl_workdir :: area
  cl_scratch :: "area option"
  cl_read_allow :: "path_rule list"
  cl_edit_allow :: "path_rule list"
  cl_read_deny :: "path_rule list"
  cl_edit_deny :: "path_rule list"
  cl_web_allow :: "permission_rule list"
  cl_web_deny :: "permission_rule list"

definition rules_of_kind :: "rule_kind \<Rightarrow> permission_rule list \<Rightarrow> permission_rule list" where
  "rules_of_kind k rules = filter (\<lambda>r. kind r = k) rules"

definition compile_layer :: "host \<Rightarrow> bool \<Rightarrow> permission_layer \<Rightarrow> compiled_layer option" where
  "compile_layer h windows l =
     (let compiled = (\<lambda>rules k. map_option_list (path_rule_of h windows) (rules_of_kind k rules)) in
      Option.bind (area_of h windows (ly_workdir l)) (\<lambda>workdir.
      Option.bind (area_optional h windows (ly_scratch l)) (\<lambda>scratch.
      Option.bind (compiled (ly_allow l) Read) (\<lambda>read_allow.
      Option.bind (compiled (ly_allow l) Edit) (\<lambda>edit_allow.
      Option.bind (compiled (ly_deny l) Read) (\<lambda>read_deny.
      Option.bind (compiled (ly_deny l) Edit) (\<lambda>edit_deny.
        Some \<lparr>cl_layer = l, cl_workdir = workdir, cl_scratch = scratch,
              cl_read_allow = read_allow, cl_edit_allow = edit_allow,
              cl_read_deny = read_deny, cl_edit_deny = edit_deny,
              cl_web_allow = rules_of_kind Web (ly_allow l),
              cl_web_deny = rules_of_kind Web (ly_deny l)\<rparr>)))))))"

definition deny_rules :: "compiled_layer \<Rightarrow> access \<Rightarrow> path_rule list" where
  "deny_rules l a = (if a = Writing then cl_read_deny l @ cl_edit_deny l else cl_read_deny l)"

definition denying_rule :: "compiled_layer \<Rightarrow> string list \<Rightarrow> access \<Rightarrow> string option" where
  "denying_rule l keys a =
     map_option (\<lambda>r. rule_text (pl_rule r))
       (find (\<lambda>r. list_ex (rule_matches r) keys) (deny_rules l a))"

definition base_covers_everything :: "compiled_layer \<Rightarrow> access \<Rightarrow> bool" where
  "base_covers_everything l a =
     (if a = Writing then ly_write (cl_layer l) = Write_Anywhere
      else ly_read (cl_layer l) = Read_Anywhere)"

definition layer_permits :: "compiled_layer \<Rightarrow> string \<Rightarrow> access \<Rightarrow> bool" where
  "layer_permits l key a =
     (if a = Writing
      then (let b = ly_write (cl_layer l) in
            if b = Write_Anywhere \<or> opt_contains (cl_scratch l) key then True
            else if b = Write_Work_Area \<and> area_contains (cl_workdir l) key then True
            else list_ex (\<lambda>r. rule_matches r key) (cl_edit_allow l))
      else (if ly_read (cl_layer l) = Read_Anywhere \<or> opt_contains (cl_scratch l) key then True
            else if area_contains (cl_workdir l) key then True
            else list_ex (\<lambda>r. rule_matches r key) (cl_read_allow l @ cl_edit_allow l)))"

definition allow_rules :: "compiled_layer \<Rightarrow> access \<Rightarrow> path_rule list" where
  "allow_rules l a = (if a = Writing then cl_edit_allow l else cl_read_allow l @ cl_edit_allow l)"

definition layer_names_exactly :: "compiled_layer \<Rightarrow> string \<Rightarrow> access \<Rightarrow> bool" where
  "layer_names_exactly l key a \<longleftrightarrow>
     list_ex (\<lambda>r. case pl_literal r of None \<Rightarrow> False | Some t \<Rightarrow> is_inside key t) (allow_rules l a)"

definition candidates :: "compiled_layer \<Rightarrow> access \<Rightarrow> string list" where
  "candidates l a =
     (if a \<noteq> Writing \<or> ly_write (cl_layer l) = Write_Work_Area then [ly_workdir (cl_layer l)] else [])
     @ (case ly_scratch (cl_layer l) of None \<Rightarrow> [] | Some s \<Rightarrow> [s])
     @ map (\<lambda>r. pattern (pl_rule r)) (allow_rules l a)"

subsection \<open>Building a boundary\<close>

record boundary =
  b_layers :: "permission_layer list"
  b_context :: "run_facts option"
  b_compiled :: "compiled_layer list"
  b_windows :: bool
  b_workdir :: string
  b_home :: string
  b_data_dirs :: area
  b_workspace :: "area option"
  b_own_data :: "area option"
  b_scratch :: "area option"
  b_readable :: "area list"
  b_agent_config :: "area option"
  b_rule_files :: area
  b_install_dirs :: "area list"
  b_own_hosts :: "string list"

definition unrestricted :: boundary where
  "unrestricted =
     \<lparr>b_layers = [], b_context = None, b_compiled = [], b_windows = False, b_workdir = [], b_home = [],
      b_data_dirs = [], b_workspace = None, b_own_data = None, b_scratch = None, b_readable = [],
      b_agent_config = None, b_rule_files = [], b_install_dirs = [], b_own_hosts = []\<rparr>"

definition strip_chars :: "char set \<Rightarrow> string \<Rightarrow> string" where
  "strip_chars cs t = rdrop_while (\<lambda>c. c \<in> cs) (dropWhile (\<lambda>c. c \<in> cs) t)"

definition brackets :: "char set" where
  "brackets = {CHR ''['', CHR '']''}"

definition host_key :: "string \<Rightarrow> string" where
  "host_key host =
     (let t = canonical_host
                (fst (partition_on (CHR ''%'')
                  (casefold (rstrip_char (CHR ''.'') (strip_chars brackets (strip host)))))) in
      case address_form t of None \<Rightarrow> t | Some a \<Rightarrow> a)"

text \<open>The Agent's own folder: the one its configuration file lies in.\<close>

definition own_data_area :: "host \<Rightarrow> bool \<Rightarrow> string option \<Rightarrow> area option option" where
  "own_data_area h windows agent_config =
     (case agent_config of None \<Rightarrow> Some None
      | Some c \<Rightarrow>
          Option.bind (split_lexical windows c) (\<lambda>p.
            map_option Some
              (area_of h windows
                (path_text \<lparr>root = root p, segments = butlast (segments p), unsafe = None\<rparr>))))"

definition boundary_of :: "world \<Rightarrow> permission_layer list \<Rightarrow> run_facts \<Rightarrow> boundary option" where
  "boundary_of w layers cx =
     (let h = w_host w; windows = cx_windows cx in
      if layers = [] then Some unrestricted
      else
      Option.bind (lexical_text windows (cx_workdir cx)) (\<lambda>workdir.
      Option.bind (lexical_text windows (cx_home cx)) (\<lambda>home.
      Option.bind (map_option_list (compile_layer h windows) layers) (\<lambda>compiled.
      Option.bind (area_of h windows (cx_data_dir cx)) (\<lambda>data_dirs.
      Option.bind (area_optional h windows (cx_workspace cx)) (\<lambda>workspace.
      Option.bind (area_optional h windows (cx_scratch_root cx)) (\<lambda>scratch.
      Option.bind (map_option_list (area_of h windows) (cx_readable_dirs cx)) (\<lambda>readable.
      Option.bind (area_optional h windows (cx_agent_config cx)) (\<lambda>agent_config.
      Option.bind (own_data_area h windows (cx_agent_config cx)) (\<lambda>own_data.
      Option.bind (area_union h windows (cx_rule_files cx @ concat (map ly_rule_files layers))) (\<lambda>rule_files.
      Option.bind (map_option_list (area_of h windows) (cx_install_dirs cx)) (\<lambda>install_dirs.
        Some \<lparr>b_layers = layers, b_context = Some cx, b_compiled = compiled, b_windows = windows,
              b_workdir = workdir, b_home = home, b_data_dirs = data_dirs, b_workspace = workspace,
              b_own_data = own_data, b_scratch = scratch, b_readable = readable,
              b_agent_config = agent_config, b_rule_files = rule_files,
              b_install_dirs = install_dirs, b_own_hosts = map host_key (cx_own_hosts cx)\<rparr>))))))))))))"

text \<open>\<open>_expand_pattern\<close>: the inner \<open>None\<close> is a rule whose placeholder has no value in this Run.\<close>

definition expand_pattern ::
  "bool \<Rightarrow> (string \<times> string option) list \<Rightarrow> string \<Rightarrow> string option option" where
  "expand_pattern windows vals pat =
     (let value = (\<lambda>name. case map_of vals name of Some (Some v) \<Rightarrow> Some v | _ \<Rightarrow> None);
          home = (case value ''home'' of Some v \<Rightarrow> v | None \<Rightarrow> []);
          workdir = (case value ''workdir'' of Some v \<Rightarrow> v | None \<Rightarrow> []);
          text =
            (if starts_with ''{'' pat
             then (case partition_on (CHR ''}'') (tl pat) of (name, _, rest) \<Rightarrow>
                     map_option (\<lambda>v. rstrip_char (CHR ''/'') v @ rest) (value name))
             else if pat = ''~'' \<or> starts_with ''~/'' pat
             then Some (rstrip_char (CHR ''/'') home @ drop 1 pat)
             else Some pat) in
      case text of None \<Rightarrow> Some None
      | Some t \<Rightarrow>
          Option.bind (split_lexical windows workdir) (\<lambda>base.
            map_option (\<lambda>p. Some (path_text (join_lexical base p))) (split_lexical windows t)))"

definition expand_rule ::
  "bool \<Rightarrow> (string \<times> string option) list \<Rightarrow> permission_rule \<Rightarrow> permission_rule option option" where
  "expand_rule windows vals rule =
     (if path_kind (kind rule)
      then map_option (map_option (\<lambda>p. \<lparr>kind = kind rule, pattern = p\<rparr>))
             (expand_pattern windows vals (pattern rule))
      else Some (Some rule))"

definition expand_rules ::
  "bool \<Rightarrow> (string \<times> string option) list \<Rightarrow> permission_rule list option \<Rightarrow> permission_rule list option" where
  "expand_rules windows vals rules =
     map_option (\<lambda>found. dedup (present_levels found))
       (map_option_list (expand_rule windows vals) (rules_of rules))"

definition optional_lexical :: "bool \<Rightarrow> string option \<Rightarrow> string option option" where
  "optional_lexical windows t =
     (case t of None \<Rightarrow> Some None | Some s \<Rightarrow> map_option Some (lexical_text windows s))"

definition or_default :: "'a \<Rightarrow> 'a option \<Rightarrow> 'a" where
  "or_default d x = (case x of None \<Rightarrow> d | Some y \<Rightarrow> y)"

definition expand_set :: "permission_rules \<Rightarrow> run_facts \<Rightarrow> permission_layer option" where
  "expand_set rules cx =
     (let windows = cx_windows cx in
      Option.bind (lexical_text windows (cx_workdir cx)) (\<lambda>workdir.
      Option.bind (optional_lexical windows (cx_project_root cx)) (\<lambda>project.
      Option.bind (optional_lexical windows (cx_scratch_root cx)) (\<lambda>scratch.
      Option.bind (optional_lexical windows (cx_workspace cx)) (\<lambda>workspace.
      Option.bind (lexical_text windows (cx_home cx)) (\<lambda>home.
      let vals = [(''workdir'', Some workdir), (''project'', project), (''scratch'', scratch),
                  (''workspace'', workspace), (''home'', Some home)];
          read = or_default Read_Anywhere (rs_read rules) in
      Option.bind (expand_rules windows vals (rs_allow rules)) (\<lambda>allow.
      Option.bind (expand_rules windows vals (rs_deny rules)) (\<lambda>deny.
      map_option (\<lambda>files.
          \<lparr>ly_source = Agent, ly_read = read,
           ly_write = write_within_read (Some read) (or_default Write_Anywhere (rs_write rules)),
           ly_commands = or_default Any (rs_commands rules), ly_web = or_default Any (rs_web rules),
           ly_workdir = workdir, ly_scratch = scratch, ly_allow = allow, ly_deny = deny,
           ly_rule_files = dedup files\<rparr>)
        (map_option_list (lexical_text windows) (cx_rule_files cx))))))))))"

definition build ::
  "world \<Rightarrow> permission_rules option \<Rightarrow> run_facts \<Rightarrow> permission_ceiling list \<Rightarrow> boundary option" where
  "build w rules cx ceilings =
     Option.bind
       (case rules of
          Some r \<Rightarrow> if restricts r then map_option (\<lambda>l. [l]) (expand_set r cx) else Some []
        | None \<Rightarrow> Some [])
       (\<lambda>own. boundary_of w (own @ concat (map pc_layers ceilings)) cx)"

definition restricted :: "boundary \<Rightarrow> bool" where
  "restricted b \<longleftrightarrow> b_layers b \<noteq> []"

definition limits_writes :: "boundary \<Rightarrow> bool" where
  "limits_writes b \<longleftrightarrow>
     list_ex (\<lambda>l. ly_write (cl_layer l) \<noteq> Write_Anywhere \<or> cl_read_deny l \<noteq> [] \<or> cl_edit_deny l \<noteq> [])
       (b_compiled b)"

definition ceiling :: "boundary \<Rightarrow> layer_source \<Rightarrow> permission_ceiling option" where
  "ceiling b source =
     (if b_layers b = [] then None
      else Some \<lparr>pc_layers = map (\<lambda>l. if ly_source l = Agent then retagged l source else l) (b_layers b)\<rparr>)"

text \<open>\<open>with_agent_allow\<close>: the inner \<open>None\<close> is a boundary without a layer of the Agent's own.\<close>

definition with_agent_allow ::
  "world \<Rightarrow> boundary \<Rightarrow> permission_rule list \<Rightarrow> boundary option option" where
  "with_agent_allow w b rules =
     (case (b_layers b, b_context b) of
        (own # others, Some cx) \<Rightarrow>
          if ly_source own \<noteq> Agent then Some None
          else map_option Some
                 (boundary_of w
                   (own\<lparr>ly_allow := ly_allow own @ filter (\<lambda>r. r \<notin> set (ly_allow own)) rules\<rparr> # others) cx)
      | _ \<Rightarrow> Some None)"

end
