(* ===== verification/Checks.thy ===== *)
theory Checks
  imports Boundary
begin

section \<open>Access checks\<close>

text \<open>
  The checks of \<open>PermissionBoundary\<close> (\<open>core/permissions/permissions.py\<close>): the summary of what an
  access may reach, \<open>check_path\<close> with its subtree refusals, what below a folder may be refused,
  and \<open>check_host\<close> and \<open>check_url\<close>. A check runs its stages in order; the first that does not
  permit is its answer.
\<close>

subsection \<open>Summaries and refusals\<close>

definition listed_in :: "permission_layer \<Rightarrow> string \<Rightarrow> rule_kind \<Rightarrow> bool" where
  "listed_in l pat k \<longleftrightarrow>
     list_ex (\<lambda>r. kind r = k \<and>
                  (pattern r = ''*'' \<or> pattern r = pat
                   \<or> (k = Web \<and> host_matches (pattern r) (remove_prefix ''*.'' pat))))
       (ly_allow l)"

text \<open>The other layers are those at other positions.\<close>

definition others :: "'a list \<Rightarrow> nat \<Rightarrow> 'a list" where
  "others xs i = take i xs @ drop (Suc i) xs"

definition listed_summary ::
  "boundary \<Rightarrow> rule_kind \<Rightarrow> (permission_layer \<Rightarrow> bool) \<Rightarrow> string list option" where
  "listed_summary b k listed =
     (let restricting = filter listed (b_layers b) in
      if restricting = [] then None
      else Some (dedup (concat (map (\<lambda>i.
             map pattern (filter (\<lambda>r. kind r = k \<and>
                list_all (\<lambda>other. listed_in other (pattern r) k) (others restricting i))
               (ly_allow (restricting ! i)))) [0..<length restricting]))))"

definition key_of :: "boundary \<Rightarrow> string \<Rightarrow> string" where
  "key_of b t = path_key (b_windows b) t"

text \<open>One candidate of \<open>allowed_summary\<close>: what is shown, when every layer permits its folder.\<close>

definition candidate_item :: "boundary \<Rightarrow> access \<Rightarrow> string \<Rightarrow> string option option" where
  "candidate_item b a c =
     map_option (\<lambda>p. let folder = path_text (literal_prefix p) in
                   if list_all (\<lambda>l. layer_permits l (key_of b folder) a) (b_compiled b)
                   then Some (if a = Start_Dir then folder else c) else None)
       (split_lexical (b_windows b) c)"

text \<open>The outer \<open>None\<close> is the escaping error; \<open>Some None\<close> is no limit.\<close>

definition allowed_summary :: "boundary \<Rightarrow> access \<Rightarrow> string list option option" where
  "allowed_summary b a =
     (if b_layers b = [] then Some None
      else if a = Commanding then Some (listed_summary b Shell (\<lambda>l. ly_commands l = Listed))
      else if a = Fetching \<or> a = Connecting then Some (listed_summary b Web (\<lambda>l. ly_web l = Listed))
      else (let restricting = filter (\<lambda>l. \<not> base_covers_everything l a) (b_compiled b) in
            if restricting = [] then Some None
            else Option.bind (map_option_list (candidate_item b a)
                                (concat (map (\<lambda>l. candidates l a) restricting))) (\<lambda>found.
                 let items = dedup (present_levels found) in
                 case Option.bind (b_context b) cx_workspace of
                   None \<Rightarrow> Some (Some items)
                 | Some ws \<Rightarrow> map_option (\<lambda>t. Some (if t \<in> set items then items else items @ [t]))
                               (lexical_text (b_windows b) ws))))"

text \<open>What a stage refuses, before the summary is added.\<close>

definition plain_refusal :: "access \<Rightarrow> string \<Rightarrow> refusal_reason \<Rightarrow> permission_refusal" where
  "plain_refusal a target reason =
     \<lparr>rf_access = a, rf_target = target, rf_reason = reason, rf_source = Agent, rf_rule = None,
      rf_base = None, rf_location = None, rf_detail = None, rf_resolved = None, rf_allowed = None,
      rf_hint = None, rf_below = None, rf_retryable = False\<rparr>"

definition refuse :: "boundary \<Rightarrow> permission_refusal \<Rightarrow> verdict" where
  "refuse b r =
     (case allowed_summary b (rf_access r) of None \<Rightarrow> Raised
      | Some allowed \<Rightarrow> Refused (r\<lparr>rf_allowed := allowed\<rparr>))"

definition and_then :: "verdict \<Rightarrow> verdict \<Rightarrow> verdict" where
  "and_then v rest = (case v of Permitted \<Rightarrow> rest | _ \<Rightarrow> v)"

lemma and_then_Permitted [simp]: "and_then v rest = Permitted \<longleftrightarrow> v = Permitted \<and> rest = Permitted"
  by (cases v) (auto simp: and_then_def)

lemma refuse_not_Permitted [simp]: "refuse b r \<noteq> Permitted"
  by (auto simp: refuse_def split: option.splits)

subsection \<open>Protected locations\<close>

definition data_dir_allowed :: "boundary \<Rightarrow> string \<Rightarrow> access \<Rightarrow> bool" where
  "data_dir_allowed b key a =
     (let own = opt_contains (b_workspace b) key \<and> opt_contains (b_own_data b) key in
      if a = Writing then own \<or> opt_contains (b_scratch b) key
      else own \<or> opt_contains (b_scratch b) key
           \<or> list_ex (\<lambda>area. area_contains area key) (b_readable b))"

definition protected_key :: "boundary \<Rightarrow> access \<Rightarrow> string \<Rightarrow> string option" where
  "protected_key b a key =
     (if opt_contains (b_agent_config b) key then Some ''agent_config''
      else if a = Writing \<and> area_contains (b_rule_files b) key then Some ''agent_config''
      else if a = Writing \<and> list_ex (\<lambda>area. area_contains area key) (b_install_dirs b)
      then Some ''installation''
      else if area_contains (b_data_dirs b) key \<and> \<not> data_dir_allowed b key a then Some ''data_dir''
      else None)"

definition protected :: "boundary \<Rightarrow> string list \<Rightarrow> access \<Rightarrow> string option" where
  "protected b keys a = first_some (protected_key b a) keys"

definition granted :: "boundary \<Rightarrow> string \<Rightarrow> access \<Rightarrow> bool" where
  "granted b key a \<longleftrightarrow>
     opt_contains (b_workspace b) key
     \<or> (a \<noteq> Writing \<and> list_ex (\<lambda>area. area_contains area key) (b_readable b))"

definition names_exactly :: "boundary \<Rightarrow> string \<Rightarrow> access \<Rightarrow> bool" where
  "names_exactly b key a \<longleftrightarrow> list_all (\<lambda>l. layer_names_exactly l key a) (b_compiled b)"

subsection \<open>Subtrees\<close>

text \<open>The arguments of one path check beside the path itself.\<close>

record path_request =
  rq_base :: "string option"
  rq_subtree :: bool
  rq_glob :: "string option"
  rq_pruned :: "string list"
  rq_git :: bool
  rq_deny_only :: bool

definition plain_request :: path_request where
  "plain_request = \<lparr>rq_base = None, rq_subtree = False, rq_glob = None, rq_pruned = [],
                    rq_git = False, rq_deny_only = False\<rparr>"

definition protected_areas ::
  "boundary \<Rightarrow> string list \<Rightarrow> access \<Rightarrow> bool \<Rightarrow> (string \<times> area) list" where
  "protected_areas b keys a git =
     (case b_agent_config b of None \<Rightarrow> [] | Some area \<Rightarrow> [(''agent_config'', area)])
     @ (if list_all (\<lambda>key. data_dir_allowed b key a) keys then [] else [(''data_dir'', b_data_dirs b)])
     @ (if a = Writing \<and> \<not> git then [(''agent_config'', b_rule_files b)] else [])
     @ (if a = Writing then map (\<lambda>area. (''installation'', area)) (b_install_dirs b) else [])"

text \<open>The deny rules below, in the order of the nested loops.\<close>

definition denied_below ::
  "boundary \<Rightarrow> access \<Rightarrow> string list \<Rightarrow> (compiled_layer \<times> path_rule \<times> string \<times> string) list" where
  "denied_below b a keys =
     concat (map (\<lambda>l. concat (map (\<lambda>r. concat (map (\<lambda>p. map (\<lambda>key. (l, r, p, key)) keys) (pl_keys r)))
                               (deny_rules l a)))
       (b_compiled b))"

definition below_target :: "string \<Rightarrow> string \<Rightarrow> string \<Rightarrow> string" where
  "below_target target p key =
     remove_suffix ''/**''
       (case sort (patterns_below p key) of
          [] \<Rightarrow> target
        | first # _ \<Rightarrow> rstrip_char (CHR ''/'') target @ ''/'' @ first)"

definition subtree_refusal ::
  "boundary \<Rightarrow> string list \<Rightarrow> access \<Rightarrow> string \<Rightarrow> string option \<Rightarrow> string list \<Rightarrow> string list \<Rightarrow> bool \<Rightarrow>
     verdict" where
  "subtree_refusal b keys a target shown reach pruned git =
     (case find (\<lambda>(_, area). list_ex (\<lambda>folder. list_ex (\<lambda>key. reaches key reach folder) keys) area)
             (protected_areas b keys a git) of
        Some (location, _) \<Rightarrow>
          refuse b ((plain_refusal a target Protected_Location)
                     \<lparr>rf_location := Some location, rf_resolved := shown\<rparr>)
      | None \<Rightarrow>
          if git then Permitted
          else (case find (\<lambda>(_, _, p, key). reaches key reach p \<and> \<not> pruned_away p key pruned)
                       (denied_below b a keys) of
                  None \<Rightarrow> Permitted
                | Some (l, r, p, key) \<Rightarrow>
                    refuse b ((plain_refusal a target Deny_Rule)
                      \<lparr>rf_rule := Some (rule_text (pl_rule r)), rf_source := ly_source (cl_layer l),
                       rf_resolved := shown, rf_below := Some (below_target target p key)\<rparr>)))"

subsection \<open>Checking a path\<close>

definition base_text_of :: "boundary \<Rightarrow> string option \<Rightarrow> string option" where
  "base_text_of b base =
     (case base of None \<Rightarrow> Some (b_workdir b)
      | Some t \<Rightarrow>
          Option.bind (split_lexical (b_windows b) (b_workdir b)) (\<lambda>w.
            map_option (\<lambda>p. path_text (join_lexical w p)) (split_lexical (b_windows b) t)))"

definition access_keys :: "boundary \<Rightarrow> normalized_path \<Rightarrow> string list" where
  "access_keys b n =
     (if np_unsafe n \<noteq> None then [key_of b (np_lexical n)]
      else dedup [key_of b (np_lexical n), key_of b (np_resolved n)])"

definition shown_path :: "boundary \<Rightarrow> normalized_path \<Rightarrow> string option" where
  "shown_path b n = (if length (access_keys b n) = 2 then Some (np_resolved n) else None)"

definition form_text :: "unsafe_form \<Rightarrow> string" where
  "form_text f =
     (case f of NetworkPath \<Rightarrow> ''network path'' | DevicePath \<Rightarrow> ''device path''
      | AlternateDataStream \<Rightarrow> ''alternate data stream'' | DriveRelativePath \<Rightarrow> ''drive-relative path'')"

definition unsafe_stage :: "boundary \<Rightarrow> normalized_path \<Rightarrow> access \<Rightarrow> bool \<Rightarrow> verdict" where
  "unsafe_stage b n a deny_only =
     (case np_unsafe n of None \<Rightarrow> Permitted
      | Some form \<Rightarrow>
          if \<not> deny_only \<and> \<not> names_exactly b (key_of b (np_lexical n)) a
          then refuse b ((plain_refusal a (np_lexical n) Unsafe_Form)\<lparr>rf_location := Some (form_text form)\<rparr>)
          else Permitted)"

definition protected_stage :: "boundary \<Rightarrow> normalized_path \<Rightarrow> access \<Rightarrow> verdict" where
  "protected_stage b n a =
     (case protected b (access_keys b n) a of None \<Rightarrow> Permitted
      | Some location \<Rightarrow>
          refuse b ((plain_refusal a (np_lexical n) Protected_Location)
                     \<lparr>rf_location := Some location, rf_resolved := shown_path b n\<rparr>))"

definition deny_stage :: "boundary \<Rightarrow> normalized_path \<Rightarrow> access \<Rightarrow> verdict" where
  "deny_stage b n a =
     (case find (\<lambda>l. denying_rule l (access_keys b n) a \<noteq> None) (b_compiled b) of
        None \<Rightarrow> Permitted
      | Some l \<Rightarrow>
          refuse b ((plain_refusal a (np_lexical n) Deny_Rule)
                     \<lparr>rf_rule := denying_rule l (access_keys b n) a,
                      rf_source := ly_source (cl_layer l), rf_resolved := shown_path b n\<rparr>))"

definition reach_of :: "boundary \<Rightarrow> path_request \<Rightarrow> string list" where
  "reach_of b rq =
     (let reach = (case rq_glob rq of
                     None \<Rightarrow> []
                   | Some g \<Rightarrow> if g = [] then [] else split_on (CHR ''/'') (path_key (b_windows b) g)) in
      if rq_subtree rq \<or> reach = [] then reach @ [''**''] else reach)"

definition subtree_stage ::
  "boundary \<Rightarrow> normalized_path \<Rightarrow> access \<Rightarrow> path_request \<Rightarrow> verdict" where
  "subtree_stage b n a rq =
     (if rq_subtree rq \<or> rq_glob rq \<noteq> None
      then subtree_refusal b (access_keys b n) a (np_lexical n) (shown_path b n) (reach_of b rq)
             (map (key_of b) (rq_pruned rq)) (rq_git rq)
      else Permitted)"

definition base_name :: "compiled_layer \<Rightarrow> access \<Rightarrow> string" where
  "base_name l a =
     (if a = Writing then base_text write_bases (ly_write (cl_layer l))
      else base_text read_bases (ly_read (cl_layer l)))"

definition permit_stage :: "boundary \<Rightarrow> normalized_path \<Rightarrow> access \<Rightarrow> bool \<Rightarrow> verdict" where
  "permit_stage b n a deny_only =
     (if deny_only then Permitted
      else (case find (\<lambda>l. \<not> list_all (\<lambda>key. granted b key a \<or> layer_permits l key a) (access_keys b n))
                   (b_compiled b) of
              None \<Rightarrow> Permitted
            | Some l \<Rightarrow>
                refuse b ((plain_refusal a (np_lexical n) Not_Permitted)
                  \<lparr>rf_source := ly_source (cl_layer l), rf_base := Some (base_name l a),
                   rf_resolved := shown_path b n\<rparr>)))"

definition decide_path :: "boundary \<Rightarrow> normalized_path \<Rightarrow> access \<Rightarrow> path_request \<Rightarrow> verdict" where
  "decide_path b n a rq =
     and_then (unsafe_stage b n a (rq_deny_only rq))
       (and_then (protected_stage b n a)
         (and_then (deny_stage b n a)
           (and_then (subtree_stage b n a rq)
             (permit_stage b n a (rq_deny_only rq)))))"

definition check_path :: "world \<Rightarrow> boundary \<Rightarrow> string \<Rightarrow> access \<Rightarrow> path_request \<Rightarrow> verdict" where
  "check_path w b path a rq =
     (if b_layers b = [] then Permitted
      else (case Option.bind (base_text_of b (rq_base rq)) (\<lambda>base.
                   normalize_access_path (w_host w) (b_windows b) base (b_home b)
                     (\<not> rq_deny_only rq) path) of
              None \<Rightarrow> Raised
            | Some n \<Rightarrow> decide_path b n a rq))"

subsection \<open>What below a folder may be refused\<close>

definition rule_sources :: "boundary \<Rightarrow> access \<Rightarrow> (string \<times> string option) list" where
  "rule_sources b a =
     concat (map (\<lambda>l. concat (map (\<lambda>r. map (\<lambda>key. (key, Some (pattern (pl_rule r)))) (pl_keys r))
                               (deny_rules l a)))
       (b_compiled b))"

definition protected_sources :: "boundary \<Rightarrow> string list \<Rightarrow> access \<Rightarrow> string list" where
  "protected_sources b folders a =
     (case b_agent_config b of None \<Rightarrow> [] | Some area \<Rightarrow> area)
     @ (if a = Writing then b_rule_files b @ concat (b_install_dirs b) else [])
     @ (if list_all (\<lambda>key. data_dir_allowed b key a) folders then [] else b_data_dirs b)"

definition refusable_sources ::
  "boundary \<Rightarrow> string list \<Rightarrow> access \<Rightarrow> (string \<times> string option) list" where
  "refusable_sources b folders a =
     rule_sources b a @ map (\<lambda>key. (key, None)) (protected_sources b folders a)"

definition refusable ::
  "world \<Rightarrow> boundary \<Rightarrow> string \<Rightarrow> access \<Rightarrow> (string \<times> string option) list option" where
  "refusable w b folder a =
     (if b_layers b = [] then Some []
      else map_option (\<lambda>n.
             let folders = dedup [key_of b (np_lexical n), key_of b (np_resolved n)] in
             concat (map (\<lambda>(key, written). concat (map (\<lambda>below.
                 map (\<lambda>p. (p, map_option (spelled_like p key) written)) (sort (patterns_below key below)))
               folders)) (refusable_sources b folders a)))
           (normalize_access_path (w_host w) (b_windows b) (b_workdir b) (b_home b) True folder))"

definition refusable_below :: "world \<Rightarrow> boundary \<Rightarrow> string \<Rightarrow> access \<Rightarrow> string list option" where
  "refusable_below w b folder a = map_option (\<lambda>found. dedup (map fst found)) (refusable w b folder a)"

text \<open>\<open>refused_below\<close>: the rules' parts as written, and whether a protected location lies below.\<close>

definition refused_below :: "world \<Rightarrow> boundary \<Rightarrow> string \<Rightarrow> access \<Rightarrow> (string list \<times> bool) option" where
  "refused_below w b folder a =
     map_option (\<lambda>found. (dedup (present_levels (map snd found)), list_ex (\<lambda>(_, s). s = None) found))
       (refusable w b folder a)"

text \<open>An entry of a directory listing: its path, and whether it is a link (\<open>None\<close>: it could not be
  asked).\<close>

fun kept_entries ::
  "world \<Rightarrow> boundary \<Rightarrow> bool \<Rightarrow> (string \<times> bool option) list \<Rightarrow> (string \<times> bool option) list option" where
  "kept_entries w b every [] = Some []"
| "kept_entries w b every ((path, linked) # es) =
     (case kept_entries w b every es of None \<Rightarrow> None
      | Some kept \<Rightarrow>
          if \<not> every \<and> linked = Some False then Some ((path, linked) # kept)
          else (case check_path w b path Reading plain_request of
                  Permitted \<Rightarrow> Some ((path, linked) # kept)
                | Refused _ \<Rightarrow> Some kept
                | Raised \<Rightarrow> None))"

definition readable_entries ::
  "world \<Rightarrow> boundary \<Rightarrow> string \<Rightarrow> (string \<times> bool option) list \<Rightarrow> (string \<times> bool option) list option" where
  "readable_entries w b folder listed =
     (if b_layers b = [] then Some listed
      else Option.bind (refusable_below w b folder Reading) (\<lambda>below.
             kept_entries w b (below \<noteq> []) listed))"

subsection \<open>Hosts and URLs\<close>

definition hex4 :: "nat \<Rightarrow> string" where
  "hex4 n = replicate (4 - length (digits_of 16 n)) (CHR ''0'') @ digits_of 16 n"

definition printable :: "char \<Rightarrow> bool" where
  "printable c \<longleftrightarrow> (let n = code c in 32 \<le> n \<and> \<not> (127 \<le> n \<and> n \<le> 160) \<and> n \<noteq> 173)"

definition visible :: "string \<Rightarrow> string" where
  "visible t = concat (map (\<lambda>c. if printable c then [c] else [CHR 0x5C, CHR ''u''] @ hex4 (code c)) t)"

definition quoted :: "string \<Rightarrow> string" where
  "quoted t = [CHR 0x22] @ t @ [CHR 0x22]"

definition denied_host :: "boundary \<Rightarrow> string list \<Rightarrow> (permission_layer \<times> permission_rule \<times> string) option" where
  "denied_host b forms =
     find (\<lambda>(_, r, form). host_matches (pattern r) form)
       (concat (map (\<lambda>l. concat (map (\<lambda>r. map (\<lambda>form. (cl_layer l, r, form)) forms) (cl_web_deny l)))
         (b_compiled b)))"

definition unlisted_host :: "boundary \<Rightarrow> string list \<Rightarrow> (permission_layer \<times> string) option" where
  "unlisted_host b forms =
     map_option (\<lambda>(l, form). (cl_layer l, form))
       (find (\<lambda>(l, form). \<not> list_ex (\<lambda>r. host_matches (pattern r) form) (cl_web_allow l))
         (concat (map (\<lambda>l. if ly_web (cl_layer l) = Listed then map (\<lambda>form. (l, form)) forms else [])
           (b_compiled b))))"

definition check_host :: "world \<Rightarrow> boundary \<Rightarrow> string \<Rightarrow> access \<Rightarrow> bool \<Rightarrow> verdict" where
  "check_host w b host a by_program =
     (if b_layers b = [] then Permitted
      else if rstrip_char (CHR ''.'') (strip_chars brackets (strip host)) = []
      then refuse b ((plain_refusal a (quoted host) Unanalyzable)
                      \<lparr>rf_detail := Some ''the address names no host''\<rparr>)
      else (case host_forms (w_idna w) host of
              [] \<Rightarrow> refuse b ((plain_refusal a (quoted (visible host)) Unanalyzable)
                      \<lparr>rf_detail := Some ''it is not a host name every program reads the same way''\<rparr>)
            | first # further \<Rightarrow>
                (let forms = (if by_program then first # further else [first]) in
                 case denied_host b forms of
                   Some (l, r, form) \<Rightarrow>
                     refuse b ((plain_refusal a form Deny_Rule)
                       \<lparr>rf_rule := Some (rule_text r), rf_source := ly_source l\<rparr>)
                 | None \<Rightarrow>
                     (case unlisted_host b forms of
                        Some (l, form) \<Rightarrow>
                          refuse b ((plain_refusal a form Not_Permitted)
                            \<lparr>rf_source := ly_source l, rf_base := Some ''listed''\<rparr>)
                      | None \<Rightarrow> Permitted))))"

definition is_own_host :: "string \<Rightarrow> string \<Rightarrow> bool" where
  "is_own_host machine_name host0 =
     (let host = canonical_host (rstrip_char (CHR ''.'') (strip_chars brackets host0));
          machine = rstrip_char (CHR ''.'') (casefold machine_name) in
      if host = ''localhost'' \<or> ends_with ''.localhost'' host then True
      else if machine \<noteq> [] \<and> (host = machine \<or> starts_with (machine @ ''.'') host) then True
      else (case ip_address host of
              None \<Rightarrow> False
            | Some (IPv6 n s) \<Rightarrow>
                (case ipv4_mapped n of
                   Some m \<Rightarrow> is_loopback (IPv4 m) \<or> is_unspecified (IPv4 m)
                 | None \<Rightarrow> is_loopback (IPv6 n s) \<or> is_unspecified (IPv6 n s))
            | Some (IPv4 n) \<Rightarrow> is_loopback (IPv4 n) \<or> is_unspecified (IPv4 n)))"

definition is_server_host :: "world \<Rightarrow> boundary \<Rightarrow> string \<Rightarrow> bool" where
  "is_server_host w b host \<longleftrightarrow>
     is_own_host (w_machine w) (casefold host)
     \<or> (b_layers b \<noteq> [] \<and> host_key host \<in> set (b_own_hosts b))"

definition default_port :: "string \<Rightarrow> nat option" where
  "default_port scheme = map_of [(''http'', 80), (''https'', 443)] scheme"

definition loopback_port :: "boundary \<Rightarrow> nat option" where
  "loopback_port b = Option.bind (b_context b) cx_loopback_port"

text \<open>The parts and the port of a URL; \<open>None\<close> for the \<open>ValueError\<close>.\<close>

definition url_parts :: "string \<Rightarrow> (split_url \<times> nat option) option" where
  "url_parts url =
     Option.bind (urlsplit (strip url)) (\<lambda>parts. map_option (\<lambda>port. (parts, port)) (url_port parts))"

definition check_url :: "world \<Rightarrow> boundary \<Rightarrow> string \<Rightarrow> bool \<Rightarrow> verdict" where
  "check_url w b url by_program =
     (if b_layers b = [] then Permitted
      else (let unreadable = refuse b ((plain_refusal Fetching (strip url) Unanalyzable)
                  \<lparr>rf_detail := Some (''only http and https URLs with a host and a valid port '' @
                                     ''can be checked'')\<rparr>) in
        case url_parts url of
          None \<Rightarrow> unreadable
        | Some (parts, port) \<Rightarrow>
            (case default_port (lower (url_scheme parts)) of
               None \<Rightarrow> unreadable
             | Some standard \<Rightarrow>
                 if url_hostname parts = [] then unreadable
                 else if loopback_port b = Some (or_default standard port)
                      \<and> list_ex (is_server_host w b) (host_forms (w_idna w) (url_hostname parts))
                 then refuse b ((plain_refusal Fetching
                          (lower (url_scheme parts) @ ''://'' @ url_netloc parts) Protected_Location)
                        \<lparr>rf_location := Some ''vbot_server''\<rparr>)
                 else check_host w b (url_hostname parts) Fetching by_program)))"

end
