(* ===== verification/Check_Facts.thy ===== *)
theory Check_Facts
  imports Checks Glob_Facts
begin

section \<open>What the path checks promise\<close>

text \<open>
  The abstract policy a path check decides (\<open>path_policy\<close>): no protected location, no deny rule,
  and every layer permits, for every form of the path and for everything the access reaches
  below it. \<open>check_path\<close> implements it. From the policy follow that more layers never permit
  more, that added allow rules never lift a deny, that a permitted subtree access reaches nothing
  denied or protected, and that the patterns of \<open>refusable_below\<close> cover every denied entry.
\<close>

subsection \<open>The policy\<close>

definition normalized_request ::
  "world \<Rightarrow> boundary \<Rightarrow> string \<Rightarrow> path_request \<Rightarrow> normalized_path option" where
  "normalized_request w b path rq =
     Option.bind (base_text_of b (rq_base rq)) (\<lambda>base.
       normalize_access_path (w_host w) (b_windows b) base (b_home b) (\<not> rq_deny_only rq) path)"

definition denied_key :: "boundary \<Rightarrow> access \<Rightarrow> string \<Rightarrow> bool" where
  "denied_key b a key \<longleftrightarrow> (\<exists>l \<in> set (b_compiled b). \<exists>r \<in> set (deny_rules l a). rule_matches r key)"

definition permitted_key :: "boundary \<Rightarrow> access \<Rightarrow> string \<Rightarrow> bool" where
  "permitted_key b a key \<longleftrightarrow> (\<forall>l \<in> set (b_compiled b). granted b key a \<or> layer_permits l key a)"

text \<open>Some entry belongs both to what the access reaches below \<open>key\<close> and to what \<open>pat\<close> covers.\<close>

definition touches :: "string \<Rightarrow> string list \<Rightarrow> string \<Rightarrow> bool" where
  "touches key reach pat \<longleftrightarrow>
     (\<exists>ws. segs_match (map segment (key_segments key @ reach)) ws
         \<and> segs_match (map segment (key_segments pat @ [''**''])) ws)"

definition subtree_policy ::
  "boundary \<Rightarrow> string list \<Rightarrow> access \<Rightarrow> string list \<Rightarrow> string list \<Rightarrow> bool \<Rightarrow> bool" where
  "subtree_policy b keys a reach pruned git \<longleftrightarrow>
     (\<forall>(_, area) \<in> set (protected_areas b keys a git). \<forall>folder \<in> set area. \<forall>key \<in> set keys.
        \<not> touches key reach folder)
     \<and> (git \<or> (\<forall>l \<in> set (b_compiled b). \<forall>r \<in> set (deny_rules l a). \<forall>p \<in> set (pl_keys r).
          \<forall>key \<in> set keys. touches key reach p \<longrightarrow> pruned_away p key pruned))"

definition path_policy :: "boundary \<Rightarrow> normalized_path \<Rightarrow> access \<Rightarrow> path_request \<Rightarrow> bool" where
  "path_policy b n a rq \<longleftrightarrow>
     (np_unsafe n = None \<or> rq_deny_only rq \<or> names_exactly b (key_of b (np_lexical n)) a)
     \<and> (\<forall>key \<in> set (access_keys b n).
          protected_key b a key = None \<and> \<not> denied_key b a key
          \<and> (rq_deny_only rq \<or> permitted_key b a key))
     \<and> (rq_subtree rq \<or> rq_glob rq \<noteq> None \<longrightarrow>
          subtree_policy b (access_keys b n) a (reach_of b rq) (map (key_of b) (rq_pruned rq)) (rq_git rq))"

subsection \<open>The stages decide the policy\<close>

lemma reaches_touches: "reaches key reach pat \<longleftrightarrow> touches key reach pat"
  by (simp add: reaches_def touches_def segments_meet_iff)

lemma unsafe_stage_iff:
  "unsafe_stage b n a d = Permitted \<longleftrightarrow>
     np_unsafe n = None \<or> d \<or> names_exactly b (key_of b (np_lexical n)) a"
  by (auto simp: unsafe_stage_def split: option.splits)

lemma protected_stage_iff:
  "protected_stage b n a = Permitted \<longleftrightarrow> (\<forall>key \<in> set (access_keys b n). protected_key b a key = None)"
proof -
  have "protected_stage b n a = Permitted \<longleftrightarrow> protected b (access_keys b n) a = None"
    by (auto simp: protected_stage_def split: option.splits)
  then show ?thesis by (simp add: protected_def first_some_None_iff)
qed

lemma denying_rule_None:
  "denying_rule l keys a = None \<longleftrightarrow> (\<forall>r \<in> set (deny_rules l a). \<forall>key \<in> set keys. \<not> rule_matches r key)"
  by (auto simp: denying_rule_def find_None_iff list_ex_iff)

lemma deny_stage_iff:
  "deny_stage b n a = Permitted \<longleftrightarrow> (\<forall>key \<in> set (access_keys b n). \<not> denied_key b a key)"
proof -
  have "deny_stage b n a = Permitted \<longleftrightarrow>
      (\<forall>l \<in> set (b_compiled b). denying_rule l (access_keys b n) a = None)"
  proof -
    have "deny_stage b n a = Permitted \<longleftrightarrow>
        find (\<lambda>l. denying_rule l (access_keys b n) a \<noteq> None) (b_compiled b) = None"
      by (auto simp: deny_stage_def split: option.splits)
    then show ?thesis by (auto simp: find_None_iff)
  qed
  then show ?thesis by (auto simp: denying_rule_None denied_key_def)
qed

lemma find_denied:
  "find P (denied_below b a keys) = None \<longleftrightarrow>
     (\<forall>l \<in> set (b_compiled b). \<forall>r \<in> set (deny_rules l a). \<forall>p \<in> set (pl_keys r). \<forall>key \<in> set keys.
        \<not> P (l, r, p, key))"
proof -
  have "(l, r, p, key) \<in> set (denied_below b a keys) \<longleftrightarrow>
      l \<in> set (b_compiled b) \<and> r \<in> set (deny_rules l a) \<and> p \<in> set (pl_keys r) \<and> key \<in> set keys"
    for l r p key
    by (auto simp: denied_below_def)
  then show ?thesis by (auto simp: find_None_iff)
qed

lemma find_protected:
  "find (\<lambda>(_, area). list_ex (\<lambda>folder. list_ex (\<lambda>key. reaches key reach folder) keys) area) areas = None
     \<longleftrightarrow> (\<forall>(_, area) \<in> set areas. \<forall>folder \<in> set area. \<forall>key \<in> set keys. \<not> touches key reach folder)"
  by (auto simp: find_None_iff list_ex_iff reaches_touches)

lemma subtree_refusal_iff:
  "subtree_refusal b keys a target shown reach pruned git = Permitted \<longleftrightarrow>
     subtree_policy b keys a reach pruned git"
proof -
  let ?P = "\<lambda>(l, r, p, key). reaches key reach p \<and> \<not> pruned_away p key pruned"
  let ?Q = "\<lambda>(_, area). list_ex (\<lambda>folder. list_ex (\<lambda>key. reaches key reach folder) keys) area"
  have "subtree_refusal b keys a target shown reach pruned git = Permitted \<longleftrightarrow>
      find ?Q (protected_areas b keys a git) = None
      \<and> (git \<or> find (\<lambda>(_, _, p, key). reaches key reach p \<and> \<not> pruned_away p key pruned)
                  (denied_below b a keys) = None)"
    by (auto simp: subtree_refusal_def split: option.splits if_splits)
  then show ?thesis
    unfolding find_protected find_denied subtree_policy_def by (auto simp: reaches_touches)
qed

lemma permit_stage_iff:
  "permit_stage b n a d = Permitted \<longleftrightarrow> d \<or> (\<forall>key \<in> set (access_keys b n). permitted_key b a key)"
proof -
  have "permit_stage b n a d = Permitted \<longleftrightarrow> d \<or>
      find (\<lambda>l. \<not> list_all (\<lambda>key. granted b key a \<or> layer_permits l key a) (access_keys b n))
        (b_compiled b) = None"
    by (auto simp: permit_stage_def split: option.splits)
  then show ?thesis by (auto simp: permitted_key_def find_None_iff list_all_iff)
qed

lemma decide_path_iff: "decide_path b n a rq = Permitted \<longleftrightarrow> path_policy b n a rq"
  unfolding decide_path_def and_then_Permitted unsafe_stage_iff protected_stage_iff deny_stage_iff
    permit_stage_iff path_policy_def
  by (auto simp: subtree_stage_def subtree_refusal_iff)

lemma check_path_iff:
  "check_path w b path a rq = Permitted \<longleftrightarrow>
     b_layers b = [] \<or> (\<exists>n. normalized_request w b path rq = Some n \<and> path_policy b n a rq)"
  by (auto simp: check_path_def normalized_request_def [symmetric] decide_path_iff split: option.splits)

subsection \<open>More layers\<close>

definition same_facts :: "boundary \<Rightarrow> boundary \<Rightarrow> bool" where
  "same_facts b c \<longleftrightarrow>
     b_windows b = b_windows c \<and> b_workdir b = b_workdir c \<and> b_home b = b_home c
     \<and> b_data_dirs b = b_data_dirs c \<and> b_workspace b = b_workspace c \<and> b_own_data b = b_own_data c
     \<and> b_scratch b = b_scratch c \<and> b_readable b = b_readable c \<and> b_agent_config b = b_agent_config c
     \<and> b_install_dirs b = b_install_dirs c"

text \<open>Two compiled layers that differ at most in who set them.\<close>

definition same_limits :: "compiled_layer \<Rightarrow> compiled_layer \<Rightarrow> bool" where
  "same_limits l m \<longleftrightarrow>
     retagged (cl_layer l) Agent = retagged (cl_layer m) Agent
     \<and> cl_workdir l = cl_workdir m \<and> cl_scratch l = cl_scratch m
     \<and> cl_read_allow l = cl_read_allow m \<and> cl_edit_allow l = cl_edit_allow m
     \<and> cl_read_deny l = cl_read_deny m \<and> cl_edit_deny l = cl_edit_deny m
     \<and> cl_web_allow l = cl_web_allow m \<and> cl_web_deny l = cl_web_deny m"

lemma retagged_fields:
  assumes "retagged l s = retagged m s"
  shows "ly_read l = ly_read m" "ly_write l = ly_write m" "ly_commands l = ly_commands m"
    "ly_web l = ly_web m" "ly_workdir l = ly_workdir m" "ly_scratch l = ly_scratch m"
    "ly_allow l = ly_allow m" "ly_deny l = ly_deny m" "ly_rule_files l = ly_rule_files m"
  using assms by (cases l; cases m; simp add: retagged_def)+

lemma same_limits_decide:
  assumes "same_limits l m"
  shows "deny_rules l a = deny_rules m a" "layer_permits l key a = layer_permits m key a"
    "layer_names_exactly l key a = layer_names_exactly m key a"
  using assms retagged_fields [of "cl_layer l" Agent "cl_layer m"]
  by (simp_all add: same_limits_def deny_rules_def layer_permits_def layer_names_exactly_def
      allow_rules_def)

text \<open>Every layer of \<open>c\<close> is, up to who set it, a layer of \<open>b\<close>.\<close>

definition narrows :: "boundary \<Rightarrow> boundary \<Rightarrow> bool" where
  "narrows b c \<longleftrightarrow>
     same_facts b c \<and> (\<forall>m \<in> set (b_compiled c). \<exists>l \<in> set (b_compiled b). same_limits l m)
     \<and> set (b_rule_files c) \<subseteq> set (b_rule_files b)"

lemma same_facts_request:
  "same_facts b c \<Longrightarrow> normalized_request w b path rq = normalized_request w c path rq"
  by (cases "rq_base rq") (simp_all add: same_facts_def normalized_request_def base_text_of_def)

lemma same_facts_keys:
  assumes "same_facts b c"
  shows "access_keys b n = access_keys c n" "key_of b = key_of c" "reach_of b rq = reach_of c rq"
    "data_dir_allowed b key a = data_dir_allowed c key a" "granted b key a = granted c key a"
  using assms
  by (cases "rq_glob rq"; simp add: same_facts_def access_keys_def key_of_def reach_of_def
      data_dir_allowed_def granted_def fun_eq_iff)+

lemma area_contains_mono: "set x \<subseteq> set y \<Longrightarrow> area_contains x key \<Longrightarrow> area_contains y key"
  by (auto simp: area_contains_def list_ex_iff)

lemma narrows_protected:
  assumes "narrows b c" "protected_key b a key = None" shows "protected_key c a key = None"
proof -
  have f: "same_facts b c" "set (b_rule_files c) \<subseteq> set (b_rule_files b)"
    using assms(1) by (auto simp: narrows_def)
  then have "b_agent_config c = b_agent_config b" "b_install_dirs c = b_install_dirs b"
    "b_data_dirs c = b_data_dirs b" "data_dir_allowed c key a = data_dir_allowed b key a"
    by (auto simp: same_facts_def same_facts_keys [OF f(1)])
  then show ?thesis
    using assms(2) area_contains_mono [OF f(2)] by (auto simp: protected_key_def split: if_splits)
qed

lemma protected_areas_iff:
  "(t, area) \<in> set (protected_areas b keys a git) \<longleftrightarrow>
     (t = ''agent_config'' \<and> b_agent_config b = Some area)
     \<or> (t = ''data_dir'' \<and> (\<exists>key \<in> set keys. \<not> data_dir_allowed b key a) \<and> area = b_data_dirs b)
     \<or> (t = ''agent_config'' \<and> a = Writing \<and> \<not> git \<and> area = b_rule_files b)
     \<or> (t = ''installation'' \<and> a = Writing \<and> area \<in> set (b_install_dirs b))"
proof -
  have option: "x \<in> set (case z of None \<Rightarrow> [] | Some y \<Rightarrow> [(s, y)]) \<longleftrightarrow> (\<exists>y. z = Some y \<and> x = (s, y))"
    for x z s by (cases z) auto
  have cond: "x \<in> set (if q then y else z) \<longleftrightarrow> (if q then x \<in> set y else x \<in> set z)" for x q y z
    by simp
  show ?thesis
    unfolding protected_areas_def set_append Un_iff option cond list_all_iff set_map image_iff by force
qed

lemma narrows_areas:
  assumes "narrows b c" "(t, area) \<in> set (protected_areas c keys a git)" "folder \<in> set area"
  shows "\<exists>u area'. (u, area') \<in> set (protected_areas b keys a git) \<and> folder \<in> set area'"
proof -
  have f: "same_facts b c" "set (b_rule_files c) \<subseteq> set (b_rule_files b)"
    using assms(1) by (auto simp: narrows_def)
  then have e: "b_agent_config c = b_agent_config b" "b_install_dirs c = b_install_dirs b"
    "b_data_dirs c = b_data_dirs b" "\<And>key. data_dir_allowed c key a = data_dir_allowed b key a"
    by (auto simp: same_facts_def same_facts_keys [OF f(1)])
  show ?thesis using assms(2,3) f(2) unfolding protected_areas_iff e by blast
qed

lemma narrows_subtree:
  assumes "narrows b c" "subtree_policy b keys a reach pruned git"
  shows "subtree_policy c keys a reach pruned git"
proof -
  have s: "\<exists>l \<in> set (b_compiled b). deny_rules l a = deny_rules m a" if "m \<in> set (b_compiled c)" for m
    using assms(1) that same_limits_decide(1) unfolding narrows_def by blast
  have "\<not> touches key reach folder"
    if h: "(t, area) \<in> set (protected_areas c keys a git)" "folder \<in> set area" "key \<in> set keys"
    for t area folder key
  proof -
    obtain u area' where "(u, area') \<in> set (protected_areas b keys a git)" "folder \<in> set area'"
      using narrows_areas [OF assms(1) h(1,2)] by blast
    then show ?thesis using assms(2) h(3) unfolding subtree_policy_def by blast
  qed
  moreover have "pruned_away p key pruned"
    if "\<not> git" "m \<in> set (b_compiled c)" "r \<in> set (deny_rules m a)" "p \<in> set (pl_keys r)"
      "key \<in> set keys" "touches key reach p" for m r p key
    using assms(2) s that unfolding subtree_policy_def by fastforce
  ultimately show ?thesis unfolding subtree_policy_def by blast
qed

lemma narrows_policy:
  assumes "narrows b c" "path_policy b n a rq" shows "path_policy c n a rq"
proof -
  have f: "same_facts b c" using assms(1) by (simp add: narrows_def)
  have s: "\<exists>l \<in> set (b_compiled b). same_limits l m" if "m \<in> set (b_compiled c)" for m
    using assms(1) that by (simp add: narrows_def)
  note k = same_facts_keys [OF f]
  have "names_exactly b key a \<Longrightarrow> names_exactly c key a" for key
    using s same_limits_decide(3) unfolding names_exactly_def list_all_iff by blast
  moreover have "denied_key c a key \<Longrightarrow> denied_key b a key" for key
    using s same_limits_decide(1) unfolding denied_key_def by metis
  moreover have "permitted_key b a key \<Longrightarrow> permitted_key c a key" for key
    using s same_limits_decide(2) unfolding permitted_key_def k by blast
  ultimately show ?thesis
    using assms(2) narrows_protected [OF assms(1)] narrows_subtree [OF assms(1)]
    unfolding path_policy_def k by blast
qed

lemma narrows_check:
  assumes "narrows b c" "b_layers b \<noteq> []" "check_path w b path a rq = Permitted"
  shows "check_path w c path a rq = Permitted"
proof -
  obtain n where "normalized_request w b path rq = Some n" "path_policy b n a rq"
    using assms(2,3) by (auto simp: check_path_iff)
  moreover have "same_facts b c" using assms(1) by (simp add: narrows_def)
  ultimately have "normalized_request w c path rq = Some n" "path_policy c n a rq"
    using narrows_policy [OF assms(1)] same_facts_request by metis+
  then show ?thesis by (auto simp: check_path_iff)
qed

subsection \<open>Boundaries over the same facts\<close>

lemma boundary_of_fields:
  assumes "boundary_of w ls cx = Some b" "ls \<noteq> []"
  shows "b_layers b = ls" "b_context b = Some cx" "b_windows b = cx_windows cx"
    "map_option_list (compile_layer (w_host w) (cx_windows cx)) ls = Some (b_compiled b)"
    "area_union (w_host w) (cx_windows cx) (cx_rule_files cx @ concat (map ly_rule_files ls))
       = Some (b_rule_files b)"
    "area_optional (w_host w) (cx_windows cx) (cx_agent_config cx) = Some (b_agent_config b)"
    "area_of (w_host w) (cx_windows cx) (cx_data_dir cx) = Some (b_data_dirs b)"
    "area_optional (w_host w) (cx_windows cx) (cx_workspace cx) = Some (b_workspace b)"
    "area_optional (w_host w) (cx_windows cx) (cx_scratch_root cx) = Some (b_scratch b)"
    "map_option_list (area_of (w_host w) (cx_windows cx)) (cx_readable_dirs cx) = Some (b_readable b)"
    "own_data_area (w_host w) (cx_windows cx) (cx_agent_config cx) = Some (b_own_data b)"
    "map_option_list (area_of (w_host w) (cx_windows cx)) (cx_install_dirs cx) = Some (b_install_dirs b)"
    "lexical_text (cx_windows cx) (cx_workdir cx) = Some (b_workdir b)"
    "lexical_text (cx_windows cx) (cx_home cx) = Some (b_home b)"
    "b_own_hosts b = map host_key (cx_own_hosts cx)"
  using assms by (auto simp: boundary_of_def Let_def bind_eq_Some_conv)

lemma boundary_of_same_facts:
  assumes "boundary_of w ls cx = Some b" "ls \<noteq> []" "boundary_of w ms cx = Some c" "ms \<noteq> []"
  shows "same_facts b c"
  using boundary_of_fields [OF assms(1,2)] boundary_of_fields [OF assms(3,4)]
  unfolding same_facts_def by simp

lemma compiled_iff:
  assumes "boundary_of w ls cx = Some b" "ls \<noteq> []"
  shows "c \<in> set (b_compiled b) \<longleftrightarrow>
    (\<exists>l \<in> set ls. compile_layer (w_host w) (cx_windows cx) l = Some c)"
  using map_option_list_set [OF boundary_of_fields(4) [OF assms]] .

lemma compiled_layer_of:
  assumes "boundary_of w ls cx = Some b" "l \<in> set ls"
  shows "\<exists>c \<in> set (b_compiled b). compile_layer (w_host w) (cx_windows cx) l = Some c"
proof -
  have "ls \<noteq> []" using assms(2) by auto
  then show ?thesis
    using map_option_list_defined [OF boundary_of_fields(4) [OF assms(1)] assms(2)] by blast
qed

lemma compile_layer_fields:
  assumes "compile_layer h windows l = Some c"
  shows "cl_layer c = l" "area_of h windows (ly_workdir l) = Some (cl_workdir c)"
    "area_optional h windows (ly_scratch l) = Some (cl_scratch c)"
    "map_option_list (path_rule_of h windows) (rules_of_kind Read (ly_allow l)) = Some (cl_read_allow c)"
    "map_option_list (path_rule_of h windows) (rules_of_kind Edit (ly_allow l)) = Some (cl_edit_allow c)"
    "map_option_list (path_rule_of h windows) (rules_of_kind Read (ly_deny l)) = Some (cl_read_deny c)"
    "map_option_list (path_rule_of h windows) (rules_of_kind Edit (ly_deny l)) = Some (cl_edit_deny c)"
    "cl_web_allow c = rules_of_kind Web (ly_allow l)" "cl_web_deny c = rules_of_kind Web (ly_deny l)"
  using assms by (auto simp: compile_layer_def Let_def bind_eq_Some_conv)

lemma compile_same_limits:
  assumes "compile_layer h windows l = Some c" "compile_layer h windows m = Some d"
    and "retagged l Agent = retagged m Agent"
  shows "same_limits c d"
  using compile_layer_fields [OF assms(1)] compile_layer_fields [OF assms(2)]
    retagged_fields [OF assms(3)] assms(3)
  by (simp add: same_limits_def)

lemma area_union_set:
  "area_union h windows ps = Some a \<Longrightarrow>
     set a = {key. \<exists>p \<in> set ps. \<exists>x. area_of h windows p = Some x \<and> key \<in> set x}"
proof -
  assume "area_union h windows ps = Some a"
  then obtain xs where xs: "list_all2 (\<lambda>p x. area_of h windows p = Some x) ps xs" "a = dedup (concat xs)"
    by (auto simp: area_union_def map_option_list_Some_iff)
  from xs(1) have "set (concat xs) = {key. \<exists>p \<in> set ps. \<exists>x. area_of h windows p = Some x \<and> key \<in> set x}"
    by (induction rule: list_all2_induct) auto
  with xs(2) show ?thesis by simp
qed

lemma area_union_mono:
  assumes "area_union h windows ps = Some x" "area_union h windows qs = Some y" "set ps \<subseteq> set qs"
  shows "set x \<subseteq> set y"
  unfolding area_union_set [OF assms(1)] area_union_set [OF assms(2)] using assms(3) by blast

text \<open>The layers of one boundary occur, up to who set them, among those of another.\<close>

definition layers_within :: "permission_layer list \<Rightarrow> permission_layer list \<Rightarrow> bool" where
  "layers_within ms ls \<longleftrightarrow> (\<forall>m \<in> set ms. \<exists>l \<in> set ls. retagged l Agent = retagged m Agent)"

lemma layers_within_subset: "set ms \<subseteq> set ls \<Longrightarrow> layers_within ms ls"
  by (auto simp: layers_within_def)

lemma retagged_retagged [simp]: "retagged (retagged l s) t = retagged l t"
  by (simp add: retagged_def)

lemma boundary_narrows:
  assumes "boundary_of w ls cx = Some b" "boundary_of w ms cx = Some c" "ms \<noteq> []"
    and "layers_within ms ls"
  shows "narrows b c"
proof -
  have ls: "ls \<noteq> []" using assms(3,4) by (cases ms) (auto simp: layers_within_def)
  let ?h = "w_host w" let ?w = "cx_windows cx"
  have "\<exists>l' \<in> set (b_compiled b). same_limits l' m'" if member: "m' \<in> set (b_compiled c)" for m'
  proof -
    obtain m where m: "m \<in> set ms" "compile_layer ?h ?w m = Some m'"
      using member compiled_iff [OF assms(2,3), of m'] by blast
    obtain l where l: "l \<in> set ls" "retagged l Agent = retagged m Agent"
      using m(1) assms(4) by (auto simp: layers_within_def)
    obtain l' where "l' \<in> set (b_compiled b)" "compile_layer ?h ?w l = Some l'"
      using compiled_layer_of [OF assms(1) l(1)] by blast
    then show ?thesis using compile_same_limits m(2) l(2) by blast
  qed
  moreover have "ly_rule_files m \<in> ly_rule_files ` set ls" if member: "m \<in> set ms" for m
  proof -
    obtain l where "l \<in> set ls" "retagged l Agent = retagged m Agent"
      using member assms(4) by (auto simp: layers_within_def)
    then show ?thesis using retagged_fields(9) [of l Agent m] by (metis image_eqI)
  qed
  then have "set (concat (map ly_rule_files ms)) \<subseteq> set (concat (map ly_rule_files ls))" by fastforce
  then have "set (cx_rule_files cx @ concat (map ly_rule_files ms))
      \<subseteq> set (cx_rule_files cx @ concat (map ly_rule_files ls))" by auto
  then have "set (b_rule_files c) \<subseteq> set (b_rule_files b)"
    by (rule area_union_mono [OF boundary_of_fields(5) [OF assms(2,3)]
          boundary_of_fields(5) [OF assms(1) ls]])
  ultimately show ?thesis
    using boundary_of_same_facts [OF assms(1) ls assms(2,3)] by (simp add: narrows_def)
qed

lemma boundary_of_Nil: "boundary_of w [] cx = Some c \<Longrightarrow> c = unrestricted"
  by (simp add: boundary_of_def)

lemma unrestricted_permits: "check_path w unrestricted path a rq = Permitted"
  by (simp add: check_path_def unrestricted_def)

lemma layers_only_narrow:
  assumes "boundary_of w ls cx = Some b" "boundary_of w ms cx = Some c" "layers_within ms ls"
    "check_path w b path a rq = Permitted"
  shows "check_path w c path a rq = Permitted"
proof (cases "ms = []")
  case True
  then have "c = unrestricted" using boundary_of_Nil assms(2) by simp
  then show ?thesis by (simp add: unrestricted_permits)
next
  case False
  then have "ls \<noteq> []" using assms(3) by (cases ms) (auto simp: layers_within_def)
  then have "b_layers b \<noteq> []" using boundary_of_fields(1) [OF assms(1)] by simp
  then show ?thesis
    using narrows_check [OF boundary_narrows [OF assms(1,2) False assms(3)]] assms(4) by blast
qed

subsection \<open>Deny rules and added allow rules\<close>

lemma deny_rules_compiled:
  assumes "compile_layer h windows l = Some c" "r \<in> set (ly_deny l)"
    "kind r = Read \<or> (kind r = Edit \<and> a = Writing)"
  shows "\<exists>pr \<in> set (deny_rules c a). path_rule_of h windows r = Some pr"
proof -
  note f = compile_layer_fields [OF assms(1)]
  show ?thesis
  proof (cases "kind r = Read")
    case True
    then have "r \<in> set (rules_of_kind Read (ly_deny l))" using assms(2) by (simp add: rules_of_kind_def)
    then obtain pr where "pr \<in> set (cl_read_deny c)" "path_rule_of h windows r = Some pr"
      using map_option_list_defined [OF f(6)] by blast
    then show ?thesis by (auto simp: deny_rules_def)
  next
    case False
    then have "r \<in> set (rules_of_kind Edit (ly_deny l))" using assms(2,3) by (simp add: rules_of_kind_def)
    then obtain pr where "pr \<in> set (cl_edit_deny c)" "path_rule_of h windows r = Some pr"
      using map_option_list_defined [OF f(7)] by blast
    then show ?thesis using False assms(3) by (auto simp: deny_rules_def)
  qed
qed

lemma path_rule_key:
  assumes "path_rule_of h windows r = Some pr" "split_lexical windows (pattern r) = Some p"
  shows "path_key windows (path_text p) \<in> set (pl_keys pr)" "pl_rule pr = r"
proof -
  obtain variants where v: "rule_variants h windows p = Some variants"
      "pl_keys pr = dedup (map (path_key windows) variants)" "pl_rule pr = r"
    using assms by (auto simp: path_rule_of_def)
  have "path_text p \<in> set variants"
    using v(1) by (auto simp: rule_variants_def Let_def bind_eq_Some_conv split: if_splits)
  then show "path_key windows (path_text p) \<in> set (pl_keys pr)" "pl_rule pr = r" using v by auto
qed

lemma lower_char_wildcard:
  "lower_char c = CHR ''*'' \<Longrightarrow> c = CHR ''*''" "lower_char c = CHR ''?'' \<Longrightarrow> c = CHR ''?''"
proof -
  have lower_range: "lower_char c = c \<or> 97 \<le> code (lower_char c)"
    by (auto simp: lower_char_def code_def Let_def)
  show "lower_char c = CHR ''*'' \<Longrightarrow> c = CHR ''*''" "lower_char c = CHR ''?'' \<Longrightarrow> c = CHR ''?''"
    using lower_range by (auto simp: code_def)
qed

lemma has_wildcard_key: "\<not> has_wildcard t \<Longrightarrow> \<not> has_wildcard (path_key windows t)"
proof -
  have w: "has_wildcard s \<longleftrightarrow> CHR ''*'' \<in> set s \<or> CHR ''?'' \<in> set s" for s
    by (auto simp: has_wildcard_def list_ex_iff)
  have "CHR ''*'' \<in> set (casefold s) \<Longrightarrow> CHR ''*'' \<in> set s" for s
    by (auto simp: casefold_def dest: lower_char_wildcard(1) [OF sym] split: if_splits)
  moreover have "CHR ''?'' \<in> set (casefold s) \<Longrightarrow> CHR ''?'' \<in> set s" for s
    by (auto simp: casefold_def dest: lower_char_wildcard(2) [OF sym] split: if_splits)
  ultimately show "\<not> has_wildcard t \<Longrightarrow> \<not> has_wildcard (path_key windows t)"
    by (auto simp: w path_key_def)
qed

lemma literal_covers:
  assumes "\<not> has_wildcard p" "is_inside key p" "CHR 0x0A \<notin> set key"
  shows "rx_match (compile_pattern p) key"
proof (cases "ends_with ''/'' p")
  case False
  then show ?thesis
    using assms by (auto simp: compile_pattern_literal is_inside_def starts_with_iff Let_def split: if_splits)
next
  case True
  then obtain r where "key = p @ r" using assms(2)
    by (auto simp: is_inside_def starts_with_iff Let_def split: if_splits)
  then show ?thesis using assms True
    by (auto simp: compile_pattern_def compile_literal rx_lits rx_All_iff)
qed

lemma deny_literal_wins:
  assumes b: "boundary_of w ls cx = Some b" and l: "l \<in> set ls"
    and r: "r \<in> set (ly_deny l)" "kind r = Read \<or> (kind r = Edit \<and> a = Writing)"
    and p: "split_lexical (cx_windows cx) (pattern r) = Some p" "\<not> has_wildcard (path_text p)"
    and n: "normalized_request w b path rq = Some n" "key \<in> set (access_keys b n)"
    and below: "is_inside key (path_key (cx_windows cx) (path_text p))" "CHR 0x0A \<notin> set key"
  shows "check_path w b path a rq \<noteq> Permitted"
proof
  assume "check_path w b path a rq = Permitted"
  moreover have ls: "ls \<noteq> []" using l by auto
  ultimately have "path_policy b n a rq"
    using n(1) boundary_of_fields(1) [OF b] by (auto simp: check_path_iff)
  then have "\<not> denied_key b a key" using n(2) by (simp add: path_policy_def)
  moreover obtain c where c: "c \<in> set (b_compiled b)"
      "compile_layer (w_host w) (cx_windows cx) l = Some c"
    using compiled_layer_of [OF b l] by blast
  obtain pr where pr: "pr \<in> set (deny_rules c a)"
      "path_rule_of (w_host w) (cx_windows cx) r = Some pr"
    using deny_rules_compiled [OF c(2) r] by blast
  have "rule_matches pr key"
    using path_rule_key(1) [OF pr(2) p(1)] literal_covers [OF has_wildcard_key [OF p(2)] below]
    by (auto simp: rule_matches_def list_ex_iff)
  ultimately show False using c(1) pr(1) by (auto simp: denied_key_def)
qed

text \<open>Added allow rules lift neither a deny rule nor a protected location.\<close>

lemma with_agent_allow_layers:
  assumes "with_agent_allow w b rules = Some (Some c)"
  shows "\<exists>own others cx extra. b_layers b = own # others \<and> b_context b = Some cx
    \<and> ly_source own = Agent
    \<and> boundary_of w (own\<lparr>ly_allow := ly_allow own @ extra\<rparr> # others) cx = Some c
    \<and> set extra \<subseteq> set rules"
  using assms by (auto simp: with_agent_allow_def split: list.splits option.splits if_splits)

lemma allow_keeps_deny_rules:
  assumes "compile_layer h windows l = Some c"
    "compile_layer h windows (l\<lparr>ly_allow := rules\<rparr>) = Some d"
  shows "deny_rules c a = deny_rules d a"
  using compile_layer_fields [OF assms(1)] compile_layer_fields [OF assms(2)]
  by (simp add: deny_rules_def)

lemma widened_denies:
  assumes b: "boundary_of w ls cx = Some b" and ls: "ls \<noteq> []"
    and c: "with_agent_allow w b rules = Some (Some c)"
    and k: "denied_key b a key \<or> protected_key b a key \<noteq> None"
    and n: "normalized_request w b path rq = Some n" "key \<in> set (access_keys b n)"
  shows "check_path w c path a rq \<noteq> Permitted"
proof -
  note fb = boundary_of_fields [OF b ls]
  obtain own others extra where o: "ls = own # others"
      "boundary_of w (own\<lparr>ly_allow := ly_allow own @ extra\<rparr> # others) cx = Some c"
    using with_agent_allow_layers [OF c] fb(1,2) by auto
  let ?ms = "own\<lparr>ly_allow := ly_allow own @ extra\<rparr> # others"
  have facts: "same_facts b c" by (rule boundary_of_same_facts [OF b ls o(2)]) simp
  have "b_rule_files c = b_rule_files b"
    using fb(5) boundary_of_fields(5) [OF o(2)] o(1) by simp
  moreover have "b_agent_config c = b_agent_config b" "b_install_dirs c = b_install_dirs b"
    "b_data_dirs c = b_data_dirs b" using facts by (simp_all add: same_facts_def)
  moreover note same_facts_keys(4) [OF facts, symmetric]
  ultimately have prot: "protected_key c a key = protected_key b a key"
    by (simp only: protected_key_def)
  have "denied_key c a key" if "denied_key b a key"
  proof -
    obtain m r where m: "m \<in> set (b_compiled b)" "r \<in> set (deny_rules m a)" "rule_matches r key"
      using \<open>denied_key b a key\<close> by (auto simp: denied_key_def)
    then obtain l where l: "l \<in> set ls" "compile_layer (w_host w) (cx_windows cx) l = Some m"
      using compiled_iff [OF b ls] by auto
    define l' where "l' = (if l = own then own\<lparr>ly_allow := ly_allow own @ extra\<rparr> else l)"
    have "l' \<in> set ?ms" using l(1) o(1) by (auto simp: l'_def)
    then obtain m' where m': "m' \<in> set (b_compiled c)"
        "compile_layer (w_host w) (cx_windows cx) l' = Some m'"
      using compiled_layer_of [OF o(2)] by blast
    have "deny_rules m' a = deny_rules m a"
    proof (cases "l = own")
      case True
      then have "l' = l\<lparr>ly_allow := ly_allow own @ extra\<rparr>" by (simp add: l'_def)
      then show ?thesis using allow_keeps_deny_rules [OF l(2)] m'(2) by metis
    next
      case False
      then show ?thesis using l(2) m'(2) by (simp add: l'_def)
    qed
    then have "r \<in> set (deny_rules m' a)" using m(2) by simp
    then show ?thesis using m(3) m'(1) unfolding denied_key_def by blast
  qed
  then have "\<not> path_policy c n a rq"
    using k prot n(2) same_facts_keys(1) [OF facts, of n] by (auto simp: path_policy_def)
  moreover have "b_layers c \<noteq> []" using boundary_of_fields(1) [OF o(2)] by simp
  ultimately show ?thesis
    using n(1) same_facts_request [OF facts, of w path rq] by (auto simp: check_path_iff)
qed

subsection \<open>Subtrees\<close>

text \<open>An entry belongs to what the access reaches below a folder.\<close>

definition reached :: "string \<Rightarrow> string list \<Rightarrow> string \<Rightarrow> bool" where
  "reached folder reach entry \<longleftrightarrow>
     segs_match (key_segments folder @ reach) (split_on (CHR ''/'') entry)"

lemma reached_touches:
  assumes "reached folder reach entry"
    "segs_match (key_segments pat @ [''**'']) (split_on (CHR ''/'') entry)"
  shows "touches folder reach pat"
  using assms segs_match_segments unfolding touches_def reached_def by blast

lemma subtree_sound:
  assumes pol: "subtree_policy b keys a reach pruned git"
    and key: "key \<in> set keys" "reached key reach entry"
  shows "(t, area) \<in> set (protected_areas b keys a git) \<Longrightarrow> \<not> area_contains area entry"
    and "\<not> git \<Longrightarrow> l \<in> set (b_compiled b) \<Longrightarrow> r \<in> set (deny_rules l a) \<Longrightarrow> rule_matches r entry \<Longrightarrow>
      \<exists>s \<in> set (drop (length (key_segments key)) (split_on (CHR ''/'') entry)). s \<in> set pruned"
proof -
  assume "(t, area) \<in> set (protected_areas b keys a git)"
  then have "\<forall>folder \<in> set area. \<not> touches key reach folder"
    using pol key(1) unfolding subtree_policy_def by blast
  then show "\<not> area_contains area entry"
    using reached_touches [OF key(2) inside_covered] by (auto simp: area_contains_def list_ex_iff)
next
  assume l: "\<not> git" "l \<in> set (b_compiled b)" "r \<in> set (deny_rules l a)" "rule_matches r entry"
  then obtain p where p: "p \<in> set (pl_keys r)" "rx_match (compile_pattern p) entry"
    by (auto simp: rule_matches_def list_ex_iff)
  then have "touches key reach p" using reached_touches [OF key(2) compile_pattern_sound] by blast
  then have "pruned_away p key pruned"
    using pol key(1) l p(1) unfolding subtree_policy_def by blast
  then show "\<exists>s \<in> set (drop (length (key_segments key)) (split_on (CHR ''/'') entry)). s \<in> set pruned"
    using pruned_away_sound p(2) by blast
qed

lemma reached_below:
  assumes "is_inside entry folder" shows "reached folder [''**''] entry"
  using inside_covered [OF assms] by (simp add: reached_def)

end
