(* ===== verification/Host_Facts.thy ===== *)
theory Host_Facts
  imports Check_Facts
begin

section \<open>What the listings and the host checks promise\<close>

text \<open>
  \<open>refusable_below\<close> covers every denied entry, a layer confined to its Work Area confines writing,
  \<open>readable_entries\<close> keeps exactly the readable entries when something below may be refused, and
  the host and URL checks decide a policy over the comparison forms of a host.
\<close>

subsection \<open>Listings\<close>

lemma rule_sources_member:
  "l \<in> set (b_compiled b) \<Longrightarrow> r \<in> set (deny_rules l a) \<Longrightarrow> p \<in> set (pl_keys r) \<Longrightarrow>
     (p, Some (pattern (pl_rule r))) \<in> set (rule_sources b a)"
  unfolding rule_sources_def by (intro in_concat_map [of l] in_concat_map [of r]) simp_all

lemma refusable_member:
  assumes "refusable w b folder a = Some found" "b_layers b \<noteq> []"
    and "normalize_access_path (w_host w) (b_windows b) (b_workdir b) (b_home b) True folder = Some n"
    and "(p, written) \<in> set (refusable_sources b (dedup [key_of b (np_lexical n), key_of b (np_resolved n)]) a)"
    and "key \<in> {key_of b (np_lexical n), key_of b (np_resolved n)}"
    and "q \<in> set (patterns_below p key)"
  shows "q \<in> fst ` set found"
proof -
  let ?folders = "dedup [key_of b (np_lexical n), key_of b (np_resolved n)]"
  have f: "found = concat (map (\<lambda>(key, written). concat (map (\<lambda>below.
                 map (\<lambda>p. (p, map_option (spelled_like p key) written)) (sort (patterns_below key below)))
               ?folders)) (refusable_sources b ?folders a))"
    using assms(1-3) by (simp add: refusable_def Let_def)
  have key: "key \<in> set ?folders" using assms(5) by auto
  have "(q, map_option (spelled_like q p) written) \<in> set found"
    unfolding f using assms(6)
    by (intro in_concat_map [OF assms(4)]) (simp only: prod.case, intro in_concat_map [OF key], simp)
  from imageI [OF this, of fst] show ?thesis by simp
qed

lemma refusable_below_set:
  assumes "refusable_below w b folder a = Some ps"
  obtains found where "refusable w b folder a = Some found" "set ps = fst ` set found"
  using assms by (auto simp: refusable_below_def)

lemma refusable_below_covers:
  assumes ps: "refusable_below w b folder a = Some ps" and layers: "b_layers b \<noteq> []"
    and n: "normalize_access_path (w_host w) (b_windows b) (b_workdir b) (b_home b) True folder = Some n"
    and key: "key \<in> {key_of b (np_lexical n), key_of b (np_resolved n)}"
    and entry: "split_on (CHR ''/'') entry = key_segments key @ ws" "denied_key b a entry"
  shows "\<exists>p \<in> set ps. below_match p ws"
proof -
  obtain l r p where p: "l \<in> set (b_compiled b)" "r \<in> set (deny_rules l a)" "p \<in> set (pl_keys r)"
      "rx_match (compile_pattern p) entry"
    using entry(2) by (auto simp: denied_key_def rule_matches_def list_ex_iff)
  obtain q where q: "q \<in> set (patterns_below p key)" "below_match q ws"
    using patterns_below_covers [OF p(4) entry(1)] by blast
  obtain found where found: "refusable w b folder a = Some found" "set ps = fst ` set found"
    using refusable_below_set [OF ps] .
  have "(p, Some (pattern (pl_rule r))) \<in> set (refusable_sources b folders a)" for folders
    using rule_sources_member [OF p(1-3)] by (simp add: refusable_sources_def)
  then have "q \<in> fst ` set found" by (rule refusable_member [OF found(1) layers n _ key q(1)])
  then show ?thesis using q(2) found(2) by auto
qed

text \<open>Protected locations below a folder are covered the same way.\<close>

lemma area_patterns_cover:
  assumes "area_contains area entry" "split_on (CHR ''/'') entry = key_segments key @ ws"
  shows "\<exists>p \<in> set area. \<exists>q \<in> set (patterns_below p key). below_match q ws"
proof -
  obtain p where p: "p \<in> set area" "is_inside entry p"
    using assms(1) by (auto simp: area_contains_def list_ex_iff)
  have "segs_match (key_segments p @ [''**'']) (key_segments key @ ws)"
    using inside_covered [OF p(2)] assms(2) by simp
  moreover have "\<forall>s \<in> set (key_segments p) \<union> set (key_segments key). CHR ''/'' \<notin> set s"
    by (auto simp: key_segments_def dest: split_on_free)
  ultimately obtain q where "q \<in> set (relative (key_segments p) (key_segments key))" "below_match q ws"
    using relative_covers by blast
  then show ?thesis using p(1) below_match_remove by (auto simp: patterns_below_def)
qed

lemma kept_entries_iff:
  "kept_entries w b every es = Some kept \<Longrightarrow>
     kept = filter (\<lambda>(path, linked). (\<not> every \<and> linked = Some False)
                      \<or> check_path w b path Reading plain_request = Permitted) es"
proof (induction es arbitrary: kept)
  case (Cons e es)
  then show ?case
    by (cases e) (auto split: option.splits verdict.splits if_splits)
qed simp

subsection \<open>Confinement\<close>

lemma confined_write:
  assumes b: "boundary_of w ls cx = Some b" and l: "l \<in> set ls"
    and wr: "ly_write l \<noteq> Write_Anywhere" "\<forall>r \<in> set (ly_allow l). kind r \<noteq> Edit"
    and c: "check_path w b path Writing rq = Permitted" "\<not> rq_deny_only rq"
    and n: "normalized_request w b path rq = Some n" "key \<in> set (access_keys b n)"
  shows "\<exists>t \<in> {ly_workdir l} \<union> set_option (ly_scratch l) \<union> set_option (cx_workspace cx).
    \<exists>area. area_of (w_host w) (cx_windows cx) t = Some area \<and> area_contains area key"
proof -
  have ls: "ls \<noteq> []" using l by auto
  note fb = boundary_of_fields [OF b ls]
  obtain m where m: "m \<in> set (b_compiled b)" "compile_layer (w_host w) (cx_windows cx) l = Some m"
    using compiled_layer_of [OF b l] by blast
  note fm = compile_layer_fields [OF m(2)]
  have "permitted_key b Writing key"
    using c n fb(1) ls unfolding check_path_iff path_policy_def by force
  then have "granted b key Writing \<or> layer_permits m key Writing"
    using m(1) unfolding permitted_key_def by blast
  moreover have "cl_edit_allow m = []"
  proof -
    have "rules_of_kind Edit (ly_allow l) = []" using wr(2) by (auto simp: rules_of_kind_def)
    then show ?thesis using fm(5) by simp
  qed
  moreover have "opt_contains a key \<Longrightarrow> area_optional h v t = Some a \<Longrightarrow>
      \<exists>s area. t = Some s \<and> area_of h v s = Some area \<and> area_contains area key" for a h v t
    by (auto simp: opt_contains_def area_optional_def split: option.splits)
  ultimately show ?thesis
    using fm(1-3) fb(8) wr(1)
    by (fastforce simp: granted_def layer_permits_def Let_def split: if_splits)
qed

subsection \<open>Hosts\<close>

definition checked_forms :: "world \<Rightarrow> string \<Rightarrow> bool \<Rightarrow> string list" where
  "checked_forms w host by_program =
     (if by_program then host_forms (w_idna w) host else take 1 (host_forms (w_idna w) host))"

definition host_policy :: "boundary \<Rightarrow> string list \<Rightarrow> bool" where
  "host_policy b forms \<longleftrightarrow>
     forms \<noteq> []
     \<and> (\<forall>form \<in> set forms. \<forall>l \<in> set (b_compiled b).
          (\<forall>r \<in> set (cl_web_deny l). \<not> host_matches (pattern r) form)
          \<and> (ly_web (cl_layer l) = Listed \<longrightarrow>
               (\<exists>r \<in> set (cl_web_allow l). host_matches (pattern r) form)))"

lemma denied_host_None:
  "denied_host b forms = None \<longleftrightarrow>
     (\<forall>l \<in> set (b_compiled b). \<forall>r \<in> set (cl_web_deny l). \<forall>form \<in> set forms. \<not> host_matches (pattern r) form)"
proof -
  let ?xs = "concat (map (\<lambda>l. concat (map (\<lambda>r. map (\<lambda>form. (cl_layer l, r, form)) forms)
      (cl_web_deny l))) (b_compiled b))"
  have "(cl_layer l, r, form) \<in> set ?xs"
    if "l \<in> set (b_compiled b)" "r \<in> set (cl_web_deny l)" "form \<in> set forms" for l r form
    using that by (intro in_concat_map [of l] in_concat_map [of r]) auto
  moreover have "\<exists>l \<in> set (b_compiled b). r \<in> set (cl_web_deny l) \<and> form \<in> set forms"
    if "(x, r, form) \<in> set ?xs" for x r form
    using that by auto
  ultimately show ?thesis unfolding denied_host_def find_None_iff by fast
qed

lemma unlisted_host_None:
  "unlisted_host b forms = None \<longleftrightarrow>
     (\<forall>l \<in> set (b_compiled b). ly_web (cl_layer l) = Listed \<longrightarrow>
        (\<forall>form \<in> set forms. \<exists>r \<in> set (cl_web_allow l). host_matches (pattern r) form))"
proof -
  let ?xs = "concat (map (\<lambda>l. if ly_web (cl_layer l) = Listed then map (\<lambda>form. (l, form)) forms else [])
      (b_compiled b))"
  have "(l, form) \<in> set ?xs \<longleftrightarrow>
      l \<in> set (b_compiled b) \<and> ly_web (cl_layer l) = Listed \<and> form \<in> set forms" for l form
    by auto
  then show ?thesis by (auto simp: unlisted_host_def find_None_iff list_ex_iff)
qed

lemma check_host_iff:
  "check_host w b host a by_program = Permitted \<longleftrightarrow>
     b_layers b = []
     \<or> (rstrip_char (CHR ''.'') (strip_chars brackets (strip host)) \<noteq> []
        \<and> host_policy b (checked_forms w host by_program))"
proof (cases "host_forms (w_idna w) host")
  case Nil
  then show ?thesis by (simp add: check_host_def checked_forms_def host_policy_def)
next
  case (Cons f fs)
  then have "(if by_program then f # fs else [f]) = checked_forms w host by_program"
    by (simp add: checked_forms_def)
  moreover have "checked_forms w host by_program \<noteq> []" using Cons by (simp add: checked_forms_def)
  moreover have "check_host w b host a by_program = Permitted \<longleftrightarrow>
      b_layers b = []
      \<or> (rstrip_char (CHR ''.'') (strip_chars brackets (strip host)) \<noteq> []
         \<and> denied_host b (if by_program then f # fs else [f]) = None
         \<and> unlisted_host b (if by_program then f # fs else [f]) = None)"
    using Cons by (auto simp: check_host_def Let_def split: option.splits)
  ultimately show ?thesis
    unfolding denied_host_None unlisted_host_None host_policy_def by auto
qed

lemma check_url_server:
  assumes "check_url w b url by_program = Permitted" "b_layers b \<noteq> []"
    and "url_parts url = Some (parts, port)" "default_port (lower (url_scheme parts)) = Some standard"
    and "loopback_port b = Some (or_default standard port)"
    and "form \<in> set (host_forms (w_idna w) (url_hostname parts))"
  shows "\<not> is_server_host w b form"
  using assms by (auto simp: check_url_def Let_def list_ex_iff split: if_splits)

lemma parse_ipv4_last:
  assumes "parse_ipv4 t = Some n" shows "t \<noteq> []" "\<forall>c \<in> set t. c \<notin> brackets"
proof -
  have parts: "list_all part_matches (split_on (CHR ''.'') t)"
    using assms by (auto simp: parse_ipv4_def Let_def split: if_splits)
  show "t \<noteq> []"
    using parts by (auto simp: part_matches_def part_body_def starts_with_def)
  have "c \<notin> brackets" if part: "part_matches p" and c: "c \<in> set p" for p c
  proof -
    have "c = CHR 0x0A \<or> c \<in> set (part_body p)"
      using c by (cases p rule: rev_cases) (auto simp: part_body_def)
    moreover have "x \<notin> brackets" if x: "x \<in> set (part_body p)" for x
    proof -
      have ok: "is_hex_digit y \<Longrightarrow> y \<notin> brackets" "is_digit y \<Longrightarrow> y \<notin> brackets" for y
        by (auto simp: brackets_def is_hex_digit_def is_digit_def code_def)
      have "list_all is_digit (part_body p)
          \<or> (\<exists>y z. part_body p = CHR ''0'' # y # z \<and> y \<in> {CHR ''x'', CHR ''X''} \<and> list_all is_hex_digit z)"
        using part by (auto simp: part_matches_def Let_def starts_with_iff)
      then show ?thesis
      proof (elim disjE exE conjE)
        assume "list_all is_digit (part_body p)"
        then show ?thesis using x ok(2) by (simp add: list_all_iff)
      next
        fix y z
        assume h: "part_body p = CHR ''0'' # y # z" "y \<in> {CHR ''x'', CHR ''X''}" "list_all is_hex_digit z"
        have "x = CHR ''0'' \<or> x = y \<or> is_hex_digit x"
          using x h(3) unfolding h(1) by (auto simp: list_all_iff)
        then show ?thesis using h(2) ok(1) by (auto simp: brackets_def)
      qed
    qed
    ultimately show ?thesis by (auto simp: brackets_def)
  qed
  moreover have "\<exists>p \<in> set (split_on (CHR ''.'') t). c \<in> set p" if "c \<in> set t" "c \<noteq> CHR ''.''" for c
    using that
  proof (induction t)
    case (Cons x t)
    obtain v vs where "split_on (CHR ''.'') t = v # vs" using split_on_not_Nil by (metis list.exhaust)
    then show ?case using Cons by auto
  qed simp
  ultimately show "\<forall>c \<in> set t. c \<notin> brackets"
    using parts unfolding list_all_iff by (force simp: brackets_def)
qed

subsection \<open>The machine itself\<close>

lemma digits_of_byte_length: "n < 256 \<Longrightarrow> length (digits_of 10 n) \<le> 3"
  by (subst digits_of.simps) (auto, subst digits_of.simps, auto, subst digits_of.simps, auto)

lemma parse_octet_digits:
  assumes "n < 256" shows "parse_octet (digits_of 10 n) = Some n"
proof -
  have v: "int_of_digits 10 (digits_of 10 n) = n" by (rule int_of_digits_digits_of) simp_all
  have d: "list_all is_digit (digits_of 10 n)" using digits_of_10_digits by (auto simp: list_all_iff)
  have ne: "digits_of 10 n \<noteq> []" by (subst digits_of.simps) simp
  have z: "digits_of 10 n = ''0'' \<or> hd (digits_of 10 n) \<noteq> CHR ''0''"
    using digits_of_10_no_leading_zero [of n] by (cases "n = 0") auto
  show ?thesis
    unfolding parse_octet_def v using ne d z digits_of_byte_length [OF assms] assms by auto
qed

lemma ip_address_show_ipv4:
  assumes "n < 2 ^ 32" shows "ip_address (show_ipv4 n) = Some (IPv4 n)"
proof -
  let ?bs = "[n div 256 ^ 3 mod 256, n div 256 ^ 2 mod 256, n div 256 mod 256, n mod 256]"
  have "map_option_list parse_octet (map (digits_of 10) ?bs) = Some ?bs"
    by (rule map_option_list_map) (auto intro!: parse_octet_digits)
  then have "parse_ipv4_strict (show_ipv4 n) = Some (bytes_value ?bs)"
    unfolding parse_ipv4_strict_def split_show_ipv4 Let_def by (simp del: map_option_list.simps list.map)
  then show ?thesis unfolding bytes_of_value [OF assms] by (simp add: ip_address_def)
qed

lemma own_host_ipv4:
  assumes "parse_ipv4 (rstrip_char (CHR ''.'') (strip_chars brackets host)) = Some n"
    and "n div 2 ^ 24 = 127 \<or> n = 0"
  shows "is_own_host machine_name host"
proof -
  let ?t = "rstrip_char (CHR ''.'') (strip_chars brackets host)"
  have "rstrip_char (CHR ''.'') ?t = ?t" by (simp add: rstrip_char_def)
  then have "canonical_host ?t = show_ipv4 n" using assms(1) by (simp add: canonical_host_def)
  then show ?thesis
    using assms(2) ip_address_show_ipv4 [OF parse_ipv4_bound [OF assms(1)]]
    by (auto simp: is_own_host_def Let_def is_loopback_def is_unspecified_def)
qed

end
