(* ===== verification/Boundary_Properties.thy ===== *)
theory Boundary_Properties
  imports Host_Facts
begin

section \<open>Properties of the boundary\<close>

text \<open>
  The properties of the path, host and URL checks, each with an instance on a small world: a
  POSIX machine whose file system has no links, one layer confined to its working directory
  \<open>/w\<close> with the rule \<open>Read(/w/s)\<close> denied and the host \<open>ok.example\<close> listed.
\<close>

subsection \<open>A sample Run\<close>

definition sample_world :: world where
  "sample_world =
     \<lparr>w_host = \<lparr>realpath = (\<lambda>t. t), lexists = (\<lambda>_. True), long_path_name = (\<lambda>_. None)\<rparr>,
      w_idna = \<lparr>idna_encode = (\<lambda>_ t. Some t), uts46_remap = Some\<rparr>, w_machine = ''box''\<rparr>"

definition sample_facts :: run_facts where
  "sample_facts =
     \<lparr>cx_workdir = ''/w'', cx_home = ''/h'', cx_data_dir = ''/d'', cx_project_root = None,
      cx_scratch_root = Some ''/d/t'', cx_workspace = None, cx_agent_config = Some ''/d/a/agent.json'',
      cx_rule_files = [], cx_install_dirs = [''/v''], cx_readable_dirs = [],
      cx_loopback_port = Some 80, cx_own_hosts = [], cx_windows = False\<rparr>"

definition secret_rule :: permission_rule where
  "secret_rule = \<lparr>kind = Read, pattern = ''/w/s''\<rparr>"

definition sample_layer :: permission_layer where
  "sample_layer =
     \<lparr>ly_source = Agent, ly_read = Read_Work_Area, ly_write = Write_Work_Area, ly_commands = Any,
      ly_web = Listed, ly_workdir = ''/w'', ly_scratch = None,
      ly_allow = [\<lparr>kind = Web, pattern = ''ok.example''\<rparr>], ly_deny = [secret_rule],
      ly_rule_files = []\<rparr>"

definition sample_boundary :: boundary where
  "sample_boundary = the (boundary_of sample_world [sample_layer] sample_facts)"

definition subtree_request :: path_request where
  "subtree_request = plain_request\<lparr>rq_subtree := True\<rparr>"

definition sample_path :: "string \<Rightarrow> normalized_path" where
  "sample_path t = \<lparr>np_lexical = t, np_resolved = t, np_unsafe = None\<rparr>"

lemma sample_built: "boundary_of sample_world [sample_layer] sample_facts = Some sample_boundary"
proof -
  have "boundary_of sample_world [sample_layer] sample_facts \<noteq> None" by code_simp
  then show ?thesis by (auto simp: sample_boundary_def)
qed

lemma sample_normalized:
  "normalized_request sample_world sample_boundary ''a'' plain_request = Some (sample_path ''/w/a'')"
  "normalized_request sample_world sample_boundary ''s/x'' plain_request = Some (sample_path ''/w/s/x'')"
  "normalized_request sample_world sample_boundary ''b'' subtree_request = Some (sample_path ''/w/b'')"
  by code_simp+

lemma sample_permits:
  "check_path sample_world sample_boundary ''a'' Reading plain_request = Permitted"
  "check_path sample_world sample_boundary ''a'' Writing plain_request = Permitted"
  "check_path sample_world sample_boundary ''b'' Reading subtree_request = Permitted"
  by code_simp+

lemma sample_keys:
  "access_keys sample_boundary (sample_path t) = [t]"
proof -
  have "b_windows sample_boundary = False"
    using boundary_of_fields(3) [OF sample_built] by (simp add: sample_facts_def)
  then show ?thesis by (simp add: access_keys_def sample_path_def key_of_def path_key_def)
qed

lemma sample_layers: "b_layers sample_boundary = [sample_layer]"
  by (rule boundary_of_fields(1) [OF sample_built]) simp

subsection \<open>Paths\<close>

text \<open>C1. A path check permits an access iff it is unrestricted or the abstract policy holds: no form
  of the path is protected or denied by any layer, every layer permits every form, an unsafe form
  is named exactly, and nothing the access reaches below is protected or denied.\<close>

theorem check_path_decides_policy:
  "check_path w b path a rq = Permitted \<longleftrightarrow>
     b_layers b = [] \<or> (\<exists>n. normalized_request w b path rq = Some n \<and> path_policy b n a rq)"
  by (rule check_path_iff)

text \<open>C18. A deny rule on a folder without wildcards refuses every access to the folder and to
  everything below it whose path holds no newline, whatever any layer allows.\<close>

theorem literal_deny_refuses_below:
  assumes "boundary_of w ls cx = Some b" "l \<in> set ls" "r \<in> set (ly_deny l)"
    and "kind r = Read \<or> (kind r = Edit \<and> a = Writing)"
    and "split_lexical (cx_windows cx) (pattern r) = Some p" "\<not> has_wildcard (path_text p)"
    and "normalized_request w b path rq = Some n" "key \<in> set (access_keys b n)"
    and "is_inside key (path_key (cx_windows cx) (path_text p))" "CHR 0x0A \<notin> set key"
  shows "check_path w b path a rq \<noteq> Permitted"
  by (rule deny_literal_wins [OF assms])

theorem literal_deny_refuses_below_witness:
  "check_path sample_world sample_boundary ''s/x'' Reading plain_request \<noteq> Permitted"
proof (rule literal_deny_refuses_below [OF sample_built, of sample_layer secret_rule Reading])
  show "split_lexical (cx_windows sample_facts) (pattern secret_rule)
      = Some \<lparr>root = ''/'', segments = [''w'', ''s''], unsafe = None\<rparr>" by code_simp
  show "\<not> has_wildcard (path_text \<lparr>root = ''/'', segments = [''w'', ''s''], unsafe = None\<rparr>)" by code_simp
  show "normalized_request sample_world sample_boundary ''s/x'' plain_request = Some (sample_path ''/w/s/x'')"
    by (rule sample_normalized(2))
  show "''/w/s/x'' \<in> set (access_keys sample_boundary (sample_path ''/w/s/x''))"
    by (simp add: sample_keys)
  show "is_inside ''/w/s/x'' (path_key (cx_windows sample_facts)
      (path_text \<lparr>root = ''/'', segments = [''w'', ''s''], unsafe = None\<rparr>))" by code_simp
qed (simp_all add: sample_layer_def secret_rule_def)

text \<open>C22. Layers only narrow: a boundary whose layers occur, up to who set them, among those of
  another boundary over the same facts permits every path access the other one permits.\<close>

theorem more_layers_permit_no_more:
  assumes "boundary_of w ls cx = Some b" "boundary_of w ms cx = Some c" "layers_within ms ls"
    and "check_path w b path a rq = Permitted"
  shows "check_path w c path a rq = Permitted"
  by (rule layers_only_narrow [OF assms])

lemma unlimited_built: "boundary_of sample_world [] sample_facts = Some unrestricted"
  by (simp add: boundary_of_def)

theorem more_layers_permit_no_more_witness:
  "check_path sample_world unrestricted ''a'' Writing plain_request = Permitted"
  by (rule more_layers_permit_no_more [OF sample_built unlimited_built _ sample_permits(2)])
    (simp add: layers_within_def)

text \<open>C27. A ceiling confines whoever inherits it: a boundary built under the ceiling of another
  boundary, over the same facts, permits no path access that boundary refuses.\<close>

theorem ceiling_confines_inheritor:
  assumes "boundary_of w ls cx = Some b" "ceiling b source = Some c" "c \<in> set ceilings"
    and "build w rules cx ceilings = Some child" "check_path w child path a rq = Permitted"
  shows "check_path w b path a rq = Permitted"
proof -
  obtain own where child: "boundary_of w (own @ concat (map pc_layers ceilings)) cx = Some child"
    using assms(4) by (auto simp: build_def bind_eq_Some_conv)
  have "ls \<noteq> []" using assms(1,2) by (auto simp: ceiling_def unrestricted_def boundary_of_def)
  then have c: "pc_layers c = map (\<lambda>l. if ly_source l = Agent then retagged l source else l) ls"
    using assms(2) boundary_of_fields(1) [OF assms(1)] by (auto simp: ceiling_def split: if_splits)
  have "\<exists>l \<in> set (pc_layers c). retagged l Agent = retagged m Agent" if "m \<in> set ls" for m
  proof -
    have "(if ly_source m = Agent then retagged m source else m) \<in> set (pc_layers c)"
      using that unfolding c by auto
    then show ?thesis by (intro bexI) auto
  qed
  moreover have "set (pc_layers c) \<subseteq> set (own @ concat (map pc_layers ceilings))"
    using assms(3) by auto
  ultimately have "layers_within ls (own @ concat (map pc_layers ceilings))"
    unfolding layers_within_def by (metis subsetD)
  then show ?thesis by (rule layers_only_narrow [OF child assms(1) _ assms(5)])
qed

definition sample_ceiling :: permission_ceiling where
  "sample_ceiling = \<lparr>pc_layers = [retagged sample_layer Parent]\<rparr>"

theorem ceiling_confines_inheritor_witness:
  "check_path sample_world sample_boundary ''a'' Reading plain_request = Permitted"
proof (rule ceiling_confines_inheritor [OF sample_built, of Parent sample_ceiling "[sample_ceiling]"])
  let ?child = "the (build sample_world None sample_facts [sample_ceiling])"
  show "ceiling sample_boundary Parent = Some sample_ceiling"
    by (simp add: ceiling_def sample_layers sample_ceiling_def sample_layer_def)
  have "build sample_world None sample_facts [sample_ceiling] \<noteq> None" by code_simp
  then show "build sample_world None sample_facts [sample_ceiling] = Some ?child" by simp
  show "check_path sample_world ?child ''a'' Reading plain_request = Permitted" by code_simp
qed simp

text \<open>Allow rules granted during a Run (\<open>with_agent_allow\<close>) lift no deny rule and no protected
  location: what the boundary refused for such a reason the widened boundary still refuses.\<close>

theorem granted_allow_keeps_denials:
  assumes "boundary_of w ls cx = Some b" "ls \<noteq> []" "with_agent_allow w b rules = Some (Some c)"
    and "denied_key b a key \<or> protected_key b a key \<noteq> None"
    and "normalized_request w b path rq = Some n" "key \<in> set (access_keys b n)"
  shows "check_path w c path a rq \<noteq> Permitted"
  by (rule widened_denies [OF assms])

theorem granted_allow_keeps_denials_witness:
  "check_path sample_world (the (the (with_agent_allow sample_world sample_boundary
       [\<lparr>kind = Read, pattern = ''/w/s/**''\<rparr>]))) ''s/x'' Reading plain_request \<noteq> Permitted"
proof (rule granted_allow_keeps_denials [OF sample_built])
  let ?c = "with_agent_allow sample_world sample_boundary [\<lparr>kind = Read, pattern = ''/w/s/**''\<rparr>]"
  have "?c \<noteq> None \<and> the ?c \<noteq> None" by code_simp
  then show "?c = Some (Some (the (the ?c)))" by auto
  have "list_ex (\<lambda>l. list_ex (\<lambda>r. rule_matches r ''/w/s/x'') (deny_rules l Reading))
      (b_compiled sample_boundary)" by code_simp
  then show "denied_key sample_boundary Reading ''/w/s/x''
      \<or> protected_key sample_boundary Reading ''/w/s/x'' \<noteq> None"
    by (auto simp: denied_key_def list_ex_iff)
  show "normalized_request sample_world sample_boundary ''s/x'' plain_request = Some (sample_path ''/w/s/x'')"
    by (rule sample_normalized(2))
qed (simp_all add: sample_keys)

text \<open>C29. A permitted recursive access, with or without a glob, reaches nothing it must not: no entry it can
  reach lies in an area protected from it, and, except for a git operation, an entry a deny rule matches lies
  below a folder the access leaves out by name. Without a glob it reaches every entry at or below the folder.\<close>

theorem permitted_subtree_reaches_nothing_denied:
  assumes "b_layers b \<noteq> []" "check_path w b path a rq = Permitted" "rq_subtree rq"
    and "normalized_request w b path rq = Some n" "key \<in> set (access_keys b n)"
    and "reached key (reach_of b rq) entry \<or> (rq_glob rq = None \<and> is_inside entry key)"
  shows "(\<forall>(t, area) \<in> set (protected_areas b (access_keys b n) a (rq_git rq)). \<not> area_contains area entry)
    \<and> (\<not> rq_git rq \<longrightarrow> denied_key b a entry \<longrightarrow>
        (\<exists>s \<in> set (drop (length (key_segments key)) (split_on (CHR ''/'') entry)).
           s \<in> set (map (key_of b) (rq_pruned rq))))"
proof -
  have "subtree_policy b (access_keys b n) a (reach_of b rq) (map (key_of b) (rq_pruned rq)) (rq_git rq)"
    using assms(1-4) by (auto simp: check_path_iff path_policy_def)
  moreover have "reached key (reach_of b rq) entry"
    using assms(6) reached_below [of entry key] by (auto simp: reach_of_def)
  ultimately show ?thesis using subtree_sound [OF _ assms(5)] unfolding denied_key_def by blast
qed

theorem permitted_subtree_reaches_nothing_denied_witness:
  "\<not> area_contains (b_data_dirs sample_boundary) ''/w/b/c'' \<and> \<not> denied_key sample_boundary Reading ''/w/b/c''"
proof -
  have inside: "is_inside ''/w/b/c'' ''/w/b''" by code_simp
  note p = permitted_subtree_reaches_nothing_denied [OF _ sample_permits(3) _ sample_normalized(3), of "''/w/b''" "''/w/b/c''"]
  have "(''data_dir'', b_data_dirs sample_boundary)
      \<in> set (protected_areas sample_boundary [''/w/b''] Reading False)" by code_simp
  then show ?thesis
    using p inside by (force simp: sample_layers sample_keys subtree_request_def plain_request_def)
qed

text \<open>The patterns of \<open>refusable_below\<close> are complete for deny rules: every entry below the folder
  that a deny rule matches is covered by one of them, read relative to the folder.\<close>

theorem refusable_below_covers_denied:
  assumes "refusable_below w b folder a = Some ps" "b_layers b \<noteq> []"
    and "normalize_access_path (w_host w) (b_windows b) (b_workdir b) (b_home b) True folder = Some n"
    and "key \<in> {key_of b (np_lexical n), key_of b (np_resolved n)}"
    and "split_on (CHR ''/'') entry = key_segments key @ ws" "denied_key b a entry"
  shows "\<exists>p \<in> set ps. below_match p ws"
  by (rule refusable_below_covers [OF assms])

theorem refusable_below_covers_denied_witness:
  "\<exists>p \<in> set [''s'']. below_match p [''s'', ''x'']"
proof (rule refusable_below_covers_denied [of sample_world sample_boundary "''/w''" Reading])
  show "normalize_access_path (w_host sample_world) (b_windows sample_boundary)
      (b_workdir sample_boundary) (b_home sample_boundary) True ''/w'' = Some (sample_path ''/w'')"
    by code_simp
  have "list_ex (\<lambda>l. list_ex (\<lambda>r. rule_matches r ''/w/s/x'') (deny_rules l Reading))
      (b_compiled sample_boundary)" by code_simp
  then show "denied_key sample_boundary Reading ''/w/s/x''" by (auto simp: denied_key_def list_ex_iff)
  show "split_on (CHR ''/'') ''/w/s/x'' = key_segments ''/w'' @ [''s'', ''x'']" by code_simp
  show "''/w'' \<in> {key_of sample_boundary (np_lexical (sample_path ''/w'')),
      key_of sample_boundary (np_resolved (sample_path ''/w''))}" by code_simp
  show "refusable_below sample_world sample_boundary ''/w'' Reading = Some [''s'']" by code_simp
qed (simp add: sample_layers)

text \<open>Confinement: under a layer that limits changes and has no \<open>Edit\<close> allow rule, every permitted
  change is, in both forms of its path, inside the working directory, the Scratch Area or the
  Workspace.\<close>

theorem limited_layer_confines_changes:
  assumes "boundary_of w ls cx = Some b" "l \<in> set ls" "ly_write l \<noteq> Write_Anywhere"
    and "\<forall>r \<in> set (ly_allow l). kind r \<noteq> Edit"
    and "check_path w b path Writing rq = Permitted" "\<not> rq_deny_only rq"
    and "normalized_request w b path rq = Some n" "key \<in> set (access_keys b n)"
  shows "\<exists>t \<in> {ly_workdir l} \<union> set_option (ly_scratch l) \<union> set_option (cx_workspace cx).
    \<exists>area. area_of (w_host w) (cx_windows cx) t = Some area \<and> area_contains area key"
  by (rule confined_write [OF assms])

theorem limited_layer_confines_changes_witness:
  "\<exists>t \<in> {''/w''}. \<exists>area. area_of (w_host sample_world) False t = Some area \<and> area_contains area ''/w/a''"
  using limited_layer_confines_changes [OF sample_built, of sample_layer "''a''" plain_request "sample_path ''/w/a''" "''/w/a''"]
    sample_permits(2) sample_normalized(1)
  by (simp add: sample_keys sample_layer_def sample_facts_def plain_request_def)

subsection \<open>Hosts\<close>

text \<open>C38. A host check permits iff the address names a host, has a comparison form, and for every form
  that counts (all forms for a program) no layer denies it and every listed layer allows it.\<close>

theorem check_host_decides_policy:
  "check_host w b host a by_program = Permitted \<longleftrightarrow>
     b_layers b = []
     \<or> (rstrip_char (CHR ''.'') (strip_chars brackets (strip host)) \<noteq> []
        \<and> host_policy b (checked_forms w host by_program))"
  by (rule check_host_iff)

text \<open>A permitted fetch never reaches the server: on the server's own port no comparison form of
  the URL's host is a name or address of the machine it listens on.\<close>

theorem permitted_url_is_not_the_server:
  assumes "check_url w b url by_program = Permitted" "b_layers b \<noteq> []"
    and "url_parts url = Some (parts, port)" "default_port (lower (url_scheme parts)) = Some standard"
    and "loopback_port b = Some (or_default standard port)"
    and "form \<in> set (host_forms (w_idna w) (url_hostname parts))"
  shows "\<not> is_server_host w b form"
  by (rule check_url_server [OF assms])

theorem permitted_url_is_not_the_server_witness:
  "\<not> is_server_host sample_world sample_boundary ''ok.example''"
proof (rule permitted_url_is_not_the_server)
  show "check_url sample_world sample_boundary ''http://ok.example/x'' False = Permitted" by code_simp
  show "url_parts ''http://ok.example/x'' =
      Some (\<lparr>url_scheme = ''http'', url_netloc = ''ok.example'', url_path = ''/x'', url_query = []\<rparr>, None)"
    by code_simp
  show "default_port (lower (url_scheme \<lparr>url_scheme = ''http'', url_netloc = ''ok.example'',
      url_path = ''/x'', url_query = []\<rparr>)) = Some 80" by code_simp
  show "loopback_port sample_boundary = Some (or_default 80 None)"
    using boundary_of_fields(2) [OF sample_built]
    by (simp add: loopback_port_def or_default_def sample_facts_def)
  show "''ok.example'' \<in> set (host_forms (w_idna sample_world) (url_hostname
      \<lparr>url_scheme = ''http'', url_netloc = ''ok.example'', url_path = ''/x'', url_query = []\<rparr>))"
    by code_simp
qed (simp add: sample_layers)

text \<open>Every spelling the resolver reads as a loopback or the unspecified IPv4 address
  (\<open>127.1\<close>, \<open>0x7f000001\<close>, \<open>0177.0.0.1\<close>, brackets, a closing dot) names the machine itself.\<close>

theorem loopback_spelling_is_own_host:
  assumes "parse_ipv4 (rstrip_char (CHR ''.'') (strip_chars brackets host)) = Some n"
    and "n div 2 ^ 24 = 127 \<or> n = 0"
  shows "is_own_host machine_name host"
  by (rule own_host_ipv4 [OF assms])

theorem loopback_spelling_is_own_host_witness: "is_own_host ''box'' ''0x0.00.0.0.''"
proof (rule loopback_spelling_is_own_host)
  show "parse_ipv4 (rstrip_char (CHR ''.'') (strip_chars brackets ''0x0.00.0.0.'')) = Some 0" by code_simp
qed simp

end
