(* ===== verification/Rule_Properties.thy ===== *)
theory Rule_Properties
  imports Trip_Facts Boundary_Properties
begin

section \<open>Properties of rules, levels and ceilings\<close>

text \<open>
  What a rule set keeps on its way from an editor to a Run: the checker and the normalizer agree,
  stored forms read back as they were written, levels and intersections only do what they promise,
  and joined ceilings confine like both.
\<close>

subsection \<open>Levels\<close>

lemma first_some_single: "first_some f [x] = f x"
  by (simp split: option.splits)

lemma resolve_idem: "resolve_rule_set [resolve_rule_set levels] = resolve_rule_set levels"
proof (cases "resolve_rule_set levels")
  case None
  then show ?thesis by (simp add: resolve_rule_set_def [of "[None]"])
next
  case (Some r)
  have "map_option (write_within_read (rs_read r)) (rs_write r) = rs_write r"
    using resolve_within_read [OF Some]
    by (cases "rs_write r") (auto simp: write_within_read_def require_write_within_read_def)
  then show ?thesis
    using resolve_parts(7) [OF Some] Some
    by (cases r) (simp add: resolve_rule_set_def [of "[Some _]"] first_set_def first_some_single Let_def
        del: first_some.simps)
qed

text \<open>C39. Resolving levels settles them: the result resolves to itself, restricts something, and never
  combines reading only the work area with writing anywhere, whatever the levels were.\<close>

theorem resolved_levels_are_settled:
  "resolve_rule_set [resolve_rule_set levels] = resolve_rule_set levels
   \<and> (\<forall>r. resolve_rule_set levels = Some r \<longrightarrow>
        restricts r \<and> \<not> (rs_read r = Some Read_Work_Area \<and> rs_write r = Some Write_Anywhere))"
  using resolve_idem resolve_parts(7) resolve_within_read
  by (auto simp: require_write_within_read_def)

definition narrow_level :: permission_rules where
  "narrow_level = \<lparr>rs_read = Some Read_Work_Area, rs_write = None, rs_commands = None, rs_web = None,
                   rs_allow = None, rs_deny = None\<rparr>"

definition wide_level :: permission_rules where
  "wide_level = \<lparr>rs_read = Some Read_Anywhere, rs_write = Some Write_Anywhere, rs_commands = Some Listed,
                 rs_web = None, rs_allow = Some [], rs_deny = None\<rparr>"

theorem resolved_levels_are_settled_witness:
  "\<exists>r. resolve_rule_set [Some narrow_level, None, Some wide_level] = Some r
     \<and> restricts r \<and> rs_write r \<noteq> Some Write_Anywhere"
proof -
  let ?ls = "[Some narrow_level, None, Some wide_level]"
  have "resolve_rule_set ?ls \<noteq> None" "map_option rs_read (resolve_rule_set ?ls) = Some (Some Read_Work_Area)"
    by code_simp+
  then show ?thesis using resolved_levels_are_settled [of ?ls] by auto
qed

text \<open>An explicit full rule set of a more specific level lifts every restriction of the levels
  below it: the Agent has full access again.\<close>

theorem full_level_overrides:
  assumes "rs_read l = Some Read_Anywhere" "rs_write l = Some Write_Anywhere"
    and "rs_commands l = Some Any" "rs_web l = Some Any" "rs_deny l = Some []"
  shows "resolve_rule_set (Some l # levels) = None"
  using assms by (simp add: resolve_None_iff)

theorem full_level_overrides_witness:
  "resolve_rule_set
     [Some \<lparr>rs_read = Some Read_Anywhere, rs_write = Some Write_Anywhere, rs_commands = Some Any,
            rs_web = Some Any, rs_allow = None, rs_deny = Some []\<rparr>, Some narrow_level] = None"
  by (rule full_level_overrides) simp_all

text \<open>An intersection of two rule sets permits no host either of them refuses, however their
  allow rules overlap (allow rules do not put a wildcard before an IP address).\<close>

theorem intersection_permits_no_further_host:
  assumes "intersect_rule_sets (Some a) (Some b) = Some (Some r)" "rules_permit_host r host"
    and "\<forall>x \<in> set (rules_of (rs_allow a) @ rules_of (rs_allow b)). kind x = Web \<longrightarrow> \<not> wild_address (pattern x)"
  shows "rules_permit_host a host \<and> rules_permit_host b host"
  by (rule intersect_host [OF assms])

definition web_level :: "string \<Rightarrow> permission_rules" where
  "web_level host =
     \<lparr>rs_read = None, rs_write = None, rs_commands = None, rs_web = Some Listed,
      rs_allow = Some [\<lparr>kind = Web, pattern = host\<rparr>], rs_deny = None\<rparr>"

theorem intersection_permits_no_further_host_witness:
  "rules_permit_host (web_level ''*.a.org'') ''x.b.a.org'' \<and> rules_permit_host (web_level ''b.a.org'') ''x.b.a.org''"
proof -
  let ?r = "the (the (intersect_rule_sets (Some (web_level ''*.a.org'')) (Some (web_level ''b.a.org''))))"
  have r: "intersect_rule_sets (Some (web_level ''*.a.org'')) (Some (web_level ''b.a.org'')) = Some (Some ?r)"
    by code_simp
  have h: "rules_permit_host ?r ''x.b.a.org''" by code_simp
  have plain: "\<not> wild_address ''*.a.org''" "\<not> wild_address ''b.a.org''" by code_simp+
  show ?thesis
    by (rule intersection_permits_no_further_host [OF r h])
      (use plain in \<open>auto simp: web_level_def rules_of_def\<close>)
qed

subsection \<open>Editors and stored forms\<close>

text \<open>The editor's checker agrees with the strict normalizer: it reports no problem exactly for the
  rule sets the normalizer accepts, returns the same rules and notes for them, and no rules otherwise.\<close>

theorem checker_agrees_with_normalizer:
  assumes "check_permission_rules idn w v = Some c"
  shows "(rc_problems c = [] \<longleftrightarrow> (\<exists>r saved. normalize_permission_rules idn w v = Inr (r, saved)))
    \<and> (\<forall>r saved. normalize_permission_rules idn w v = Inr (r, saved) \<longrightarrow>
         rc_rules c = Some r \<and> rc_notes c = saved)
    \<and> (rc_problems c \<noteq> [] \<longrightarrow> rc_rules c = None)"
  by (rule check_agrees [OF assms])

definition plain_idna :: idna where
  "plain_idna = \<lparr>idna_encode = (\<lambda>_ t. Some t), uts46_remap = Some\<rparr>"

definition sample_document :: submitted where
  "sample_document =
     Stored (PDict [(''read'', PStr ''Work-Area''), (''allow'', PList [PStr ''Bash(git status)'']),
                    (''deny'', PList [PStr ''Read(/s)'', PStr ''Web()''])])"

theorem checker_agrees_with_normalizer_witness:
  "rc_problems (the (check_permission_rules plain_idna False sample_document)) = []
   \<and> length (rc_notes (the (check_permission_rules plain_idna False sample_document))) = 2"
proof -
  let ?c = "check_permission_rules plain_idna False sample_document"
  have "?c \<noteq> None" by code_simp
  then have c: "?c = Some (the ?c)" by simp
  have "(case normalize_permission_rules plain_idna False sample_document of
      Inr (_, saved) \<Rightarrow> length saved = 2 | Inl _ \<Rightarrow> False)" by code_simp
  then show ?thesis
    using checker_agrees_with_normalizer [OF c] by (auto split: sum.splits)
qed

text \<open>A rule for a canonical absolute path is stable: its text, as it is stored and shown, parses
  back to the same rule and counts as vBot's own spelling.\<close>

theorem absolute_rule_parses_to_itself:
  assumes "canonical w p" "path_kind k" "\<not> list_ex is_control (path_text p)"
    and "any_placeholder (path_text p) = None" "\<not> is_space (last (path_text p))"
  shows "parse_rule idn w (rule_text \<lparr>kind = k, pattern = path_text p\<rparr>)
    = Inr (\<lparr>kind = k, pattern = path_text p\<rparr>, None)"
  using stable_path_rule [OF assms] by (simp add: stable_rule_def)

theorem absolute_rule_parses_to_itself_witness:
  "parse_rule plain_idna True ''Edit(C:/a b/**)'' = Inr (\<lparr>kind = Edit, pattern = ''C:/a b/**''\<rparr>, None)"
proof -
  let ?p = "\<lparr>root = ''C:/'', segments = [''a b'', ''**''], unsafe = None\<rparr>"
  have "split_lexical True ''c:/a b/**'' = Some ?p" by code_simp
  then have p: "canonical True ?p"
    by (rule split_lexical_canonical) (simp_all add: absolute_def driveless_def)
  have t: "path_text ?p = ''C:/a b/**''" "rule_text \<lparr>kind = Edit, pattern = ''C:/a b/**''\<rparr> = ''Edit(C:/a b/**)''"
    by code_simp+
  have "\<not> list_ex is_control ''C:/a b/**''" "any_placeholder ''C:/a b/**'' = None"
    "\<not> is_space (last ''C:/a b/**'')" by code_simp+
  then show ?thesis
    using absolute_rule_parses_to_itself [OF p, of Edit plain_idna] unfolding t by (simp add: path_kind_def)
qed

text \<open>A rule set of stable rules reads back from its stored form unchanged and without notes.\<close>

theorem stored_rule_set_reads_back:
  assumes "\<forall>x \<in> set (rules_of (rs_allow r) @ rules_of (rs_deny r)). stable_rule idn w x"
    and "distinct (rules_of (rs_allow r))" "distinct (rules_of (rs_deny r))"
    and "require_write_within_read (rs_read r) (rs_write r)"
  shows "normalize_permission_rules idn w (Stored (PDict (permission_rules_to_dict r))) = Inr (r, [])"
  by (rule rule_set_round_trip [OF assms])

theorem stored_rule_set_reads_back_witness:
  "normalize_permission_rules plain_idna False
     (Stored (PDict (permission_rules_to_dict wide_level))) = Inr (wide_level, [])"
  by (rule stored_rule_set_reads_back)
    (simp_all add: wide_level_def rules_of_def require_write_within_read_def)

text \<open>A stored ceiling reads back unchanged, and so does every layer of it, as long as its layers
  are settled: folders normalized, rules stable and absolute, writing within reading.\<close>

theorem stored_ceiling_reads_back:
  assumes "pc_layers c \<noteq> []" "\<forall>l \<in> set (pc_layers c). settled_layer idn w l"
  shows "ceiling_from_dict idn w (PDict (ceiling_to_dict c)) = Inr c"
  by (rule ceiling_round_trip [OF assms])

definition stored_layer :: permission_layer where
  "stored_layer =
     \<lparr>ly_source = Cron, ly_read = Read_Work_Area, ly_write = Write_Scratch, ly_commands = Listed,
      ly_web = Any, ly_workdir = ''/w'', ly_scratch = Some ''/s'',
      ly_allow = [\<lparr>kind = Shell, pattern = ''git status''\<rparr>], ly_deny = [\<lparr>kind = Read, pattern = ''/w/k''\<rparr>],
      ly_rule_files = [''/w/p'']\<rparr>"

theorem stored_ceiling_reads_back_witness:
  "ceiling_from_dict plain_idna False (PDict (ceiling_to_dict \<lparr>pc_layers = [stored_layer]\<rparr>))
     = Inr \<lparr>pc_layers = [stored_layer]\<rparr>"
proof (rule stored_ceiling_reads_back)
  have "settled_layer plain_idna False stored_layer" by code_simp
  then show "\<forall>l \<in> set (pc_layers \<lparr>pc_layers = [stored_layer]\<rparr>). settled_layer plain_idna False l" by simp
qed simp

subsection \<open>Joined ceilings\<close>

text \<open>A Run under two joined ceilings permits no path access that a Run under either of them
  refuses.\<close>

theorem joined_ceilings_confine:
  assumes "build w rules cx [joined c (Some d)] = Some both" "check_path w both path a rq = Permitted"
    and "ceil \<in> {c, d}" "build w rules cx [ceil] = Some alone"
  shows "check_path w alone path a rq = Permitted"
proof -
  obtain own where own: "(case rules of
      Some r \<Rightarrow> if restricts r then map_option (\<lambda>l. [l]) (expand_set r cx) else Some []
    | None \<Rightarrow> Some []) = Some own"
    and both: "boundary_of w (own @ pc_layers (joined c (Some d))) cx = Some both"
    using assms(1) by (auto simp: build_def bind_eq_Some_conv)
  have alone: "boundary_of w (own @ pc_layers ceil) cx = Some alone"
    using assms(4) own by (simp add: build_def)
  have "set (own @ pc_layers ceil) \<subseteq> set (own @ pc_layers (joined c (Some d)))"
    using assms(3) by (auto simp: joined_def)
  from layers_only_narrow [OF both alone layers_within_subset [OF this] assms(2)] show ?thesis .
qed

theorem joined_ceilings_confine_witness:
  "check_path sample_world
     (the (build sample_world None sample_facts [sample_ceiling])) ''a'' Reading plain_request = Permitted"
proof (rule joined_ceilings_confine)
  let ?d = "\<lparr>pc_layers = [retagged sample_layer Cron]\<rparr>"
  let ?both = "build sample_world None sample_facts [joined sample_ceiling (Some ?d)]"
  let ?alone = "build sample_world None sample_facts [sample_ceiling]"
  have "?both \<noteq> None" "?alone \<noteq> None" by code_simp+
  then show "?both = Some (the ?both)" "?alone = Some (the ?alone)" by simp_all
  show "check_path sample_world (the ?both) ''a'' Reading plain_request = Permitted" by code_simp
qed simp

end
