(* ===== verification/Presets.thy ===== *)
theory Presets
  imports Rule_Facts
begin

section \<open>Permission presets\<close>

text \<open>
  \<open>core/permissions/_presets.py\<close>: the presets an editor offers, what applying one does to a stored
  rule set, which preset a rule set matches, and the bases an editor shows for a level. A stored
  rule set is the member list of its dict; \<open>dict_set\<close> and \<open>dict_pop\<close> are assignment and \<open>pop\<close>.
\<close>

subsection \<open>Dicts\<close>

definition dict_set :: "string \<Rightarrow> pyval \<Rightarrow> (string \<times> pyval) list \<Rightarrow> (string \<times> pyval) list" where
  "dict_set k v doc =
     (if has_member doc k then map (\<lambda>(k', v'). (k', if k' = k then v else v')) doc else doc @ [(k, v)])"

definition dict_pop :: "string \<Rightarrow> (string \<times> pyval) list \<Rightarrow> (string \<times> pyval) list" where
  "dict_pop k doc = filter (\<lambda>(k', _). k' \<noteq> k) doc"

definition dict_update :: "(string \<times> pyval) list \<Rightarrow> (string \<times> pyval) list \<Rightarrow> (string \<times> pyval) list" where
  "dict_update doc new = foldl (\<lambda>d (k, v). dict_set k v d) doc new"

lemma member_absent: "\<not> has_member doc k \<Longrightarrow> member doc k = PNone"
  by (induction doc) auto

lemma member_replaced:
  "member (map (\<lambda>(k', v'). (k', if k' = k then v else v')) doc) key =
     (if key = k \<and> has_member doc k then v else member doc key)"
  by (induction doc) (auto simp: member_absent)

lemma replaced_keys: "map fst (map (\<lambda>(k', v'). (k', if k' = k then v else v')) doc) = map fst doc"
  by (simp add: o_def case_prod_unfold)

lemma has_member_iff: "has_member doc k \<longleftrightarrow> map_of doc k \<noteq> None"
  by (simp add: has_member_def map_of_eq_None_iff image_iff)

lemma member_snoc:
  "member (doc @ [(k, v)]) key = (if key = k \<and> \<not> has_member doc k then v else member doc key)"
  by (auto simp: has_member_iff member_def map_add_def split: option.splits if_splits)

lemma member_dict_set: "member (dict_set k v doc) key = (if key = k then v else member doc key)"
  by (simp add: dict_set_def member_replaced member_snoc)

lemma member_dict_pop: "member (dict_pop k doc) key = (if key = k then PNone else member doc key)"
  by (induction doc) (auto simp: dict_pop_def)

lemma dict_set_keys: "set (map fst (dict_set k v doc)) = insert k (set (map fst doc))"
  by (cases "has_member doc k")
    (simp_all add: dict_set_def has_member_def replaced_keys insert_absorb del: map_map)

lemma dict_pop_keys: "set (map fst (dict_pop k doc)) = set (map fst doc) - {k}"
  by (auto simp: dict_pop_def)

subsection \<open>The presets\<close>

datatype preset = Full_Access | Work_Dir | Work_Dir_Read_Only
datatype preset_match = Preset preset | Custom
datatype base_source = Own | Inherited | Default

definition preset_rules :: "preset \<Rightarrow> permission_rules" where
  "preset_rules p =
     (case p of
        Full_Access \<Rightarrow>
          \<lparr>rs_read = Some Read_Anywhere, rs_write = Some Write_Anywhere, rs_commands = Some Any,
           rs_web = Some Any, rs_allow = Some [], rs_deny = Some []\<rparr>
      | Work_Dir \<Rightarrow>
          \<lparr>rs_read = Some Read_Work_Area, rs_write = Some Write_Work_Area, rs_commands = None,
           rs_web = None, rs_allow = None, rs_deny = None\<rparr>
      | Work_Dir_Read_Only \<Rightarrow>
          \<lparr>rs_read = Some Read_Work_Area, rs_write = Some Write_Scratch, rs_commands = None,
           rs_web = None, rs_allow = None, rs_deny = None\<rparr>)"

definition presets :: "(string \<times> preset) list" where
  "presets = [(''full_access'', Full_Access), (''work_dir'', Work_Dir),
              (''work_dir_read_only'', Work_Dir_Read_Only)]"

definition preset_name :: "string \<Rightarrow> preset option" where
  "preset_name t = map_of presets (base_key t)"

definition preset_change :: "preset \<Rightarrow> (string \<times> pyval) list" where
  "preset_change p =
     dict_update [(''commands'', PNone), (''web'', PNone)] (permission_rules_to_dict (preset_rules p))"

definition preset_definitions :: "(string \<times> (string \<times> pyval) list) list" where
  "preset_definitions = map (\<lambda>(name, p). (name, preset_change p)) presets"

definition apply_change :: "(string \<times> pyval) list \<Rightarrow> (string \<times> pyval) list \<Rightarrow> (string \<times> pyval) list" where
  "apply_change change doc =
     foldl (\<lambda>d (k, v). if v = PNone then dict_pop k d else dict_set k v d) doc change"

definition apply_preset :: "preset \<Rightarrow> (string \<times> pyval) list option \<Rightarrow> (string \<times> pyval) list" where
  "apply_preset p rules =
     apply_change (preset_change p)
       (filter (\<lambda>(_, v). v \<noteq> PNone) (case rules of None \<Rightarrow> [] | Some doc \<Rightarrow> doc))"

definition matching_preset :: "permission_rules option \<Rightarrow> preset_match" where
  "matching_preset rules =
     (case rules of None \<Rightarrow> Preset Full_Access
      | Some r \<Rightarrow>
          if \<not> restricts r then Preset Full_Access
          else (let bases = (rs_read r, rs_write r,
                             case rs_commands r of None \<Rightarrow> Any | Some c \<Rightarrow> c,
                             case rs_web r of None \<Rightarrow> Any | Some c \<Rightarrow> c) in
                case find (\<lambda>p. p \<noteq> Full_Access \<and>
                            bases = (rs_read (preset_rules p), rs_write (preset_rules p), Any, Any))
                       (map snd presets) of
                  Some p \<Rightarrow> Preset p | None \<Rightarrow> Custom))"

subsection \<open>The bases an editor shows\<close>

definition base_choices :: "(string \<times> string list) list" where
  "base_choices = [(''read'', map fst read_bases), (''write'', map fst write_bases),
                   (''commands'', map fst list_bases), (''web'', map fst list_bases)]"

definition unrestricted_base :: "string \<Rightarrow> string" where
  "unrestricted_base part = (if part \<in> {''read'', ''write''} then ''anywhere'' else ''any'')"

text \<open>\<open>getattr(rules, part)\<close> as its text.\<close>

definition base_attribute :: "permission_rules \<Rightarrow> string \<Rightarrow> string option" where
  "base_attribute r part =
     (if part = ''read'' then map_option (base_text read_bases) (rs_read r)
      else if part = ''write'' then map_option (base_text write_bases) (rs_write r)
      else if part = ''commands'' then map_option (base_text list_bases) (rs_commands r)
      else map_option (base_text list_bases) (rs_web r))"

definition fallback :: "permission_rules option \<Rightarrow> string \<Rightarrow> string \<times> base_source" where
  "fallback inh part =
     (case Option.bind inh (\<lambda>r. base_attribute r part) of
        Some v \<Rightarrow> (v, Inherited) | None \<Rightarrow> (unrestricted_base part, Default))"

definition own_base :: "(string \<times> pyval) list \<Rightarrow> string \<Rightarrow> string option" where
  "own_base stored part =
     (case (member stored part, map_of base_choices part) of
        (PStr t, Some choices) \<Rightarrow> if t \<in> set choices then Some t else None
      | _ \<Rightarrow> None)"

text \<open>\<open>write_within_read\<close> on the stored texts.\<close>

definition narrowed_write :: "string \<Rightarrow> string \<Rightarrow> string" where
  "narrowed_write read write =
     (if read = ''work_area'' \<and> write = ''anywhere'' then ''work_area'' else write)"

definition write_narrowing :: "(string \<times> (string \<times> string) list) list" where
  "write_narrowing =
     filter (\<lambda>(_, narrowed). narrowed \<noteq> [])
       (map (\<lambda>read. (read,
           map (\<lambda>w. (w, narrowed_write read w))
             (filter (\<lambda>w. narrowed_write read w \<noteq> w) (map fst write_bases))))
         (map fst read_bases))"

record base_entry =
  be_value :: string
  be_source :: base_source
  be_inherit :: "string \<times> base_source"
  be_choices :: "string list"
  be_excluded :: "string list"
  be_narrowed :: "(string \<times> (string \<times> string) list) list option"

definition editor_base ::
  "(string \<times> pyval) list \<Rightarrow> permission_rules option \<Rightarrow> string \<Rightarrow> string \<Rightarrow> string list \<Rightarrow> base_entry" where
  "editor_base stored inh read part choices =
     (let (inherit0, source) = fallback inh part;
          inherit = (if part = ''write'' then narrowed_write read inherit0 else inherit0);
          value = own_base stored part in
      \<lparr>be_value = (case value of Some v \<Rightarrow> v | None \<Rightarrow> inherit),
       be_source = (case value of Some _ \<Rightarrow> Own | None \<Rightarrow> source),
       be_inherit = (inherit, source), be_choices = choices,
       be_excluded = (if part = ''write''
                      then filter (\<lambda>w. narrowed_write read w \<noteq> w) (map fst write_bases) else []),
       be_narrowed = (if part = ''write'' then Some write_narrowing else None)\<rparr>)"

definition editor_bases ::
  "(string \<times> pyval) list option \<Rightarrow> permission_rules option \<Rightarrow> (string \<times> base_entry) list" where
  "editor_bases own inh =
     (let stored = (case own of None \<Rightarrow> [] | Some doc \<Rightarrow> doc);
          read = (case own_base stored ''read'' of Some v \<Rightarrow> v | None \<Rightarrow> fst (fallback inh ''read'')) in
      map (\<lambda>(part, choices). (part, editor_base stored inh read part choices)) base_choices)"

end
