(* ===== verification/Describe.thy ===== *)
theory Describe
  imports Boundary Path_Facts
begin

section \<open>Describing limits\<close>

text \<open>
  \<open>core/permissions/_describe.py\<close>: what a rule set or a layer lets an Agent reach, as an editor
  previews it and a Session shows it. \<open>None\<close> of an optional list is no limit.
\<close>

record layer_description =
  ds_source :: layer_source
  ds_bases :: "read_base \<times> write_base \<times> list_base \<times> list_base"
  ds_workdir :: string
  ds_read :: "string list option"
  ds_write :: "string list option"
  ds_commands :: "string list option"
  ds_web :: "string list option"
  ds_deny :: "string list"

definition patterns_of_kind :: "rule_kind \<Rightarrow> permission_rule list \<Rightarrow> string list" where
  "patterns_of_kind k rules = map pattern (filter (\<lambda>r. kind r = k) rules)"

definition describe ::
  "layer_source \<Rightarrow> read_base \<Rightarrow> write_base \<Rightarrow> list_base \<Rightarrow> list_base \<Rightarrow> string \<Rightarrow> string option \<Rightarrow>
     permission_rule list \<Rightarrow> permission_rule list \<Rightarrow> layer_description" where
  "describe source read write commands web workdir scratch allow deny =
     (let scratch_items = (case scratch of None \<Rightarrow> [] | Some s \<Rightarrow> [s]);
          work_area = workdir # scratch_items;
          edit_allow = patterns_of_kind Edit allow;
          read_allow = patterns_of_kind Read allow in
      \<lparr>ds_source = source, ds_bases = (read, write, commands, web), ds_workdir = workdir,
       ds_read = (if read \<noteq> Read_Anywhere then Some (dedup (work_area @ read_allow @ edit_allow)) else None),
       ds_write = (case write of
                     Write_Work_Area \<Rightarrow> Some (dedup (work_area @ edit_allow))
                   | Write_Scratch \<Rightarrow> Some (dedup (scratch_items @ edit_allow))
                   | Write_Anywhere \<Rightarrow> None),
       ds_commands = (if commands = Any then None else Some (patterns_of_kind Shell allow)),
       ds_web = (if web = Any then None else Some (patterns_of_kind Web allow)),
       ds_deny = map rule_text deny\<rparr>)"

definition describe_layer :: "permission_layer \<Rightarrow> layer_description" where
  "describe_layer l =
     describe (ly_source l) (ly_read l) (ly_write l) (ly_commands l) (ly_web l) (ly_workdir l)
       (ly_scratch l) (ly_allow l) (ly_deny l)"

text \<open>\<open>_expand\<close>: the inner \<open>None\<close> is an inactive rule, the outer one the error of \<open>split_lexical\<close>.
  \<open>known\<close> lists the names the caller knows; a name mapped to \<open>None\<close> has no value here.\<close>

definition preview_text :: "(string \<times> string option) list \<Rightarrow> string \<Rightarrow> (string + string) option" where
  "preview_text known pat =
     (if starts_with ''{'' pat
      then (case partition_on (CHR ''}'') (tl pat) of (name, _, rest) \<Rightarrow>
              (case map_of known name of
                 None \<Rightarrow> Some (Inl pat)
               | Some None \<Rightarrow> None
               | Some (Some v) \<Rightarrow> Some (Inr (rstrip_char (CHR ''/'') v @ rest))))
      else if pat = ''~'' \<or> starts_with ''~/'' pat
      then (case map_of known ''home'' of
              Some (Some home) \<Rightarrow> Some (Inr (rstrip_char (CHR ''/'') home @ drop 1 pat))
            | _ \<Rightarrow> Some (Inl pat))
      else Some (Inr pat))"

definition preview_pattern ::
  "bool \<Rightarrow> (string \<times> string option) list \<Rightarrow> string \<Rightarrow> string option option" where
  "preview_pattern windows known pat =
     (case preview_text known pat of
        None \<Rightarrow> Some None
      | Some (Inl kept) \<Rightarrow> Some (Some kept)
      | Some (Inr t) \<Rightarrow>
          Option.bind (split_lexical windows t) (\<lambda>p.
            if absolute p then Some (Some (path_text p))
            else (case map_of known ''workdir'' of
                    Some (Some w) \<Rightarrow>
                      map_option (\<lambda>b. Some (path_text (join_lexical b p))) (split_lexical windows w)
                  | _ \<Rightarrow> Some (Some (''{workdir}/'' @ path_text p)))))"

definition preview_rule ::
  "bool \<Rightarrow> (string \<times> string option) list \<Rightarrow> permission_rule \<Rightarrow> permission_rule option option" where
  "preview_rule windows known rule =
     (if path_kind (kind rule)
      then map_option (map_option (\<lambda>p. \<lparr>kind = kind rule, pattern = p\<rparr>))
             (preview_pattern windows known (pattern rule))
      else Some (Some rule))"

text \<open>The expanded rules and the texts of the inactive ones.\<close>

definition preview_rules ::
  "bool \<Rightarrow> (string \<times> string option) list \<Rightarrow> permission_rule list option \<Rightarrow>
     (permission_rule list \<times> string list) option" where
  "preview_rules windows known rules =
     map_option (\<lambda>found.
         (dedup (present_levels found),
          map (\<lambda>(r, _). rule_text r) (filter (\<lambda>(_, f). f = None) (zip (rules_of rules) found))))
       (map_option_list (preview_rule windows known) (rules_of rules))"

definition known_value :: "(string \<times> string option) list \<Rightarrow> string \<Rightarrow> string \<Rightarrow> string" where
  "known_value known name other =
     (case map_of known name of Some (Some v) \<Rightarrow> if v = [] then other else v | _ \<Rightarrow> other)"

definition describe_permission_rules ::
  "permission_rules \<Rightarrow> (string \<times> string option) list \<Rightarrow> bool \<Rightarrow> (layer_description \<times> string list) option" where
  "describe_permission_rules rules vals windows =
     Option.bind (map_option_list (\<lambda>(name, v). map_option (\<lambda>t. (name, t)) (optional_lexical windows v)) vals)
       (\<lambda>known.
     Option.bind (preview_rules windows known (rs_allow rules)) (\<lambda>(allow, inactive).
     map_option (\<lambda>(deny, inactive').
         (describe Agent (or_default Read_Anywhere (rs_read rules))
            (or_default Write_Anywhere (rs_write rules)) (or_default Any (rs_commands rules))
            (or_default Any (rs_web rules)) (known_value known ''workdir'' ''{workdir}'')
            (Some (known_value known ''scratch'' ''{scratch}'')) allow deny,
          inactive @ inactive'))
       (preview_rules windows known (rs_deny rules))))"

subsection \<open>The preview is what a Run gets\<close>

text \<open>On POSIX with every placeholder known, a preview expands a pattern as the boundary does.\<close>

lemma split_lexical_posix_root: "split_lexical False t = Some p \<Longrightarrow> root p = ''/'' \<or> root p = []"
  by (auto simp: split_lexical_def split_text_def split_root_def split: if_splits option.splits prod.splits)

lemma join_absolute_posix:
  "split_lexical False w = Some b \<Longrightarrow> absolute p \<Longrightarrow> root p = ''/'' \<Longrightarrow> join_lexical b p = p"
  using split_lexical_posix_root [of w b]
  by (auto simp: join_lexical_def has_drive_def absolute_def)

definition known_names :: "string \<Rightarrow> bool" where
  "known_names pat \<longleftrightarrow>
     (starts_with ''{'' pat \<longrightarrow> fst (partition_on (CHR ''}'') (tl pat)) \<in> set placeholders)"

lemma preview_is_expansion:
  assumes "map_of known ''workdir'' = Some (Some w)" "map_of known ''home'' = Some (Some h)"
    and "split_lexical False w = Some b" "known_names pat" "set placeholders \<subseteq> set (map fst known)"
  shows "preview_pattern False known pat = expand_pattern False known pat"
proof -
  have after: "(if absolute p then Some (Some (path_text p))
      else (case map_of known ''workdir'' of
              Some (Some w) \<Rightarrow> map_option (\<lambda>b. Some (path_text (join_lexical b p))) (split_lexical False w)
            | _ \<Rightarrow> Some (Some (''{workdir}/'' @ path_text p))))
    = Some (Some (path_text (join_lexical b p)))" if p: "split_lexical False t = Some p" for t p
    using join_absolute_posix [OF assms(3), of p] split_lexical_posix_root [OF p] assms(1,3)
    by (auto simp: absolute_def)
  then have rest: "Option.bind (split_lexical False t) (\<lambda>p.
      if absolute p then Some (Some (path_text p))
      else (case map_of known ''workdir'' of
              Some (Some w) \<Rightarrow> map_option (\<lambda>b. Some (path_text (join_lexical b p))) (split_lexical False w)
            | _ \<Rightarrow> Some (Some (''{workdir}/'' @ path_text p))))
    = map_option (\<lambda>p. Some (path_text (join_lexical b p))) (split_lexical False t)" for t
    by (cases "split_lexical False t") simp_all
  show ?thesis
  proof (cases "starts_with ''{'' pat")
    case True
    obtain name c r where part: "partition_on (CHR ''}'') (tl pat) = (name, c, r)" by (metis prod_cases3)
    then have "name \<in> set (map fst known)"
      using assms(4,5) True by (auto simp: known_names_def)
    then obtain v where v: "map_of known name = Some v"
      by (cases "map_of known name") (auto simp: map_of_eq_None_iff)
    then show ?thesis
      using True part assms(1,3)
      by (cases v) (simp_all add: preview_pattern_def preview_text_def expand_pattern_def rest)
  next
    case False
    then show ?thesis
      using assms(1-3) by (simp add: preview_pattern_def preview_text_def expand_pattern_def rest)
  qed
qed

lemma preview_rules_expansion:
  assumes "map_of known ''workdir'' = Some (Some w)" "map_of known ''home'' = Some (Some h)"
    and "split_lexical False w = Some b" "set placeholders \<subseteq> set (map fst known)"
    and "\<forall>r \<in> set (rules_of rules). path_kind (kind r) \<longrightarrow> known_names (pattern r)"
    and "expand_rules False known rules = Some expanded"
  shows "\<exists>inactive. preview_rules False known rules = Some (expanded, inactive)"
proof -
  have "preview_rule False known r = expand_rule False known r" if "r \<in> set (rules_of rules)" for r
    using that assms(5) preview_is_expansion [OF assms(1-3) _ assms(4), of "pattern r"]
    by (simp add: preview_rule_def expand_rule_def)
  then have "map_option_list (preview_rule False known) (rules_of rules)
      = map_option_list (expand_rule False known) (rules_of rules)"
    by (rule map_option_list_cong)
  then show ?thesis
    using assms(6) by (auto simp: preview_rules_def expand_rules_def)
qed

end
