(* ===== verification/Editor_Properties.thy ===== *)
theory Editor_Properties
  imports Presets Describe Trip_Facts
begin

section \<open>Properties of what editors show\<close>

text \<open>
  A preview against the layer a Run gets, applied presets against the presets a rule set matches, and
  the bases an editor shows against the resolution of levels.
\<close>

subsection \<open>Previews\<close>

definition run_values :: "run_facts \<Rightarrow> (string \<times> string option) list" where
  "run_values cx =
     [(''workdir'', Some (cx_workdir cx)), (''project'', cx_project_root cx),
      (''scratch'', cx_scratch_root cx), (''workspace'', cx_workspace cx), (''home'', Some (cx_home cx))]"

lemma path_text_not_Nil: "split_lexical False t = Some p \<Longrightarrow> path_text p \<noteq> []"
  by (auto simp: path_text_def)

definition placeholders_known :: "permission_rules \<Rightarrow> bool" where
  "placeholders_known r \<longleftrightarrow>
     list_all (\<lambda>x. path_kind (kind x) \<longrightarrow> known_names (pattern x)) (rules_of (rs_allow r) @ rules_of (rs_deny r))"

text \<open>On POSIX, the preview of a rule set over a Run's folders describes exactly the layer the Run
  gets from it, as long as the set names its write base or leaves reading unlimited.\<close>

theorem preview_describes_the_run:
  assumes "\<not> cx_windows cx" "split_lexical False (cx_workdir cx) = Some p" "absolute p" "unsafe p = None"
    and "cx_scratch_root cx = Some s" "placeholders_known rules"
    and "write_within_read (Some (or_default Read_Anywhere (rs_read rules)))
           (or_default Write_Anywhere (rs_write rules)) = or_default Write_Anywhere (rs_write rules)"
    and "expand_set rules cx = Some l"
  shows "\<exists>inactive. describe_permission_rules rules (run_values cx) False = Some (describe_layer l, inactive)"
proof -
  from assms(1,8) obtain workdir project scratch workspace home allow deny files where parts:
    "lexical_text False (cx_workdir cx) = Some workdir"
    "optional_lexical False (cx_project_root cx) = Some project"
    "optional_lexical False (cx_scratch_root cx) = Some scratch"
    "optional_lexical False (cx_workspace cx) = Some workspace"
    "lexical_text False (cx_home cx) = Some home"
    and rules: "expand_rules False
      [(''workdir'', Some workdir), (''project'', project), (''scratch'', scratch),
       (''workspace'', workspace), (''home'', Some home)] (rs_allow rules) = Some allow"
     "expand_rules False
      [(''workdir'', Some workdir), (''project'', project), (''scratch'', scratch),
       (''workspace'', workspace), (''home'', Some home)] (rs_deny rules) = Some deny"
    and l: "l = \<lparr>ly_source = Agent, ly_read = or_default Read_Anywhere (rs_read rules),
       ly_write = or_default Write_Anywhere (rs_write rules),
       ly_commands = or_default Any (rs_commands rules), ly_web = or_default Any (rs_web rules),
       ly_workdir = workdir, ly_scratch = scratch, ly_allow = allow, ly_deny = deny,
       ly_rule_files = dedup files\<rparr>"
    using assms(7) by (auto simp: expand_set_def Let_def bind_eq_Some_conv)
  define known where "known = [(''workdir'', Some workdir), (''project'', project), (''scratch'', scratch),
       (''workspace'', workspace), (''home'', Some home)]"
  have w: "workdir = path_text p" "workdir \<noteq> []" "split_lexical False workdir = Some p"
    using parts(1) assms(2-4) path_text_not_Nil
      split_lexical_canonical_text [OF split_lexical_canonical [OF assms(2,4,3)]]
    by (auto simp: lexical_text_def driveless_def)
  obtain t where t: "scratch = Some t" "t \<noteq> []"
    using parts(3) assms(5) path_text_not_Nil by (auto simp: optional_lexical_def lexical_text_def)
  have k: "map_of known ''workdir'' = Some (Some workdir)" "map_of known ''home'' = Some (Some home)"
    "map_of known ''scratch'' = Some (Some t)" "set placeholders \<subseteq> set (map fst known)"
    by (simp_all add: known_def placeholders_def t(1))
  have vals: "map_option_list (\<lambda>(name, v). map_option (\<lambda>t. (name, t)) (optional_lexical False v)) (run_values cx)
      = Some known"
    using parts by (simp add: run_values_def known_def optional_lexical_def)
  obtain i where i: "preview_rules False known (rs_allow rules) = Some (allow, i)"
    using preview_rules_expansion [OF k(1,2) w(3) k(4) _ rules(1) [folded known_def]] assms(6)
    by (auto simp: placeholders_known_def list_all_iff)
  obtain j where j: "preview_rules False known (rs_deny rules) = Some (deny, j)"
    using preview_rules_expansion [OF k(1,2) w(3) k(4) _ rules(2) [folded known_def]] assms(6)
    by (auto simp: placeholders_known_def list_all_iff)
  show ?thesis
    using w(2) t k
    by (simp add: describe_permission_rules_def vals i j l describe_layer_def known_value_def)
qed

definition preview_facts :: run_facts where
  "preview_facts =
     \<lparr>cx_workdir = ''/w'', cx_home = ''/h'', cx_data_dir = ''/d'', cx_project_root = None,
      cx_scratch_root = Some ''/t'', cx_workspace = None, cx_agent_config = None, cx_rule_files = [],
      cx_install_dirs = [], cx_readable_dirs = [], cx_loopback_port = None, cx_own_hosts = [],
      cx_windows = False\<rparr>"

definition preview_rule_set :: permission_rules where
  "preview_rule_set =
     \<lparr>rs_read = Some Read_Work_Area, rs_write = Some Write_Scratch, rs_commands = None, rs_web = None,
      rs_allow = Some [\<lparr>kind = Edit, pattern = ''~/a''\<rparr>],
      rs_deny = Some [\<lparr>kind = Read, pattern = ''{project}/k''\<rparr>]\<rparr>"

theorem preview_describes_the_run_witness:
  "\<exists>inactive. describe_permission_rules preview_rule_set (run_values preview_facts) False
     = Some (describe_layer (the (expand_set preview_rule_set preview_facts)), inactive)"
proof (rule preview_describes_the_run)
  show "split_lexical False (cx_workdir preview_facts) = Some \<lparr>root = ''/'', segments = [''w''], unsafe = None\<rparr>"
    by code_simp
  show "placeholders_known preview_rule_set" by code_simp
  have "expand_set preview_rule_set preview_facts \<noteq> None" by code_simp
  then show "expand_set preview_rule_set preview_facts = Some (the (expand_set preview_rule_set preview_facts))"
    by simp
qed (simp_all add: preview_facts_def preview_rule_set_def absolute_def or_default_def write_within_read_def)

text \<open>Without a write base the preview says the Agent may change files anywhere, while the Run narrows
  writing to the Work Area.\<close>

definition read_only_base :: permission_rules where
  "read_only_base = \<lparr>rs_read = Some Read_Work_Area, rs_write = None, rs_commands = None, rs_web = None,
                     rs_allow = None, rs_deny = None\<rparr>"

lemma preview_overstates_writing:
  "map_option (\<lambda>(d, _). ds_write d) (describe_permission_rules read_only_base (run_values preview_facts) False)
     = Some None"
  "map_option (\<lambda>l. ds_write (describe_layer l)) (expand_set read_only_base preview_facts)
     = Some (Some [''/w'', ''/t''])"
  by code_simp+

subsection \<open>Presets\<close>

lemma member_filtered:
  "member (filter (\<lambda>(_, v). v \<noteq> PNone) doc) key = member doc key \<or> \<not> distinct (map fst doc)"
proof (induction doc)
  case (Cons x doc)
  obtain k v where x: "x = (k, v)" by (cases x)
  have "\<not> has_member doc k \<Longrightarrow> member (filter (\<lambda>(_, v). v \<noteq> PNone) doc) k = PNone"
    by (rule member_absent) (auto simp: has_member_def)
  then show ?case using Cons by (auto simp: x member_absent has_member_def)
qed simp

lemma preset_changes:
  "preset_change Full_Access =
     [(''commands'', PStr ''any''), (''web'', PStr ''any''), (''read'', PStr ''anywhere''),
      (''write'', PStr ''anywhere''), (''allow'', PList []), (''deny'', PList [])]"
  "preset_change Work_Dir =
     [(''commands'', PNone), (''web'', PNone), (''read'', PStr ''work_area''), (''write'', PStr ''work_area'')]"
  "preset_change Work_Dir_Read_Only =
     [(''commands'', PNone), (''web'', PNone), (''read'', PStr ''work_area''), (''write'', PStr ''scratch'')]"
  by code_simp+

lemma base_of_key: "base_of choices part PNone = Inr None"
  by (simp add: base_of_def)

lemma bases_named:
  "base_of read_bases part (PStr ''anywhere'') = Inr (Some Read_Anywhere)"
  "base_of read_bases part (PStr ''work_area'') = Inr (Some Read_Work_Area)"
  "base_of write_bases part (PStr ''anywhere'') = Inr (Some Write_Anywhere)"
  "base_of write_bases part (PStr ''work_area'') = Inr (Some Write_Work_Area)"
  "base_of write_bases part (PStr ''scratch'') = Inr (Some Write_Scratch)"
  "base_of list_bases part (PStr ''any'') = Inr (Some Any)"
  by code_simp+

text \<open>The rule set that stands after a preset is applied to one with the rules \<open>r\<close>.\<close>

definition with_preset :: "preset \<Rightarrow> permission_rules \<Rightarrow> permission_rules" where
  "with_preset p r =
     (if p = Full_Access then preset_rules p
      else (preset_rules p)\<lparr>rs_allow := rs_allow r, rs_deny := rs_deny r\<rparr>)"

lemma rule_list_Nil: "rule_list idn w part (PList []) = Inr (Some [], [])"
  by (simp add: rule_list_def)

lemma apply_preset_members:
  assumes "distinct (map fst doc)"
  shows "member (apply_preset p (Some doc)) ''read'' = member (preset_change p) ''read''"
    "member (apply_preset p (Some doc)) ''write'' = member (preset_change p) ''write''"
    "member (apply_preset p (Some doc)) ''commands'' = member (preset_change p) ''commands''"
    "member (apply_preset p (Some doc)) ''web'' = member (preset_change p) ''web''"
    "member (apply_preset p (Some doc)) ''allow'' = (if p = Full_Access then PList [] else member doc ''allow'')"
    "member (apply_preset p (Some doc)) ''deny'' = (if p = Full_Access then PList [] else member doc ''deny'')"
  using member_filtered [of doc] assms
  by (cases p; simp add: apply_preset_def apply_change_def preset_changes member_dict_set member_dict_pop)+

lemma apply_preset_keys:
  "set (map fst (apply_preset p (Some doc))) \<subseteq> set (map fst doc) \<union> set rule_parts"
proof -
  let ?kept = "filter (\<lambda>(_, v). v \<noteq> PNone) doc"
  have kept: "set (map fst ?kept) \<subseteq> set (map fst doc)" by auto
  have "set (map fst (apply_preset p (Some doc))) \<subseteq> set (map fst ?kept) \<union> set rule_parts"
    by (cases p)
      (auto simp: apply_preset_def apply_change_def preset_changes rule_parts_def
        dict_set_keys dict_pop_keys simp del: set_map)
  with kept show ?thesis by blast
qed

lemma matching_with_preset: "matching_preset (Some (with_preset p r)) = Preset p"
  by (cases p)
    (simp_all add: matching_preset_def with_preset_def preset_rules_def restricts_def presets_def)

text \<open>Applying a preset to any valid stored rule set gives a valid one that matches the preset: full
  access replaces every part, the other presets keep the allow and deny rules.\<close>

theorem applied_preset_matches:
  assumes "normalize_permission_rules idn w (Stored (PDict doc)) = Inr (r, saved)"
    and "distinct (map fst doc)"
  shows "(\<exists>saved'. normalize_permission_rules idn w (Stored (PDict (apply_preset p (Some doc))))
            = Inr (with_preset p r, saved'))
    \<and> matching_preset (Some (with_preset p r)) = Preset p"
proof -
  let ?d = "apply_preset p (Some doc)"
  from assms(1) obtain ns ns' where doc: "filter (\<lambda>k. k \<notin> set rule_parts) (map fst doc) = []"
    "rule_list idn w ''allow'' (member doc ''allow'') = Inr (rs_allow r, ns)"
    "rule_list idn w ''deny'' (member doc ''deny'') = Inr (rs_deny r, ns')"
    unfolding normalize_object by blast
  then have keys: "filter (\<lambda>k. k \<notin> set rule_parts) (map fst ?d) = []"
    using apply_preset_keys [of p doc] unfolding filter_empty_conv by blast
  have "\<exists>saved'. normalize_permission_rules idn w (Stored (PDict ?d)) = Inr (with_preset p r, saved')"
    unfolding normalize_object apply_preset_members [OF assms(2)]
    using keys doc(2,3)
    by (cases p)
      (simp_all add: preset_changes with_preset_def preset_rules_def bases_named base_of_key
        require_write_within_read_def rule_list_Nil)
  then show ?thesis using matching_with_preset by blast
qed

theorem applied_preset_matches_witness:
  "\<exists>saved. normalize_permission_rules \<lparr>idna_encode = (\<lambda>_ t. Some t), uts46_remap = Some\<rparr> False
     (Stored (PDict (apply_preset Work_Dir_Read_Only
       (Some [(''read'', PStr ''Anywhere''), (''web'', PStr ''listed''), (''deny'', PList [PStr ''Read(/k)''])]))))
     = Inr (with_preset Work_Dir_Read_Only read_only_base\<lparr>rs_deny := Some [\<lparr>kind = Read, pattern = ''/k''\<rparr>]\<rparr>, saved)"
proof -
  let ?idn = "\<lparr>idna_encode = (\<lambda>_ t. Some t), uts46_remap = Some\<rparr>"
  let ?doc = "[(''read'', PStr ''Anywhere''), (''web'', PStr ''listed''), (''deny'', PList [PStr ''Read(/k)''])]"
  let ?r = "read_only_base\<lparr>rs_read := Some Read_Anywhere, rs_web := Some Listed, rs_deny := Some [\<lparr>kind = Read, pattern = ''/k''\<rparr>]\<rparr>"
  have "normalize_permission_rules ?idn False (Stored (PDict ?doc)) = Inr (?r, [])" by code_simp
  from applied_preset_matches [OF this, of Work_Dir_Read_Only] show ?thesis
    by (simp add: with_preset_def read_only_base_def preset_rules_def)
qed

subsection \<open>The bases an editor shows\<close>

text \<open>The text of the base that applies in a resolved rule set; without one the Agent has full access.\<close>

definition effective_base :: "permission_rules option \<Rightarrow> string \<Rightarrow> string" where
  "effective_base e part =
     (case Option.bind e (\<lambda>r. base_attribute r part) of Some v \<Rightarrow> v | None \<Rightarrow> unrestricted_base part)"

lemma base_texts:
  "base_text read_bases Read_Anywhere = ''anywhere''" "base_text read_bases Read_Work_Area = ''work_area''"
  "base_text write_bases Write_Anywhere = ''anywhere''" "base_text write_bases Write_Work_Area = ''work_area''"
  "base_text write_bases Write_Scratch = ''scratch''"
  "base_text list_bases Any = ''any''" "base_text list_bases Listed = ''listed''"
  by code_simp+

lemma write_text_listed: "base_text write_bases w \<in> fst ` set write_bases"
  by (cases w) (simp_all add: base_texts, simp_all add: write_bases_def)

lemma own_base_stored:
  "own_base (permission_rules_to_dict r) ''read'' = map_option (base_text read_bases) (rs_read r)"
  "own_base (permission_rules_to_dict r) ''write'' = map_option (base_text write_bases) (rs_write r)"
  "own_base (permission_rules_to_dict r) ''commands'' = map_option (base_text list_bases) (rs_commands r)"
  "own_base (permission_rules_to_dict r) ''web'' = map_option (base_text list_bases) (rs_web r)"
proof -
  have texts: "base_text read_bases a \<in> {''anywhere'', ''work_area''}" for a
    by (cases a) (simp_all add: base_texts)
  have texts': "base_text write_bases b \<in> {''anywhere'', ''work_area'', ''scratch''}" for b
    by (cases b) (simp_all add: base_texts)
  have texts'': "base_text list_bases c \<in> {''any'', ''listed''}" for c
    by (cases c) (simp_all add: base_texts)
  show "own_base (permission_rules_to_dict r) ''read'' = map_option (base_text read_bases) (rs_read r)"
    "own_base (permission_rules_to_dict r) ''write'' = map_option (base_text write_bases) (rs_write r)"
    "own_base (permission_rules_to_dict r) ''commands'' = map_option (base_text list_bases) (rs_commands r)"
    "own_base (permission_rules_to_dict r) ''web'' = map_option (base_text list_bases) (rs_web r)"
    using texts texts' texts''
    by (simp_all add: own_base_def permission_rules_to_dict_def member_part_field member_last_field
        base_choices_def read_bases_def write_bases_def list_bases_def split: option.splits)
      auto
qed

lemma effective_resolved:
  "effective_base (resolve_rule_set ls) ''read''
     = (case first_some rs_read (present_levels ls) of Some b \<Rightarrow> base_text read_bases b | None \<Rightarrow> ''anywhere'')"
  "effective_base (resolve_rule_set ls) ''commands''
     = (case first_some rs_commands (present_levels ls) of Some b \<Rightarrow> base_text list_bases b | None \<Rightarrow> ''any'')"
  "effective_base (resolve_rule_set ls) ''web''
     = (case first_some rs_web (present_levels ls) of Some b \<Rightarrow> base_text list_bases b | None \<Rightarrow> ''any'')"
  "effective_base (resolve_rule_set ls) ''write''
     = (case first_some rs_write (present_levels ls) of
          Some b \<Rightarrow> base_text write_bases (write_within_read (first_some rs_read (present_levels ls)) b)
        | None \<Rightarrow> ''anywhere'')"
  using resolve_None_iff [of ls] resolve_parts [of ls]
  by (cases "resolve_rule_set ls"; force simp: effective_base_def base_attribute_def unrestricted_base_def
      base_texts Let_def write_within_read_def split: option.splits)+

lemma narrowed_text:
  "narrowed_write (case r of Some b \<Rightarrow> base_text read_bases b | None \<Rightarrow> ''anywhere'') (base_text write_bases w)
     = base_text write_bases (write_within_read r w)"
  by (cases r; cases "the r"; cases w) (auto simp: narrowed_write_def base_texts write_within_read_def)

lemma editor_bases_map:
  "map_of (editor_bases own inh) part = map_option (\<lambda>choices.
     editor_base (case own of None \<Rightarrow> [] | Some doc \<Rightarrow> doc) inh
       (case own_base (case own of None \<Rightarrow> [] | Some doc \<Rightarrow> doc) ''read'' of
          Some v \<Rightarrow> v | None \<Rightarrow> fst (fallback inh ''read'')) part choices)
     (map_of base_choices part)"
  by (simp add: editor_bases_def Let_def base_choices_def)

lemma fallback_simps [simp]:
  "fallback None part = (unrestricted_base part, Default)"
  "fallback (Some r) part = (case base_attribute r part of
      Some v \<Rightarrow> (v, Inherited) | None \<Rightarrow> (unrestricted_base part, Default))"
  by (simp_all add: fallback_def)

text \<open>A part the level does not set shows what it inherits.\<close>

lemma shown_read:
  "(case own_base (permission_rules_to_dict r) ''read'' of Some v \<Rightarrow> v | None \<Rightarrow> fst (fallback inh ''read''))
     = effective_base (resolve_rule_set [Some r, inh]) ''read''"
  by (cases inh; cases "rs_read r";
      simp add: own_base_stored effective_resolved base_attribute_def unrestricted_base_def split: option.splits)

lemma shown_commands:
  "(case own_base (permission_rules_to_dict r) ''commands'' of Some v \<Rightarrow> v | None \<Rightarrow> fst (fallback inh ''commands''))
     = effective_base (resolve_rule_set [Some r, inh]) ''commands''"
  by (cases inh; cases "rs_commands r";
      simp add: own_base_stored effective_resolved base_attribute_def unrestricted_base_def split: option.splits)

lemma shown_web:
  "(case own_base (permission_rules_to_dict r) ''web'' of Some v \<Rightarrow> v | None \<Rightarrow> fst (fallback inh ''web''))
     = effective_base (resolve_rule_set [Some r, inh]) ''web''"
  by (cases inh; cases "rs_web r";
      simp add: own_base_stored effective_resolved base_attribute_def unrestricted_base_def split: option.splits)

lemmas shown_part = shown_read shown_commands shown_web

lemma narrowed_resolved:
  "narrowed_write (effective_base (resolve_rule_set ls) ''read'') (effective_base (resolve_rule_set ls) ''write'')
     = narrowed_write (effective_base (resolve_rule_set ls) ''read'')
         (case first_some rs_write (present_levels ls) of Some b \<Rightarrow> base_text write_bases b | None \<Rightarrow> ''anywhere'')"
proof (cases "first_some rs_write (present_levels ls)")
  case None
  then show ?thesis by (simp add: effective_resolved)
next
  case (Some w)
  have "write_within_read x (write_within_read x w) = write_within_read x w" for x
    by (auto simp: write_within_read_def)
  then show ?thesis using Some by (simp add: effective_resolved narrowed_text)
qed

lemma shown_write:
  assumes "\<forall>w. rs_write r = Some w \<longrightarrow> narrowed_write read (base_text write_bases w) = base_text write_bases w"
  shows "(case own_base (permission_rules_to_dict r) ''write'' of
      Some v \<Rightarrow> v | None \<Rightarrow> narrowed_write read (fst (fallback inh ''write'')))
    = narrowed_write read (case first_some rs_write (present_levels [Some r, inh]) of
        Some b \<Rightarrow> base_text write_bases b | None \<Rightarrow> ''anywhere'')"
  using assms
  by (cases inh; cases "rs_write r")
    (simp_all add: own_base_stored base_attribute_def unrestricted_base_def split: option.splits)

text \<open>What an editor shows for a level is what applies: each base has the value the resolution of
  the level over what it inherits gives, with writing narrowed to reading, unless the level chose a
  write base the editor marks as excluded.\<close>

theorem editor_shows_effective_bases:
  assumes "map_of (editor_bases (Some (permission_rules_to_dict r)) inh) part = Some e"
    and "part = ''write'' \<longrightarrow> (\<forall>w. rs_write r = Some w \<longrightarrow> base_text write_bases w \<notin> set (be_excluded e))"
  shows "be_value e =
    (let eff = effective_base (resolve_rule_set [Some r, inh]) in
     if part = ''write'' then narrowed_write (eff ''read'') (eff ''write'') else eff part)"
proof -
  let ?read = "effective_base (resolve_rule_set [Some r, inh]) ''read''"
  let ?doc = "permission_rules_to_dict r"
  obtain choices where c: "map_of base_choices part = Some choices"
    and e: "e = editor_base ?doc inh ?read part choices"
    using assms(1) by (auto simp: editor_bases_map shown_part)
  then consider "part = ''read''" | "part = ''write''" | "part = ''commands''" | "part = ''web''"
    by (auto simp: base_choices_def split: if_splits)
  then show ?thesis
  proof cases
    case 2
    have "\<forall>w. rs_write r = Some w \<longrightarrow> narrowed_write ?read (base_text write_bases w) = base_text write_bases w"
      using assms(2) 2 write_text_listed by (auto simp: e editor_base_def Let_def case_prod_unfold)
    from shown_write [OF this] show ?thesis
      by (simp add: 2 e editor_base_def Let_def case_prod_unfold narrowed_resolved)
  qed (simp_all add: e editor_base_def Let_def case_prod_unfold shown_part)
qed

theorem editor_shows_effective_bases_witness:
  "be_value (the (map_of (editor_bases (Some (permission_rules_to_dict read_only_base)) None) ''write'')) = ''work_area''"
proof -
  let ?m = "map_of (editor_bases (Some (permission_rules_to_dict read_only_base)) None) ''write''"
  have "?m \<noteq> None" by code_simp
  then have m: "?m = Some (the ?m)" by simp
  have "narrowed_write (effective_base (resolve_rule_set [Some read_only_base, None]) ''read'')
      (effective_base (resolve_rule_set [Some read_only_base, None]) ''write'') = ''work_area''" by code_simp
  then show ?thesis
    using editor_shows_effective_bases [OF m] by (simp add: read_only_base_def)
qed

end
