(* ===== verification/Command_Patterns.thy ===== *)
theory Command_Patterns
  imports Shell_Aliases Globs
begin

section \<open>Command patterns\<close>

text \<open>
  \<open>core/permissions/commands/_patterns.py\<close> and the commands it matches (\<open>commands.py\<close>). A word of a
  command is static or dynamic (it holds an expansion the analysis could not resolve). In the text
  of a command a hole stands for each dynamic word. An allow rule must match with the hole taken
  literally; a deny rule already matches when some value of the dynamic words would.
\<close>

datatype shell_kind = Power_Shell | Bash | Cmd

record command_word =
  cw_text :: string
  cw_static :: bool

record simple_command =
  sc_name :: string
  sc_words :: "command_word list"
  sc_source :: string
  sc_shell :: shell_kind

subsection \<open>Normalizing a pattern\<close>

definition is_slash :: "char \<Rightarrow> bool" where
  "is_slash c \<longleftrightarrow> c = CHR ''/'' \<or> c = CHR 0x5C"

definition program_suffixes :: "string list" where
  "program_suffixes = [''.exe'', ''.com'', ''.cmd'', ''.bat'']"

text \<open>\<open>program_name\<close>: what follows the last separator, without an executable's suffix.\<close>

definition program_name :: "string \<Rightarrow> string" where
  "program_name t =
     (let trimmed = rdrop_while is_slash t;
          tail = rev (takeWhile (\<lambda>c. \<not> is_slash c) (rev trimmed));
          name = (if tail = [] then t else tail) in
      case find (\<lambda>s. ends_with s (lower name) \<and> length s < length name) program_suffixes of
        Some s \<Rightarrow> take (length name - length s) name
      | None \<Rightarrow> name)"

text \<open>The class \<open>[\x00-\x08\x0a-\x1f\x7f]\<close>: control characters but the tab.\<close>

definition pattern_control :: "char \<Rightarrow> bool" where
  "pattern_control c \<longleftrightarrow> is_control c \<and> c \<noteq> CHR 0x09"

definition legacy_prefix :: "string \<Rightarrow> string" where
  "legacy_prefix t =
     (if ends_with '':*'' t \<and> \<not> ends_with '' :*'' t
      then rdrop_while is_space (take (length t - 2) t) @ '' *'' else t)"

definition bare_first :: "string \<Rightarrow> string" where
  "bare_first t =
     (case partition_on (CHR '' '') t of (first, found, rest) \<Rightarrow>
        (if CHR ''*'' \<notin> set first \<and> (CHR ''/'' \<in> set first \<or> CHR 0x5C \<in> set first \<or> CHR ''.'' \<in> set first)
         then (if program_name first = [] then first else program_name first) else first)
        @ (if found then '' '' else []) @ rest)"

text \<open>\<open>normalize\<close>: \<open>None\<close> is its \<open>ValueError\<close>.\<close>

definition normalize_pattern :: "string \<Rightarrow> string option" where
  "normalize_pattern p =
     (if list_ex pattern_control p \<or> single_spaced p = [] then None
      else Some (bare_first (legacy_prefix (single_spaced p))))"

subsection \<open>Matching\<close>

definition hole :: char where
  "hole = CHR 0x00"

definition command_text :: "simple_command \<Rightarrow> string" where
  "command_text c =
     sc_name c @ concat (map (\<lambda>w. '' '' @ (if cw_static w then cw_text w else [hole])) (sc_words c))"

text \<open>The pattern, PowerShell aliases resolved; a trailing \<open> *\<close> also matches the bare name.\<close>

definition resolve_alias :: "bool \<Rightarrow> string \<Rightarrow> string" where
  "resolve_alias windows t =
     (case partition_on (CHR '' '') t of (first, found, rest) \<Rightarrow>
        (case map_of (powershell_aliases windows) (lower first) of
           Some target \<Rightarrow> target @ (if found then '' '' else []) @ rest | None \<Rightarrow> t))"

definition alternatives :: "bool \<Rightarrow> string \<Rightarrow> bool \<Rightarrow> string list option" where
  "alternatives windows p powershell =
     map_option (\<lambda>t0. let t = (if powershell then resolve_alias windows t0 else t0) in
                  if ends_with '' *'' t then [t, take (length t - 2) t] else [t])
       (normalize_pattern p)"

text \<open>\<open>_regex\<close>: \<open>*\<close> matches any text; letters compare without case when folding.\<close>

definition text_match :: "bool \<Rightarrow> string \<Rightarrow> string \<Rightarrow> bool" where
  "text_match folds p t \<longleftrightarrow>
     glob_match (\<lambda>c. c = CHR ''*'') (\<lambda>p c. if folds then lower_char p = lower_char c else p = c) p t"

text \<open>\<open>_intersects\<close>.\<close>

definition plain_intersects :: "string \<Rightarrow> string \<Rightarrow> bool" where
  "plain_intersects p t =
     (if CHR ''*'' \<notin> set p then glob_match (\<lambda>c. c = hole) (=) t p
      else (let ps = split_on (CHR ''*'') p; ts = split_on hole t in
            (starts_with (hd ts) (hd ps) \<or> starts_with (hd ps) (hd ts))
            \<and> (ends_with (last ts) (last ps) \<or> ends_with (last ps) (last ts))))"

definition intersects :: "bool \<Rightarrow> string \<Rightarrow> string \<Rightarrow> bool" where
  "intersects folds p t =
     (if folds then plain_intersects (casefold p) (casefold t) else plain_intersects p t)"

definition pattern_matches ::
  "bool \<Rightarrow> string \<Rightarrow> simple_command \<Rightarrow> bool \<Rightarrow> bool \<Rightarrow> bool option" where
  "pattern_matches windows p c case_insensitive dynamic_matches_any =
     (let folds = (case_insensitive \<or> sc_shell c \<noteq> Bash); t = command_text c in
      map_option (list_ex (\<lambda>alt.
          if hole \<in> set t \<and> dynamic_matches_any then intersects folds alt t else text_match folds alt t))
        (alternatives windows p (sc_shell c = Power_Shell)))"

definition command_pattern_matches :: "bool \<Rightarrow> string \<Rightarrow> simple_command \<Rightarrow> bool \<Rightarrow> bool option" where
  "command_pattern_matches windows p c case_insensitive =
     pattern_matches windows p c case_insensitive False"

definition command_pattern_may_match :: "bool \<Rightarrow> string \<Rightarrow> simple_command \<Rightarrow> bool \<Rightarrow> bool option" where
  "command_pattern_may_match windows p c case_insensitive =
     pattern_matches windows p c case_insensitive True"

subsection \<open>Values of the dynamic words\<close>

text \<open>A command whose dynamic words got the given values, in order.\<close>

fun filled_words :: "command_word list \<Rightarrow> string list \<Rightarrow> command_word list" where
  "filled_words [] vs = []"
| "filled_words (w # ws) vs =
     (if cw_static w then w # filled_words ws vs
      else \<lparr>cw_text = hd vs, cw_static = True\<rparr> # filled_words ws (tl vs))"

definition filled :: "simple_command \<Rightarrow> string list \<Rightarrow> simple_command" where
  "filled c vs = c\<lparr>sc_words := filled_words (sc_words c) vs\<rparr>"

definition holes_free :: "simple_command \<Rightarrow> bool" where
  "holes_free c \<longleftrightarrow>
     hole \<notin> set (sc_name c) \<and> (\<forall>w \<in> set (sc_words c). cw_static w \<longrightarrow> hole \<notin> set (cw_text w))"

abbreviation hole_glob :: "string \<Rightarrow> string \<Rightarrow> bool" where
  "hole_glob \<equiv> glob_match (\<lambda>c. c = hole) (=)"

abbreviation star_glob :: "string \<Rightarrow> string \<Rightarrow> bool" where
  "star_glob \<equiv> glob_match (\<lambda>c. c = CHR ''*'') (=)"

text \<open>General facts about patterns whose plain items stand for themselves.\<close>

lemma glob_plain_append:
  "\<forall>c \<in> set u. \<not> star c \<Longrightarrow> glob_match star (=) (u @ p) w \<longleftrightarrow> (\<exists>v. w = u @ v \<and> glob_match star (=) p v)"
proof (induction u arbitrary: w)
  case (Cons c u)
  then show ?case by (cases w) auto
qed simp

lemma glob_plain: "\<forall>c \<in> set u. \<not> star c \<Longrightarrow> glob_match star (=) u w \<longleftrightarrow> w = u"
  using glob_plain_append [of u star "[]" w] by auto

lemma glob_star:
  "star s \<Longrightarrow> glob_match star one (s # p) w \<longleftrightarrow> (\<exists>u v. w = u @ v \<and> glob_match star one p v)"
proof (induction w)
  case (Cons c w)
  show ?case
  proof
    assume "glob_match star one (s # p) (c # w)"
    then have "glob_match star one p (c # w) \<or> (\<exists>u v. w = u @ v \<and> glob_match star one p v)"
      using Cons by simp
    then show "\<exists>u v. c # w = u @ v \<and> glob_match star one p v"
      by (metis append_Cons append_Nil)
  next
    assume "\<exists>u v. c # w = u @ v \<and> glob_match star one p v"
    then show "glob_match star one (s # p) (c # w)"
      using Cons by (auto simp: Cons_eq_append_conv)
  qed
qed simp

lemma glob_split:
  assumes "\<forall>c \<in> set u. \<not> star c" "star s"
  shows "glob_match star (=) (u @ s # p) w \<longleftrightarrow> (\<exists>x v. w = u @ x @ v \<and> glob_match star (=) p v)"
  using assms by (auto simp: glob_plain_append glob_star)

end
