(* ===== verification/Py_Path.thy ===== *)
theory Py_Path
  imports Paths
begin

section \<open>Joining and normalizing paths as the standard library does\<close>

text \<open>
  \<open>posixpath\<close> and \<open>ntpath\<close>: \<open>splitroot\<close>, \<open>join\<close> and \<open>normpath\<close>, which \<open>pathlib\<close> uses too. The
  flag \<open>windows\<close> picks the flavour.
\<close>

definition backslash :: char where
  "backslash = CHR 0x5C"

definition upper_text :: "string \<Rightarrow> string" where
  "upper_text t = map upper_char_ascii t"

text \<open>\<open>ntpath.splitroot\<close>: drive, root and the rest. A UNC drive ends at its second separator.\<close>

definition nt_splitroot :: "string \<Rightarrow> string \<times> string \<times> string" where
  "nt_splitroot p =
     (let norm = replace_char (CHR ''/'') backslash p;
          unc = [backslash, backslash, CHR ''?'', backslash, CHR ''U'', CHR ''N'', CHR ''C'', backslash] in
      if starts_with [backslash, backslash] norm
      then (let start = (if upper_text (take 8 norm) = unc then 8 else 2);
                server = takeWhile (\<lambda>c. c \<noteq> backslash) (drop start norm);
                after = start + length server;
                share = takeWhile (\<lambda>c. c \<noteq> backslash) (drop (Suc after) norm);
                after' = Suc after + length share in
            if length norm \<le> after \<or> length norm \<le> after' then (p, [], [])
            else (take after' p, take 1 (drop after' p), drop (Suc after') p))
      else if starts_with [backslash] norm then ([], take 1 p, drop 1 p)
      else if take 1 (drop 1 norm) = '':''
      then (if take 1 (drop 2 norm) = [backslash] then (take 2 p, take 1 (drop 2 p), drop 3 p)
            else (take 2 p, [], drop 2 p))
      else ([], [], p))"

text \<open>\<open>ntpath.join\<close> of two paths.\<close>

definition nt_glue :: "string \<Rightarrow> string \<Rightarrow> string \<Rightarrow> string" where
  "nt_glue drive rt path =
     (if path \<noteq> [] \<and> rt = [] \<and> drive \<noteq> [] \<and> last drive \<notin> {CHR '':'', backslash, CHR ''/''}
      then drive @ [backslash] @ path else drive @ rt @ path)"

definition nt_join :: "string \<Rightarrow> string \<Rightarrow> string" where
  "nt_join a b =
     (case (nt_splitroot a, nt_splitroot b) of
        ((drive, rt, path), (drive', rt', path')) \<Rightarrow>
          if rt' \<noteq> [] then nt_glue (if drive' \<noteq> [] \<or> drive = [] then drive' else drive) rt' path'
          else if drive' \<noteq> [] \<and> drive' \<noteq> drive \<and> lower drive' \<noteq> lower drive
          then nt_glue drive' rt' path'
          else (let sep = (if path \<noteq> [] \<and> last path \<notin> {backslash, CHR ''/''} then [backslash] else []) in
                nt_glue (if drive' \<noteq> [] \<and> drive' \<noteq> drive then drive' else drive) rt
                  (path @ sep @ path')))"

definition posix_join :: "string \<Rightarrow> string \<Rightarrow> string" where
  "posix_join a b =
     (if starts_with ''/'' b then b
      else if a = [] \<or> ends_with ''/'' a then a @ b else a @ ''/'' @ b)"

definition path_join :: "bool \<Rightarrow> string \<Rightarrow> string \<Rightarrow> string" where
  "path_join windows a b = (if windows then nt_join a b else posix_join a b)"

text \<open>\<open>normpath\<close>: \<open>..\<close> is applied to the segments before it; POSIX keeps exactly two leading
  slashes.\<close>

definition posix_normpath :: "string \<Rightarrow> string" where
  "posix_normpath t =
     (if t = [] then ''.''
      else (let slashes = (if starts_with ''//'' t \<and> \<not> starts_with ''///'' t then ''//''
                           else if starts_with ''/'' t then ''/'' else []);
                path = slashes @ join ''/'' (normalize_segments False (slashes \<noteq> []) (split_on (CHR ''/'') t)) in
            if path = [] then ''.'' else path))"

definition nt_normpath :: "string \<Rightarrow> string" where
  "nt_normpath t =
     (case nt_splitroot (replace_char (CHR ''/'') backslash t) of
        (drive, rt, path) \<Rightarrow>
          (let comps = normalize_segments False (rt \<noteq> []) (split_on backslash path) in
           if drive @ rt = [] \<and> comps = [] then ''.'' else drive @ rt @ join [backslash] comps))"

subsection \<open>The parts of a \<open>pathlib\<close> path\<close>

text \<open>\<open>PurePath\<close>: the anchor (drive and root) and the names behind it, from a text and back.\<close>

definition nt_anchor :: "string \<Rightarrow> string \<Rightarrow> string" where
  "nt_anchor drive rt =
     (let names = split_on backslash drive in
      if rt = [] \<and> starts_with [backslash] drive \<and> \<not> ends_with [backslash] drive
         \<and> (length names = 6 \<or> (length names = 4 \<and> names ! 2 \<notin> set [[], ''?'', ''.'', ''?.'']))
      then drive @ [backslash] else drive @ rt)"

definition path_parts :: "bool \<Rightarrow> string \<Rightarrow> string \<times> string list" where
  "path_parts windows t =
     (let names = filter (\<lambda>s. s \<noteq> [] \<and> s \<noteq> ''.'') in
      if windows
      then (case nt_splitroot (replace_char (CHR ''/'') backslash t) of
              (drive, rt, rel) \<Rightarrow> (nt_anchor drive rt, names (split_on backslash rel)))
      else (if starts_with ''//'' t \<and> \<not> starts_with ''///'' t then ''//''
            else if starts_with ''/'' t then ''/'' else [],
            names (split_on (CHR ''/'') t)))"

definition parts_text :: "bool \<Rightarrow> string \<Rightarrow> string list \<Rightarrow> string" where
  "parts_text windows anchor names =
     (let sep = (if windows then [backslash] else ''/'') in
      if anchor \<noteq> [] then anchor @ join sep names
      else if windows \<and> names \<noteq> [] \<and> fst (nt_splitroot (hd names)) \<noteq> [] then join sep (''.'' # names)
      else if names = [] then ''.'' else join sep names)"

end
