(* ===== verification/Command_Check.thy ===== *)
theory Command_Check
  imports Checks Command_Patterns Py_Path
begin

section \<open>Checking command lines\<close>

text \<open>
  \<open>core/permissions/_command_check.py\<close>: the decision about a command plan and the life of the
  analyzer. The plan is what the command analysis returned (\<open>CommandPlan\<close> of
  \<open>core/permissions/commands/commands.py\<close>); the analysis itself is a parameter. A step that raises
  (\<open>Raised\<close>) makes the whole decision raise, which is \<open>None\<close>.
\<close>

subsection \<open>Plans\<close>

record planned_access =
  pa_kind :: access
  pa_path :: string
  pa_source :: string
  pa_subtree :: bool
  pa_glob :: "string option"
  pa_pruned :: "string list"
  pa_work_tree :: bool
  pa_git :: bool

datatype unresolved_kind = Path_Read | Path_Write | Folder_Unknown | Command_Unknown | Url_Unknown

record unresolved_element =
  ue_kind :: unresolved_kind
  ue_source :: string
  ue_reason :: string

record command_plan =
  cm_commands :: "simple_command list"
  cm_paths :: "planned_access list"
  cm_unresolved :: "unresolved_element list"
  cm_urls :: "string list"
  cm_hosts :: "string list"
  cm_mentions :: "planned_access list"

subsection \<open>Texts\<close>

definition target_chars :: nat where
  "target_chars = 300"

definition shown :: "string \<Rightarrow> string" where
  "shown t0 =
     (let t = single_spaced t0 in
      if length t \<le> target_chars then t else take (target_chars - 3) t @ ''...'')"

definition unresolved_text :: "unresolved_kind \<Rightarrow> string \<times> string" where
  "unresolved_text k =
     (case k of
        Path_Read \<Rightarrow> (''so the check cannot tell what it reads'', ''Write each path literally in the command.'')
      | Path_Write \<Rightarrow> (''so the check cannot tell what it changes'', ''Write each path literally in the command.'')
      | Folder_Unknown \<Rightarrow> (''so the check cannot tell which folder it works in'',
                          ''Change into folders by their literal path.'')
      | Command_Unknown \<Rightarrow> (''so the check cannot tell what it runs'',
                           ''Write each command and its arguments literally.'')
      | Url_Unknown \<Rightarrow> (''so the check cannot tell which address it reaches'',
                       ''Write each address literally in the command.''))"

definition workdir_hint :: string where
  "workdir_hint = ''Change into folders by their literal path, or pass the folder as workdir.''"

definition denied_below_hint :: string where
  "denied_below_hint = ''Use search_files, which leaves denied folders out, or name only the folders the command needs.''"

definition unavailable_hint :: string where
  "unavailable_hint = ''Run it again; if this repeats, tell the user.''"

definition command_refusal :: "boundary \<Rightarrow> simple_command \<Rightarrow> refusal_reason \<Rightarrow> permission_refusal" where
  "command_refusal b c reason = plain_refusal Commanding (shown (sc_source c)) reason"

definition unresolved_refusal :: "boundary \<Rightarrow> unresolved_element \<Rightarrow> string \<Rightarrow> bool \<Rightarrow> verdict" where
  "unresolved_refusal b e t workdir_parameter =
     (let (consequence, hint0) = unresolved_text (ue_kind e);
          hint = (if ue_kind e = Folder_Unknown \<and> workdir_parameter then workdir_hint else hint0);
          source = shown (ue_source e);
          place = (if source = shown t then [] else '' ('' @ source @ '')'') in
      refuse b ((plain_refusal Commanding (shown t) Unanalyzable)
        \<lparr>rf_detail := Some (rstrip_char (CHR ''.'') (ue_reason e) @ place @ '', '' @ consequence),
         rf_hint := Some hint\<rparr>))"

subsection \<open>Commands\<close>

text \<open>\<open>_deny_rules\<close>: the first command, layer and \<open>Shell\<close> deny rule that may match.\<close>

definition shell_denials :: "boundary \<Rightarrow> command_plan \<Rightarrow> (simple_command \<times> permission_layer \<times> permission_rule) list" where
  "shell_denials b plan =
     concat (map (\<lambda>c. concat (map (\<lambda>l. map (\<lambda>r. (c, l, r)) (filter (\<lambda>r. kind r = Shell) (ly_deny l)))
                               (b_layers b)))
       (cm_commands plan))"

fun first_denied ::
  "bool \<Rightarrow> boundary \<Rightarrow> (simple_command \<times> permission_layer \<times> permission_rule) list \<Rightarrow> verdict" where
  "first_denied windows b [] = Permitted"
| "first_denied windows b ((c, l, r) # rest) =
     (case command_pattern_may_match windows (pattern r) c windows of
        None \<Rightarrow> Raised
      | Some True \<Rightarrow>
          refuse b ((command_refusal b c Deny_Rule)
            \<lparr>rf_rule := Some (rule_text r), rf_source := ly_source l\<rparr>)
      | Some False \<Rightarrow> first_denied windows b rest)"

definition deny_rules_check :: "bool \<Rightarrow> boundary \<Rightarrow> command_plan \<Rightarrow> verdict" where
  "deny_rules_check windows b plan = first_denied windows b (shell_denials b plan)"

text \<open>The commands no \<open>Shell\<close> allow rule of a listed layer matches, a refusal each.\<close>

definition listed_command_check :: "bool \<Rightarrow> boundary \<Rightarrow> permission_layer \<Rightarrow> simple_command \<Rightarrow> verdict" where
  "listed_command_check windows b l c =
     (case any_option (\<lambda>p. command_pattern_matches windows p c windows) (shell_allow l) of
        None \<Rightarrow> Raised
      | Some True \<Rightarrow> Permitted
      | Some False \<Rightarrow>
          refuse b ((command_refusal b c Not_Permitted)
            \<lparr>rf_source := ly_source l, rf_base := Some ''listed''\<rparr>))"

definition listed_checks :: "bool \<Rightarrow> boundary \<Rightarrow> command_plan \<Rightarrow> verdict list" where
  "listed_checks windows b plan =
     concat (map (\<lambda>l. map (listed_command_check windows b l) (cm_commands plan))
       (filter (\<lambda>l. ly_commands l = Listed) (b_layers b)))"

text \<open>\<open>_listed\<close>: the first of them.\<close>

fun first_refused :: "verdict list \<Rightarrow> verdict" where
  "first_refused [] = Permitted"
| "first_refused (v # vs) = and_then v (first_refused vs)"

definition listed_check :: "bool \<Rightarrow> boundary \<Rightarrow> command_plan \<Rightarrow> verdict" where
  "listed_check windows b plan = first_refused (listed_checks windows b plan)"

subsection \<open>vBot's own command line\<close>

definition place_key :: "bool \<Rightarrow> string \<Rightarrow> string option" where
  "place_key windows t = map_option (path_key windows) (lexical_text windows t)"

text \<open>\<open>_VBOT_MODULE\<close> and \<open>_PYTHONS\<close>; a closing \<open>$\<close> also matches before a final newline.\<close>

definition ends_line :: "string \<Rightarrow> bool" where
  "ends_line t \<longleftrightarrow> t = [] \<or> t = [CHR 0x0A]"

definition vbot_module :: "string \<Rightarrow> bool" where
  "vbot_module t \<longleftrightarrow>
     list_ex (\<lambda>m. starts_with m t \<and>
         (ends_line (drop (length m) t) \<or> starts_with ''.'' (drop (length m) t))) [''cli'', ''server'']"

definition python_name :: "string \<Rightarrow> bool" where
  "python_name t0 \<longleftrightarrow>
     (let t = lower t0;
          version = dropWhile (\<lambda>c. is_digit c \<or> c = CHR ''.'') (drop 6 t) in
      (starts_with ''python'' t \<and> (ends_line version \<or> (starts_with ''w'' version \<and> ends_line (drop 1 version))))
      \<or> (starts_with ''py'' t \<and> ends_line (drop 2 t)) \<or> (starts_with ''uv'' t \<and> ends_line (drop 2 t)))"

definition script_word :: "bool \<Rightarrow> string list \<Rightarrow> string list \<Rightarrow> string \<Rightarrow> bool option" where
  "script_word windows folders scripts word =
     any_option (\<lambda>folder. map_option (\<lambda>key. list_ex (is_inside key) scripts)
                   (place_key windows (path_join windows folder word))) folders"

fun starts_vbot_words :: "bool \<Rightarrow> string list \<Rightarrow> string list \<Rightarrow> bool \<Rightarrow> string list \<Rightarrow> bool option" where
  "starts_vbot_words windows folders scripts in_checkout [] = Some False"
| "starts_vbot_words windows folders scripts in_checkout (word # rest) =
     (if word = ''-m'' \<and> rest \<noteq> []
      then (if in_checkout \<and> vbot_module (hd rest) then Some True
            else starts_vbot_words windows folders scripts in_checkout rest)
      else if starts_with ''-m'' word \<and> in_checkout \<and> vbot_module (drop 2 word) then Some True
      else if starts_with ''-'' word \<or> \<not> ends_with ''.py'' (lower word)
      then starts_vbot_words windows folders scripts in_checkout rest
      else (case script_word windows folders scripts word of
              None \<Rightarrow> None | Some True \<Rightarrow> Some True
            | Some False \<Rightarrow> starts_vbot_words windows folders scripts in_checkout rest))"

definition static_texts :: "simple_command \<Rightarrow> string list" where
  "static_texts c = map cw_text (filter cw_static (sc_words c))"

definition is_vbot_cli :: "bool \<Rightarrow> string list \<Rightarrow> string list \<Rightarrow> bool \<Rightarrow> simple_command \<Rightarrow> bool option" where
  "is_vbot_cli windows folders scripts in_checkout c =
     (if remove_suffix ''.ps1'' (casefold (sc_name c)) = ''vbot'' then Some True
      else if python_name (sc_name c)
      then starts_vbot_words windows folders scripts in_checkout (static_texts c)
      else Some False)"

text \<open>A refusal of the first command a test names, at a location.\<close>

fun first_located ::
  "boundary \<Rightarrow> string \<Rightarrow> (simple_command \<Rightarrow> bool option) \<Rightarrow> simple_command list \<Rightarrow> verdict" where
  "first_located b location f [] = Permitted"
| "first_located b location f (c # cs) =
     (case f c of None \<Rightarrow> Raised
      | Some True \<Rightarrow> refuse b ((command_refusal b c Protected_Location)\<lparr>rf_location := Some location\<rparr>)
      | Some False \<Rightarrow> first_located b location f cs)"

definition work_folders :: "command_plan \<Rightarrow> string \<Rightarrow> string list" where
  "work_folders plan cwd = cwd # map pa_path (filter (\<lambda>a. pa_kind a = Start_Dir) (cm_paths plan))"

definition vbot_cli_check :: "bool \<Rightarrow> string \<Rightarrow> boundary \<Rightarrow> command_plan \<Rightarrow> string \<Rightarrow> verdict" where
  "vbot_cli_check windows vbot_root b plan cwd =
     (let folders = work_folders plan cwd;
          join2 = path_join windows in
      case (place_key windows vbot_root,
            map_option_list (place_key windows)
              [join2 vbot_root ''cli'', join2 (join2 vbot_root ''server'') ''main.py'']) of
        (Some base, Some scripts) \<Rightarrow>
          (case any_option (\<lambda>f. map_option (\<lambda>key. is_inside key base) (place_key windows f)) folders of
             None \<Rightarrow> Raised
           | Some in_checkout \<Rightarrow>
               first_located b ''vbot_cli'' (is_vbot_cli windows folders scripts in_checkout)
                 (cm_commands plan))
      | _ \<Rightarrow> Raised)"

subsection \<open>The vBot server\<close>

text \<open>\<open>_HOST_PORT.finditer\<close>: a bracketed address or a run of name characters, a colon and one to
  five digits that end there. A match ends behind its digits.\<close>

definition bracket_char :: "char \<Rightarrow> bool" where
  "bracket_char c \<longleftrightarrow> is_digit c \<or> is_letter c \<or> c \<in> {CHR '':'', CHR ''.'', CHR ''%''}"

definition name_char :: "char \<Rightarrow> bool" where
  "name_char c \<longleftrightarrow> is_digit c \<or> is_letter c \<or> c \<in> {CHR ''.'', CHR ''_'', CHR ''-''}"

definition port_after :: "string \<Rightarrow> (string \<times> string) option" where
  "port_after t =
     (let digits = takeWhile is_digit (tl t) in
      if t \<noteq> [] \<and> hd t = CHR '':'' \<and> digits \<noteq> [] \<and> length digits \<le> 5
      then Some (digits, drop (Suc (length digits)) t) else None)"

definition host_port_at :: "string \<Rightarrow> (string \<times> string \<times> string) option" where
  "host_port_at t =
     (let inner = takeWhile bracket_char (tl t);
          run = takeWhile name_char t in
      if t \<noteq> [] \<and> hd t = CHR ''['' \<and> inner \<noteq> [] \<and> starts_with '']'' (drop (Suc (length inner)) t)
      then map_option (\<lambda>(p, rest). (''['' @ inner @ '']'', p, rest))
             (port_after (drop (2 + length inner) t))
      else if run \<noteq> []
      then map_option (\<lambda>(p, rest). (run, p, rest)) (port_after (drop (length run) t))
      else None)"

lemma port_after_length: "port_after t = Some (p, rest) \<Longrightarrow> length rest < length t"
  by (cases t) (auto simp: port_after_def Let_def split: if_splits)

lemma host_port_at_length: "host_port_at t = Some (h, p, rest) \<Longrightarrow> length rest < length t"
  by (auto simp: host_port_at_def Let_def split: if_splits dest!: port_after_length)

function host_ports :: "string \<Rightarrow> (string \<times> string) list" where
  "host_ports t =
     (if t = [] then []
      else (case host_port_at t of
              Some (h, p, rest) \<Rightarrow> (h, p) # host_ports rest
            | None \<Rightarrow> host_ports (tl t)))"
  by pat_completeness auto
termination
  by (relation "measure length") (auto dest: host_port_at_length)

declare host_ports.simps [simp del]

definition names_server :: "world \<Rightarrow> boundary \<Rightarrow> nat \<Rightarrow> string list \<Rightarrow> bool" where
  "names_server w b port texts \<longleftrightarrow>
     (let wanted = digits_of 10 port;
          value = (\<lambda>t. snd (snd (rpartition_on (CHR ''='') t))) in
      list_ex (\<lambda>t. list_ex (\<lambda>(h, p). p = wanted \<and> is_server_host w b h) (host_ports t)) texts
      \<or> (list_ex (\<lambda>t. is_server_host w b (value t)) texts
         \<and> list_ex (\<lambda>t. snd (snd (rpartition_on (CHR '':'') (value t))) = wanted) texts))"

definition vbot_server_check :: "world \<Rightarrow> boundary \<Rightarrow> command_plan \<Rightarrow> verdict" where
  "vbot_server_check w b plan =
     (case loopback_port b of None \<Rightarrow> Permitted
      | Some port \<Rightarrow>
          first_located b ''vbot_server'' (\<lambda>c. Some (names_server w b port (static_texts c)))
            (cm_commands plan))"

subsection \<open>The work tree of a path\<close>

text \<open>\<open>_work_tree_top\<close>: the search looks at the folder of the first \<open>n\<close> names and goes up. It
  ends at a folder it may not look into, at the nearest one that holds \<open>.git\<close>, or with the folder
  it began at. \<open>None\<close> where a check raises.\<close>

fun tree_loop :: "world \<Rightarrow> boundary \<Rightarrow> string \<Rightarrow> string \<Rightarrow> string list \<Rightarrow> nat \<Rightarrow> string option" where
  "tree_loop w b folder anchor names n =
     (let current = parts_text (b_windows b) anchor (take n names);
          marker = parts_text (b_windows b) anchor (take n names @ [''.git'']) in
      case and_then (check_path w b current Reading plain_request)
             (check_path w b marker Reading plain_request) of
        Raised \<Rightarrow> None
      | Refused _ \<Rightarrow> Some current
      | Permitted \<Rightarrow>
          if lexists (w_host w) marker then Some current
          else (case n of 0 \<Rightarrow> Some folder | Suc m \<Rightarrow> tree_loop w b folder anchor names m))"

declare tree_loop.simps [simp del]

definition work_tree_top :: "world \<Rightarrow> boundary \<Rightarrow> string \<Rightarrow> string option" where
  "work_tree_top w b folder =
     (case path_parts (b_windows b) folder of
        (anchor, names) \<Rightarrow> tree_loop w b folder anchor names (length names))"

text \<open>\<open>command_path\<close>: the path a planned access is checked at.\<close>

definition command_path :: "world \<Rightarrow> boundary \<Rightarrow> planned_access \<Rightarrow> string option" where
  "command_path w b a = (if pa_work_tree a then work_tree_top w b (pa_path a) else Some (pa_path a))"

subsection \<open>The decision\<close>

definition access_request :: "planned_access \<Rightarrow> path_request" where
  "access_request a =
     plain_request\<lparr>rq_subtree := pa_subtree a, rq_glob := pa_glob a, rq_pruned := pa_pruned a,
                   rq_git := pa_git a\<rparr>"

definition with_below_hint :: "planned_access \<Rightarrow> verdict \<Rightarrow> verdict" where
  "with_below_hint a v =
     (case v of
        Refused r \<Rightarrow>
          if rf_below r \<noteq> None \<and> pa_kind a = Reading \<and> \<not> pa_work_tree a
          then Refused (r\<lparr>rf_hint := Some denied_below_hint\<rparr>) else v
      | _ \<Rightarrow> v)"

definition check_access :: "world \<Rightarrow> boundary \<Rightarrow> planned_access \<Rightarrow> verdict" where
  "check_access w b a =
     (case command_path w b a of None \<Rightarrow> Raised
      | Some path \<Rightarrow> with_below_hint a (check_path w b path (pa_kind a) (access_request a)))"

definition check_mention :: "world \<Rightarrow> boundary \<Rightarrow> planned_access \<Rightarrow> verdict" where
  "check_mention w b m =
     check_path w b (pa_path m) Reading (plain_request\<lparr>rq_glob := pa_glob m, rq_deny_only := True\<rparr>)"

text \<open>The checks of \<open>_decide_all\<close>, in its order.\<close>

definition decision_checks ::
  "world \<Rightarrow> string \<Rightarrow> boundary \<Rightarrow> command_plan \<Rightarrow> string \<Rightarrow> string \<Rightarrow> bool \<Rightarrow> bool \<Rightarrow> verdict list" where
  "decision_checks w vbot_root b plan cwd t workdir_parameter machine_windows =
     (let windows = (case b_context b of Some cx \<Rightarrow> cx_windows cx | None \<Rightarrow> machine_windows) in
      [check_path w b cwd Start_Dir plain_request, deny_rules_check windows b plan,
       vbot_cli_check windows vbot_root b plan cwd, vbot_server_check w b plan]
      @ listed_checks windows b plan
      @ map (\<lambda>url. check_url w b url True) (cm_urls plan)
      @ map (\<lambda>h. check_host w b (canonical_host h) Connecting True) (cm_hosts plan)
      @ map (check_access w b) (cm_paths plan)
      @ map (check_mention w b) (cm_mentions plan)
      @ map (\<lambda>e. unresolved_refusal b e t workdir_parameter) (cm_unresolved plan))"

text \<open>The refusals without repetition; \<open>None\<close> as soon as a check raises.\<close>

definition refusal_of :: "verdict \<Rightarrow> permission_refusal option option" where
  "refusal_of v = (case v of Permitted \<Rightarrow> Some None | Refused r \<Rightarrow> Some (Some r) | Raised \<Rightarrow> None)"

definition collect :: "verdict list \<Rightarrow> permission_refusal list option" where
  "collect vs = map_option (\<lambda>found. dedup (present_levels found)) (map_option_list refusal_of vs)"

definition decide_all ::
  "world \<Rightarrow> string \<Rightarrow> boundary \<Rightarrow> command_plan \<Rightarrow> string \<Rightarrow> string \<Rightarrow> bool \<Rightarrow> bool \<Rightarrow>
     permission_refusal list option" where
  "decide_all w vbot_root b plan cwd t workdir_parameter machine_windows =
     collect (decision_checks w vbot_root b plan cwd t workdir_parameter machine_windows)"

definition first_hard :: "permission_refusal list \<Rightarrow> permission_refusal option" where
  "first_hard rs =
     (case find (\<lambda>r. rf_reason r \<noteq> Not_Permitted) rs of Some r \<Rightarrow> Some r
      | None \<Rightarrow> (case rs of [] \<Rightarrow> None | r # _ \<Rightarrow> Some r))"

definition verdict_of :: "permission_refusal option option \<Rightarrow> verdict" where
  "verdict_of r = (case r of None \<Rightarrow> Raised | Some None \<Rightarrow> Permitted | Some (Some x) \<Rightarrow> Refused x)"

definition decide ::
  "world \<Rightarrow> string \<Rightarrow> boundary \<Rightarrow> command_plan \<Rightarrow> string \<Rightarrow> string \<Rightarrow> bool \<Rightarrow> bool \<Rightarrow> verdict" where
  "decide w vbot_root b plan cwd t workdir_parameter machine_windows =
     verdict_of (map_option first_hard
       (decide_all w vbot_root b plan cwd t workdir_parameter machine_windows))"

end
