(* ===== verification/Command_Pattern_Facts.thy ===== *)
theory Command_Pattern_Facts
  imports Command_Patterns
begin

section \<open>Facts about command patterns\<close>

text \<open>
  \<open>_intersects\<close> decides whether some value of the dynamic words makes a pattern match: its test on the
  literal starts and ends is the existence of a common text of two wildcard patterns.
\<close>

subsection \<open>Patterns by their segments\<close>

lemma starts_prefix: "starts_with p w \<longleftrightarrow> (\<exists>r. w = p @ r)"
  by (rule starts_with_iff)

lemma glob_segments_end:
  "qs \<noteq> [] \<Longrightarrow> \<forall>q \<in> set qs. s \<notin> set q \<Longrightarrow> glob_match (\<lambda>c. c = s) (=) (join [s] qs) v \<Longrightarrow>
     ends_with (last qs) v"
proof (induction qs arbitrary: v)
  case (Cons q qs)
  show ?case
  proof (cases "qs = []")
    case True
    then show ?thesis using Cons.prems glob_plain [of q "\<lambda>c. c = s" v] by (auto simp: ends_with_iff)
  next
    case False
    have q: "\<forall>c \<in> set q. \<not> c = s" using Cons.prems(2) by auto
    obtain x w where "v = q @ x @ w" "glob_match (\<lambda>c. c = s) (=) (join [s] qs) w"
      using Cons.prems(3) False glob_split [OF q, of s "join [s] qs" v] by (auto simp: join_Cons)
    then show ?thesis using Cons.IH [of w] Cons.prems(2) False by (auto simp: ends_with_iff)
  qed
qed simp

lemma glob_segments_start:
  assumes "\<forall>q \<in> set (p # qs). s \<notin> set q" "glob_match (\<lambda>c. c = s) (=) (join [s] (p # qs)) v"
  shows "starts_with p v"
proof -
  have p: "\<forall>c \<in> set p. \<not> c = s" using assms(1) by auto
  show ?thesis
  proof (cases "qs = []")
    case True
    then show ?thesis using assms(2) glob_plain [OF p, of v] by simp
  next
    case False
    then show ?thesis
      using assms(2) glob_split [OF p, of s "join [s] qs" v] by (auto simp: join_Cons)
  qed
qed

text \<open>A pattern matches its literal start, anything, its middle segments, anything, its end.\<close>

lemma glob_segments:
  "qs \<noteq> [] \<Longrightarrow> \<forall>q \<in> set (p # qs). s \<notin> set q \<Longrightarrow>
     glob_match (\<lambda>c. c = s) (=) (join [s] (p # qs)) (p @ x @ concat (butlast qs) @ y @ last qs)"
proof (induction qs arbitrary: p x)
  case (Cons q qs)
  have p: "\<forall>c \<in> set p. \<not> c = s" using Cons.prems(2) by auto
  have tail: "glob_match (\<lambda>c. c = s) (=) (join [s] (q # qs)) v \<Longrightarrow>
      glob_match (\<lambda>c. c = s) (=) (join [s] (p # q # qs)) (p @ z @ v)" for z v
    using glob_split [OF p, of s "join [s] (q # qs)"] by (auto simp: join_Cons)
  show ?case
  proof (cases "qs = []")
    case True
    have "glob_match (\<lambda>c. c = s) (=) (join [s] [q]) q"
      using Cons.prems(2) glob_plain [of q "\<lambda>c. c = s" q] by auto
    from tail [of q "x @ y"] this True show ?thesis by simp
  next
    case False
    then have "glob_match (\<lambda>c. c = s) (=) (join [s] (q # qs)) (q @ [] @ concat (butlast qs) @ y @ last qs)"
      using Cons.prems(2) by (intro Cons.IH) auto
    from tail [OF this, of x] False show ?thesis by simp
  qed
qed simp

lemma split_segments:
  obtains p qs where "split_on s t = p # qs" "\<forall>q \<in> set (p # qs). s \<notin> set q" "t = join [s] (p # qs)"
proof (cases "split_on s t")
  case (Cons p qs)
  then have "\<forall>q \<in> set (p # qs). s \<notin> set q" "t = join [s] (p # qs)"
    using split_on_free [of _ s t] join_split_on [of s t] by auto
  with Cons that show ?thesis by blast
qed simp

lemma split_on_single: "split_on s t = [p] \<longleftrightarrow> s \<notin> set t \<and> p = t"
  by (metis join.simps(2) join_split_on list.set_intros(1) split_on_free split_on_free_id list.inject)

lemma glob_start: "glob_match (\<lambda>c. c = s) (=) t w \<Longrightarrow> starts_with (hd (split_on s t)) w"
  by (rule split_segments [of s t]) (metis glob_segments_start list.sel(1))

lemma glob_end: "glob_match (\<lambda>c. c = s) (=) t w \<Longrightarrow> ends_with (last (split_on s t)) w"
  by (rule split_segments [of s t]) (metis glob_segments_end list.distinct(1))

lemma prefixes_comparable:
  "starts_with p w \<Longrightarrow> starts_with q w \<Longrightarrow> starts_with p q \<or> starts_with q p"
  by (auto simp: starts_with_iff append_eq_append_conv2)

lemma suffixes_comparable:
  "ends_with p w \<Longrightarrow> ends_with q w \<Longrightarrow> ends_with p q \<or> ends_with q p"
  by (auto simp: ends_with_iff append_eq_append_conv2)

text \<open>The test is exact: two patterns with a wildcard each share a text.\<close>

lemma plain_intersects_common:
  assumes "star_glob p w" "hole_glob t w"
  shows "plain_intersects p t"
proof (cases "CHR ''*'' \<in> set p")
  case True
  then show ?thesis
    using prefixes_comparable [OF glob_start [OF assms(1)] glob_start [OF assms(2)]]
      suffixes_comparable [OF glob_end [OF assms(1)] glob_end [OF assms(2)]]
    by (auto simp: plain_intersects_def Let_def)
next
  case False
  then have "w = p" using assms(1) glob_plain [of p "\<lambda>c. c = CHR ''*''" w] by auto
  then show ?thesis using False assms(2) by (simp add: plain_intersects_def)
qed

lemma plain_intersects_exists:
  assumes "plain_intersects p t" "hole \<in> set t"
  shows "\<exists>w. star_glob p w \<and> hole_glob t w"
proof (cases "CHR ''*'' \<in> set p")
  case False
  then show ?thesis
    using assms(1) glob_plain [of p "\<lambda>c. c = CHR ''*''" p] by (auto simp: plain_intersects_def)
next
  case True
  obtain p0 ps where p: "split_on (CHR ''*'') p = p0 # ps" "\<forall>q \<in> set (p0 # ps). CHR ''*'' \<notin> set q"
    "p = join ''*'' (p0 # ps)" by (rule split_segments [of "CHR ''*''" p])
  obtain t0 ts where t: "split_on hole t = t0 # ts" "\<forall>q \<in> set (t0 # ts). hole \<notin> set q"
    "t = join [hole] (t0 # ts)" by (rule split_segments [of hole t])
  have ne: "ps \<noteq> []" "ts \<noteq> []"
    using True assms(2) p t split_on_single [of "CHR ''*''" p] split_on_single [of hole t] by auto
  have "starts_with t0 p0 \<or> starts_with p0 t0" "ends_with (last ts) (last ps) \<or> ends_with (last ps) (last ts)"
    using assms(1) True p(1) t(1) ne by (auto simp: plain_intersects_def Let_def)
  then obtain a b e f where ab: "p0 @ a = t0 @ b" and ef: "e @ last ps = f @ last ts"
    unfolding starts_with_iff ends_with_iff by (metis append_Nil append_Nil2)
  let ?m = "concat (butlast ps)" and ?n = "concat (butlast ts)"
  let ?w = "p0 @ a @ ?m @ (?n @ e) @ last ps"
  have "star_glob p ?w"
    unfolding p(3) by (rule glob_segments [OF ne(1) p(2)])
  moreover have "?w = t0 @ (b @ ?m) @ ?n @ f @ last ts"
    using ab ef by (metis append_assoc)
  then have "hole_glob t ?w"
    unfolding t(3) using glob_segments [OF ne(2) t(2), of "b @ ?m" f] by simp
  ultimately show ?thesis by blast
qed

subsection \<open>Folding case\<close>

lemma glob_concat_map:
  assumes "\<And>c. star c \<Longrightarrow> f c = [c]"
    and "\<And>c d. \<not> star c \<Longrightarrow> one c d \<Longrightarrow> f c = f d"
    and "\<And>c x. \<not> star c \<Longrightarrow> x \<in> set (f c) \<Longrightarrow> \<not> star x"
  shows "glob_match star one p w \<Longrightarrow> glob_match star (=) (concat (map f p)) (concat (map f w))"
proof (induction p arbitrary: w)
  case (Cons c p)
  show ?case
  proof (cases "star c")
    case True
    then obtain u v where "w = u @ v" "glob_match star one p v"
      using Cons.prems glob_star [of star c one p w] by auto
    then show ?thesis
      using Cons.IH [of v] assms(1) [OF True] glob_star [of star c "(=)" "concat (map f p)", OF True] by auto
  next
    case False
    then obtain d v where w: "w = d # v" "one c d" "glob_match star one p v"
      using Cons.prems by (cases w) auto
    then show ?thesis
      using Cons.IH [of v] assms(2) [OF False w(2)] assms(3) [OF False]
        glob_plain_append [of "f c" star "concat (map f p)"] by auto
  qed
qed simp

definition folded_char :: "char \<Rightarrow> string" where
  "folded_char c = (if code c = 223 then ''ss'' else [lower_char c])"

lemma casefold_folded: "casefold t = concat (map folded_char t)"
  by (simp add: casefold_def folded_char_def [abs_def])

lemma lower_small: "code d < 97 \<or> code d = 223 \<Longrightarrow> lower_char c = d \<Longrightarrow> c = d"
proof (rule ccontr)
  assume d: "code d < 97 \<or> code d = 223" and l: "lower_char c = d" and ne: "c \<noteq> d"
  have n: "65 \<le> code c \<and> code c \<le> 90 \<or> 192 \<le> code c \<and> code c \<le> 222"
    and dd: "d = char_of (code c + 32)"
    using l ne by (auto simp: lower_char_def Let_def split: if_splits)
  have "code d = code c + 32" unfolding dd using n by (auto simp: code_def)
  with n d show False by auto
qed

lemma folded_wild:
  assumes "x \<in> set (folded_char c)" "x = CHR ''*'' \<or> x = hole"
  shows "c = x"
proof -
  have small: "code x < 97" and no_s: "x \<noteq> CHR ''s''"
    using assms(2) unfolding code_def hole_def by (elim disjE; hypsubst; simp)+
  from assms(1) no_s have "lower_char c = x"
    by (cases "code c = 223") (simp_all add: folded_char_def)
  with small show ?thesis by (metis lower_small)
qed

lemma folded_self: "folded_char (CHR ''*'') = ''*''" "folded_char hole = [hole]"
  unfolding hole_def by code_simp+

lemma folded_lower: "lower_char c = lower_char d \<Longrightarrow> folded_char c = folded_char d"
proof -
  assume l: "lower_char c = lower_char d"
  have "lower_char x = x" if "code x = 223" for x using that by (simp add: lower_char_def)
  then have "code c = 223 \<longleftrightarrow> code d = 223" using l lower_small by metis
  then show ?thesis using l by (simp add: folded_char_def)
qed

lemma folded_no_star: "c \<noteq> CHR ''*'' \<Longrightarrow> x \<in> set (folded_char c) \<Longrightarrow> x \<noteq> CHR ''*''"
  using folded_wild by blast

lemma folded_no_hole: "c \<noteq> hole \<Longrightarrow> x \<in> set (folded_char c) \<Longrightarrow> x \<noteq> hole"
  using folded_wild by blast

lemma text_match_folded:
  assumes "text_match True p t"
  shows "star_glob (casefold p) (casefold t)"
  unfolding casefold_folded
proof (rule glob_concat_map)
  show "glob_match (\<lambda>c. c = CHR ''*'') (\<lambda>p c. lower_char p = lower_char c) p t"
    using assms by (simp add: text_match_def)
  show "folded_char c = [c]" if "c = CHR ''*''" for c unfolding that by (rule folded_self(1))
  show "folded_char c = folded_char d" if "lower_char c = lower_char d" for c d
    using that by (rule folded_lower)
  show "x \<noteq> CHR ''*''" if "c \<noteq> CHR ''*''" "x \<in> set (folded_char c)" for c x
    using that by (rule folded_no_star)
qed

lemma hole_glob_folded: "hole_glob p t \<Longrightarrow> hole_glob (casefold p) (casefold t)"
  unfolding casefold_folded
proof (rule glob_concat_map)
  show "folded_char c = [c]" if "c = hole" for c unfolding that by (rule folded_self(2))
  show "x \<noteq> hole" if "c \<noteq> hole" "x \<in> set (folded_char c)" for c x
    using that by (rule folded_no_hole)
qed simp_all

lemma text_match_plain: "text_match False p t \<longleftrightarrow> star_glob p t"
  by (simp add: text_match_def)

subsection \<open>Commands\<close>

lemma space_no_hole [simp]: "CHR '' '' \<noteq> hole"
  by (simp add: hole_def)

lemma hole_glob_append: "hole_glob p v \<Longrightarrow> hole_glob (u @ p) (u @ v)"
  by (induction u) (auto simp: glob_star)

lemma filled_simps [simp]:
  "sc_name (filled c vs) = sc_name c" "sc_shell (filled c vs) = sc_shell c"
  "sc_words (filled c vs) = filled_words (sc_words c) vs"
  by (simp_all add: filled_def)

definition words_text :: "command_word list \<Rightarrow> string" where
  "words_text ws = concat (map (\<lambda>w. '' '' @ (if cw_static w then cw_text w else [hole])) ws)"

lemma command_text_words: "command_text c = sc_name c @ words_text (sc_words c)"
  by (simp add: command_text_def words_text_def)

lemma words_text_Cons:
  "words_text (w # ws) = CHR '' '' # (if cw_static w then cw_text w else [hole]) @ words_text ws"
  by (simp add: words_text_def)

text \<open>The text of a command is the pattern of the texts its values give.\<close>

lemma hole_glob_filled_words: "hole_glob (words_text ws) (words_text (filled_words ws vs))"
proof (induction ws arbitrary: vs)
  case (Cons w ws)
  show ?case
  proof (cases "cw_static w")
    case True
    then show ?thesis using hole_glob_append [OF Cons.IH, of "CHR '' '' # cw_text w"] by (simp add: words_text_Cons)
  next
    case False
    have "hole_glob (hole # words_text ws) (hd vs @ words_text (filled_words ws (tl vs)))"
      using Cons.IH by (subst glob_star) auto
    then show ?thesis using False hole_glob_append [of _ _ "'' ''"] by (simp add: words_text_Cons)
  qed
qed (simp add: words_text_def)

lemma hole_glob_filled: "hole_glob (command_text c) (command_text (filled c vs))"
  by (simp add: command_text_words hole_glob_append hole_glob_filled_words)

lemma filled_static: "\<forall>w \<in> set ws. cw_static w \<Longrightarrow> filled_words ws vs = ws"
  by (induction ws arbitrary: vs) auto

lemma words_without_hole: "hole \<notin> set (words_text ws) \<Longrightarrow> w \<in> set ws \<Longrightarrow> cw_static w"
  by (induction ws) (auto simp: words_text_Cons split: if_splits)

lemma hole_glob_words:
  "hole_glob (words_text ws) t \<Longrightarrow> \<forall>w \<in> set ws. cw_static w \<longrightarrow> hole \<notin> set (cw_text w) \<Longrightarrow>
     \<exists>vs. t = words_text (filled_words ws vs)"
proof (induction ws arbitrary: t)
  case (Cons w ws)
  have plain: "\<forall>c \<in> set (CHR '' '' # (if cw_static w then cw_text w else [])). c \<noteq> hole"
    using Cons.prems(2) by (auto simp: hole_def)
  show ?case
  proof (cases "cw_static w")
    case True
    then obtain v where v: "t = (CHR '' '' # cw_text w) @ v" "hole_glob (words_text ws) v"
      using Cons.prems(1) plain glob_plain_append [of "CHR '' '' # cw_text w" "\<lambda>c. c = hole" "words_text ws" t]
      by (auto simp: words_text_Cons)
    then show ?thesis using Cons.IH [of v] Cons.prems(2) True by (auto simp: words_text_Cons)
  next
    case False
    then obtain u v where v: "t = CHR '' '' # u @ v" "hole_glob (words_text ws) v"
      using Cons.prems(1) plain glob_split [of "'' ''" "\<lambda>c. c = hole" hole "words_text ws" t]
      by (auto simp: words_text_Cons)
    then obtain vs where "v = words_text (filled_words ws vs)" using Cons.IH Cons.prems(2) by auto
    then have "t = words_text (filled_words (w # ws) (u # vs))"
      using False v(1) by (simp add: words_text_Cons)
    then show ?thesis by blast
  qed
qed (simp add: words_text_def)

lemma hole_glob_values:
  assumes "holes_free c" "hole_glob (command_text c) t"
  shows "\<exists>vs. t = command_text (filled c vs)"
proof -
  have "\<forall>x \<in> set (sc_name c). x \<noteq> hole" using assms(1) by (auto simp: holes_free_def)
  then obtain v where "t = sc_name c @ v" "hole_glob (words_text (sc_words c)) v"
    using assms(2) glob_plain_append [of "sc_name c" "\<lambda>c. c = hole"] by (auto simp: command_text_words)
  then show ?thesis
    using hole_glob_words [of "sc_words c" v] assms(1) by (auto simp: holes_free_def command_text_words)
qed

lemma may_match_filled:
  assumes "command_pattern_matches win p (filled c vs) ci = Some True"
  shows "command_pattern_may_match win p c ci = Some True"
proof (cases "hole \<in> set (command_text c)")
  case False
  then have "filled c vs = c"
    using filled_static words_without_hole by (auto simp: command_text_words filled_def)
  with assms False show ?thesis
    by (simp add: command_pattern_matches_def command_pattern_may_match_def pattern_matches_def)
next
  case True
  let ?f = "ci \<or> sc_shell c \<noteq> Bash"
  have "intersects ?f alt (command_text c)" if "text_match ?f alt (command_text (filled c vs))" for alt
  proof (cases ?f)
    case True
    then show ?thesis
      using plain_intersects_common [OF text_match_folded hole_glob_folded [OF hole_glob_filled]] that
      unfolding intersects_def by (simp only: if_True)
  next
    case False
    then show ?thesis
      using that plain_intersects_common [OF _ hole_glob_filled, of alt c vs]
      by (auto simp: intersects_def text_match_plain)
  qed
  with True assms show ?thesis
    by (auto simp: command_pattern_matches_def command_pattern_may_match_def pattern_matches_def
        list_ex_iff Let_def)
qed

lemma may_match_has_values:
  assumes "command_pattern_may_match win p c False = Some True" "sc_shell c = Bash" "holes_free c"
  shows "\<exists>vs. command_pattern_matches win p (filled c vs) False = Some True"
proof (cases "hole \<in> set (command_text c)")
  case False
  then have "filled c [] = c"
    using filled_static words_without_hole by (auto simp: command_text_words filled_def)
  with assms False show ?thesis
    by (intro exI [of _ "[]"])
      (simp add: command_pattern_matches_def command_pattern_may_match_def pattern_matches_def)
next
  case True
  from assms(1,2) True obtain alts alt where alt: "alternatives win p False = Some alts" "alt \<in> set alts"
    "plain_intersects alt (command_text c)"
    by (auto simp: command_pattern_may_match_def pattern_matches_def list_ex_iff intersects_def)
  obtain t where t: "star_glob alt t" "hole_glob (command_text c) t"
    using plain_intersects_exists [OF alt(3) True] by blast
  obtain vs where "t = command_text (filled c vs)" using hole_glob_values [OF assms(3) t(2)] by blast
  then have "command_pattern_matches win p (filled c vs) False = Some True"
    using t(1) alt assms(2)
    by (auto simp: command_pattern_matches_def pattern_matches_def list_ex_iff text_match_plain)
  then show ?thesis ..
qed

end
