(* ===== verification/State_Machines.thy ===== *)
theory State_Machines
  imports Main
begin

section \<open>Contracts of state machines\<close>

text \<open>
  What the stateful components share. A component is a step relation over its state, its steps being
  the operations its callers run in any order. \<open>preserving\<close> is the contract of an invariant, and
  \<open>stoppable\<close> that of a component that can be stopped for good and holds on to what it acquired until
  then. Each component interprets them on its own step relation.
\<close>

locale preserving =
  fixes step :: "'s \<Rightarrow> 's \<Rightarrow> bool" and ok :: "'s \<Rightarrow> bool"
  assumes step_ok: "step s t \<Longrightarrow> ok s \<Longrightarrow> ok t"
begin

lemma steps_ok: "step\<^sup>*\<^sup>* s t \<Longrightarrow> ok s \<Longrightarrow> ok t"
  by (induction rule: rtranclp_induct) (auto intro: step_ok)

lemma reachable_ok: "ok init \<Longrightarrow> step\<^sup>*\<^sup>* init s \<Longrightarrow> step\<^sup>*\<^sup>* s t \<Longrightarrow> ok t"
  using steps_ok by blast

end

locale stoppable = preserving step stopped for step :: "'s \<Rightarrow> 's \<Rightarrow> bool" and stopped :: "'s \<Rightarrow> bool" +
  fixes held :: "'s \<Rightarrow> 'v option"
  assumes step_held: "step s t \<Longrightarrow> held s = Some v \<Longrightarrow> \<not> stopped t \<Longrightarrow> held t = Some v"
begin

lemma steps_held: "step\<^sup>*\<^sup>* s t \<Longrightarrow> held s = Some v \<Longrightarrow> \<not> stopped t \<Longrightarrow> held t = Some v"
proof (induction rule: rtranclp_induct)
  case (step t u)
  then have "\<not> stopped t" using step_ok by blast
  with step show ?case using step_held by blast
qed

text \<open>Two moments before the stop see the same thing.\<close>

lemma held_unique:
  "step\<^sup>*\<^sup>* s t \<Longrightarrow> held s = Some v \<Longrightarrow> held t = Some u \<Longrightarrow> \<not> stopped t \<Longrightarrow> u = v"
  using steps_held by fastforce

end

end
