(* ===== verification/Command_Checker.thy ===== *)
theory Command_Checker
  imports Command_Check Command_Pattern_Facts State_Machines
begin

section \<open>The command checker\<close>

text \<open>
  \<open>CommandChecker\<close> of \<open>core/permissions/_command_check.py\<close>: one per Runtime, it owns the command
  analyzer, makes it at the first check of a restricted boundary and stops it at shutdown. The
  factory and the analysis are parameters that return the analyzer and the plan, or the message of
  a \<open>CommandAnalysisUnavailable\<close>. Its lock makes every access to the state atomic. Then what a
  decision permits, as an abstract policy.
\<close>

subsection \<open>State and analysis\<close>

record 'a checker =
  ck_closed :: bool
  ck_analyzer :: "'a option"

definition new_checker :: "'a checker" where
  "new_checker = \<lparr>ck_closed = False, ck_analyzer = None\<rparr>"

definition analyzer_started :: "'a checker \<Rightarrow> bool" where
  "analyzer_started s \<longleftrightarrow> ck_analyzer s \<noteq> None"

definition analyzer_instance :: "string + 'a \<Rightarrow> 'a checker \<Rightarrow> 'a checker \<times> (string + 'a)" where
  "analyzer_instance factory s =
     (if ck_closed s then (s, Inl ''vBot is shutting down'')
      else (case ck_analyzer s of
              Some a \<Rightarrow> (s, Inr a)
            | None \<Rightarrow> (case factory of
                Inl e \<Rightarrow> (s, Inl e)
              | Inr a \<Rightarrow> (s\<lparr>ck_analyzer := Some a\<rparr>, Inr a))))"

text \<open>\<open>aclose\<close>: the new state and the analyzer to stop.\<close>

definition aclose :: "'a checker \<Rightarrow> 'a checker \<times> 'a option" where
  "aclose s = (s\<lparr>ck_closed := True, ck_analyzer := None\<rparr>, ck_analyzer s)"

definition unavailable :: "boundary \<Rightarrow> string \<Rightarrow> string \<Rightarrow> verdict" where
  "unavailable b t e =
     refuse b ((plain_refusal Commanding (shown t) Unanalyzable)
       \<lparr>rf_detail := Some (''vBot could not analyze it to check it ('' @ rstrip_char (CHR ''.'') e @ '')''),
        rf_hint := Some unavailable_hint, rf_retryable := True\<rparr>)"

definition analyze ::
  "string + 'a \<Rightarrow> ('a \<Rightarrow> string + command_plan) \<Rightarrow> boundary \<Rightarrow> string \<Rightarrow> 'a checker \<Rightarrow>
     'a checker \<times> (verdict + command_plan)" where
  "analyze factory run b t s =
     (case analyzer_instance factory s of
        (s', Inl e) \<Rightarrow> (s', Inl (unavailable b t e))
      | (s', Inr a) \<Rightarrow>
          (s', (case run a of Inl e \<Rightarrow> Inl (unavailable b t e) | Inr plan \<Rightarrow> Inr plan)))"

subsection \<open>Checks\<close>

text \<open>What is fixed for one Runtime: the machine, the factory and vBot's root.\<close>

record 'a runtime =
  rn_world :: world
  rn_factory :: "string + 'a"
  rn_root :: string
  rn_windows :: bool

text \<open>\<open>refuse_command\<close> of a caller: the first command it refuses.\<close>

fun caller_refusal ::
  "boundary \<Rightarrow> (simple_command \<Rightarrow> (string \<times> string) option) \<Rightarrow> simple_command list \<Rightarrow> verdict" where
  "caller_refusal b f [] = Permitted"
| "caller_refusal b f (c # cs) =
     (case f c of None \<Rightarrow> caller_refusal b f cs
      | Some (detail, hint) \<Rightarrow>
          refuse b ((command_refusal b c Unanalyzable)\<lparr>rf_detail := Some detail, rf_hint := Some hint\<rparr>))"

definition soft :: "verdict \<Rightarrow> bool" where
  "soft v = (case v of Permitted \<Rightarrow> True | Refused r \<Rightarrow> rf_reason r = Not_Permitted | Raised \<Rightarrow> False)"

definition check_line ::
  "'a runtime \<Rightarrow> boundary \<Rightarrow> string \<Rightarrow> ('a \<Rightarrow> string + command_plan) \<Rightarrow> string \<Rightarrow>
     (simple_command \<Rightarrow> (string \<times> string) option) option \<Rightarrow> bool \<Rightarrow> 'a checker \<Rightarrow> 'a checker \<times> verdict" where
  "check_line rn b line run cwd refuse_command workdir_parameter s =
     (if b_layers b = [] then (s, Permitted)
      else (case analyze (rn_factory rn) run b line s of
              (s', Inl v) \<Rightarrow> (s', v)
            | (s', Inr plan) \<Rightarrow>
                (let v = decide (rn_world rn) (rn_root rn) b plan cwd line workdir_parameter (rn_windows rn) in
                 (s', case refuse_command of
                        None \<Rightarrow> v
                      | Some f \<Rightarrow>
                          if soft v
                          then (case caller_refusal b f (cm_commands plan) of Permitted \<Rightarrow> v | v' \<Rightarrow> v')
                          else v))))"

definition check_argv ::
  "'a runtime \<Rightarrow> boundary \<Rightarrow> string list \<Rightarrow> ('a \<Rightarrow> string + command_plan) \<Rightarrow> string \<Rightarrow> 'a checker \<Rightarrow>
     'a checker \<times> verdict" where
  "check_argv rn b argv run cwd s =
     (if b_layers b = [] then (s, Permitted)
      else (let t = join '' '' argv in
            case analyze (rn_factory rn) run b t s of
              (s', Inl v) \<Rightarrow> (s', v)
            | (s', Inr plan) \<Rightarrow>
                (s', decide (rn_world rn) (rn_root rn) b plan cwd t False (rn_windows rn))))"

text \<open>\<open>prepare_line\<close> and \<open>prepare_argv\<close>: the plan, if there is one, and all its refusals; \<open>None\<close>
  where a check raises.\<close>

definition alone :: "verdict \<Rightarrow> permission_refusal list option" where
  "alone v = (case v of Refused r \<Rightarrow> Some [r] | Permitted \<Rightarrow> Some [] | Raised \<Rightarrow> None)"

definition prepare_text ::
  "'a runtime \<Rightarrow> boundary \<Rightarrow> string \<Rightarrow> ('a \<Rightarrow> string + command_plan) \<Rightarrow> string \<Rightarrow> bool \<Rightarrow> 'a checker \<Rightarrow>
     'a checker \<times> (command_plan option \<times> permission_refusal list) option" where
  "prepare_text rn b t run cwd workdir_parameter s =
     (if b_layers b = [] then (s, Some (None, []))
      else (case analyze (rn_factory rn) run b t s of
              (s', Inl v) \<Rightarrow> (s', map_option (\<lambda>rs. (None, rs)) (alone v))
            | (s', Inr plan) \<Rightarrow>
                (s', map_option (\<lambda>rs. (Some plan, rs))
                       (decide_all (rn_world rn) (rn_root rn) b plan cwd t workdir_parameter (rn_windows rn)))))"

definition prepare_line ::
  "'a runtime \<Rightarrow> boundary \<Rightarrow> string \<Rightarrow> ('a \<Rightarrow> string + command_plan) \<Rightarrow> string \<Rightarrow> bool \<Rightarrow> 'a checker \<Rightarrow>
     'a checker \<times> (command_plan option \<times> permission_refusal list) option" where
  "prepare_line rn b line run cwd workdir_parameter s = prepare_text rn b line run cwd workdir_parameter s"

definition prepare_argv ::
  "'a runtime \<Rightarrow> boundary \<Rightarrow> string list \<Rightarrow> ('a \<Rightarrow> string + command_plan) \<Rightarrow> string \<Rightarrow> 'a checker \<Rightarrow>
     'a checker \<times> (command_plan option \<times> permission_refusal list) option" where
  "prepare_argv rn b argv run cwd s = prepare_text rn b (join '' '' argv) run cwd False s"

text \<open>\<open>check_line_all\<close> and \<open>check_argv_all\<close>: the refusals alone.\<close>

definition check_line_all ::
  "'a runtime \<Rightarrow> boundary \<Rightarrow> string \<Rightarrow> ('a \<Rightarrow> string + command_plan) \<Rightarrow> string \<Rightarrow> bool \<Rightarrow> 'a checker \<Rightarrow>
     'a checker \<times> permission_refusal list option" where
  "check_line_all rn b line run cwd workdir_parameter s =
     (if b_layers b = [] then (s, Some [])
      else (case analyze (rn_factory rn) run b line s of
              (s', Inl v) \<Rightarrow> (s', alone v)
            | (s', Inr plan) \<Rightarrow>
                (s', decide_all (rn_world rn) (rn_root rn) b plan cwd line workdir_parameter (rn_windows rn))))"

definition check_argv_all ::
  "'a runtime \<Rightarrow> boundary \<Rightarrow> string list \<Rightarrow> ('a \<Rightarrow> string + command_plan) \<Rightarrow> string \<Rightarrow> 'a checker \<Rightarrow>
     'a checker \<times> permission_refusal list option" where
  "check_argv_all rn b argv run cwd s = check_line_all rn b (join '' '' argv) run cwd False s"

subsection \<open>The life of a checker\<close>

text \<open>Every step another check or the shutdown can make on the state.\<close>

inductive checker_step :: "'a checker \<Rightarrow> 'a checker \<Rightarrow> bool" where
  asked: "checker_step s (fst (analyze factory run b t s))"
| stopped: "checker_step s (fst (aclose s))"

inductive_cases checker_stepE: "checker_step s t"

definition checker_ok :: "'a checker \<Rightarrow> bool" where
  "checker_ok s \<longleftrightarrow> (ck_closed s \<longrightarrow> ck_analyzer s = None)"

lemma analyze_state:
  "fst (analyze factory run b t s) =
     (if ck_closed s then s else case ck_analyzer s of Some a \<Rightarrow> s
      | None \<Rightarrow> (case factory of Inl e \<Rightarrow> s | Inr a \<Rightarrow> s\<lparr>ck_analyzer := Some a\<rparr>))"
  by (auto simp: analyze_def analyzer_instance_def split: prod.splits sum.splits option.splits if_splits)

lemma closed_step: "checker_step s t \<Longrightarrow> ck_closed s \<Longrightarrow> ck_closed t"
  by (induction rule: checker_step.induct) (simp_all add: analyze_state aclose_def)

lemma ok_step: "checker_step s t \<Longrightarrow> checker_ok s \<Longrightarrow> checker_ok t"
proof (induction rule: checker_step.induct)
  case (asked s factory run b t)
  then show ?case by (cases "ck_closed s") (auto simp: analyze_state checker_ok_def split: option.splits sum.splits)
qed (simp add: aclose_def checker_ok_def)

lemma analyzer_step: "checker_step s t \<Longrightarrow> ck_analyzer s = Some a \<Longrightarrow> \<not> ck_closed t \<Longrightarrow> ck_analyzer t = Some a"
  by (auto elim!: checker_stepE simp: analyze_state aclose_def split: if_splits)

text \<open>A checker keeps its invariant; it can be stopped, and holds the analyzer it made until then.\<close>

interpretation checker_inv: preserving checker_step checker_ok
  by unfold_locales (rule ok_step)

interpretation checker_life: stoppable checker_step ck_closed ck_analyzer
  by unfold_locales (auto dest: closed_step analyzer_step)

lemma analyze_closed:
  "ck_closed s \<Longrightarrow> analyze factory run b t s = (s, Inl (unavailable b t ''vBot is shutting down''))"
  by (simp add: analyze_def analyzer_instance_def)

subsection \<open>What a decision permits\<close>

lemma refuse_Commanding [simp]: "rf_access r = Commanding \<Longrightarrow> refuse b r \<noteq> Raised"
  by (simp add: refuse_def allowed_summary_def)

lemma collect_Some:
  "collect vs = Some rs \<Longrightarrow> Raised \<notin> set vs \<and> (\<forall>r. r \<in> set rs \<longleftrightarrow> Refused r \<in> set vs)"
proof -
  have "map_option_list refusal_of vs = Some found \<Longrightarrow>
      Raised \<notin> set vs \<and> (\<forall>r. r \<in> set (present_levels found) \<longleftrightarrow> Refused r \<in> set vs)" for found
  proof (induction vs arbitrary: found)
    case (Cons v vs)
    from Cons.prems obtain x rest where x: "refusal_of v = Some x" "map_option_list refusal_of vs = Some rest"
        "found = x # rest" by (auto split: option.splits)
    have "set (present_levels found) = set_option x \<union> set (present_levels rest)"
      unfolding x(3) by (auto simp: present_levels_def split: option.splits)
    moreover have "v = (case x of None \<Rightarrow> Permitted | Some r \<Rightarrow> Refused r)"
      using x(1) by (cases v) (auto simp: refusal_of_def)
    ultimately show ?case using Cons.IH [OF x(2)] by (cases x) auto
  qed (simp add: present_levels_def)
  then show "collect vs = Some rs \<Longrightarrow> ?thesis" by (auto simp: collect_def)
qed

lemma collect_None: "collect vs = None \<longleftrightarrow> Raised \<in> set vs"
proof -
  have "map_option_list refusal_of vs = None \<longleftrightarrow> Raised \<in> set vs"
  proof (induction vs)
    case (Cons v vs)
    then show ?case by (cases v) (auto simp: refusal_of_def split: option.splits)
  qed simp
  then show ?thesis by (simp add: collect_def)
qed

lemma first_hard_None [simp]: "first_hard rs = None \<longleftrightarrow> rs = []"
  by (auto simp: first_hard_def split: option.splits list.splits)

lemma first_hard_Nil [simp]: "first_hard [] = None"
  by simp

lemma first_hard_member: "first_hard rs = Some r \<Longrightarrow> r \<in> set rs"
  by (auto simp: first_hard_def split: option.splits list.splits if_splits dest: find_SomeD)

lemma first_hard_soft: "first_hard rs = Some r \<Longrightarrow> rf_reason r = Not_Permitted \<Longrightarrow> s \<in> set rs \<Longrightarrow> rf_reason s = Not_Permitted"
  by (auto simp: first_hard_def find_None_iff split: option.splits dest: find_SomeD)

lemma verdict_of_collect:
  "verdict_of (map_option first_hard (collect vs)) = Permitted \<longleftrightarrow> (\<forall>v \<in> set vs. v = Permitted)"
proof (cases "collect vs")
  case None
  then show ?thesis using collect_None [of vs] by (auto simp: verdict_of_def)
next
  case (Some rs)
  then have rs: "Raised \<notin> set vs" "\<And>r. r \<in> set rs \<longleftrightarrow> Refused r \<in> set vs" using collect_Some by blast+
  have "rs = [] \<longleftrightarrow> (\<forall>v \<in> set vs. v = Permitted)"
  proof
    assume "rs = []"
    with rs show "\<forall>v \<in> set vs. v = Permitted" by (metis empty_iff list.set(1) verdict.exhaust)
  next
    assume "\<forall>v \<in> set vs. v = Permitted"
    then have "Refused r \<notin> set vs" for r by auto
    with rs(2) show "rs = []" by (cases rs) auto
  qed
  then show ?thesis using Some first_hard_None [of rs]
    by (cases "first_hard rs") (simp_all add: verdict_of_def)
qed

text \<open>The abstract policy of a command line.\<close>

definition command_policy ::
  "world \<Rightarrow> string \<Rightarrow> boundary \<Rightarrow> command_plan \<Rightarrow> string \<Rightarrow> bool \<Rightarrow> bool" where
  "command_policy w vbot_root b plan cwd windows \<longleftrightarrow>
     check_path w b cwd Start_Dir plain_request = Permitted
     \<and> (\<forall>c \<in> set (cm_commands plan). \<forall>l \<in> set (b_layers b).
          (\<forall>r \<in> set (ly_deny l). kind r = Shell \<longrightarrow>
             command_pattern_may_match windows (pattern r) c windows = Some False)
          \<and> (ly_commands l = Listed \<longrightarrow>
             any_option (\<lambda>p. command_pattern_matches windows p c windows) (shell_allow l) = Some True))
     \<and> vbot_cli_check windows vbot_root b plan cwd = Permitted
     \<and> (\<forall>port c. loopback_port b = Some port \<longrightarrow> c \<in> set (cm_commands plan) \<longrightarrow>
          \<not> names_server w b port (static_texts c))
     \<and> (\<forall>url \<in> set (cm_urls plan). check_url w b url True = Permitted)
     \<and> (\<forall>h \<in> set (cm_hosts plan). check_host w b (canonical_host h) Connecting True = Permitted)
     \<and> (\<forall>a \<in> set (cm_paths plan). \<exists>path. command_path w b a = Some path
          \<and> check_path w b path (pa_kind a) (access_request a) = Permitted)
     \<and> (\<forall>m \<in> set (cm_mentions plan). check_mention w b m = Permitted)
     \<and> cm_unresolved plan = []"

lemma first_denied_Permitted:
  "first_denied windows b xs = Permitted \<longleftrightarrow>
     (\<forall>(c, l, r) \<in> set xs. command_pattern_may_match windows (pattern r) c windows = Some False)"
  by (induction windows b xs rule: first_denied.induct) (auto split: option.splits bool.splits)

lemma first_located_Permitted:
  "first_located b location f cs = Permitted \<longleftrightarrow> (\<forall>c \<in> set cs. f c = Some False)"
  by (induction b location f cs rule: first_located.induct) (auto split: option.splits bool.splits)

lemma deny_rules_Permitted:
  "deny_rules_check windows b plan = Permitted \<longleftrightarrow>
     (\<forall>c \<in> set (cm_commands plan). \<forall>l \<in> set (b_layers b). \<forall>r \<in> set (ly_deny l).
        kind r = Shell \<longrightarrow> command_pattern_may_match windows (pattern r) c windows = Some False)"
  by (auto simp: deny_rules_check_def shell_denials_def first_denied_Permitted)

lemma listed_Permitted:
  "(\<forall>v \<in> set (listed_checks windows b plan). v = Permitted) \<longleftrightarrow>
     (\<forall>c \<in> set (cm_commands plan). \<forall>l \<in> set (b_layers b). ly_commands l = Listed \<longrightarrow>
        any_option (\<lambda>p. command_pattern_matches windows p c windows) (shell_allow l) = Some True)"
proof -
  have "listed_command_check windows b l c = Permitted \<longleftrightarrow>
      any_option (\<lambda>p. command_pattern_matches windows p c windows) (shell_allow l) = Some True" for l c
    by (simp add: listed_command_check_def split: option.split bool.split)
  then show ?thesis by (auto simp: listed_checks_def)
qed

lemma server_Permitted:
  "vbot_server_check w b plan = Permitted \<longleftrightarrow>
     (\<forall>port c. loopback_port b = Some port \<longrightarrow> c \<in> set (cm_commands plan) \<longrightarrow>
        \<not> names_server w b port (static_texts c))"
  by (auto simp: vbot_server_check_def first_located_Permitted split: option.splits)

lemma access_Permitted:
  "check_access w b a = Permitted \<longleftrightarrow>
     (\<exists>path. command_path w b a = Some path \<and> check_path w b path (pa_kind a) (access_request a) = Permitted)"
  by (auto simp: check_access_def with_below_hint_def split: option.splits verdict.splits)

lemma unresolved_not_Permitted: "unresolved_refusal b e t workdir_parameter \<noteq> Permitted"
  by (simp add: unresolved_refusal_def Let_def split: prod.splits)

definition plan_windows :: "boundary \<Rightarrow> bool \<Rightarrow> bool" where
  "plan_windows b machine_windows =
     (case b_context b of Some cx \<Rightarrow> cx_windows cx | None \<Rightarrow> machine_windows)"

lemma decide_iff:
  "decide w vbot_root b plan cwd t wp mw = Permitted \<longleftrightarrow>
     command_policy w vbot_root b plan cwd (plan_windows b mw)"
proof -
  have map_all: "(\<forall>v \<in> set (map f xs). v = Permitted) \<longleftrightarrow> (\<forall>x \<in> set xs. f x = Permitted)" for f and xs :: "'z list"
    by auto
  have unresolved: "(\<forall>e \<in> set es. unresolved_refusal b e t wp = Permitted) \<longleftrightarrow> es = []" for es
    using unresolved_not_Permitted by (cases es) auto
  show ?thesis
    unfolding decide_def decide_all_def verdict_of_collect decision_checks_def Let_def
      plan_windows_def [symmetric] set_append ball_Un map_all listed_Permitted unresolved access_Permitted
      command_policy_def
    by (auto simp: deny_rules_Permitted server_Permitted)
qed

lemma decide_soft:
  assumes "decide w vbot_root b plan cwd t wp mw = Refused r" "rf_reason r = Not_Permitted"
    "v \<in> set (decision_checks w vbot_root b plan cwd t wp mw)"
  shows "v = Permitted \<or> (\<exists>s. v = Refused s \<and> rf_reason s = Not_Permitted)"
proof -
  obtain rs where rs: "collect (decision_checks w vbot_root b plan cwd t wp mw) = Some rs"
      "first_hard rs = Some r"
    using assms(1) by (auto simp: decide_def decide_all_def verdict_of_def split: option.splits)
  from collect_Some [OF rs(1)] first_hard_soft [OF rs(2) assms(2)] assms(3) show ?thesis
    by (metis verdict.exhaust)
qed

lemma layers_deny_filled:
  assumes "l \<in> set (b_layers b)" "r \<in> set (ly_deny l)" "kind r = Shell" "c \<in> set (cm_commands plan)"
    and "command_pattern_matches (plan_windows b mw) (pattern r) (filled c vs) (plan_windows b mw) = Some True"
  shows "decide w vbot_root b plan cwd t wp mw \<noteq> Permitted"
  using may_match_filled [OF assms(5)] assms(1-4) unfolding decide_iff command_policy_def by fastforce

end
