(* ===== verification/Command_Properties.thy ===== *)
theory Command_Properties
  imports Command_Checker Boundary_Properties
begin

section \<open>Properties of command checks\<close>

text \<open>
  The properties of the decision about a command line, of the command patterns it reads and of the
  life of the checker, each with an instance on the sample world: a layer that lists \<open>git *\<close> and
  denies \<open>git push *\<close>.
\<close>

subsection \<open>A sample command line\<close>

definition shell_layer :: permission_layer where
  "shell_layer = sample_layer
     \<lparr>ly_commands := Listed, ly_allow := [\<lparr>kind = Shell, pattern = ''git *''\<rparr>],
      ly_deny := [\<lparr>kind = Shell, pattern = ''git push *''\<rparr>]\<rparr>"

definition shell_boundary :: boundary where
  "shell_boundary = the (boundary_of sample_world [shell_layer] sample_facts)"

lemma shell_built: "boundary_of sample_world [shell_layer] sample_facts = Some shell_boundary"
proof -
  have "boundary_of sample_world [shell_layer] sample_facts \<noteq> None" by code_simp
  then show ?thesis by (auto simp: shell_boundary_def)
qed

lemma shell_layers: "b_layers shell_boundary = [shell_layer]"
  by (rule boundary_of_fields(1) [OF shell_built]) simp

definition word :: "string \<Rightarrow> command_word" where
  "word t = \<lparr>cw_text = t, cw_static = True\<rparr>"

definition value_of :: "string \<Rightarrow> command_word" where
  "value_of t = \<lparr>cw_text = t, cw_static = False\<rparr>"

definition bash_command :: "string \<Rightarrow> command_word list \<Rightarrow> simple_command" where
  "bash_command name ws = \<lparr>sc_name = name, sc_words = ws, sc_source = name, sc_shell = Bash\<rparr>"

definition plan_of :: "simple_command list \<Rightarrow> command_plan" where
  "plan_of cs =
     \<lparr>cm_commands = cs, cm_paths = [], cm_unresolved = [], cm_urls = [], cm_hosts = [], cm_mentions = []\<rparr>"

definition git_status :: simple_command where
  "git_status = bash_command ''git'' [word ''status'']"

definition git_something :: simple_command where
  "git_something = bash_command ''git'' [value_of ''$X'', word ''main'']"

subsection \<open>The decision\<close>

text \<open>C2. A command line is permitted iff the abstract policy of its plan holds: the start directory
  may be worked in, no deny rule may match a command, every listed layer names every command, no
  command starts vBot or reaches its server, every address and path is permitted, and nothing was
  left unresolved.\<close>

theorem decision_implements_command_policy:
  "decide w vbot_root b plan cwd t workdir_parameter machine_windows = Permitted \<longleftrightarrow>
     command_policy w vbot_root b plan cwd (plan_windows b machine_windows)"
  by (rule decide_iff)

text \<open>A refusal a user could lift is reported only when no check gave a harder one: where the
  decision answers \<open>not_permitted\<close>, every one of its checks permitted or answered that too.\<close>

theorem hard_refusals_come_first:
  assumes "decide w vbot_root b plan cwd t workdir_parameter machine_windows = Refused r"
    and "rf_reason r = Not_Permitted"
    and "v \<in> set (decision_checks w vbot_root b plan cwd t workdir_parameter machine_windows)"
  shows "v = Permitted \<or> (\<exists>s. v = Refused s \<and> rf_reason s = Not_Permitted)"
  by (rule decide_soft [OF assms])

theorem hard_refusals_come_first_witness:
  "deny_rules_check False shell_boundary (plan_of [bash_command ''ls'' []]) = Permitted
   \<or> (\<exists>s. deny_rules_check False shell_boundary (plan_of [bash_command ''ls'' []]) = Refused s
          \<and> rf_reason s = Not_Permitted)"
proof -
  let ?plan = "plan_of [bash_command ''ls'' []]"
  let ?d = "decide sample_world ''/v'' shell_boundary ?plan ''/w'' ''ls'' False False"
  have "(case ?d of Refused r \<Rightarrow> rf_reason r = Not_Permitted | _ \<Rightarrow> False)" by code_simp
  then obtain r where r: "?d = Refused r" "rf_reason r = Not_Permitted" by (auto split: verdict.splits)
  show ?thesis
    by (rule hard_refusals_come_first [OF r])
      (simp add: decision_checks_def boundary_of_fields(2) [OF shell_built] sample_facts_def)
qed

text \<open>C28. A \<open>Shell\<close> deny rule holds against words only the shell knows: when it matches a command of
  the plan for some values of its dynamic words, the command line is not run.\<close>

theorem deny_rule_covers_dynamic_words:
  assumes "l \<in> set (b_layers b)" "r \<in> set (ly_deny l)" "kind r = Shell" "c \<in> set (cm_commands plan)"
    and "command_pattern_matches (plan_windows b mw) (pattern r) (filled c vs) (plan_windows b mw) = Some True"
  shows "decide w vbot_root b plan cwd t workdir_parameter mw \<noteq> Permitted"
  by (rule layers_deny_filled [OF assms])

theorem deny_rule_covers_dynamic_words_witness:
  "decide sample_world ''/v'' shell_boundary (plan_of [git_something]) ''/w'' ''git $X main'' False False
     \<noteq> Permitted"
proof (rule deny_rule_covers_dynamic_words [of shell_layer _ "\<lparr>kind = Shell, pattern = ''git push *''\<rparr>"
      git_something _ _ "[''push'']"])
  have "plan_windows shell_boundary False = False"
    by (simp add: plan_windows_def boundary_of_fields(2) [OF shell_built] sample_facts_def)
  moreover have "command_pattern_matches False ''git push *'' (filled git_something [''push'']) False = Some True"
    by code_simp
  ultimately show "command_pattern_matches (plan_windows shell_boundary False)
      (pattern \<lparr>kind = Shell, pattern = ''git push *''\<rparr>) (filled git_something [''push''])
      (plan_windows shell_boundary False) = Some True" by simp
qed (simp_all add: shell_layers shell_layer_def plan_of_def)



text \<open>The search for the work tree of a changed path stops in time: its result is the folder it
  began at, or the folder of the first \<open>n\<close> names, and of every folder below that the boundary
  permits to read the folder and \<open>.git\<close> in it, which is not there.\<close>

theorem work_tree_search_stays_readable:
  assumes "work_tree_top w b folder = Some found" "path_parts (b_windows b) folder = (anchor, names)"
  shows "found = folder \<or> (\<exists>n \<le> length names. found = parts_text (b_windows b) anchor (take n names)
    \<and> (\<forall>m. n < m \<and> m \<le> length names \<longrightarrow>
        check_path w b (parts_text (b_windows b) anchor (take m names)) Reading plain_request = Permitted
        \<and> \<not> lexists (w_host w) (parts_text (b_windows b) anchor (take m names @ [''.git'']))))"
proof -
  have "tree_loop w b folder anchor names k = Some found \<Longrightarrow>
      found = folder \<or> (\<exists>n \<le> k. found = parts_text (b_windows b) anchor (take n names)
      \<and> (\<forall>m. n < m \<and> m \<le> k \<longrightarrow>
        check_path w b (parts_text (b_windows b) anchor (take m names)) Reading plain_request = Permitted
        \<and> \<not> lexists (w_host w) (parts_text (b_windows b) anchor (take m names @ [''.git'']))))" for k
  proof (induction k)
    case 0
    then show ?case
      by (subst (asm) tree_loop.simps) (auto simp: Let_def split: verdict.splits if_splits)
  next
    case (Suc k)
    show ?case
    proof (cases "found = parts_text (b_windows b) anchor (take (Suc k) names)")
      case False
      from Suc.prems False have step:
        "check_path w b (parts_text (b_windows b) anchor (take (Suc k) names)) Reading plain_request = Permitted"
        "\<not> lexists (w_host w) (parts_text (b_windows b) anchor (take (Suc k) names @ [''.git'']))"
        "tree_loop w b folder anchor names k = Some found"
        by (subst (asm) (1) tree_loop.simps; auto simp: Let_def split: verdict.splits if_splits)+
      from Suc.IH [OF step(3)] step(1,2) show ?thesis by (metis le_SucE le_SucI)
    qed auto
  qed
  then show ?thesis using assms by (simp add: work_tree_top_def)
qed

definition tree_world :: world where
  "tree_world = sample_world\<lparr>w_host := (w_host sample_world)\<lparr>lexists := (\<lambda>t. t = ''/w/.git'')\<rparr>\<rparr>"

theorem work_tree_search_stays_readable_witness:
  "work_tree_top tree_world sample_boundary ''/w/a/b'' = Some ''/w''
   \<and> check_path tree_world sample_boundary ''/w/a'' Reading plain_request = Permitted"
proof
  show found: "work_tree_top tree_world sample_boundary ''/w/a/b'' = Some ''/w''" by code_simp
  have w: "b_windows sample_boundary = False"
    using boundary_of_fields(3) [OF sample_built] by (simp add: sample_facts_def)
  have parts: "path_parts (b_windows sample_boundary) ''/w/a/b'' = (''/'', [''w'', ''a'', ''b''])"
    unfolding w by code_simp
  from work_tree_search_stays_readable [OF found parts] obtain n where n: "n \<le> 3"
    "''/w'' = parts_text False ''/'' (take n [''w'', ''a'', ''b''])"
    "\<forall>m. n < m \<and> m \<le> 3 \<longrightarrow> check_path tree_world sample_boundary
        (parts_text False ''/'' (take m [''w'', ''a'', ''b''])) Reading plain_request = Permitted"
    unfolding w by (auto simp: numeral_3_eq_3)
  have "n = 1"
  proof -
    have "n = 0 \<or> n = 1 \<or> n = 2 \<or> n = 3" using n(1) by auto
    then show ?thesis using n(2) by (auto simp: parts_text_def)
  qed
  moreover have "parts_text False ''/'' (take 2 [''w'', ''a'', ''b'']) = ''/w/a''" by code_simp
  ultimately show "check_path tree_world sample_boundary ''/w/a'' Reading plain_request = Permitted"
    using n(3) [rule_format, of 2] by simp
qed

subsection \<open>The life of the checker\<close>

text \<open>Over any sequence of checks and the shutdown: a closed checker stays closed and keeps no
  analyzer, and the analyzer made first serves every check until the shutdown.\<close>

theorem checker_lifecycle:
  assumes "checker_step\<^sup>*\<^sup>* new_checker s" "checker_step\<^sup>*\<^sup>* s t"
  shows "(ck_closed t \<longrightarrow> ck_analyzer t = None) \<and> (ck_closed s \<longrightarrow> ck_closed t)
    \<and> (\<forall>a. ck_analyzer s = Some a \<longrightarrow> \<not> ck_closed t \<longrightarrow> ck_analyzer t = Some a)"
proof -
  have "checker_ok (new_checker :: 'a checker)" by (simp add: checker_ok_def new_checker_def)
  then have "checker_ok t" using checker_inv.reachable_ok assms by blast
  then show ?thesis
    using checker_life.steps_ok [OF assms(2)] checker_life.steps_held [OF assms(2)]
    by (auto simp: checker_ok_def)
qed

definition no_plan :: "nat \<Rightarrow> string + command_plan" where
  "no_plan a = Inr (plan_of [])"

definition started :: "nat checker" where
  "started = fst (analyze (Inr 7) no_plan sample_boundary [] new_checker)"

theorem checker_lifecycle_witness:
  "ck_analyzer (fst (analyze (Inr 8) no_plan sample_boundary [] started)) = Some 7"
proof -
  have first: "checker_step\<^sup>*\<^sup>* new_checker started"
    unfolding started_def by (rule r_into_rtranclp [of checker_step, OF checker_step.asked])
  have next_one: "checker_step\<^sup>*\<^sup>* started (fst (analyze (Inr 8) no_plan sample_boundary [] started))"
    by (rule r_into_rtranclp [of checker_step, OF checker_step.asked])
  show ?thesis
    using checker_lifecycle [OF first next_one]
    unfolding started_def analyze_state new_checker_def by simp
qed

text \<open>After the shutdown every check of a restricted boundary refuses, whatever happened since, and
  changes nothing.\<close>

theorem closed_checker_refuses:
  assumes "checker_step\<^sup>*\<^sup>* (fst (aclose s)) t" "b_layers b \<noteq> []"
  shows "check_line rn b line run cwd refuse_command wp t = (t, unavailable b line ''vBot is shutting down'')
    \<and> check_argv rn b argv run cwd t = (t, unavailable b (join '' '' argv) ''vBot is shutting down'')
    \<and> unavailable b line ''vBot is shutting down'' \<noteq> Permitted"
proof -
  have "ck_closed t" using checker_life.steps_ok [OF assms(1)] by (simp add: aclose_def)
  note closed = analyze_closed [OF this]
  show ?thesis using assms(2) by (simp add: check_line_def check_argv_def closed unavailable_def)
qed

definition sample_runtime :: "nat runtime" where
  "sample_runtime = \<lparr>rn_world = sample_world, rn_factory = Inr 7, rn_root = ''/v'', rn_windows = False\<rparr>"

theorem closed_checker_refuses_witness:
  "snd (check_argv sample_runtime sample_boundary [''ls''] no_plan ''/w'' (fst (aclose started))) \<noteq> Permitted"
proof -
  have "checker_step\<^sup>*\<^sup>* (fst (aclose started)) (fst (aclose started))" by simp
  moreover have "b_layers sample_boundary \<noteq> []" by (simp add: sample_layers)
  ultimately show ?thesis
    using closed_checker_refuses [of started "fst (aclose started)" sample_boundary sample_runtime
        "''ls''" no_plan "''/w''" None False "[''ls'']"] by simp
qed

end
