(* ===== verification/Approvals.thy ===== *)
theory Approvals
  imports Checks Py_Path
begin

section \<open>Approval requirements\<close>

text \<open>
  \<open>core/permissions/_approval_access.py\<close>: the exact access an approval is asked for and its identity.
  The key of a requirement is the JSON text of every field but \<open>shown\<close>; the model takes those fields
  themselves, since two keys are equal exactly when the fields are. \<open>None\<close> stands for the
  \<open>ValueError\<close> of a path or URL that cannot be read. What the code asks the process for where a
  boundary has no facts of its own is the record \<open>machine\<close>.
\<close>

subsection \<open>Requirements\<close>

datatype approval_kind = Path_Approval | Command_Approval | Host_Approval | Url_Approval | Review_Approval

datatype approval_access = Accessing access | Reviewing

record requirement =
  ap_kind :: approval_kind
  ap_target :: string
  ap_access :: approval_access
  ap_computer :: string
  ap_resolved :: "string option"
  ap_subtree :: bool
  ap_glob :: "string option"
  ap_pruned :: "string list"
  ap_git :: bool
  ap_shell :: "string option"
  ap_cwd :: "string option"
  ap_identity :: "(string \<times> bool) list"
  ap_filtered :: bool
  ap_aliases :: "string list"
  ap_shown :: "string option"

record machine =
  mc_windows :: bool
  mc_cwd :: string
  mc_home :: string

definition plain_requirement :: "approval_kind \<Rightarrow> string \<Rightarrow> approval_access \<Rightarrow> string \<Rightarrow> requirement" where
  "plain_requirement k target a computer =
     \<lparr>ap_kind = k, ap_target = target, ap_access = a, ap_computer = computer, ap_resolved = None,
      ap_subtree = False, ap_glob = None, ap_pruned = [], ap_git = False, ap_shell = None,
      ap_cwd = None, ap_identity = [], ap_filtered = False, ap_aliases = [], ap_shown = None\<rparr>"

text \<open>\<open>key\<close>: the identity, without what is only shown.\<close>

definition identity :: "requirement \<Rightarrow> requirement" where
  "identity r = r\<lparr>ap_shown := None\<rparr>"

definition facts_windows :: "machine \<Rightarrow> boundary \<Rightarrow> bool" where
  "facts_windows mc b = (case b_context b of Some cx \<Rightarrow> cx_windows cx | None \<Rightarrow> mc_windows mc)"

definition path_requirement ::
  "world \<Rightarrow> machine \<Rightarrow> boundary \<Rightarrow> string \<Rightarrow> access \<Rightarrow> path_request \<Rightarrow> string \<Rightarrow> bool \<Rightarrow> requirement option" where
  "path_requirement w mc b path a rq computer filtered =
     (let windows = facts_windows mc b;
          workdir = (case b_context b of Some cx \<Rightarrow> cx_workdir cx | None \<Rightarrow> mc_cwd mc);
          folder = (case rq_base rq of None \<Rightarrow> workdir | Some t \<Rightarrow> if t = [] then workdir else t);
          home = (case b_context b of Some cx \<Rightarrow> cx_home cx | None \<Rightarrow> mc_home mc) in
      map_option (\<lambda>n.
          (plain_requirement Path_Approval (path_key windows (np_lexical n)) (Accessing a) computer)
            \<lparr>ap_resolved := Some (path_key windows (np_resolved n)), ap_subtree := rq_subtree rq,
             ap_glob := (case rq_glob rq of None \<Rightarrow> None
                         | Some g \<Rightarrow> if g = [] then None else Some (path_key windows g)),
             ap_pruned := sort (map (path_key windows) (rq_pruned rq)), ap_git := rq_git rq,
             ap_filtered := filtered, ap_shown := Some (np_lexical n)\<rparr>)
        (normalize_access_path (w_host w) windows folder home True path))"

text \<open>\<open>os.path.normcase\<close>.\<close>

definition normcase :: "bool \<Rightarrow> string \<Rightarrow> string" where
  "normcase windows t = (if windows then lower (replace_char (CHR ''/'') backslash t) else t)"

definition command_requirement ::
  "world \<Rightarrow> machine \<Rightarrow> string \<Rightarrow> string \<Rightarrow> string \<Rightarrow> string \<Rightarrow> (string \<times> bool) list \<Rightarrow> requirement" where
  "command_requirement w mc command shell cwd computer named =
     (plain_requirement Command_Approval command (Accessing Commanding) computer)
       \<lparr>ap_shell := Some shell, ap_cwd := Some (normcase (mc_windows mc) (realpath (w_host w) cwd)),
        ap_identity := named\<rparr>"

definition host_requirement :: "world \<Rightarrow> string \<Rightarrow> access \<Rightarrow> string \<Rightarrow> requirement" where
  "host_requirement w host a computer =
     (plain_requirement Host_Approval
        (case normalize_host (w_idna w) host of Some t \<Rightarrow> if t = [] then host else t | None \<Rightarrow> host)
        (Accessing a) computer)
       \<lparr>ap_aliases := host_forms (w_idna w) host\<rparr>"

text \<open>\<open>urlunsplit\<close> without a fragment.\<close>

definition uses_netloc :: "string list" where
  "uses_netloc =
     [[], ''ftp'', ''http'', ''gopher'', ''nntp'', ''telnet'', ''imap'', ''wais'', ''file'', ''mms'',
      ''https'', ''shttp'', ''snews'', ''prospero'', ''rtsp'', ''rtsps'', ''rtspu'', ''rsync'', ''svn'',
      ''svn+ssh'', ''sftp'', ''nfs'', ''git'', ''git+ssh'', ''ws'', ''wss'', ''itms-services'']"

definition urlunsplit :: "string \<Rightarrow> string \<Rightarrow> string \<Rightarrow> string \<Rightarrow> string" where
  "urlunsplit scheme netloc path query =
     (let url = (if netloc \<noteq> [] then ''//'' @ netloc @ (if path \<noteq> [] \<and> \<not> starts_with ''/'' path then ''/'' else []) @ path
                 else if starts_with ''//'' path then ''//'' @ path
                 else if scheme \<noteq> [] \<and> scheme \<in> set uses_netloc \<and> (path = [] \<or> starts_with ''/'' path)
                 then ''//'' @ path else path) in
      (if scheme = [] then [] else scheme @ '':'') @ url @ (if query = [] then [] else ''?'' @ query))"

definition url_requirement :: "world \<Rightarrow> string \<Rightarrow> string \<Rightarrow> requirement option" where
  "url_requirement w url computer =
     map_option (\<lambda>(parts, port).
         let name = url_hostname parts;
             host0 = (case normalize_host (w_idna w) name of Some t \<Rightarrow> if t = [] then name else t | None \<Rightarrow> name);
             host = (if CHR '':'' \<in> set host0 \<and> \<not> starts_with ''['' host0 then ''['' @ host0 @ '']'' else host0);
             scheme = lower (url_scheme parts);
             suffix = (case port of None \<Rightarrow> []
                       | Some n \<Rightarrow> if default_port scheme = Some n then [] else '':'' @ digits_of 10 n);
             (user, has_user, _) = rpartition_on (CHR ''@'') (url_netloc parts) in
         plain_requirement Url_Approval
           (urlunsplit scheme ((if has_user then user @ ''@'' else []) @ host @ suffix)
              (if url_path parts = [] then ''/'' else url_path parts) (url_query parts))
           (Accessing Fetching) computer)
       (url_parts url)"

definition review_requirement :: "string \<Rightarrow> string \<Rightarrow> requirement" where
  "review_requirement target computer = plain_requirement Review_Approval target Reviewing computer"

subsection \<open>What a rejection covers\<close>

text \<open>\<open>suppression_key\<close>: a link and its target, a command and its argument words, reading and working
  in a folder, and every URL of a host are rejected together.\<close>

definition suppressed_access :: "requirement \<Rightarrow> approval_access" where
  "suppressed_access r =
     (if ap_kind r = Path_Approval \<and> ap_access r = Accessing Start_Dir then Accessing Reading
      else if ap_kind r = Host_Approval \<and> ap_access r = Accessing Connecting then Accessing Fetching
      else ap_access r)"

definition plain_suppression :: "requirement \<Rightarrow> requirement" where
  "plain_suppression r =
     identity (r\<lparr>ap_target := (if ap_kind r = Command_Approval \<and> ap_identity r \<noteq> [] then []
                              else or_text (ap_resolved r) (ap_target r)),
                 ap_resolved := None, ap_access := suppressed_access r\<rparr>)"

definition suppression_key :: "world \<Rightarrow> requirement \<Rightarrow> requirement option" where
  "suppression_key w r =
     (if ap_kind r = Url_Approval
      then map_option (\<lambda>u. plain_suppression
                            (host_requirement w (url_hostname u) Fetching (ap_computer r)))
             (urlsplit (ap_target r))
      else Some (plain_suppression r))"

definition suppression_keys :: "world \<Rightarrow> requirement \<Rightarrow> requirement list option" where
  "suppression_keys w r =
     map_option_list (suppression_key w)
       (r # (if ap_kind r = Path_Approval \<and> ap_access r = Accessing Writing
             then [r\<lparr>ap_access := Accessing Reading\<rparr>] else []))"

subsection \<open>The grant of one call\<close>

text \<open>\<open>PermissionGrant\<close>: an overlay over a boundary with the keys approved so far.\<close>

record grant =
  gr_boundary :: boundary
  gr_computer :: string
  gr_approved :: "requirement set"

definition approve :: "requirement list \<Rightarrow> grant \<Rightarrow> grant" where
  "approve rs g = g\<lparr>gr_approved := gr_approved g \<union> set (map identity rs)\<rparr>"

definition grant_permits :: "grant \<Rightarrow> requirement \<Rightarrow> bool" where
  "grant_permits g r \<longleftrightarrow> identity r \<in> gr_approved g"

definition missing :: "verdict \<Rightarrow> bool" where
  "missing v \<longleftrightarrow> (case v of Refused r \<Rightarrow> rf_reason r = Not_Permitted | _ \<Rightarrow> False)"

definition grant_check_path ::
  "world \<Rightarrow> machine \<Rightarrow> grant \<Rightarrow> string \<Rightarrow> access \<Rightarrow> path_request \<Rightarrow> verdict" where
  "grant_check_path w mc g path a rq =
     (let v = check_path w (gr_boundary g) path a rq in
      if \<not> missing v then v
      else (case path_requirement w mc (gr_boundary g) path a rq (gr_computer g) False of
              None \<Rightarrow> Raised
            | Some r \<Rightarrow>
                if grant_permits g r then Permitted
                else if a = Reading \<and> \<not> rq_subtree rq \<and> rq_glob rq = None
                        \<and> grant_permits g (r\<lparr>ap_subtree := True, ap_filtered := True\<rparr>)
                then Permitted else v))"

text \<open>The resolved form of a requirement, or its target.\<close>

definition resolved_target :: "requirement \<Rightarrow> string" where
  "resolved_target r = or_text (ap_resolved r) (ap_target r)"

definition plain_base :: "string option \<Rightarrow> path_request" where
  "plain_base base = plain_request\<lparr>rq_base := base\<rparr>"

definition only_denials :: "string option \<Rightarrow> path_request" where
  "only_denials base = plain_request\<lparr>rq_base := base, rq_deny_only := True\<rparr>"

text \<open>Directly inside: one more segment, and nothing else.\<close>

definition entry_of :: "requirement \<Rightarrow> requirement \<Rightarrow> bool" where
  "entry_of candidate folder \<longleftrightarrow>
     (let prefix = rstrip_char (CHR ''/'') (ap_target folder) @ ''/'';
          relative = remove_prefix prefix (ap_target candidate) in
      \<not> (relative = ap_target candidate \<or> CHR ''/'' \<in> set relative \<or> relative = [])
      \<and> is_inside (resolved_target candidate) (resolved_target folder))"

text \<open>\<open>output_write_allowed\<close>, \<open>listing_read_allowed\<close> and \<open>search_read_allowed\<close>; \<open>None\<close> where a path
  raises.\<close>

definition within_approved ::
  "world \<Rightarrow> machine \<Rightarrow> grant \<Rightarrow> access \<Rightarrow> string \<Rightarrow> string \<Rightarrow> string option \<Rightarrow> requirement option \<Rightarrow>
     (requirement \<Rightarrow> requirement \<Rightarrow> bool) \<Rightarrow> bool option" where
  "within_approved w mc g a path folder base approved inside =
     (case approved of None \<Rightarrow> None
      | Some f \<Rightarrow>
          if \<not> grant_permits g f then Some False
          else (case path_requirement w mc (gr_boundary g) path a (plain_base base) (gr_computer g) False of
                  None \<Rightarrow> None
                | Some candidate \<Rightarrow>
                    if \<not> inside candidate f then Some False
                    else (case check_path w (gr_boundary g) path a (only_denials base) of
                            Permitted \<Rightarrow> Some True | Refused _ \<Rightarrow> Some False | Raised \<Rightarrow> None)))"

definition output_write_allowed ::
  "world \<Rightarrow> machine \<Rightarrow> grant \<Rightarrow> string \<Rightarrow> string \<Rightarrow> string option \<Rightarrow> bool option" where
  "output_write_allowed w mc g path folder base =
     within_approved w mc g Writing path folder base
       (path_requirement w mc (gr_boundary g) folder Writing (plain_base base) (gr_computer g) False)
       entry_of"

definition listing_read_allowed ::
  "world \<Rightarrow> machine \<Rightarrow> grant \<Rightarrow> string \<Rightarrow> string \<Rightarrow> string option \<Rightarrow> bool option" where
  "listing_read_allowed w mc g path folder base =
     within_approved w mc g Reading path folder base
       (path_requirement w mc (gr_boundary g) folder Reading (plain_base base) (gr_computer g) False)
       entry_of"

definition below_root :: "requirement \<Rightarrow> requirement \<Rightarrow> bool" where
  "below_root candidate f \<longleftrightarrow>
     is_inside (ap_target candidate) (ap_target f)
     \<and> is_inside (resolved_target candidate) (resolved_target f)"

definition search_read_allowed ::
  "world \<Rightarrow> machine \<Rightarrow> grant \<Rightarrow> string \<Rightarrow> string \<Rightarrow> string option \<Rightarrow> bool option" where
  "search_read_allowed w mc g path folder base =
     within_approved w mc g Reading path folder base
       (path_requirement w mc (gr_boundary g) folder Reading
          ((plain_base base)\<lparr>rq_subtree := True\<rparr>) (gr_computer g) True)
       below_root"

definition grant_check_url :: "world \<Rightarrow> grant \<Rightarrow> string \<Rightarrow> bool \<Rightarrow> verdict" where
  "grant_check_url w g url by_program =
     (let v = check_url w (gr_boundary g) url by_program in
      if \<not> missing v then v
      else (case url_requirement w url (gr_computer g) of
              None \<Rightarrow> Raised | Some r \<Rightarrow> if grant_permits g r then Permitted else v))"

definition grant_check_host :: "world \<Rightarrow> grant \<Rightarrow> string \<Rightarrow> access \<Rightarrow> bool \<Rightarrow> verdict" where
  "grant_check_host w g host a by_program =
     (let v = check_host w (gr_boundary g) host a by_program in
      if \<not> missing v then v
      else if grant_permits g (host_requirement w host a (gr_computer g)) then Permitted else v)"

end
