(* ===== verification/Session_Grants.thy ===== *)
theory Session_Grants
  imports Approvals Command_Patterns
begin

section \<open>Session Grants\<close>

text \<open>
  \<open>core/permissions/_session_grants.py\<close>: the rules an approval request offers to remember for the
  Session. \<open>is_dir\<close> is the probe that tells a folder from a file. A rule text that is no rule makes a
  proposal uncovered; the \<open>ValueError\<close> that passes through everything is \<open>None\<close>.
\<close>

record grant_suggestion =
  gs_rules :: "string list"
  gs_exact :: "string list option"

datatype grants_error = Not_A_Grant_List | Bad_Grant rule_problem | Not_A_Grant permission_rule

definition grant_kinds :: "rule_kind list" where
  "grant_kinds = [Read, Edit, Shell, Web]"

subsection \<open>Stored grants\<close>

fun grant_items :: "idna \<Rightarrow> bool \<Rightarrow> pyval list \<Rightarrow> grants_error + permission_rule list" where
  "grant_items idn windows [] = Inr []"
| "grant_items idn windows (PStr t # vs) =
     (case parse_permission_rule idn windows t of
        Inl e \<Rightarrow> Inl (Bad_Grant e)
      | Inr r \<Rightarrow>
          if kind r \<notin> set grant_kinds then Inl (Not_A_Grant r)
          else (case grant_items idn windows vs of Inl e \<Rightarrow> Inl e | Inr rs \<Rightarrow> Inr (r # rs)))"
| "grant_items idn windows (_ # vs) = Inl Not_A_Grant_List"

definition normalize_session_grants :: "idna \<Rightarrow> bool \<Rightarrow> pyval \<Rightarrow> grants_error + permission_rule list" where
  "normalize_session_grants idn windows v =
     (case v of
        PList vs \<Rightarrow> (case grant_items idn windows vs of Inl e \<Rightarrow> Inl e | Inr rs \<Rightarrow> Inr (dedup rs))
      | _ \<Rightarrow> Inl Not_A_Grant_List)"

subsection \<open>Proposals\<close>

text \<open>The default rules and the exact ones; no proposal, or no exact rule, is \<open>None\<close>.\<close>

type_synonym proposal = "string list \<times> string list option"

definition too_wide :: "bool \<Rightarrow> string \<Rightarrow> lexical_path \<Rightarrow> bool option" where
  "too_wide windows home folder =
     (if segments folder = [] then Some True
      else map_option (\<lambda>h. path_key windows (path_text folder) = path_key windows (path_text h))
             (split_lexical windows home))"

definition rule_for :: "rule_kind \<Rightarrow> lexical_path \<Rightarrow> string" where
  "rule_for k p = rule_text \<lparr>kind = k, pattern = path_text p\<rparr>"

definition requirement_forms :: "requirement \<Rightarrow> string list" where
  "requirement_forms r =
     or_text (ap_shown r) (ap_target r) #
     (case ap_resolved r of
        Some t \<Rightarrow> if t \<noteq> [] \<and> t \<noteq> ap_target r then [t] else [] | None \<Rightarrow> [])"

text \<open>The folder a path rule grants: the path itself where the access reaches below it, otherwise the
  folder it lies in, unless that is too wide.\<close>

definition granted_folder ::
  "bool \<Rightarrow> string \<Rightarrow> (string \<Rightarrow> bool) \<Rightarrow> requirement \<Rightarrow> string \<Rightarrow> lexical_path \<Rightarrow> lexical_path option" where
  "granted_folder windows home is_dir r t p =
     (let whole = ap_subtree r \<or> ap_glob r \<noteq> None \<or> ap_access r = Accessing Start_Dir
                  \<or> (ap_computer r = ''server'' \<and> is_dir t);
          folder = (if whole \<or> segments p = [] then p
                    else \<lparr>root = root p, segments = butlast (segments p), unsafe = None\<rparr>) in
      map_option (\<lambda>wide. if wide then p else folder) (too_wide windows home folder))"

text \<open>One form of a path; the inner \<open>None\<close> is a form no rule can name.\<close>

definition form_rules ::
  "bool \<Rightarrow> string \<Rightarrow> (string \<Rightarrow> bool) \<Rightarrow> requirement \<Rightarrow> string \<Rightarrow> (string \<times> string) option option" where
  "form_rules windows home is_dir r t =
     (if has_wildcard t then Some None
      else Option.bind (split_lexical windows t) (\<lambda>p.
             if \<not> absolute p \<or> unsafe p \<noteq> None then Some None
             else map_option (\<lambda>folder.
                    let k = (if ap_access r = Accessing Writing then Edit else Read) in
                    Some (rule_for k folder, rule_for k p))
                  (granted_folder windows home is_dir r t p)))"

fun path_rules ::
  "bool \<Rightarrow> string \<Rightarrow> (string \<Rightarrow> bool) \<Rightarrow> requirement \<Rightarrow> string list \<Rightarrow>
     (string \<times> string) list option option" where
  "path_rules windows home is_dir r [] = Some (Some [])"
| "path_rules windows home is_dir r (t # ts) =
     (case form_rules windows home is_dir r t of
        None \<Rightarrow> None
      | Some None \<Rightarrow> Some None
      | Some (Some pair) \<Rightarrow> map_option (map_option ((#) pair)) (path_rules windows home is_dir r ts))"

definition plain_word :: "string \<Rightarrow> bool" where
  "plain_word t \<longleftrightarrow> t \<noteq> [] \<and> \<not> list_ex is_space t \<and> CHR ''*'' \<notin> set t"

definition command_rules :: "requirement \<Rightarrow> proposal option" where
  "command_rules r =
     (case ap_identity r of
        [] \<Rightarrow> None
      | (name, static) # more_words \<Rightarrow>
          if \<not> static \<or> \<not> plain_word name then None
          else (let scoped = (case more_words of
                                (t, s) # _ \<Rightarrow>
                                  if s \<and> plain_word t \<and> \<not> starts_with ''-'' t then name @ '' '' @ t else name
                              | [] \<Rightarrow> name) in
                Some ([''Shell('' @ scoped @ '' *)''],
                      if list_all (\<lambda>(t, s). s \<and> plain_word t) more_words
                      then Some [''Shell('' @ join '' '' (name # map fst more_words) @ '')''] else None)))"

definition host_of :: "requirement \<Rightarrow> string option" where
  "host_of r =
     (if ap_kind r = Host_Approval then Some (ap_target r)
      else map_option (\<lambda>u. let h = url_hostname u in
                         if CHR '':'' \<in> set h then ''['' @ h @ '']'' else h)
             (urlsplit (ap_target r)))"

definition proposed ::
  "bool \<Rightarrow> string \<Rightarrow> (string \<Rightarrow> bool) \<Rightarrow> requirement \<Rightarrow> proposal option option" where
  "proposed windows home is_dir r =
     (case ap_kind r of
        Path_Approval \<Rightarrow>
          map_option (map_option (\<lambda>pairs. (map fst pairs, Some (map snd pairs))))
            (path_rules windows home is_dir r (requirement_forms r))
      | Command_Approval \<Rightarrow> Some (command_rules r)
      | Review_Approval \<Rightarrow> Some None
      | _ \<Rightarrow> map_option (\<lambda>h. if h = [] then None
                              else Some ([''Web('' @ h @ '')''], Some [''Web('' @ h @ '')'']))
               (host_of r))"

subsection \<open>What a proposal permits\<close>

definition check_forms :: "world \<Rightarrow> boundary \<Rightarrow> requirement \<Rightarrow> access \<Rightarrow> verdict list" where
  "check_forms w b r a =
     map (\<lambda>t. check_path w b t a
            (plain_request\<lparr>rq_subtree := ap_subtree r \<and> \<not> ap_filtered r, rq_glob := ap_glob r,
                          rq_pruned := ap_pruned r, rq_git := ap_git r\<rparr>))
       (requirement_forms r)"

fun all_permitted :: "verdict list \<Rightarrow> bool option" where
  "all_permitted [] = Some True"
| "all_permitted (v # vs) =
     (case v of Permitted \<Rightarrow> all_permitted vs | Refused _ \<Rightarrow> Some False | Raised \<Rightarrow> None)"

definition shell_of :: "requirement \<Rightarrow> shell_kind" where
  "shell_of r =
     (if ap_shell r = Some ''powershell'' then Power_Shell
      else if ap_shell r = Some ''cmd'' then Cmd else Bash)"

definition requirement_command :: "requirement \<Rightarrow> simple_command option" where
  "requirement_command r =
     (case ap_identity r of [] \<Rightarrow> None
      | (name, _) # more_words \<Rightarrow>
          Some \<lparr>sc_name = name, sc_words = map (\<lambda>(t, s). \<lparr>cw_text = t, cw_static = s\<rparr>) more_words,
                sc_source = ap_target r, sc_shell = shell_of r\<rparr>)"

fun every_option :: "('a \<Rightarrow> bool option) \<Rightarrow> 'a list \<Rightarrow> bool option" where
  "every_option f [] = Some True"
| "every_option f (x # xs) =
     (case f x of None \<Rightarrow> None | Some False \<Rightarrow> Some False | Some True \<Rightarrow> every_option f xs)"

definition permits_requirement :: "world \<Rightarrow> bool \<Rightarrow> boundary \<Rightarrow> requirement \<Rightarrow> bool option" where
  "permits_requirement w windows b r =
     (case ap_kind r of
        Path_Approval \<Rightarrow>
          (case ap_access r of
             Accessing Writing \<Rightarrow> all_permitted (check_forms w b r Writing)
           | Accessing Start_Dir \<Rightarrow> all_permitted (check_forms w b r Start_Dir)
           | Accessing Reading \<Rightarrow> all_permitted (check_forms w b r Reading)
           | _ \<Rightarrow> Some False)
      | Host_Approval \<Rightarrow>
          all_permitted [check_host w b (ap_target r)
            (if ap_access r = Accessing Connecting then Connecting else Fetching) True]
      | Url_Approval \<Rightarrow> all_permitted [check_url w b (ap_target r) True]
      | Command_Approval \<Rightarrow>
          Option.bind (requirement_command r) (\<lambda>c.
            every_option (\<lambda>l. any_option (\<lambda>p. command_pattern_matches windows p c windows) (shell_allow l))
              (filter (\<lambda>l. ly_commands l = Listed) (b_layers b)))
      | Review_Approval \<Rightarrow> Some False)"

definition covers ::
  "world \<Rightarrow> bool \<Rightarrow> boundary \<Rightarrow> string list \<Rightarrow> requirement list \<Rightarrow> bool option" where
  "covers w windows b texts rs =
     (case map_result (parse_permission_rule (w_idna w) windows) texts of
        Inl Escaped \<Rightarrow> None
      | Inl _ \<Rightarrow> Some False
      | Inr rules \<Rightarrow>
          (case with_agent_allow w b rules of
             None \<Rightarrow> None
           | Some None \<Rightarrow> Some False
           | Some (Some candidate) \<Rightarrow> every_option (permits_requirement w windows candidate) rs))"

subsection \<open>The suggestion\<close>

text \<open>The collected default rules and, while every proposal has them, the exact ones. Rules of one
  proposal are added where they are not listed yet.\<close>

definition add_new :: "string list \<Rightarrow> string list \<Rightarrow> string list" where
  "add_new xs new = foldl (\<lambda>acc t. if t \<in> set acc then acc else acc @ [t]) xs new"

fun gather ::
  "proposal option option list \<Rightarrow> string list \<Rightarrow> string list \<Rightarrow> bool \<Rightarrow>
     (string list \<times> string list \<times> bool) option option" where
  "gather [] base_rules exact possible = Some (Some (base_rules, exact, possible))"
| "gather (None # ps) base_rules exact possible = None"
| "gather (Some None # ps) base_rules exact possible = Some None"
| "gather (Some (Some (scoped, only)) # ps) base_rules exact possible =
     gather ps (add_new base_rules scoped)
       (case only of None \<Rightarrow> exact | Some t \<Rightarrow> add_new exact t) (possible \<and> only \<noteq> None)"

definition suggest_session_grants ::
  "world \<Rightarrow> machine \<Rightarrow> boundary \<Rightarrow> requirement list \<Rightarrow> (string \<Rightarrow> bool) \<Rightarrow> grant_suggestion option option" where
  "suggest_session_grants w mc b rs is_dir =
     (if rs = [] then Some None
      else (let windows = facts_windows mc b in
        case with_agent_allow w b [] of
          None \<Rightarrow> None
        | Some None \<Rightarrow> Some None
        | Some (Some _) \<Rightarrow>
            (case gather (map (proposed windows (mc_home mc) is_dir) rs) [] [] True of
               None \<Rightarrow> None
             | Some None \<Rightarrow> Some None
             | Some (Some (base_rules, exact, possible)) \<Rightarrow>
                 (case covers w windows b base_rules rs of
                    None \<Rightarrow> None
                  | Some False \<Rightarrow> Some None
                  | Some True \<Rightarrow>
                      if possible \<and> exact \<noteq> base_rules
                      then map_option (\<lambda>c. Some \<lparr>gs_rules = base_rules, gs_exact = (if c then Some exact else None)\<rparr>)
                             (covers w windows b exact rs)
                      else Some (Some \<lparr>gs_rules = base_rules, gs_exact = None\<rparr>)))))"

end
