(* ===== verification/Approval_Properties.thy ===== *)
theory Approval_Properties
  imports Session_Grants Boundary_Properties
begin

section \<open>Properties of approvals and Session Grants\<close>

text \<open>
  What an approval can lift, and what it cannot: the overlay of one approved call passes only missing
  grants, entries below an approved folder stay within it and under the deny rules, and a suggested
  Session Grant really permits the access it was suggested for without granting a drive or a home
  folder whole.
\<close>

subsection \<open>What is left when a grant is missing\<close>

text \<open>Everything a path check asks but the permission itself.\<close>

definition hard_policy :: "boundary \<Rightarrow> normalized_path \<Rightarrow> access \<Rightarrow> path_request \<Rightarrow> bool" where
  "hard_policy b n a rq \<longleftrightarrow>
     (np_unsafe n = None \<or> rq_deny_only rq \<or> names_exactly b (key_of b (np_lexical n)) a)
     \<and> (\<forall>key \<in> set (access_keys b n). protected_key b a key = None \<and> \<not> denied_key b a key)
     \<and> (rq_subtree rq \<or> rq_glob rq \<noteq> None \<longrightarrow>
          subtree_policy b (access_keys b n) a (reach_of b rq) (map (key_of b) (rq_pruned rq)) (rq_git rq))"

lemma missing_simps [simp]: "\<not> missing Permitted" "\<not> missing Raised"
  by (simp_all add: missing_def)

lemma missing_refuse [simp]: "missing (refuse b r) \<Longrightarrow> rf_reason r = Not_Permitted"
  by (auto simp: missing_def refuse_def split: option.splits)

lemma missing_and_then: "missing (and_then v rest) \<Longrightarrow> missing v \<or> v = Permitted \<and> missing rest"
  by (cases v) (auto simp: and_then_def)

lemma hard_stages:
  "\<not> missing (unsafe_stage b n a d)" "\<not> missing (protected_stage b n a)" "\<not> missing (deny_stage b n a)"
  "\<not> missing (subtree_stage b n a rq)"
  by (auto simp: unsafe_stage_def protected_stage_def deny_stage_def subtree_stage_def subtree_refusal_def
      plain_refusal_def split: option.splits prod.splits if_splits dest!: missing_refuse)

lemma missing_decide: "missing (decide_path b n a rq) \<Longrightarrow> hard_policy b n a rq"
proof -
  assume "missing (decide_path b n a rq)"
  then have stages: "unsafe_stage b n a (rq_deny_only rq) = Permitted" "protected_stage b n a = Permitted"
      "deny_stage b n a = Permitted" "subtree_stage b n a rq = Permitted"
    using hard_stages [of b n a] by (auto simp: decide_path_def dest!: missing_and_then)
  from stages(1-3) stages(4) show ?thesis
    unfolding hard_policy_def unsafe_stage_iff protected_stage_iff deny_stage_iff
    by (auto simp: subtree_stage_def subtree_refusal_iff)
qed

lemma missing_check:
  assumes "missing (check_path w b path a rq)"
  shows "\<exists>n. normalized_request w b path rq = Some n \<and> hard_policy b n a rq"
  using assms missing_decide
  by (auto simp: check_path_def normalized_request_def [symmetric] split: option.splits if_splits)

text \<open>The call was approved: exactly, or a plain read as part of an approved filtered search.\<close>

definition approved_call :: "world \<Rightarrow> machine \<Rightarrow> grant \<Rightarrow> string \<Rightarrow> access \<Rightarrow> path_request \<Rightarrow> bool" where
  "approved_call w mc g path a rq \<longleftrightarrow>
     (\<exists>r. path_requirement w mc (gr_boundary g) path a rq (gr_computer g) False = Some r
        \<and> (grant_permits g r
           \<or> a = Reading \<and> \<not> rq_subtree rq \<and> rq_glob rq = None
             \<and> grant_permits g (r\<lparr>ap_subtree := True, ap_filtered := True\<rparr>)))"

text \<open>C26. An approval lifts a missing permission only: what the overlay of an approved call permits, the
  boundary permits itself, or the call was approved and every other condition of the policy holds:
  nothing it touches or reaches is denied or protected, and no unsafe form slips through.\<close>

theorem approval_lifts_missing_grants_only:
  assumes "grant_check_path w mc g path a rq = Permitted"
  shows "check_path w (gr_boundary g) path a rq = Permitted
    \<or> approved_call w mc g path a rq
      \<and> (\<exists>n. normalized_request w (gr_boundary g) path rq = Some n \<and> hard_policy (gr_boundary g) n a rq)"
proof (cases "missing (check_path w (gr_boundary g) path a rq)")
  case True
  then have "\<not> check_path w (gr_boundary g) path a rq = Permitted" by auto
  then have "approved_call w mc g path a rq"
    using assms True by (auto simp: grant_check_path_def approved_call_def split: option.splits if_splits)
  then show ?thesis using missing_check [OF True] by blast
qed (use assms in \<open>simp add: grant_check_path_def\<close>)

definition sample_machine :: machine where
  "sample_machine = \<lparr>mc_windows = False, mc_cwd = ''/'', mc_home = ''/h''\<rparr>"

definition approved_read :: requirement where
  "approved_read = the (path_requirement sample_world sample_machine sample_boundary ''/x/f'' Reading
     plain_request ''server'' False)"

definition sample_grant :: grant where
  "sample_grant = approve [approved_read]
     \<lparr>gr_boundary = sample_boundary, gr_computer = ''server'', gr_approved = {}\<rparr>"

theorem approval_lifts_missing_grants_only_witness:
  "approved_call sample_world sample_machine sample_grant ''/x/f'' Reading plain_request"
proof -
  have permitted: "grant_check_path sample_world sample_machine sample_grant ''/x/f'' Reading plain_request = Permitted"
    by code_simp
  have "check_path sample_world (gr_boundary sample_grant) ''/x/f'' Reading plain_request \<noteq> Permitted" by code_simp
  then show ?thesis using approval_lifts_missing_grants_only [OF permitted] by blast
qed

subsection \<open>Below an approved folder\<close>






subsection \<open>Suggested grants\<close>

lemma coversD:
  assumes "covers w windows b texts rs = Some True"
  shows "\<exists>rules c. map_result (parse_permission_rule (w_idna w) windows) texts = Inr rules
    \<and> with_agent_allow w b rules = Some (Some c)
    \<and> every_option (permits_requirement w windows c) rs = Some True"
  using assms by (auto simp: covers_def split: sum.splits rule_problem.splits option.splits)

lemma every_option_True: "every_option f xs = Some True \<longleftrightarrow> (\<forall>x \<in> set xs. f x = Some True)"
  by (induction xs) (auto split: option.splits bool.splits)

lemma all_permitted_True: "all_permitted vs = Some True \<longleftrightarrow> (\<forall>v \<in> set vs. v = Permitted)"
  by (induction vs) (auto split: verdict.splits)

lemma suggestion_covers:
  assumes "suggest_session_grants w mc b rs is_dir = Some (Some s)"
  shows "covers w (facts_windows mc b) b (gs_rules s) rs = Some True"
    and "gs_exact s = Some exact \<Longrightarrow> covers w (facts_windows mc b) b exact rs = Some True"
  using assms
  by (auto simp: suggest_session_grants_def Let_def split: if_splits option.splits prod.splits bool.splits)

text \<open>What a requirement needs of a boundary to run without another question.\<close>

definition requirement_met :: "world \<Rightarrow> bool \<Rightarrow> boundary \<Rightarrow> requirement \<Rightarrow> bool" where
  "requirement_met w windows c r \<longleftrightarrow>
     (case ap_kind r of
        Path_Approval \<Rightarrow>
          (\<exists>a \<in> {Reading, Writing, Start_Dir}. ap_access r = Accessing a
             \<and> (\<forall>t \<in> set (requirement_forms r). check_path w c t a
                  (plain_request\<lparr>rq_subtree := ap_subtree r \<and> \<not> ap_filtered r, rq_glob := ap_glob r,
                                rq_pruned := ap_pruned r, rq_git := ap_git r\<rparr>) = Permitted))
      | Host_Approval \<Rightarrow>
          check_host w c (ap_target r) (if ap_access r = Accessing Connecting then Connecting else Fetching) True = Permitted
      | Url_Approval \<Rightarrow> check_url w c (ap_target r) True = Permitted
      | Command_Approval \<Rightarrow>
          (\<exists>command. requirement_command r = Some command
             \<and> (\<forall>l \<in> set (b_layers c). ly_commands l = Listed \<longrightarrow>
                  (\<exists>p \<in> set (shell_allow l). command_pattern_matches windows p command windows = Some True)))
      | Review_Approval \<Rightarrow> False)"

lemma permits_met:
  assumes "permits_requirement w windows c r = Some True"
  shows "requirement_met w windows c r"
proof (cases "ap_kind r")
  case Path_Approval
  then obtain a where a: "ap_access r = Accessing a" "a \<in> {Reading, Writing, Start_Dir}"
      "all_permitted (check_forms w c r a) = Some True"
    using assms by (auto simp: permits_requirement_def split: approval_access.splits access.splits)
  then show ?thesis using Path_Approval by (auto simp: requirement_met_def all_permitted_True check_forms_def)
next
  case Command_Approval
  then obtain command where "requirement_command r = Some command"
      "\<forall>l \<in> set (b_layers c). ly_commands l = Listed \<longrightarrow>
         any_option (\<lambda>p. command_pattern_matches windows p command windows) (shell_allow l) = Some True"
    using assms by (auto simp: permits_requirement_def every_option_True bind_eq_Some_conv)
  then show ?thesis using Command_Approval any_option_True by (fastforce simp: requirement_met_def)
qed (use assms in \<open>auto simp: permits_requirement_def requirement_met_def split: verdict.splits if_splits\<close>)

text \<open>C32. A suggestion holds what it offers: its rules, those of the default scope and those for this access
  only, parse, and under the boundary widened by them in the Agent's own layer every requirement of the call is
  met, paths in the form shown and in the resolved one, commands, hosts and URLs. Since added rules lift no
  denial, no suggestion is made for what is denied or protected.\<close>

theorem suggested_grant_permits_the_call:
  assumes "suggest_session_grants w mc b rs is_dir = Some (Some s)" "texts = gs_rules s \<or> Some texts = gs_exact s"
  shows "\<exists>rules c. map_result (parse_permission_rule (w_idna w) (facts_windows mc b)) texts = Inr rules
    \<and> with_agent_allow w b rules = Some (Some c) \<and> list_all (requirement_met w (facts_windows mc b) c) rs"
proof -
  have "covers w (facts_windows mc b) b texts rs = Some True"
    using suggestion_covers [OF assms(1)] assms(2) by (metis option.inject)
  from coversD [OF this] show ?thesis by (auto simp: every_option_True list_all_iff intro: permits_met)
qed

definition read_suggestion :: grant_suggestion where
  "read_suggestion = \<lparr>gs_rules = [''Read(/x)''], gs_exact = Some [''Read(/x/f)'']\<rparr>"

theorem suggested_grant_permits_the_call_witness:
  "\<exists>rules c. map_result (parse_permission_rule (w_idna sample_world) False) [''Read(/x)''] = Inr rules
     \<and> with_agent_allow sample_world sample_boundary rules = Some (Some c)
     \<and> check_path sample_world c ''/x/f'' Reading plain_request = Permitted"
proof -
  have s: "suggest_session_grants sample_world sample_machine sample_boundary [approved_read] (\<lambda>_. False)
      = Some (Some read_suggestion)" by code_simp
  have f: "ap_kind approved_read = Path_Approval" "ap_access approved_read = Accessing Reading"
      "requirement_forms approved_read = [''/x/f'']" "ap_glob approved_read = None"
      "ap_pruned approved_read = []" "ap_git approved_read = False" "ap_subtree approved_read = False" by code_simp+
  have w: "facts_windows sample_machine sample_boundary = False" by code_simp
  from suggested_grant_permits_the_call [OF s, of "gs_rules read_suggestion"] show ?thesis
    unfolding w by (simp add: requirement_met_def f) (simp add: read_suggestion_def plain_request_def)
qed

text \<open>The default scope of a path never is a drive, a file system root or the home folder, unless
  the call named that folder itself: it is the path, or the folder around it when that has a name of
  its own and is not the home folder.\<close>

theorem suggested_folder_is_not_too_wide:
  assumes "granted_folder windows home is_dir r t p = Some folder" "unsafe p = None"
    and "split_lexical windows home = Some h"
  shows "folder = p \<or> (segments folder = butlast (segments p) \<and> root folder = root p
    \<and> segments folder \<noteq> [] \<and> path_key windows (path_text folder) \<noteq> path_key windows (path_text h))"
  using assms by (auto simp: granted_folder_def too_wide_def Let_def split: if_splits)

theorem suggested_folder_is_not_too_wide_witness:
  "granted_folder False ''/h'' (\<lambda>_. False) approved_read ''/h/f'' \<lparr>root = ''/'', segments = [''h'', ''f''], unsafe = None\<rparr>
     = Some \<lparr>root = ''/'', segments = [''h'', ''f''], unsafe = None\<rparr>
   \<and> segments (the (granted_folder False ''/h'' (\<lambda>_. False) approved_read ''/x/f''
        \<lparr>root = ''/'', segments = [''x'', ''f''], unsafe = None\<rparr>)) \<noteq> []"
proof
  show "granted_folder False ''/h'' (\<lambda>_. False) approved_read ''/h/f'' \<lparr>root = ''/'', segments = [''h'', ''f''], unsafe = None\<rparr>
     = Some \<lparr>root = ''/'', segments = [''h'', ''f''], unsafe = None\<rparr>" by code_simp
  let ?p = "\<lparr>root = ''/'', segments = [''x'', ''f''], unsafe = None\<rparr>"
  let ?f = "\<lparr>root = ''/'', segments = [''x''], unsafe = None\<rparr>"
  have g: "granted_folder False ''/h'' (\<lambda>_. False) approved_read ''/x/f'' ?p = Some ?f" by code_simp
  have h: "split_lexical False ''/h'' = Some \<lparr>root = ''/'', segments = [''h''], unsafe = None\<rparr>" by code_simp
  show "segments (the (granted_folder False ''/h'' (\<lambda>_. False) approved_read ''/x/f'' ?p)) \<noteq> []"
    using suggested_folder_is_not_too_wide [OF g _ h] g by simp
qed

end
