(* ===== verification/Py_Glob.thy ===== *)
theory Py_Glob
  imports Py_Path
begin

section \<open>Matching a path against a glob pattern\<close>

text \<open>
  \<open>PurePosixPath.full_match\<close>: \<open>glob.translate\<close> with \<open>recursive\<close> and hidden names, the parts of the
  pattern translated by \<open>fnmatch\<close>. Both sides are the texts of their \<open>pathlib\<close> paths, an empty path
  being the empty text. The translated expression is a list of items.
\<close>

datatype glob_item = One char | Name_Char | Name_Star | Class bool "(nat \<times> nat) list" | Dirs | Rest

definition in_class :: "(nat \<times> nat) list \<Rightarrow> char \<Rightarrow> bool" where
  "in_class ranges c \<longleftrightarrow> list_ex (\<lambda>(a, b). a \<le> code c \<and> code c \<le> b) ranges"

fun items_match :: "glob_item list \<Rightarrow> string \<Rightarrow> bool" where
  "items_match [] s \<longleftrightarrow> s = []"
| "items_match (One c # ts) s \<longleftrightarrow> (case s of [] \<Rightarrow> False | d # s' \<Rightarrow> d = c \<and> items_match ts s')"
| "items_match (Name_Char # ts) s \<longleftrightarrow>
     (case s of [] \<Rightarrow> False | d # s' \<Rightarrow> d \<noteq> CHR ''/'' \<and> items_match ts s')"
| "items_match (Class negated ranges # ts) s \<longleftrightarrow>
     (case s of [] \<Rightarrow> False | d # s' \<Rightarrow> negated \<noteq> in_class ranges d \<and> items_match ts s')"
| "items_match (Name_Star # ts) s \<longleftrightarrow>
     items_match ts s
     \<or> (case s of [] \<Rightarrow> False | d # s' \<Rightarrow> d \<noteq> CHR ''/'' \<and> items_match (Name_Star # ts) s')"
| "items_match (Rest # ts) s \<longleftrightarrow>
     items_match ts s \<or> (case s of [] \<Rightarrow> False | d # s' \<Rightarrow> items_match (Rest # ts) s')"
| "items_match (Dirs # ts) s \<longleftrightarrow>
     items_match ts s \<or> (case s of [] \<Rightarrow> False | d # s' \<Rightarrow> items_match (Rest # One (CHR ''/'') # ts) s')"

text \<open>The text between the brackets of a class and what follows; \<open>None\<close> without a closing bracket.\<close>

definition bracket_class :: "string \<Rightarrow> (string \<times> string) option" where
  "bracket_class t =
     (let lead = (if starts_with ''!'' t then 1 else 0);
          first = (if starts_with '']'' (drop lead t) then Suc lead else lead);
          inner = takeWhile (\<lambda>c. c \<noteq> CHR '']'') (drop first t) in
      if length t = first + length inner then None
      else Some (take first t @ inner, drop (Suc (first + length inner)) t))"

fun class_ranges :: "string \<Rightarrow> (nat \<times> nat) list" where
  "class_ranges [] = []"
| "class_ranges [a] = [(code a, code a)]"
| "class_ranges [a, b] = [(code a, code a), (code b, code b)]"
| "class_ranges (a # b # c # t) =
     (if b = CHR ''-'' then (code a, code c) # class_ranges t
      else (code a, code a) # class_ranges (b # c # t))"

lemma bracket_class_length: "bracket_class t = Some (stuff, rest) \<Longrightarrow> length rest < Suc (length t)"
proof -
  assume "bracket_class t = Some (stuff, rest)"
  then obtain k where "rest = drop k t"
    unfolding bracket_class_def Let_def by (metis option.distinct(1) option.inject prod.inject)
  then show ?thesis by simp
qed

function part_items :: "string \<Rightarrow> glob_item list" where
  "part_items [] = []"
| "part_items (c # t) =
     (if c = CHR ''*'' then Name_Star # part_items t
      else if c = CHR ''?'' then Name_Char # part_items t
      else if c = CHR ''['' then
        (case bracket_class t of
           None \<Rightarrow> One c # part_items t
         | Some (stuff, rest) \<Rightarrow>
             (let negated = starts_with ''!'' stuff in
              Class negated (class_ranges (if negated then tl stuff else stuff)) # part_items rest))
      else One c # part_items t)"
  by pat_completeness auto
termination
  by (relation "measure length") (auto dest: bracket_class_length)

fun glob_items :: "string list \<Rightarrow> glob_item list" where
  "glob_items [] = []"
| "glob_items [p] =
     (if p = ''*'' then [Name_Char, Name_Star] else if p = ''**'' then [Rest] else part_items p)"
| "glob_items (p # q # ps) =
     (if p = ''*'' then [Name_Char, Name_Star, One (CHR ''/'')]
      else if p = ''**'' then (if q = ''**'' then [] else [Dirs])
      else part_items p @ [One (CHR ''/'')])
     @ glob_items (q # ps)"

definition posix_path_text :: "string \<Rightarrow> string" where
  "posix_path_text t =
     (case path_parts False t of (anchor, names) \<Rightarrow>
        if anchor = [] \<and> names = [] then [] else parts_text False anchor names)"

definition full_match :: "string \<Rightarrow> string \<Rightarrow> bool" where
  "full_match path pat =
     items_match (glob_items (split_on (CHR ''/'') (posix_path_text pat))) (posix_path_text path)"

end
