(* ===== verification/Run_Approvals.thy ===== *)
theory Run_Approvals
  imports Approvals Py_Glob State_Machines
begin

section \<open>Approvals of live Runs\<close>

text \<open>
  \<open>core/runs/_approvals.py\<close>: the requests a user has to decide, the futures their calls wait on and
  what the user rejected in a Run. A call waits in the coroutine \<open>request\<close>, which other operations
  interleave with: its part up to the \<open>await\<close> is \<open>ask\<close>, its part from the wake-up on is \<open>wake\<close>. The
  rejected set of a Run is an object shared by the table and the waiting calls, so it lives in a
  store and both hold its reference. What the class reads of a Run is a record; observers and the
  projection on the Run are not modelled.
\<close>

subsection \<open>What a rejection covers\<close>

definition path_scope_includes :: "requirement \<Rightarrow> string \<Rightarrow> bool" where
  "path_scope_includes scope target \<longleftrightarrow>
     (let top_path = ap_target scope;
          prefix = (if ends_with ''/'' top_path then top_path else top_path @ ''/'');
          parts = split_on (CHR ''/'') (drop (length prefix) target) in
      if top_path = target then True
      else if \<not> starts_with prefix target then False
      else if list_ex (\<lambda>part. part \<in> set (ap_pruned scope)) parts then False
      else (case ap_glob scope of
              Some pat \<Rightarrow>
                if pat = [] then ap_subtree scope
                else list_ex (\<lambda>k. full_match (join ''/'' (take k parts)) pat)
                       (if ap_subtree scope then [1..<Suc (length parts)] else [length parts])
            | None \<Rightarrow> ap_subtree scope))"

definition rejection_covers :: "requirement \<Rightarrow> requirement \<Rightarrow> bool" where
  "rejection_covers old new \<longleftrightarrow>
     (if old = new then True
      else if ap_kind old = Host_Approval \<and> ap_kind new = Host_Approval
      then ap_computer old = ap_computer new \<and> ap_access old = ap_access new
           \<and> set (ap_aliases old) \<inter> set (ap_aliases new) \<noteq> {}
      else if ap_kind old \<noteq> Path_Approval \<or> ap_kind new \<noteq> Path_Approval then False
      else if ap_computer old \<noteq> ap_computer new then False
      else if ap_access old \<noteq> ap_access new
              \<and> \<not> (ap_access old = Accessing Reading \<and> ap_access new = Accessing Writing) then False
      else path_scope_includes old (ap_target new) \<or> path_scope_includes new (ap_target old))"

definition is_rejected :: "requirement list \<Rightarrow> requirement list \<Rightarrow> bool" where
  "is_rejected declined keys \<longleftrightarrow> list_ex (\<lambda>old. list_ex (rejection_covers old) keys) declined"

subsection \<open>State\<close>

datatype future = Open | Done bool | Cancelled

record live_run =
  lr_running :: bool
  lr_cancel :: bool
  lr_unattended :: bool

record 'p approval =
  pn_id :: nat
  pn_run :: nat
  pn_payload :: 'p
  pn_keys :: "requirement list"
  pn_rejects :: "requirement list"

record waiter =
  wt_id :: nat
  wt_run :: nat
  wt_keys :: "requirement list"
  wt_set :: nat
  wt_cancelled :: bool

record 'p approvals =
  ra_pending :: "'p approval list"
  ra_rejected :: "nat \<Rightarrow> nat option"
  ra_store :: "requirement list list"
  ra_revision :: nat
  ra_futures :: "nat \<Rightarrow> future option"
  ra_waiting :: "waiter list"

definition no_approvals :: "'p approvals" where
  "no_approvals = \<lparr>ra_pending = [], ra_rejected = (\<lambda>_. None), ra_store = [], ra_revision = 0,
                   ra_futures = (\<lambda>_. None), ra_waiting = []\<rparr>"

definition snapshot :: "'p approvals \<Rightarrow> nat \<times> (nat \<times> nat \<times> 'p) list" where
  "snapshot s = (ra_revision s, map (\<lambda>p. (pn_id p, pn_run p, pn_payload p)) (ra_pending s))"

text \<open>\<open>_changed\<close>.\<close>

definition changed :: "'p approvals \<Rightarrow> 'p approvals" where
  "changed s = s\<lparr>ra_revision := Suc (ra_revision s)\<rparr>"

subsection \<open>Operations\<close>

text \<open>\<open>_rejected.setdefault\<close>: the reference of the Run's set.\<close>

definition rejected_set :: "nat \<Rightarrow> 'p approvals \<Rightarrow> 'p approvals \<times> nat" where
  "rejected_set run s =
     (case ra_rejected s run of
        Some k \<Rightarrow> (s, k)
      | None \<Rightarrow> (s\<lparr>ra_rejected := (ra_rejected s)(run \<mapsto> length (ra_store s)), ra_store := ra_store s @ [[]]\<rparr>,
                 length (ra_store s)))"

text \<open>\<open>request\<close> up to its \<open>await\<close>; \<open>Some False\<close> is the answer of a call that never waits.\<close>

definition ask ::
  "nat \<Rightarrow> nat \<Rightarrow> live_run \<Rightarrow> 'p \<Rightarrow> requirement list \<Rightarrow> requirement list \<Rightarrow> 'p approvals \<Rightarrow>
     'p approvals \<times> bool option" where
  "ask i run r payload keys rejects s =
     (if \<not> lr_running r \<or> lr_cancel r \<or> lr_unattended r then (s, Some False)
      else (case rejected_set run s of
              (s', k) \<Rightarrow>
                if is_rejected (ra_store s' ! k) keys then (s', Some False)
                else (changed (s'\<lparr>ra_pending := ra_pending s' @
                           [\<lparr>pn_id = i, pn_run = run, pn_payload = payload, pn_keys = keys, pn_rejects = rejects\<rparr>],
                         ra_futures := (ra_futures s')(i \<mapsto> Open),
                         ra_waiting := ra_waiting s' @
                           [\<lparr>wt_id = i, wt_run = run, wt_keys = keys, wt_set = k, wt_cancelled = False\<rparr>]\<rparr>),
                      None)))"

definition pop_pending :: "nat \<Rightarrow> 'p approvals \<Rightarrow> 'p approvals" where
  "pop_pending i s = s\<lparr>ra_pending := filter (\<lambda>p. pn_id p \<noteq> i) (ra_pending s)\<rparr>"

text \<open>\<open>set_result\<close> and \<open>cancel\<close> of a future that is not done.\<close>

definition settle :: "nat \<Rightarrow> future \<Rightarrow> 'p approvals \<Rightarrow> 'p approvals" where
  "settle i f s =
     (if ra_futures s i = Some Open then s\<lparr>ra_futures := (ra_futures s)(i \<mapsto> f)\<rparr> else s)"

definition drop_settled :: "nat list \<Rightarrow> future \<Rightarrow> 'p approvals \<Rightarrow> 'p approvals" where
  "drop_settled ids f s = foldl (\<lambda>s i. settle i f (pop_pending i s)) s ids"

text \<open>The pending requests of the Run that its rejections cover, settled with \<open>False\<close>.\<close>

definition reject_covered :: "nat \<Rightarrow> nat \<Rightarrow> 'p approvals \<Rightarrow> 'p approvals" where
  "reject_covered run k s =
     drop_settled
       (map pn_id (filter (\<lambda>p. pn_run p = run \<and> is_rejected (ra_store s ! k) (pn_keys p)) (ra_pending s)))
       (Done False) s"

definition resolve :: "nat \<Rightarrow> bool \<Rightarrow> 'p approvals \<Rightarrow> 'p approvals \<times> bool" where
  "resolve i allow s =
     (case find (\<lambda>p. pn_id p = i) (ra_pending s) of
        None \<Rightarrow> (s, False)
      | Some p \<Rightarrow>
          (let s1 = pop_pending i s;
               s2 = (if allow then s1
                     else (case rejected_set (pn_run p) s1 of
                             (s', k) \<Rightarrow> reject_covered (pn_run p) k
                                (s'\<lparr>ra_store := (ra_store s')[k := ra_store s' ! k @ pn_rejects p]\<rparr>))) in
           (changed (settle i (Done allow) s2), True)))"

text \<open>\<open>finish\<close>: every request of the Run is dropped and its future cancelled.\<close>

definition finish_ids :: "nat list \<Rightarrow> 'p approvals \<Rightarrow> 'p approvals" where
  "finish_ids ids s = foldl (\<lambda>s i. changed (settle i Cancelled (pop_pending i s))) s ids"

definition finish :: "nat \<Rightarrow> 'p approvals \<Rightarrow> 'p approvals" where
  "finish run s =
     finish_ids (map pn_id (filter (\<lambda>p. pn_run p = run) (ra_pending s)))
       (s\<lparr>ra_rejected := (ra_rejected s)(run := None)\<rparr>)"

text \<open>The task of a waiting call is cancelled: the future it awaits is cancelled, or, when that is done
  already, the wake-up raises.\<close>

definition cancel_waiter :: "nat \<Rightarrow> 'p approvals \<Rightarrow> 'p approvals" where
  "cancel_waiter i s =
     (settle i Cancelled s)
       \<lparr>ra_waiting := map (\<lambda>w. if wt_id w = i then w\<lparr>wt_cancelled := True\<rparr> else w) (ra_waiting s)\<rparr>"

text \<open>The rest of \<open>request\<close> from the wake-up on; \<open>None\<close> is the \<open>CancelledError\<close>.\<close>

definition wake :: "waiter \<Rightarrow> live_run \<Rightarrow> 'p approvals \<Rightarrow> 'p approvals \<times> bool option" where
  "wake w r s =
     (let s1 = s\<lparr>ra_waiting := filter (\<lambda>v. wt_id v \<noteq> wt_id w) (ra_waiting s)\<rparr>;
          s2 = (if list_ex (\<lambda>p. pn_id p = wt_id w) (ra_pending s1)
                then changed (pop_pending (wt_id w) s1) else s1) in
      (s2, (case ra_futures s (wt_id w) of
              Some (Done allowed) \<Rightarrow>
                if wt_cancelled w then None
                else Some (allowed \<and> \<not> is_rejected (ra_store s ! wt_set w) (wt_keys w)
                           \<and> \<not> lr_cancel r \<and> lr_running r)
            | _ \<Rightarrow> None)))"

subsection \<open>Steps\<close>

datatype approval_event =
    Asked nat nat | Turned_Down nat | Decided nat bool | Finished nat | Task_Cancelled nat
  | Woke nat "bool option"

inductive approval_step :: "'p approvals \<Rightarrow> approval_event \<Rightarrow> 'p approvals \<Rightarrow> bool" where
  asks: "ra_futures s i = None \<Longrightarrow> ask i run r payload keys rejects s = (t, None) \<Longrightarrow>
     approval_step s (Asked i run) t"
| turned_down: "ask i run r payload keys rejects s = (t, Some b) \<Longrightarrow> approval_step s (Turned_Down run) t"
| decides: "resolve i allow s = (t, True) \<Longrightarrow> approval_step s (Decided i allow) t"
| finishes: "approval_step s (Finished run) (finish run s)"
| task_cancelled: "w \<in> set (ra_waiting s) \<Longrightarrow>
     approval_step s (Task_Cancelled (wt_id w)) (cancel_waiter (wt_id w) s)"
| wakes: "w \<in> set (ra_waiting s) \<Longrightarrow> ra_futures s (wt_id w) \<noteq> Some Open \<Longrightarrow> wake w r s = (t, b) \<Longrightarrow>
     approval_step s (Woke (wt_id w) b) t"

inductive approval_trace :: "'p approvals \<Rightarrow> approval_event list \<Rightarrow> 'p approvals \<Rightarrow> bool" where
  begun: "approval_trace s [] s"
| continued: "approval_trace s es t \<Longrightarrow> approval_step t e u \<Longrightarrow> approval_trace s (es @ [e]) u"

inductive_cases approval_stepE: "approval_step s e t"

end
