(* ===== verification/Run_Approval_Facts.thy ===== *)
theory Run_Approval_Facts
  imports Run_Approvals
begin

section \<open>Facts about approvals of live Runs\<close>

text \<open>
  What each operation does to the fields of the state, the invariant that ties requests, waiting calls,
  futures and rejected sets together, and that every step keeps it.
\<close>

subsection \<open>The fields of an operation\<close>

lemma settle_fields [simp]:
  "ra_pending (settle i f s) = ra_pending s" "ra_rejected (settle i f s) = ra_rejected s"
  "ra_store (settle i f s) = ra_store s" "ra_revision (settle i f s) = ra_revision s"
  "ra_waiting (settle i f s) = ra_waiting s"
  "ra_futures (settle i f s) = (\<lambda>j. if j = i \<and> ra_futures s j = Some Open then Some f else ra_futures s j)"
  by (auto simp: settle_def fun_eq_iff)

lemma pop_fields [simp]:
  "ra_pending (pop_pending i s) = filter (\<lambda>p. pn_id p \<noteq> i) (ra_pending s)"
  "ra_rejected (pop_pending i s) = ra_rejected s" "ra_store (pop_pending i s) = ra_store s"
  "ra_revision (pop_pending i s) = ra_revision s" "ra_waiting (pop_pending i s) = ra_waiting s"
  "ra_futures (pop_pending i s) = ra_futures s"
  by (simp_all add: pop_pending_def)

lemma changed_fields [simp]:
  "ra_pending (changed s) = ra_pending s" "ra_rejected (changed s) = ra_rejected s"
  "ra_store (changed s) = ra_store s" "ra_revision (changed s) = Suc (ra_revision s)"
  "ra_waiting (changed s) = ra_waiting s" "ra_futures (changed s) = ra_futures s"
  by (simp_all add: changed_def)

text \<open>The futures once those of the listed requests that were open hold \<open>f\<close>.\<close>

definition settled_futures :: "nat set \<Rightarrow> future \<Rightarrow> (nat \<Rightarrow> future option) \<Rightarrow> nat \<Rightarrow> future option" where
  "settled_futures ids f fs j = (if j \<in> ids \<and> fs j = Some Open then Some f else fs j)"

lemma drop_settled_fields [simp]:
  assumes "f \<noteq> Open"
  shows "ra_pending (drop_settled ids f s) = filter (\<lambda>p. pn_id p \<notin> set ids) (ra_pending s)"
    "ra_rejected (drop_settled ids f s) = ra_rejected s" "ra_store (drop_settled ids f s) = ra_store s"
    "ra_revision (drop_settled ids f s) = ra_revision s" "ra_waiting (drop_settled ids f s) = ra_waiting s"
    "ra_futures (drop_settled ids f s) = settled_futures (set ids) f (ra_futures s)"
  unfolding drop_settled_def
  by (induction ids arbitrary: s)
    (use assms in \<open>auto simp: settled_futures_def fun_eq_iff intro: filter_cong\<close>)

lemma finish_ids_fields:
  "ra_pending (finish_ids ids s) = filter (\<lambda>p. pn_id p \<notin> set ids) (ra_pending s)"
  "ra_rejected (finish_ids ids s) = ra_rejected s" "ra_store (finish_ids ids s) = ra_store s"
  "ra_revision (finish_ids ids s) = ra_revision s + length ids" "ra_waiting (finish_ids ids s) = ra_waiting s"
  "ra_futures (finish_ids ids s) = settled_futures (set ids) Cancelled (ra_futures s)"
  unfolding finish_ids_def
  by (induction ids arbitrary: s) (auto simp: settled_futures_def fun_eq_iff intro: filter_cong)

lemma cancel_fields [simp]:
  "ra_pending (cancel_waiter i s) = ra_pending s" "ra_rejected (cancel_waiter i s) = ra_rejected s"
  "ra_store (cancel_waiter i s) = ra_store s" "ra_revision (cancel_waiter i s) = ra_revision s"
  "ra_futures (cancel_waiter i s) = settled_futures {i} Cancelled (ra_futures s)"
  "ra_waiting (cancel_waiter i s) =
     map (\<lambda>w. if wt_id w = i then w\<lparr>wt_cancelled := True\<rparr> else w) (ra_waiting s)"
  by (auto simp: cancel_waiter_def settled_futures_def fun_eq_iff)

lemma rejected_set_fields:
  assumes "rejected_set run s = (t, k)"
  shows "ra_pending t = ra_pending s" "ra_revision t = ra_revision s" "ra_futures t = ra_futures s"
    "ra_waiting t = ra_waiting s" "ra_rejected t run = Some k"
    "ra_rejected s run = Some k \<and> t = s
     \<or> ra_rejected s run = None \<and> k = length (ra_store s) \<and> ra_store t = ra_store s @ [[]]
       \<and> ra_rejected t = (ra_rejected s)(run \<mapsto> k)"
  using assms by (auto simp: rejected_set_def split: option.splits)

subsection \<open>The invariant\<close>

definition waits_for :: "'p approvals \<Rightarrow> 'p approval \<Rightarrow> waiter \<Rightarrow> bool" where
  "waits_for s p w \<longleftrightarrow>
     wt_id w = pn_id p \<and> wt_run w = pn_run p \<and> wt_keys w = pn_keys p
     \<and> ra_rejected s (pn_run p) = Some (wt_set w)"

definition request_ok :: "'p approvals \<Rightarrow> 'p approval \<Rightarrow> bool" where
  "request_ok s p \<longleftrightarrow>
     (\<exists>w \<in> set (ra_waiting s). waits_for s p w \<and> \<not> is_rejected (ra_store s ! wt_set w) (pn_keys p))
     \<and> ra_futures s (pn_id p) \<in> {Some Open, Some Cancelled}"

definition waiter_ok :: "'p approvals \<Rightarrow> waiter \<Rightarrow> bool" where
  "waiter_ok s w \<longleftrightarrow>
     wt_set w < length (ra_store s) \<and> ra_futures s (wt_id w) \<noteq> None
     \<and> (ra_futures s (wt_id w) = Some Open \<longrightarrow> wt_id w \<in> pn_id ` set (ra_pending s))"

definition sets_ok :: "'p approvals \<Rightarrow> bool" where
  "sets_ok s \<longleftrightarrow>
     (\<forall>run k. ra_rejected s run = Some k \<longrightarrow> k < length (ra_store s))
     \<and> (\<forall>r r' k. ra_rejected s r = Some k \<longrightarrow> ra_rejected s r' = Some k \<longrightarrow> r = r')"

definition approvals_ok :: "'p approvals \<Rightarrow> bool" where
  "approvals_ok s \<longleftrightarrow>
     distinct (map pn_id (ra_pending s)) \<and> distinct (map wt_id (ra_waiting s))
     \<and> (\<forall>p \<in> set (ra_pending s). request_ok s p) \<and> (\<forall>w \<in> set (ra_waiting s). waiter_ok s w) \<and> sets_ok s"

lemma no_approvals_ok: "approvals_ok no_approvals"
  by (simp add: approvals_ok_def no_approvals_def sets_ok_def)

lemma distinct_id: "distinct (map f xs) \<Longrightarrow> x \<in> set xs \<Longrightarrow> y \<in> set xs \<Longrightarrow> f x = f y \<Longrightarrow> x = y"
  by (auto simp: distinct_map inj_on_def)

lemma distinct_map_filter_id: "distinct (map f xs) \<Longrightarrow> distinct (map f (filter P xs))"
  by (induction xs) auto

text \<open>Dropping requests and settling their futures keeps it.\<close>

lemma dropped_ok:
  assumes ok: "approvals_ok s" and f: "f \<noteq> Open"
    and t: "ra_pending t = filter (\<lambda>p. pn_id p \<notin> ids) (ra_pending s)"
      "ra_futures t = settled_futures ids f (ra_futures s)"
      "ra_waiting t = ra_waiting s" "ra_store t = ra_store s"
    and rej: "\<And>p. p \<in> set (ra_pending t) \<Longrightarrow> ra_rejected t (pn_run p) = ra_rejected s (pn_run p)"
      "\<And>run k. ra_rejected t run = Some k \<Longrightarrow> ra_rejected s run = Some k"
  shows "approvals_ok t"
proof -
  have "request_ok t p" if p: "p \<in> set (ra_pending t)" for p
  proof -
    have "request_ok s p" "pn_id p \<notin> ids" using p ok t(1) by (auto simp: approvals_ok_def)
    then show ?thesis
      using rej(1) [OF p] t(2-4) by (auto simp: request_ok_def waits_for_def settled_futures_def)
  qed
  moreover have "waiter_ok t w" if "w \<in> set (ra_waiting t)" for w
  proof -
    have "waiter_ok s w" using that ok t(3) by (auto simp: approvals_ok_def)
    then show ?thesis using t f by (auto simp: waiter_ok_def settled_futures_def)
  qed
  moreover have "sets_ok t" using ok rej(2) t(4) by (fastforce simp: approvals_ok_def sets_ok_def)
  ultimately show ?thesis
    using ok t(1,3) by (simp add: approvals_ok_def distinct_map_filter_id)
qed

lemma finish_ok: "approvals_ok s \<Longrightarrow> approvals_ok (finish run s)"
proof -
  assume ok: "approvals_ok s"
  let ?gone = "set (map pn_id (filter (\<lambda>p. pn_run p = run) (ra_pending s)))"
  note fields = finish_ids_fields [of "map pn_id (filter (\<lambda>p. pn_run p = run) (ra_pending s))"]
  show ?thesis
  proof (rule dropped_ok [OF ok, of Cancelled _ ?gone])
    show "ra_pending (finish run s) = filter (\<lambda>p. pn_id p \<notin> ?gone) (ra_pending s)"
      by (simp add: finish_def fields)
    show "ra_rejected (finish run s) (pn_run p) = ra_rejected s (pn_run p)"
      if "p \<in> set (ra_pending (finish run s))" for p
      using that by (auto simp: finish_def fields)
    show "ra_rejected s r = Some k" if "ra_rejected (finish run s) r = Some k" for r k
      using that by (auto simp: finish_def fields split: if_splits)
  qed (simp_all add: finish_def fields)
qed

lemma rejected_set_ok:
  assumes ok: "approvals_ok s" and t: "rejected_set run s = (t, k)"
  shows "approvals_ok t"
proof -
  note f = rejected_set_fields [OF t]
  show ?thesis
  proof (cases "ra_rejected s run = Some k")
    case True
    then show ?thesis using f(6) ok by auto
  next
    case False
    then have new: "ra_rejected s run = None" "k = length (ra_store s)" "ra_store t = ra_store s @ [[]]"
        "ra_rejected t = (ra_rejected s)(run \<mapsto> k)" using f(6) by auto
    have sets: "sets_ok s" using ok by (simp add: approvals_ok_def)
    have "request_ok t p" if "p \<in> set (ra_pending t)" for p
    proof -
      have "request_ok s p" using that ok f(1) by (simp add: approvals_ok_def)
      then obtain w where w: "w \<in> set (ra_waiting s)" "waits_for s p w"
          "\<not> is_rejected (ra_store s ! wt_set w) (pn_keys p)"
          "ra_futures s (pn_id p) \<in> {Some Open, Some Cancelled}" by (auto simp: request_ok_def)
      then have "pn_run p \<noteq> run" "wt_set w < length (ra_store s)"
        using new(1) sets by (auto simp: waits_for_def sets_ok_def)
      then show ?thesis
        using w f(3,4) new by (auto simp: request_ok_def waits_for_def nth_append intro!: bexI [of _ w])
    qed
    moreover have "waiter_ok t w" if "w \<in> set (ra_waiting t)" for w
      using that ok f(1,3,4) new(3) by (auto simp: approvals_ok_def waiter_ok_def)
    moreover have "sets_ok t"
      using sets new by (fastforce simp: sets_ok_def)
    ultimately show ?thesis using ok f(1,4) by (simp add: approvals_ok_def)
  qed
qed

lemma ask_ok:
  assumes ok: "approvals_ok s" and fresh: "ra_futures s i = None"
    and a: "ask i run r payload keys rejects s = (t, None)"
  shows "approvals_ok t"
proof -
  obtain u k where u: "rejected_set run s = (u, k)" by (metis surj_pair)
  note f = rejected_set_fields [OF u]
  have ok': "approvals_ok u" by (rule rejected_set_ok [OF ok u])
  let ?p = "\<lparr>pn_id = i, pn_run = run, pn_payload = payload, pn_keys = keys, pn_rejects = rejects\<rparr>"
  let ?w = "\<lparr>wt_id = i, wt_run = run, wt_keys = keys, wt_set = k, wt_cancelled = False\<rparr>"
  from a u have t: "\<not> is_rejected (ra_store u ! k) keys" "ra_pending t = ra_pending u @ [?p]"
      "ra_waiting t = ra_waiting u @ [?w]" "ra_futures t = (ra_futures u)(i \<mapsto> Open)"
      "ra_store t = ra_store u" "ra_rejected t = ra_rejected u"
    by (auto simp: ask_def split: if_splits)
  have k: "k < length (ra_store u)" using ok' f(5) by (auto simp: approvals_ok_def sets_ok_def)
  have other: "pn_id p \<noteq> i" if "p \<in> set (ra_pending u)" for p
    using that ok' fresh f(3) by (auto simp: approvals_ok_def request_ok_def)
  have other_w: "wt_id w \<noteq> i" if "w \<in> set (ra_waiting u)" for w
    using that ok' fresh f(3) by (auto simp: approvals_ok_def waiter_ok_def)
  have "request_ok t p" if "p \<in> set (ra_pending t)" for p
  proof (cases "p = ?p")
    case True
    then show ?thesis using t f(5) by (auto simp: request_ok_def waits_for_def)
  next
    case False
    then have "p \<in> set (ra_pending u)" using that t(2) by simp
    then show ?thesis
      using ok' t other by (fastforce simp: approvals_ok_def request_ok_def waits_for_def)
  qed
  moreover have "waiter_ok t w" if "w \<in> set (ra_waiting t)" for w
  proof (cases "w = ?w")
    case True
    then show ?thesis using t k by (auto simp: waiter_ok_def)
  next
    case False
    then have "w \<in> set (ra_waiting u)" using that t(3) by simp
    then show ?thesis using ok' t other_w by (auto simp: approvals_ok_def waiter_ok_def)
  qed
  moreover have "sets_ok t" using ok' t by (simp add: approvals_ok_def sets_ok_def)
  moreover have "distinct (map pn_id (ra_pending t))" "distinct (map wt_id (ra_waiting t))"
    using ok' t(2,3) other other_w by (auto simp: approvals_ok_def)
  ultimately show ?thesis by (simp add: approvals_ok_def)
qed

lemma cancel_ok:
  assumes ok: "approvals_ok s"
  shows "approvals_ok (cancel_waiter i s)"
proof -
  let ?t = "cancel_waiter i s"
  let ?c = "\<lambda>w. if wt_id w = i then w\<lparr>wt_cancelled := True\<rparr> else w"
  have c: "wt_id (?c w) = wt_id w" "wt_run (?c w) = wt_run w" "wt_keys (?c w) = wt_keys w"
    "wt_set (?c w) = wt_set w" for w by auto
  have "request_ok ?t p" if "p \<in> set (ra_pending ?t)" for p
  proof -
    have "request_ok s p" using that ok by (simp add: approvals_ok_def)
    then obtain w where w: "w \<in> set (ra_waiting s)" "waits_for s p w"
        "\<not> is_rejected (ra_store s ! wt_set w) (pn_keys p)"
        "ra_futures s (pn_id p) \<in> {Some Open, Some Cancelled}" by (auto simp: request_ok_def)
    then have "?c w \<in> set (ra_waiting ?t)" "waits_for ?t p (?c w)"
      by (simp, simp add: waits_for_def)
    moreover have "\<not> is_rejected (ra_store ?t ! wt_set (?c w)) (pn_keys p)"
      using w(3) by simp
    moreover have "ra_futures ?t (pn_id p) \<in> {Some Open, Some Cancelled}"
      using w(4) by (auto simp: settled_futures_def)
    ultimately show ?thesis unfolding request_ok_def by blast
  qed
  moreover have "waiter_ok ?t w" if w: "w \<in> set (ra_waiting ?t)" for w
  proof -
    from w obtain v where "v \<in> set (ra_waiting s)" "w = ?c v" by auto
    then have "waiter_ok s v" using ok by (simp add: approvals_ok_def)
    then show ?thesis using \<open>w = ?c v\<close> c
      by (auto simp: waiter_ok_def settled_futures_def)
  qed
  moreover have "map wt_id (ra_waiting ?t) = map wt_id (ra_waiting s)" by auto
  moreover have "sets_ok ?t" using ok by (simp add: approvals_ok_def sets_ok_def)
  ultimately show ?thesis
    using ok unfolding approvals_ok_def by (metis cancel_fields(1))
qed

lemma wake_fields:
  assumes "wake w r s = (t, b)"
  shows "ra_pending t = filter (\<lambda>p. pn_id p \<noteq> wt_id w) (ra_pending s)"
    "ra_waiting t = filter (\<lambda>v. wt_id v \<noteq> wt_id w) (ra_waiting s)"
    "ra_rejected t = ra_rejected s" "ra_store t = ra_store s" "ra_futures t = ra_futures s"
  using assms by (auto simp: wake_def Let_def list_ex_iff intro!: filter_True [symmetric])

lemma wake_ok:
  assumes ok: "approvals_ok s" and t: "wake w r s = (t, b)"
  shows "approvals_ok t"
proof -
  note f = wake_fields [OF t]
  have "request_ok t p" if "p \<in> set (ra_pending t)" for p
    using that ok f by (fastforce simp: approvals_ok_def request_ok_def waits_for_def)
  moreover have "waiter_ok t v" if "v \<in> set (ra_waiting t)" for v
    using that ok f by (force simp: approvals_ok_def waiter_ok_def)
  ultimately show ?thesis
    using ok f by (simp add: approvals_ok_def distinct_map_filter_id sets_ok_def)
qed

text \<open>What a decision does: \<open>gone\<close> is the request decided and those its rejection covers.\<close>

definition decided_gone :: "'p approval \<Rightarrow> bool \<Rightarrow> requirement list \<Rightarrow> 'p approval \<Rightarrow> bool" where
  "decided_gone p allow declined q \<longleftrightarrow>
     pn_id q = pn_id p \<or> \<not> allow \<and> pn_run q = pn_run p \<and> is_rejected declined (pn_keys q)"

lemma resolve_fields:
  assumes ok: "approvals_ok s" and r: "resolve i allow s = (t, True)"
  obtains p k where "p \<in> set (ra_pending s)" "pn_id p = i" "ra_rejected s (pn_run p) = Some k"
    "k < length (ra_store s)"
    "ra_store t = (if allow then ra_store s else (ra_store s)[k := ra_store s ! k @ pn_rejects p])"
    "ra_pending t = filter (\<lambda>q. \<not> decided_gone p allow (ra_store t ! k) q) (ra_pending s)"
    "ra_waiting t = ra_waiting s" "ra_rejected t = ra_rejected s" "ra_revision t = Suc (ra_revision s)"
    "ra_futures t = (\<lambda>j. if ra_futures s j = Some Open
       then if j = i then Some (Done allow)
            else if \<exists>q \<in> set (ra_pending s). pn_id q = j \<and> decided_gone p allow (ra_store t ! k) q
                 then Some (Done False) else Some Open
       else ra_futures s j)"
proof -
  obtain p where p: "find (\<lambda>p. pn_id p = i) (ra_pending s) = Some p"
    using r by (auto simp: resolve_def split: option.splits)
  then have mem: "p \<in> set (ra_pending s)" "pn_id p = i" by (auto dest: find_SomeD)
  then obtain w where "waits_for s p w" using ok by (auto simp: approvals_ok_def request_ok_def)
  then obtain k where k: "ra_rejected s (pn_run p) = Some k" by (auto simp: waits_for_def)
  then have kl: "k < length (ra_store s)" using ok by (auto simp: approvals_ok_def sets_ok_def)
  have dist: "distinct (map pn_id (ra_pending s))" using ok by (simp add: approvals_ok_def)
  show ?thesis
  proof (cases allow)
    case True
    then have "t = changed (settle i (Done True) (pop_pending i s))"
      using r p by (simp add: resolve_def Let_def)
    then have f: "ra_store t = ra_store s" "ra_waiting t = ra_waiting s" "ra_rejected t = ra_rejected s"
        "ra_revision t = Suc (ra_revision s)"
        "ra_pending t = filter (\<lambda>q. \<not> decided_gone p allow (ra_store t ! k) q) (ra_pending s)"
        "ra_futures t = (\<lambda>j. if j = i \<and> ra_futures s j = Some Open then Some (Done True) else ra_futures s j)"
      using True mem(2) by (auto simp: decided_gone_def fun_eq_iff)
    have "ra_futures t = (\<lambda>j. if ra_futures s j = Some Open
       then if j = i then Some (Done allow)
            else if \<exists>q \<in> set (ra_pending s). pn_id q = j \<and> decided_gone p allow (ra_store t ! k) q
                 then Some (Done False) else Some Open
       else ra_futures s j)"
      unfolding f(6) using True mem(2) by (intro ext) (auto simp: decided_gone_def)
    then show ?thesis using that [OF mem k kl] f(1-5) True by simp
  next
    case False
    let ?s = "(pop_pending i s)\<lparr>ra_store := (ra_store s)[k := ra_store s ! k @ pn_rejects p]\<rparr>"
    have st: "rejected_set (pn_run p) (pop_pending i s) = (pop_pending i s, k)"
      using k by (simp add: rejected_set_def)
    have t: "t = changed (settle i (Done False) (reject_covered (pn_run p) k ?s))"
      using r p False st by (simp add: resolve_def)
    let ?gone = "\<lambda>q. decided_gone p allow (ra_store t ! k) q"
    let ?ids = "map pn_id (filter (\<lambda>q. pn_run q = pn_run p \<and> is_rejected (ra_store ?s ! k) (pn_keys q)) (ra_pending ?s))"
    have store: "ra_store t = (ra_store s)[k := ra_store s ! k @ pn_rejects p]"
      by (simp add: t reject_covered_def)
    have fut: "ra_futures ?s = ra_futures s" by simp
    have ids: "pn_id q \<in> set ?ids \<longleftrightarrow> q \<in> set (ra_pending s) \<and> pn_id q \<noteq> i \<and> ?gone q"
      if q: "q \<in> set (ra_pending s)" for q
    proof -
      have D: "ra_store ?s ! k = ra_store t ! k" using store by simp
      have "pn_id q \<in> set ?ids \<longleftrightarrow> (\<exists>x \<in> set (ra_pending s). pn_id x = pn_id q \<and> pn_id x \<noteq> i
          \<and> pn_run x = pn_run p \<and> is_rejected (ra_store t ! k) (pn_keys x))"
        unfolding D by (simp add: image_iff) metis
      also have "\<dots> \<longleftrightarrow> pn_id q \<noteq> i \<and> pn_run q = pn_run p \<and> is_rejected (ra_store t ! k) (pn_keys q)"
        using distinct_id [OF dist _ q] q by blast
      finally show ?thesis using q False mem(2) unfolding decided_gone_def by blast
    qed
    have "ra_pending t = filter (\<lambda>q. pn_id q \<notin> set ?ids) (filter (\<lambda>q. pn_id q \<noteq> i) (ra_pending s))"
      by (simp add: t reject_covered_def)
    also have "\<dots> = filter (\<lambda>q. \<not> ?gone q) (ra_pending s)"
      unfolding filter_filter using ids mem(2) by (intro filter_cong) (auto simp: decided_gone_def)
    finally have pend: "ra_pending t = filter (\<lambda>q. \<not> ?gone q) (ra_pending s)" .
    have "ra_futures t j = (if ra_futures s j = Some Open
       then if j = i then Some (Done allow)
            else if \<exists>q \<in> set (ra_pending s). pn_id q = j \<and> ?gone q then Some (Done False) else Some Open
       else ra_futures s j)" for j
    proof -
      have M: "j \<in> set ?ids \<longleftrightarrow> j \<noteq> i \<and> (\<exists>q \<in> set (ra_pending s). pn_id q = j \<and> ?gone q)"
      proof
        assume j: "j \<in> set ?ids"
        then obtain q where "q \<in> set (ra_pending s)" "pn_id q = j" by auto
        then show "j \<noteq> i \<and> (\<exists>q \<in> set (ra_pending s). pn_id q = j \<and> ?gone q)" using ids [of q] j by auto
      next
        assume "j \<noteq> i \<and> (\<exists>q \<in> set (ra_pending s). pn_id q = j \<and> ?gone q)"
        then show "j \<in> set ?ids" using ids by auto
      qed
      have F: "ra_futures t j = (if j = i \<and> settled_futures (set ?ids) (Done False) (ra_futures s) j = Some Open
          then Some (Done False) else settled_futures (set ?ids) (Done False) (ra_futures s) j)"
      proof -
        have "Done False \<noteq> Open" by simp
        note drop = drop_settled_fields(6) [OF this, of ?ids ?s]
        show ?thesis by (simp only: t reject_covered_def changed_fields settle_fields drop fut)
      qed
      define I where "I = set ?ids"
      show ?thesis
        using M F False unfolding I_def [symmetric]
        by (cases "j = i"; cases "j \<in> I"; cases "ra_futures s j = Some Open") (auto simp: settled_futures_def)
    qed
    then have "ra_futures t = (\<lambda>j. if ra_futures s j = Some Open
       then if j = i then Some (Done allow)
            else if \<exists>q \<in> set (ra_pending s). pn_id q = j \<and> ?gone q then Some (Done False) else Some Open
       else ra_futures s j)" by (rule ext)
    moreover have "ra_waiting t = ra_waiting s" "ra_rejected t = ra_rejected s" "ra_revision t = Suc (ra_revision s)"
      by (simp_all add: t reject_covered_def)
    ultimately show ?thesis using that [OF mem k kl] store pend False by simp
  qed
qed

lemma is_rejected_append: "is_rejected xs keys \<Longrightarrow> is_rejected (xs @ ys) keys"
  by (simp add: is_rejected_def)

lemma resolve_ok:
  fixes s :: "'p approvals"
  assumes ok: "approvals_ok s" and r: "resolve i allow s = (t, True)"
  shows "approvals_ok t"
proof (rule resolve_fields [OF ok r])
  fix p :: "'p approval" and k
  let ?gone = "decided_gone p allow (ra_store t ! k)"
  assume p: "p \<in> set (ra_pending s)" "pn_id p = i" "ra_rejected s (pn_run p) = Some k" "k < length (ra_store s)"
    and store: "ra_store t = (if allow then ra_store s else (ra_store s)[k := ra_store s ! k @ pn_rejects p])"
    and pend: "ra_pending t = filter (\<lambda>q. \<not> ?gone q) (ra_pending s)"
    and same: "ra_waiting t = ra_waiting s" "ra_rejected t = ra_rejected s"
    and fut: "ra_futures t = (\<lambda>j. if ra_futures s j = Some Open
       then if j = i then Some (Done allow)
            else if \<exists>q \<in> set (ra_pending s). pn_id q = j \<and> ?gone q then Some (Done False) else Some Open
       else ra_futures s j)"
  have dist: "distinct (map pn_id (ra_pending s))" and sets: "sets_ok s" using ok by (auto simp: approvals_ok_def)
  have "request_ok t q" if "q \<in> set (ra_pending t)" for q
  proof -
    from that pend have q: "q \<in> set (ra_pending s)" "\<not> ?gone q" by auto
    then have "request_ok s q" using ok by (simp add: approvals_ok_def)
    then obtain w where w: "w \<in> set (ra_waiting s)" "waits_for s q w"
        "\<not> is_rejected (ra_store s ! wt_set w) (pn_keys q)"
        "ra_futures s (pn_id q) \<in> {Some Open, Some Cancelled}" by (auto simp: request_ok_def)
    have other: "pn_id x = pn_id q \<longrightarrow> x = q" if "x \<in> set (ra_pending s)" for x
      using distinct_id [OF dist that q(1)] by blast
    have "\<not> is_rejected (ra_store t ! wt_set w) (pn_keys q)"
    proof (cases "wt_set w = k")
      case True
      then have "pn_run q = pn_run p" using w(2) p(3) sets by (auto simp: waits_for_def sets_ok_def)
      then show ?thesis using q(2) w(3) True store by (cases allow) (auto simp: decided_gone_def)
    qed (use w(3) store in auto)
    moreover have "ra_futures t (pn_id q) \<in> {Some Open, Some Cancelled}"
      using w(4) q(2) p(2) other fut by (auto simp: decided_gone_def)
    ultimately show ?thesis using w(1,2) same by (auto simp: request_ok_def waits_for_def)
  qed
  moreover have "waiter_ok t w" if "w \<in> set (ra_waiting t)" for w
  proof -
    have w: "waiter_ok s w" using that ok same by (simp add: approvals_ok_def)
    have "wt_id w \<in> pn_id ` set (ra_pending t)" if open_now: "ra_futures t (wt_id w) = Some Open"
    proof -
      have "ra_futures s (wt_id w) = Some Open" "wt_id w \<noteq> i"
        "\<not> (\<exists>q \<in> set (ra_pending s). pn_id q = wt_id w \<and> ?gone q)"
        using open_now fut by (auto split: if_splits)
      moreover from this obtain q where "q \<in> set (ra_pending s)" "pn_id q = wt_id w"
        using w by (auto simp: waiter_ok_def)
      ultimately show ?thesis unfolding pend by force
    qed
    moreover have "length (ra_store t) = length (ra_store s)" using store by auto
    moreover have "ra_futures t (wt_id w) \<noteq> None" using w fut by (auto simp: waiter_ok_def)
    ultimately show ?thesis using w by (simp add: waiter_ok_def)
  qed
  moreover have "sets_ok t" using sets same store by (simp add: sets_ok_def)
  ultimately show ?thesis
    using ok pend same by (simp add: approvals_ok_def distinct_map_filter_id)
qed

lemma turned_down_ok:
  assumes "approvals_ok s" "ask i run r payload keys rejects s = (t, Some b)"
  shows "approvals_ok t"
  using assms rejected_set_ok [OF assms(1)] by (auto simp: ask_def split: if_splits prod.splits)

lemma approval_step_ok: "approval_step s e t \<Longrightarrow> approvals_ok s \<Longrightarrow> approvals_ok t"
  by (auto elim!: approval_stepE intro: ask_ok turned_down_ok resolve_ok finish_ok cancel_ok wake_ok)

definition any_step :: "'p approvals \<Rightarrow> 'p approvals \<Rightarrow> bool" where
  "any_step s t \<longleftrightarrow> (\<exists>e. approval_step s e t)"

interpretation approvals_inv: preserving any_step approvals_ok
  by unfold_locales (auto simp: any_step_def intro: approval_step_ok)

lemma trace_steps: "approval_trace s es t \<Longrightarrow> any_step\<^sup>*\<^sup>* s t"
  by (induction rule: approval_trace.induct) (auto simp: any_step_def intro: rtranclp.rtrancl_into_rtrancl)

lemma trace_ok: "approval_trace no_approvals es s \<Longrightarrow> approvals_ok s"
  using approvals_inv.steps_ok [OF trace_steps no_approvals_ok] .

end
