(* ===== verification/Run_Approval_Properties.thy ===== *)
theory Run_Approval_Properties
  imports Run_Approval_Facts
begin

section \<open>Properties of approvals of live Runs\<close>

text \<open>
  For every interleaving of calls that ask, decisions of the user, Runs that finish, tasks that are
  cancelled and calls that wake up. The instances follow one call of Run 5 from its request to its
  answer.
\<close>

subsection \<open>Answers\<close>

lemma resolve_allows:
  assumes "approvals_ok s" "resolve i allow s = (t, True)"
  shows "ra_waiting t = ra_waiting s"
    and "ra_futures t j = Some (Done True) \<longrightarrow> ra_futures s j = Some (Done True) \<or> j = i \<and> allow"
proof -
  show "ra_waiting t = ra_waiting s" by (rule resolve_fields [OF assms])
  show "ra_futures t j = Some (Done True) \<longrightarrow> ra_futures s j = Some (Done True) \<or> j = i \<and> allow"
    by (rule resolve_fields [OF assms]) (simp split: if_split)
qed

lemma asked_events:
  assumes "approval_trace no_approvals es s"
  shows "(\<forall>w \<in> set (ra_waiting s). Asked (wt_id w) (wt_run w) \<in> set es)
    \<and> (\<forall>i. ra_futures s i = Some (Done True) \<longrightarrow> Decided i True \<in> set es)
    \<and> (\<forall>i. Woke i (Some True) \<in> set es \<longrightarrow> Decided i True \<in> set es \<and> (\<exists>run. Asked i run \<in> set es))"
  using assms
proof (induction "no_approvals :: 'a approvals" es s rule: approval_trace.induct)
  case begun
  then show ?case by (simp add: no_approvals_def)
next
  case (continued es t e u)
  note IH = continued.hyps(2) [THEN conjunct1] continued.hyps(2) [THEN conjunct2, THEN conjunct1]
    continued.hyps(2) [THEN conjunct2, THEN conjunct2]
  from continued.hyps(3) show ?case
  proof (cases rule: approval_step.cases)
    case (asks i run r payload keys rejects)
    obtain v k where v: "rejected_set run t = (v, k)" by (metis surj_pair)
    note f = rejected_set_fields [OF v]
    from asks(3) v have u: "ra_waiting u = ra_waiting v @
        [\<lparr>wt_id = i, wt_run = run, wt_keys = keys, wt_set = k, wt_cancelled = False\<rparr>]"
        "ra_futures u = (ra_futures v)(i \<mapsto> Open)"
      by (auto simp: ask_def split: if_splits)
    show ?thesis using IH asks(1) u f(3,4) by auto
  next
    case (turned_down run i r payload keys rejects b)
    then have "ra_waiting u = ra_waiting t" "ra_futures u = ra_futures t"
      using rejected_set_fields by (auto simp: ask_def split: if_splits prod.splits)
    then show ?thesis using IH turned_down(1) by auto
  next
    case (decides i allow)
    note u = resolve_allows [OF trace_ok [OF continued.hyps(1)] decides(2)]
    then show ?thesis using IH decides(1) by auto
  next
    case (finishes run)
    have "ra_waiting u = ra_waiting t" "\<And>i. ra_futures u i = Some (Done True) \<Longrightarrow> ra_futures t i = Some (Done True)"
      unfolding finishes(2) finish_def by (auto simp: finish_ids_fields settled_futures_def split: if_splits)
    then show ?thesis using IH finishes(1) by auto
  next
    case (task_cancelled w)
    have "\<And>i. ra_futures u i = Some (Done True) \<Longrightarrow> ra_futures t i = Some (Done True)"
      unfolding task_cancelled(2) by (auto simp: settled_futures_def split: if_splits)
    then show ?thesis using IH task_cancelled(1,2) by auto
  next
    case (wakes w r b)
    note f = wake_fields [OF wakes(4)]
    have "b = Some True \<Longrightarrow> ra_futures t (wt_id w) = Some (Done True)"
      using wakes(4) by (auto simp: wake_def Let_def split: option.splits future.splits if_splits)
    then show ?thesis using IH wakes(1,2) f(2,5) by auto
  qed
qed

text \<open>C10. A call is let through only by the user: whenever a waiting call wakes up to a yes, it had asked
  and its own request was decided with an allow.\<close>

theorem allowed_call_was_decided:
  assumes "approval_trace no_approvals es s" "Woke i (Some True) \<in> set es"
  shows "Decided i True \<in> set es \<and> (\<exists>run. Asked i run \<in> set es)"
  using asked_events [OF assms(1)] assms(2) by blast

definition live :: live_run where
  "live = \<lparr>lr_running = True, lr_cancel = False, lr_unattended = False\<rparr>"

definition one_key :: "requirement list" where
  "one_key = [plain_requirement Path_Approval ''/a'' (Accessing Reading) ''server'']"

definition after_ask :: "unit approvals" where
  "after_ask = fst (ask 0 5 live () one_key one_key no_approvals)"

definition after_allow :: "unit approvals" where
  "after_allow = fst (resolve 0 True after_ask)"

definition one_waiter :: waiter where
  "one_waiter = \<lparr>wt_id = 0, wt_run = 5, wt_keys = one_key, wt_set = 0, wt_cancelled = False\<rparr>"

lemma ask_step: "approval_trace no_approvals [Asked 0 5] after_ask"
proof -
  have "snd (ask 0 5 live () one_key one_key (no_approvals :: unit approvals)) = None" by code_simp
  then have a: "ask 0 5 live () one_key one_key no_approvals = (after_ask, None)"
    unfolding after_ask_def by (metis prod.collapse)
  have "ra_futures (no_approvals :: unit approvals) 0 = None" by (simp add: no_approvals_def)
  from approval_trace.continued [OF approval_trace.begun approval_step.asks [OF this a]] show ?thesis by simp
qed

lemma allow_step: "approval_trace no_approvals [Asked 0 5, Decided 0 True] after_allow"
proof -
  have "snd (resolve 0 True after_ask) = True" by code_simp
  then have "resolve 0 True after_ask = (after_allow, True)"
    unfolding after_allow_def by (metis prod.collapse)
  from approval_trace.continued [OF ask_step approval_step.decides [OF this]] show ?thesis by simp
qed

theorem allowed_call_was_decided_witness:
  "\<exists>es s. approval_trace (no_approvals :: unit approvals) es s \<and> Woke 0 (Some True) \<in> set es
     \<and> Decided 0 True \<in> set es"
proof -
  let ?s = "fst (wake one_waiter live after_allow)"
  have w: "ra_waiting after_allow = [one_waiter]" by code_simp
  have "ra_futures after_allow 0 = Some (Done True)" by code_simp
  then have settled: "ra_futures after_allow (wt_id one_waiter) \<noteq> Some Open" by (simp add: one_waiter_def)
  have "snd (wake one_waiter live after_allow) = Some True" by code_simp
  then have wake: "wake one_waiter live after_allow = (?s, Some True)" by (metis prod.collapse)
  have "approval_trace no_approvals ([Asked 0 5, Decided 0 True] @ [Woke 0 (Some True)]) ?s"
    using approval_trace.continued [OF allow_step approval_step.wakes [OF _ settled wake]] w
    by (simp add: one_waiter_def)
  then have t: "approval_trace no_approvals [Asked 0 5, Decided 0 True, Woke 0 (Some True)] ?s" by simp
  then show ?thesis using allowed_call_was_decided [OF t] by fastforce
qed

subsection \<open>Rejections\<close>

text \<open>C23. No request a rejection of its Run covers stays pending, however requests and rejections
  interleave: each pending request has an id of its own, and what its Run declined so far covers none
  of its keys.\<close>

theorem pending_requests_are_undeclined:
  assumes "approval_trace no_approvals es s"
  shows "distinct (map pn_id (ra_pending s)) \<and>
    (\<forall>p \<in> set (ra_pending s). \<exists>k. ra_rejected s (pn_run p) = Some k \<and> \<not> is_rejected (ra_store s ! k) (pn_keys p))"
  using trace_ok [OF assms] by (auto simp: approvals_ok_def request_ok_def waits_for_def)

theorem pending_requests_are_undeclined_witness:
  "\<exists>k. ra_rejected after_ask (pn_run (hd (ra_pending after_ask))) = Some k
     \<and> \<not> is_rejected (ra_store after_ask ! k) (pn_keys (hd (ra_pending after_ask)))"
proof -
  have "ra_pending after_ask \<noteq> []" by code_simp
  then show ?thesis using pending_requests_are_undeclined [OF ask_step] by simp
qed

text \<open>Whatever was declined, a later request for something the rejection covers is answered no at
  once, without asking the user.\<close>

theorem declined_access_is_not_asked_again:
  assumes "ra_rejected s run = Some k" "is_rejected (ra_store s ! k) keys"
  shows "ask i run r payload keys rejects s = (s, Some False)"
  using assms by (simp add: ask_def rejected_set_def)

definition after_reject :: "unit approvals" where
  "after_reject = fst (resolve 0 False after_ask)"

theorem declined_access_is_not_asked_again_witness:
  "ask 1 5 live () [plain_requirement Path_Approval ''/a'' (Accessing Writing) ''server''] [] after_reject
     = (after_reject, Some False)"
proof (rule declined_access_is_not_asked_again)
  show "ra_rejected after_reject 5 = Some 0" by code_simp
  show "is_rejected (ra_store after_reject ! 0)
      [plain_requirement Path_Approval ''/a'' (Accessing Writing) ''server'']" by code_simp
qed

subsection \<open>Waiting calls\<close>

text \<open>C30. No waiting call is lost: it can wake up, or the user can still decide its request, which
  settles it; and once its Run has finished it can wake up in any case.\<close>

theorem waiting_call_is_never_stuck:
  assumes "approval_trace no_approvals es s" "w \<in> set (ra_waiting s)"
  shows "(ra_futures s (wt_id w) \<noteq> Some Open
      \<or> (\<forall>allow. \<exists>t. resolve (wt_id w) allow s = (t, True) \<and> ra_futures t (wt_id w) = Some (Done allow)))
    \<and> ra_futures (finish (wt_run w) s) (wt_id w) \<noteq> Some Open"
proof -
  note ok = trace_ok [OF assms(1)]
  have w: "waiter_ok s w" and dist: "distinct (map pn_id (ra_pending s))" "distinct (map wt_id (ra_waiting s))"
    using ok assms(2) by (auto simp: approvals_ok_def)
  show ?thesis
  proof (cases "ra_futures s (wt_id w) = Some Open")
    case False
    then show ?thesis by (auto simp: finish_def finish_ids_fields settled_futures_def)
  next
    case True
    then obtain p where p: "p \<in> set (ra_pending s)" "pn_id p = wt_id w" using w by (auto simp: waiter_ok_def)
    then obtain v where v: "v \<in> set (ra_waiting s)" "waits_for s p v"
      using ok by (auto simp: approvals_ok_def request_ok_def)
    then have "v = w" using distinct_id [OF dist(2) v(1) assms(2)] p(2) by (simp add: waits_for_def)
    then have run: "pn_run p = wt_run w" using v(2) by (simp add: waits_for_def)
    have "\<exists>t. resolve (wt_id w) allow s = (t, True) \<and> ra_futures t (wt_id w) = Some (Done allow)" for allow
    proof -
      have "find (\<lambda>q. pn_id q = wt_id w) (ra_pending s) \<noteq> None"
        using p by (auto simp: find_None_iff)
      then obtain t where t: "resolve (wt_id w) allow s = (t, True)"
        by (auto simp: resolve_def Let_def)
      have "ra_futures t (wt_id w) = Some (Done allow)"
        using True by (rule_tac resolve_fields [OF ok t]) simp
      with t show ?thesis by blast
    qed
    moreover have "wt_id w \<in> set (map pn_id (filter (\<lambda>q. pn_run q = wt_run w) (ra_pending s)))"
      using p run by force
    then have "ra_futures (finish (wt_run w) s) (wt_id w) = Some Cancelled"
      using True by (simp add: finish_def finish_ids_fields settled_futures_def del: set_map)
    ultimately show ?thesis by auto
  qed
qed

theorem waiting_call_is_never_stuck_witness:
  "ra_futures (finish 5 after_ask) 0 \<noteq> Some Open"
proof -
  have "ra_waiting after_ask = [one_waiter]" by code_simp
  then have "one_waiter \<in> set (ra_waiting after_ask)" by simp
  from waiting_call_is_never_stuck [OF ask_step this] show ?thesis by (simp add: one_waiter_def)
qed

text \<open>A snapshot with a higher revision is newer: a step never lowers the revision, and one that
  changes the pending requests raises it.\<close>

theorem revision_orders_snapshots:
  assumes "approval_step s e t" "approvals_ok s"
  shows "ra_revision s \<le> ra_revision t
    \<and> (snd (snapshot t) \<noteq> snd (snapshot s) \<longrightarrow> ra_revision s < ra_revision t)"
  using assms(1)
proof (cases rule: approval_step.cases)
  case (asks i run r payload keys rejects)
  obtain v k where v: "rejected_set run s = (v, k)" by (metis surj_pair)
  from asks(3) v show ?thesis
    using rejected_set_fields(2) [OF v] by (auto simp: ask_def split: if_splits)
next
  case (turned_down run i r payload keys rejects b)
  then have "ra_pending t = ra_pending s" "ra_revision t = ra_revision s"
    using rejected_set_fields by (auto simp: ask_def split: if_splits prod.splits)
  then show ?thesis by (simp add: snapshot_def)
next
  case (decides i allow)
  then show ?thesis by (rule_tac resolve_fields [OF assms(2) decides(2)]) simp
next
  case (finishes run)
  have "filter (\<lambda>p. pn_run p = run) (ra_pending s) = [] \<Longrightarrow> ra_pending t = ra_pending s"
    unfolding finishes(2) finish_def by (simp add: finish_ids_fields)
  moreover have "ra_revision t = ra_revision s + length (filter (\<lambda>p. pn_run p = run) (ra_pending s))"
    unfolding finishes(2) finish_def by (simp add: finish_ids_fields)
  ultimately show ?thesis by (auto simp: snapshot_def)
next
  case (wakes w r b)
  then show ?thesis by (auto simp: wake_def Let_def snapshot_def split: if_splits)
qed (simp add: snapshot_def)

theorem revision_orders_snapshots_witness: "ra_revision after_ask < ra_revision after_allow"
proof -
  have "snd (resolve 0 True after_ask) = True" by code_simp
  then have "resolve 0 True after_ask = (after_allow, True)"
    unfolding after_allow_def by (metis prod.collapse)
  then have step: "approval_step after_ask (Decided 0 True) after_allow" by (rule approval_step.decides)
  have "snd (snapshot after_allow) = [] \<and> snd (snapshot after_ask) = [(0, 5, ())]" by code_simp
  then show ?thesis using revision_orders_snapshots [OF step trace_ok [OF ask_step]] by simp
qed

end
