(* ===== verification/Event_Stream.thy ===== *)
theory Event_Stream
  imports Prelude State_Machines
begin

section \<open>Replayed event streams\<close>

text \<open>
  \<open>core/event_stream.py\<close>: one ordered stream of events with a bounded replay window and bounded live
  queues. A subscription is a coroutine; it runs from one of its \<open>yield\<close>s to the next, to its end or
  until it waits on its queue, and other operations happen in between. \<open>advance\<close> is one such run. The
  shape of events is a parameter of the stream: their sequence number, size and which are terminal.
  Observers of lag (\<open>on_lagged\<close>) are not modelled.
\<close>

subsection \<open>The retained window\<close>

record 'e stream_config =
  cf_retention :: nat
  cf_queue :: nat
  cf_bytes :: "nat option"
  cf_seq :: "'e \<Rightarrow> nat"
  cf_terminal :: "'e \<Rightarrow> bool"
  cf_size :: "'e \<Rightarrow> nat"

record 'e stream =
  es_events :: "('e \<times> nat) list"
  es_bytes :: nat

text \<open>What \<open>__init__\<close> accepts.\<close>

definition config_ok :: "'e stream_config \<Rightarrow> bool" where
  "config_ok cf \<longleftrightarrow> 1 \<le> cf_retention cf \<and> 1 \<le> cf_queue cf \<and> (\<forall>n \<in> set_option (cf_bytes cf). 1 \<le> n)"

definition new_stream :: "'e stream_config \<Rightarrow> 'e stream option" where
  "new_stream cf = (if config_ok cf then Some \<lparr>es_events = [], es_bytes = 0\<rparr> else None)"

definition over_bytes :: "'e stream_config \<Rightarrow> nat \<Rightarrow> bool" where
  "over_bytes cf n \<longleftrightarrow> (case cf_bytes cf of None \<Rightarrow> False | Some limit \<Rightarrow> limit < n)"

fun trim :: "'e stream_config \<Rightarrow> ('e \<times> nat) list \<Rightarrow> nat \<Rightarrow> ('e \<times> nat) list \<times> nat" where
  "trim cf [] bytes = ([], bytes)"
| "trim cf ((e, n) # es) bytes =
     (if cf_retention cf < length ((e, n) # es) \<or> over_bytes cf bytes
      then trim cf es (bytes - n) else ((e, n) # es, bytes))"

definition retain :: "'e stream_config \<Rightarrow> 'e \<Rightarrow> 'e stream \<Rightarrow> 'e stream" where
  "retain cf e st =
     (case trim cf (es_events st @ [(e, cf_size cf e)]) (es_bytes st + cf_size cf e) of
        (es, bytes) \<Rightarrow> \<lparr>es_events = es, es_bytes = bytes\<rparr>)"

text \<open>\<open>compact\<close>: how many of the events, newest first, stay; the older ones leave. \<open>None\<close> is the
  \<open>ValueError\<close> of a limit below one.\<close>

fun kept_count :: "nat \<Rightarrow> ('e \<Rightarrow> bool) \<Rightarrow> nat \<Rightarrow> 'e list \<Rightarrow> nat" where
  "kept_count limit keep kept [] = kept"
| "kept_count limit keep kept (e # es) =
     (if limit \<le> kept \<or> (kept \<noteq> 0 \<and> \<not> keep e) then kept else kept_count limit keep (Suc kept) es)"

definition compact :: "nat \<Rightarrow> ('e \<Rightarrow> bool) \<Rightarrow> 'e stream \<Rightarrow> 'e stream option" where
  "compact limit keep st =
     (if limit < 1 then None
      else (let kept = kept_count limit keep 0 (map fst (rev (es_events st)));
                gone = length (es_events st) - kept in
            Some \<lparr>es_events = drop gone (es_events st),
                  es_bytes = es_bytes st - sum_list (map snd (take gone (es_events st)))\<rparr>))"

definition stream_events :: "'e stream \<Rightarrow> 'e list" where
  "stream_events st = map fst (es_events st)"

subsection \<open>Subscribers\<close>

text \<open>Where a subscription stands: before its first run, in the historical replay, in a round of the
  catch-up (over retained or drained events), waiting on its queue, behind a terminal event, ended.\<close>

datatype 'e phase =
    Fresh | Replaying "'e list" | Catching "'e list" | Draining "'e list" | Following | Stopping | Ended

record 'e subscriber =
  sb_phase :: "'e phase"
  sb_after :: nat
  sb_head :: bool
  sb_live :: bool
  sb_queue :: "'e list"
  sb_bytes :: nat
  sb_closed :: bool
  sb_catching :: bool
  sb_joined :: bool
  sb_shut :: bool

definition subscription :: "nat \<Rightarrow> bool \<Rightarrow> 'e subscriber" where
  "subscription after live =
     \<lparr>sb_phase = Fresh, sb_after = after, sb_head = False, sb_live = live, sb_queue = [], sb_bytes = 0,
      sb_closed = False, sb_catching = True, sb_joined = False, sb_shut = False\<rparr>"

definition evict :: "'e subscriber \<Rightarrow> 'e subscriber" where
  "evict s =
     (if sb_closed s then s
      else s\<lparr>sb_closed := True, sb_joined := False, sb_queue := [], sb_bytes := 0, sb_shut := True\<rparr>)"

text \<open>The coroutine returns: its \<open>finally\<close> removes the subscriber.\<close>

definition ended :: "'e subscriber \<Rightarrow> 'e subscriber" where
  "ended s = s\<lparr>sb_phase := Ended, sb_closed := True, sb_joined := False\<rparr>"

definition publish_to :: "'e stream_config \<Rightarrow> 'e \<Rightarrow> 'e subscriber \<Rightarrow> 'e subscriber" where
  "publish_to cf e s =
     (if sb_closed s then s
      else if over_bytes cf (sb_bytes s + cf_size cf e) then evict s
      else if length (sb_queue s) < cf_queue cf
      then s\<lparr>sb_queue := sb_queue s @ [e], sb_bytes := sb_bytes s + cf_size cf e\<rparr>
      else if sb_catching s then s else evict s)"

subsection \<open>One run of a subscription\<close>

datatype 'e outcome = Yields 'e | Waits | Ends

text \<open>The next event of a list: those up to the cursor are passed over, and a jump past the next
  sequence number after the first event is a gap.\<close>

datatype 'e next_offer = Nothing_New | Gap | Next 'e "'e list"

definition offer :: "'e stream_config \<Rightarrow> 'e subscriber \<Rightarrow> 'e list \<Rightarrow> 'e next_offer" where
  "offer cf s xs =
     (case dropWhile (\<lambda>e. cf_seq cf e \<le> sb_after s) xs of
        [] \<Rightarrow> Nothing_New
      | e # rest \<Rightarrow> if sb_head s \<and> Suc (sb_after s) < cf_seq cf e then Gap else Next e rest)"

definition yielded :: "'e stream_config \<Rightarrow> 'e \<Rightarrow> 'e phase \<Rightarrow> 'e subscriber \<Rightarrow> 'e subscriber" where
  "yielded cf e next_phase s =
     s\<lparr>sb_head := True, sb_after := cf_seq cf e,
       sb_phase := (if cf_terminal cf e then Stopping else next_phase)\<rparr>"

definition sizes :: "'e stream_config \<Rightarrow> 'e list \<Rightarrow> nat" where
  "sizes cf es = sum_list (map (cf_size cf) es)"

definition follow :: "'e stream_config \<Rightarrow> 'e subscriber \<Rightarrow> 'e subscriber \<times> 'e outcome" where
  "follow cf s =
     (if sb_shut s then (ended s, Ends)
      else (case offer cf s (sb_queue s) of
              Nothing_New \<Rightarrow> (s\<lparr>sb_queue := [], sb_bytes := sb_bytes s - sizes cf (sb_queue s)\<rparr>, Waits)
            | Gap \<Rightarrow> (ended (evict s), Ends)
            | Next e rest \<Rightarrow>
                (yielded cf e Following
                   (s\<lparr>sb_queue := rest,
                      sb_bytes := sb_bytes s - (sizes cf (sb_queue s) - sizes cf rest)\<rparr>), Yields e)))"

definition drain :: "'e stream_config \<Rightarrow> 'e subscriber \<Rightarrow> 'e subscriber \<times> 'e list" where
  "drain cf s =
     (if sb_shut s then (s\<lparr>sb_closed := True\<rparr>, [])
      else (s\<lparr>sb_queue := [], sb_bytes := sb_bytes s - sizes cf (sb_queue s)\<rparr>, sb_queue s))"

text \<open>The drained events of a catch-up round and its end; \<open>again\<close> is the next round of a round that
  made progress.\<close>

definition drained_round ::
  "'e stream_config \<Rightarrow> bool \<Rightarrow> ('e subscriber \<Rightarrow> 'e subscriber \<times> 'e outcome) \<Rightarrow> 'e list \<Rightarrow> 'e subscriber \<Rightarrow>
     'e subscriber \<times> 'e outcome" where
  "drained_round cf progressed again ds s =
     (case offer cf s ds of
        Next e rest \<Rightarrow> (yielded cf e (Draining rest) s, Yields e)
      | Gap \<Rightarrow> (ended (evict s), Ends)
      | Nothing_New \<Rightarrow>
          if sb_closed s then (ended s, Ends)
          else if progressed then again s
          else follow cf (s\<lparr>sb_catching := False, sb_phase := Following\<rparr>))"

definition retained_round ::
  "'e stream_config \<Rightarrow> bool \<Rightarrow> ('e subscriber \<Rightarrow> 'e subscriber \<times> 'e outcome) \<Rightarrow> 'e list \<Rightarrow> 'e subscriber \<Rightarrow>
     'e subscriber \<times> 'e outcome" where
  "retained_round cf progressed again xs s =
     (case (if sb_closed s then Nothing_New else offer cf s xs) of
        Next e rest \<Rightarrow> (yielded cf e (Catching rest) s, Yields e)
      | Gap \<Rightarrow> (ended (evict s), Ends)
      | Nothing_New \<Rightarrow> (case drain cf s of (s', ds) \<Rightarrow> drained_round cf progressed again ds s'))"

text \<open>A round that begins now, over all retained events: without progress it ends in following.\<close>

definition new_round :: "'e stream_config \<Rightarrow> 'e list \<Rightarrow> 'e subscriber \<Rightarrow> 'e subscriber \<times> 'e outcome" where
  "new_round cf evs s = retained_round cf False (\<lambda>s. (s, Waits)) evs s"

definition replay_round ::
  "'e stream_config \<Rightarrow> 'e list \<Rightarrow> 'e list \<Rightarrow> 'e subscriber \<Rightarrow> 'e subscriber \<times> 'e outcome" where
  "replay_round cf evs xs s =
     (case offer cf s xs of
        Next e rest \<Rightarrow> (yielded cf e (Replaying rest) s, Yields e)
      | Gap \<Rightarrow> (ended s, Ends)
      | Nothing_New \<Rightarrow>
          if sb_live s then new_round cf evs (s\<lparr>sb_joined := True, sb_phase := Catching []\<rparr>)
          else (ended s, Ends))"

definition advance :: "'e stream_config \<Rightarrow> 'e list \<Rightarrow> 'e subscriber \<Rightarrow> 'e subscriber \<times> 'e outcome" where
  "advance cf evs s =
     (case sb_phase s of
        Fresh \<Rightarrow> replay_round cf evs evs s
      | Replaying xs \<Rightarrow> replay_round cf evs xs s
      | Catching xs \<Rightarrow> retained_round cf True (new_round cf evs) xs s
      | Draining ds \<Rightarrow> drained_round cf True (new_round cf evs) ds s
      | Following \<Rightarrow> follow cf s
      | Stopping \<Rightarrow> (ended s, Ends)
      | Ended \<Rightarrow> (s, Ends))"

subsection \<open>The stream with its subscriptions\<close>

text \<open>\<open>publish\<close> reaches the subscribers in \<open>_subscribers\<close>, which are the joined ones. The events
  published and those each subscription yielded are kept as history for the properties.\<close>

record 'e system =
  sy_stream :: "'e stream"
  sy_subs :: "('e subscriber \<times> 'e list) list"
  sy_history :: "'e list"

definition publish :: "'e stream_config \<Rightarrow> 'e \<Rightarrow> 'e system \<Rightarrow> 'e system" where
  "publish cf e sy =
     \<lparr>sy_stream = retain cf e (sy_stream sy),
      sy_subs = map (\<lambda>(s, got). (if sb_joined s then publish_to cf e s else s, got)) (sy_subs sy),
      sy_history = sy_history sy @ [e]\<rparr>"

definition got_more :: "'e list \<Rightarrow> 'e outcome \<Rightarrow> 'e list" where
  "got_more got r = (case r of Yields e \<Rightarrow> got @ [e] | _ \<Rightarrow> got)"

definition run_sub :: "'e stream_config \<Rightarrow> nat \<Rightarrow> 'e system \<Rightarrow> 'e system" where
  "run_sub cf i sy =
     (case sy_subs sy ! i of (s, got) \<Rightarrow>
        (case advance cf (stream_events (sy_stream sy)) s of
           (s', r) \<Rightarrow> sy\<lparr>sy_subs := (sy_subs sy)[i := (s', got_more got r)]\<rparr>))"

text \<open>Publishers number events without a gap.\<close>

definition next_event :: "'e stream_config \<Rightarrow> 'e \<Rightarrow> 'e list \<Rightarrow> bool" where
  "next_event cf e published \<longleftrightarrow>
     published = [] \<or> cf_seq cf e = Suc (cf_seq cf (last published))"

inductive stream_step :: "'e stream_config \<Rightarrow> 'e system \<Rightarrow> 'e system \<Rightarrow> bool" for cf where
  publishes: "next_event cf e (sy_history sy) \<Longrightarrow> stream_step cf sy (publish cf e sy)"
| compacts: "compact limit keep (sy_stream sy) = Some st \<Longrightarrow> stream_step cf sy (sy\<lparr>sy_stream := st\<rparr>)"
| subscribes: "stream_step cf sy (sy\<lparr>sy_subs := sy_subs sy @ [(subscription after live, [])]\<rparr>)"
| runs: "i < length (sy_subs sy) \<Longrightarrow> stream_step cf sy (run_sub cf i sy)"
| leaves: "i < length (sy_subs sy) \<Longrightarrow> sy_subs sy ! i = (s, got) \<Longrightarrow>
     stream_step cf sy (sy\<lparr>sy_subs := (sy_subs sy)[i := (ended s, got)]\<rparr>)"

definition new_system :: "'e system" where
  "new_system = \<lparr>sy_stream = \<lparr>es_events = [], es_bytes = 0\<rparr>, sy_subs = [], sy_history = []\<rparr>"

end
