(* ===== verification/Event_Stream_Facts.thy ===== *)
theory Event_Stream_Facts
  imports Event_Stream "HOL-Library.Sublist"
begin

section \<open>Facts about replayed event streams\<close>

text \<open>
  Numbered event lists, the invariant of the retained window, the invariant of a subscription, and that
  every step of the stream keeps them.
\<close>

subsection \<open>Numbered events\<close>

definition numbered :: "('e \<Rightarrow> nat) \<Rightarrow> 'e list \<Rightarrow> bool" where
  "numbered f xs \<longleftrightarrow> (\<exists>b. map f xs = [b..<b + length xs])"

lemma numbered_Nil [simp]: "numbered f []"
  by (simp add: numbered_def)

lemma numbered_nth: "map f xs = [b..<b + length xs] \<Longrightarrow> i < length xs \<Longrightarrow> f (xs ! i) = b + i"
  by (metis add_less_cancel_left nth_map nth_upt)

lemma numbered_last: "map f xs = [b..<b + length xs] \<Longrightarrow> xs \<noteq> [] \<Longrightarrow> Suc (f (last xs)) = b + length xs"
  by (simp add: last_conv_nth numbered_nth)

lemma numbered_snoc:
  assumes "numbered f xs" "xs = [] \<or> f e = Suc (f (last xs))"
  shows "numbered f (xs @ [e])"
proof -
  obtain b where b: "map f xs = [b..<b + length xs]" using assms(1) by (auto simp: numbered_def)
  show ?thesis
  proof (cases "xs = []")
    case True
    then show ?thesis by (auto simp: numbered_def intro!: exI [of _ "f e"])
  next
    case False
    then show ?thesis
      using assms(2) b numbered_last [OF b] by (auto simp: numbered_def intro!: exI [of _ b])
  qed
qed

lemma numbered_inj: "numbered f xs \<Longrightarrow> x \<in> set xs \<Longrightarrow> y \<in> set xs \<Longrightarrow> f x = f y \<Longrightarrow> x = y"
  by (metis distinct_map distinct_upt inj_on_def numbered_def)

lemma numbered_le_last: "numbered f xs \<Longrightarrow> x \<in> set xs \<Longrightarrow> f x \<le> f (last xs)"
proof -
  assume n: "numbered f xs" and x: "x \<in> set xs"
  then obtain b where b: "map f xs = [b..<b + length xs]" by (auto simp: numbered_def)
  obtain i where i: "i < length xs" "x = xs ! i" using x by (auto simp: in_set_conv_nth)
  then show ?thesis using numbered_nth [OF b, of i] numbered_last [OF b] by (cases xs) auto
qed

lemma numbered_next:
  assumes "numbered f (xs @ y # ys)" "xs \<noteq> []"
  shows "f y = Suc (f (last xs))"
proof -
  obtain b where b: "map f (xs @ y # ys) = [b..<b + length (xs @ y # ys)]"
    using assms(1) by (auto simp: numbered_def)
  show ?thesis
    using numbered_nth [OF b, of "length xs"] numbered_nth [OF b, of "length xs - 1"] assms(2)
    by (simp add: nth_append last_conv_nth)
qed

lemma numbered_sublist: "numbered f ys \<Longrightarrow> sublist xs ys \<Longrightarrow> numbered f xs"
proof -
  assume n: "numbered f ys" and "sublist xs ys"
  then obtain ps ss where ys: "ys = ps @ xs @ ss" by (auto simp: sublist_def)
  obtain b where b: "map f ys = [b..<b + length ys]" using n by (auto simp: numbered_def)
  have "map f xs = [b + length ps..<(b + length ps) + length xs]"
  proof (rule nth_equalityI)
    fix i assume "i < length (map f xs)"
    then have "f (ys ! (length ps + i)) = b + (length ps + i)" "ys ! (length ps + i) = xs ! i" "i < length xs"
      using numbered_nth [OF b, of "length ps + i"] ys by (auto simp: nth_append)
    then show "map f xs ! i = [b + length ps..<b + length ps + length xs] ! i" by simp
  qed simp
  then show ?thesis by (auto simp: numbered_def)
qed

lemma sublist_extend:
  assumes "numbered f h" "sublist xs h" "e \<in> set h" "xs = [] \<or> f e = Suc (f (last xs))"
  shows "sublist (xs @ [e]) h"
proof (cases "xs = []")
  case True
  then show ?thesis using assms(3) split_list by (fastforce simp: sublist_def)
next
  case False
  obtain ps ss where h: "h = ps @ xs @ ss" using assms(2) by (auto simp: sublist_def)
  show ?thesis
  proof (cases ss)
    case Nil
    then have "last h = last xs" using h False by simp
    then show ?thesis using numbered_le_last [OF assms(1,3)] assms(4) False by simp
  next
    case (Cons y ys)
    then have "f y = Suc (f (last xs))"
      using numbered_next [of f "ps @ xs" y ys] assms(1) h False by simp
    then have "y = e"
      using numbered_inj [OF assms(1), of y e] assms(3,4) h Cons False by simp
    then show ?thesis using h Cons by (auto simp: sublist_def)
  qed
qed

lemma newest_suffix:
  assumes "numbered f h" "sublist xs h" "xs \<noteq> []" "\<forall>e \<in> set h. f e \<le> f (last xs)"
  shows "suffix xs h"
proof -
  obtain ps ss where h: "h = ps @ xs @ ss" using assms(2) by (auto simp: sublist_def)
  show ?thesis
  proof (cases ss)
    case Nil
    then show ?thesis using h by (auto simp: suffix_def)
  next
    case (Cons y ys)
    then have "f y = Suc (f (last xs))" using numbered_next [of f "ps @ xs" y ys] assms(1,3) h by simp
    then show ?thesis using assms(4) h Cons by auto
  qed
qed

subsection \<open>The retained window\<close>

lemma over_bytes_mono: "over_bytes cf m \<Longrightarrow> m \<le> n \<Longrightarrow> over_bytes cf n"
  by (auto simp: over_bytes_def split: option.splits)

lemma not_over_zero [simp]: "\<not> over_bytes cf 0"
  by (simp add: over_bytes_def split: option.splits)

text \<open>An event that alone exceeds the byte limit empties the window; what was published after the newest such
  event can still be retained.\<close>

definition oversized :: "'e stream_config \<Rightarrow> 'e \<Rightarrow> bool" where
  "oversized cf e \<longleftrightarrow> over_bytes cf (cf_size cf e)"

definition retainable :: "'e stream_config \<Rightarrow> 'e list \<Rightarrow> 'e list" where
  "retainable cf h = rev (takeWhile (\<lambda>e. \<not> oversized cf e) (rev h))"

lemma retainable_Nil [simp]: "retainable cf [] = []"
  by (simp add: retainable_def)

lemma retainable_snoc [simp]: "retainable cf (h @ [e]) = (if oversized cf e then [] else retainable cf h @ [e])"
  by (simp add: retainable_def)

lemma retainable_suffix: "suffix (retainable cf h) h"
  by (simp add: retainable_def suffix_to_prefix takeWhile_is_prefix)

lemma retainable_sub: "x \<in> set (retainable cf h) \<Longrightarrow> x \<in> set h"
  by (meson set_mono_suffix retainable_suffix subsetD)

lemma retainable_misses:
  "x \<in> set h \<Longrightarrow> x \<notin> set (retainable cf h) \<Longrightarrow> numbered (cf_seq cf) h \<Longrightarrow>
     \<exists>y \<in> set h. oversized cf y \<and> cf_seq cf x \<le> cf_seq cf y"
proof (induction h rule: rev_induct)
  case (snoc e h)
  have n: "numbered (cf_seq cf) h" by (rule numbered_sublist [OF snoc.prems(3)]) simp
  show ?case
  proof (cases "oversized cf e")
    case True
    then show ?thesis using numbered_le_last [OF snoc.prems(3,1)] by auto
  next
    case False
    then show ?thesis using snoc.IH n snoc.prems(1,2) by auto
  qed
qed simp

definition window_ok :: "'e stream_config \<Rightarrow> 'e list \<Rightarrow> 'e stream \<Rightarrow> bool" where
  "window_ok cf h st \<longleftrightarrow>
     suffix (map fst (es_events st)) h \<and> (retainable cf h \<noteq> [] \<longrightarrow> es_events st \<noteq> [])
     \<and> length (es_events st) \<le> cf_retention cf
     \<and> es_bytes st = sum_list (map snd (es_events st)) \<and> \<not> over_bytes cf (es_bytes st)
     \<and> (\<forall>x \<in> set (es_events st). snd x = cf_size cf (fst x))"

lemma trim_suffix: "trim cf xs b = (ys, c) \<Longrightarrow> suffix ys xs"
  by (induction cf xs b rule: trim.induct) (auto split: if_splits intro: suffix_ConsI)

lemma trim_bytes: "trim cf xs b = (ys, c) \<Longrightarrow> b = sum_list (map snd xs) \<Longrightarrow> c = sum_list (map snd ys)"
  by (induction cf xs b rule: trim.induct) (auto split: if_splits)

lemma trim_bounds:
  "trim cf xs b = (ys, c) \<Longrightarrow> b = sum_list (map snd xs) \<Longrightarrow>
     length ys \<le> cf_retention cf \<and> \<not> over_bytes cf c"
  by (induction cf xs b rule: trim.induct) (auto split: if_splits)

lemma trim_keeps_last:
  "trim cf (xs @ [(e, n)]) b = (ys, c) \<Longrightarrow> b = sum_list (map snd xs) + n \<Longrightarrow> 1 \<le> cf_retention cf \<Longrightarrow>
     \<not> over_bytes cf n \<Longrightarrow> ys \<noteq> []"
proof (induction xs arbitrary: b)
  case (Cons x xs)
  then show ?case by (cases x) (auto split: if_splits)
qed auto

lemma suffix_snoc_same: "suffix xs ys \<Longrightarrow> suffix (xs @ [z]) (ys @ [z])"
  by (auto simp: suffix_def)

lemma retain_ok:
  assumes ok: "window_ok cf h st" and cf: "config_ok cf"
  shows "window_ok cf (h @ [e]) (retain cf e st)"
proof -
  obtain ys c where t: "trim cf (es_events st @ [(e, cf_size cf e)]) (es_bytes st + cf_size cf e) = (ys, c)"
    by (metis surj_pair)
  have b: "es_bytes st + cf_size cf e = sum_list (map snd (es_events st @ [(e, cf_size cf e)]))"
    using ok by (simp add: window_ok_def)
  have "suffix (map fst ys) (h @ [e])"
  proof (rule suffix_order.trans)
    show "suffix (map fst ys) (map fst (es_events st @ [(e, cf_size cf e)]))"
      by (rule map_mono_suffix) (rule trim_suffix [OF t])
    show "suffix (map fst (es_events st @ [(e, cf_size cf e)])) (h @ [e])"
      using ok by (simp add: window_ok_def suffix_snoc_same)
  qed
  moreover have "ys \<noteq> []" if "\<not> oversized cf e"
    using trim_keeps_last [OF t] ok cf that by (simp add: window_ok_def config_ok_def oversized_def)
  moreover have "set ys \<subseteq> set (es_events st @ [(e, cf_size cf e)])" by (rule set_mono_suffix [OF trim_suffix [OF t]])
  then have "\<forall>x \<in> set ys. snd x = cf_size cf (fst x)" using ok by (auto simp: window_ok_def)
  ultimately show ?thesis
    using trim_bounds [OF t b] trim_bytes [OF t b] by (simp add: window_ok_def retain_def t)
qed

lemma kept_count_le: "kept_count limit keep k es \<le> k + length es"
  by (induction limit keep k es rule: kept_count.induct) auto

lemma kept_count_limit: "k \<le> limit \<Longrightarrow> kept_count limit keep k es \<le> limit"
  by (induction limit keep k es rule: kept_count.induct) auto

lemma kept_count_ge: "k \<le> kept_count limit keep k es"
  by (induction limit keep k es rule: kept_count.induct) auto

lemma kept_count_pos: "1 \<le> limit \<Longrightarrow> es \<noteq> [] \<Longrightarrow> 1 \<le> kept_count limit keep 0 es"
  using kept_count_ge [of 1 limit keep] by (cases es) auto

lemma kept_count_later:
  "1 \<le> k \<Longrightarrow> kept_count limit keep k es = k + min (limit - k) (length (takeWhile keep es))"
  by (induction limit keep k es rule: kept_count.induct) auto

lemma kept_count_run:
  "1 \<le> limit \<Longrightarrow> take (kept_count limit keep 0 es) es =
     take limit (case es of [] \<Rightarrow> [] | e # older \<Rightarrow> e # takeWhile keep older)"
proof (cases es)
  case (Cons e older)
  assume "1 \<le> limit"
  moreover have "take (min n (length (takeWhile keep older))) older = take n (takeWhile keep older)" for n
    by (metis min.commute take_take takeWhile_eq_take)
  ultimately show ?thesis using Cons by (cases limit) (simp_all add: kept_count_later)
qed simp

lemma compact_ok:
  assumes ok: "window_ok cf h st" and c: "compact limit keep st = Some st'"
  shows "window_ok cf h st'"
proof -
  let ?es = "es_events st"
  define kept where "kept = kept_count limit keep 0 (map fst (rev ?es))"
  let ?gone = "length ?es - kept"
  from c have st': "1 \<le> limit" "es_events st' = drop ?gone ?es"
      "es_bytes st' = es_bytes st - sum_list (map snd (take ?gone ?es))"
    by (auto simp: compact_def Let_def kept_def split: if_splits)
  have split: "sum_list (map snd ?es) = sum_list (map snd (take ?gone ?es)) + sum_list (map snd (drop ?gone ?es))"
    by (metis append_take_drop_id map_append sum_list_append)
  have "suffix (map fst (drop ?gone ?es)) h"
    using ok by (meson map_mono_suffix suffix_drop suffix_order.trans window_ok_def)
  moreover have "retainable cf h \<noteq> [] \<Longrightarrow> drop ?gone ?es \<noteq> []"
  proof -
    assume "retainable cf h \<noteq> []"
    then have "?es \<noteq> []" using ok by (simp add: window_ok_def)
    moreover from this have "1 \<le> kept"
      unfolding kept_def by (intro kept_count_pos) (use st'(1) in simp_all)
    moreover have "0 < length ?es" using \<open>?es \<noteq> []\<close> by simp
    ultimately have "?gone < length ?es" by linarith
    then show ?thesis by simp
  qed
  moreover have "es_bytes st' = sum_list (map snd (drop ?gone ?es))" "es_bytes st' \<le> es_bytes st"
    using ok st'(3) split by (auto simp: window_ok_def)
  ultimately show ?thesis
    using ok st'(2) over_bytes_mono [of cf "es_bytes st'" "es_bytes st"]
    by (auto simp: window_ok_def dest: in_set_dropD)
qed

text \<open>What a round reads of the window: events of the history, the newest one among them if it could be retained.\<close>

definition shows_newest :: "'e stream_config \<Rightarrow> 'e list \<Rightarrow> 'e list \<Rightarrow> bool" where
  "shows_newest cf h evs \<longleftrightarrow> set evs \<subseteq> set h \<and> (retainable cf h \<noteq> [] \<longrightarrow> last h \<in> set evs)"

lemma suffix_last: "suffix xs ys \<Longrightarrow> xs \<noteq> [] \<Longrightarrow> last ys = last xs"
  by (auto simp: suffix_def)

lemma window_shows_newest: "window_ok cf h st \<Longrightarrow> shows_newest cf h (stream_events st)"
  unfolding window_ok_def shows_newest_def stream_events_def
  by (metis last_in_set map_is_Nil_conv set_mono_suffix suffix_last)

lemma retainable_covers:
  assumes "suffix xs h" "\<forall>x \<in> set xs. \<not> oversized cf x"
  shows "set xs \<subseteq> set (retainable cf h)"
proof -
  obtain ps where "h = ps @ xs" using assms(1) by (auto simp: suffix_def)
  moreover have "takeWhile (\<lambda>e. \<not> oversized cf e) (rev xs @ rev ps) = rev xs @ takeWhile (\<lambda>e. \<not> oversized cf e) (rev ps)"
    by (rule takeWhile_append2) (use assms(2) in simp)
  ultimately have "retainable cf h = rev (rev xs @ takeWhile (\<lambda>e. \<not> oversized cf e) (rev ps))"
    by (simp add: retainable_def)
  then show ?thesis by simp
qed

lemma window_retainable:
  assumes "window_ok cf h st"
  shows "set (stream_events st) \<subseteq> set (retainable cf h)"
  unfolding stream_events_def
proof (rule retainable_covers)
  show "suffix (map fst (es_events st)) h" using assms by (simp add: window_ok_def)
  have "\<not> oversized cf (fst x)" if "x \<in> set (es_events st)" for x
  proof -
    have "snd x \<le> sum_list (map snd (es_events st))" using that by (intro member_le_sum_list) auto
    then have "cf_size cf (fst x) \<le> es_bytes st" using assms that by (simp add: window_ok_def)
    then show ?thesis using assms over_bytes_mono by (metis oversized_def window_ok_def)
  qed
  then show "\<forall>x \<in> set (map fst (es_events st)). \<not> oversized cf x" by auto
qed

subsection \<open>One subscription\<close>

definition buffered :: "'e subscriber \<Rightarrow> 'e list" where
  "buffered s = (case sb_phase s of Replaying xs \<Rightarrow> xs | Catching xs \<Rightarrow> xs | Draining xs \<Rightarrow> xs | _ \<Rightarrow> [])"

text \<open>What was yielded is an unbroken run of the history, and the cursor is at its last event.\<close>

definition cursor_ok :: "'e stream_config \<Rightarrow> 'e list \<Rightarrow> 'e subscriber \<Rightarrow> 'e list \<Rightarrow> bool" where
  "cursor_ok cf h s got \<longleftrightarrow>
     sublist got h \<and> (sb_head s \<longleftrightarrow> got \<noteq> []) \<and> (got \<noteq> [] \<longrightarrow> sb_after s = cf_seq cf (last got))
     \<and> set (buffered s) \<subseteq> set h \<and> set (sb_queue s) \<subseteq> set h"

definition in_replay :: "'e subscriber \<Rightarrow> bool" where
  "in_replay s \<longleftrightarrow> (case sb_phase s of Fresh \<Rightarrow> True | Replaying xs \<Rightarrow> True | _ \<Rightarrow> False)"

definition is_live :: "'e subscriber \<Rightarrow> bool" where
  "is_live s \<longleftrightarrow> (case sb_phase s of Catching xs \<Rightarrow> True | Draining xs \<Rightarrow> True | Following \<Rightarrow> True | _ \<Rightarrow> False)"

definition links_ok :: "'e subscriber \<Rightarrow> bool" where
  "links_ok s \<longleftrightarrow>
     (sb_closed s \<longrightarrow> sb_shut s \<or> sb_phase s = Ended) \<and> (sb_shut s \<longrightarrow> sb_closed s \<and> sb_queue s = [])
     \<and> (sb_joined s \<longrightarrow> \<not> sb_closed s) \<and> (is_live s \<and> \<not> sb_closed s \<longrightarrow> sb_joined s)
     \<and> (in_replay s \<longrightarrow> \<not> sb_joined s \<and> \<not> sb_closed s \<and> sb_queue s = [] \<and> sb_catching s)"

definition queue_ok :: "'e stream_config \<Rightarrow> 'e subscriber \<Rightarrow> bool" where
  "queue_ok cf s \<longleftrightarrow>
     length (sb_queue s) \<le> cf_queue cf \<and> sb_bytes s = sizes cf (sb_queue s) \<and> \<not> over_bytes cf (sb_bytes s)"

text \<open>A subscription waiting for events has in its queue every event it has not yielded and can still get.\<close>

definition caught_up :: "'e stream_config \<Rightarrow> 'e list \<Rightarrow> 'e subscriber \<Rightarrow> bool" where
  "caught_up cf h s \<longleftrightarrow>
     (sb_phase s = Following \<and> \<not> sb_closed s \<longrightarrow>
        \<not> sb_catching s \<and> (\<forall>x \<in> set (retainable cf h). sb_after s < cf_seq cf x \<longrightarrow> x \<in> set (sb_queue s)))"

definition sub_ok :: "'e stream_config \<Rightarrow> 'e list \<Rightarrow> 'e subscriber \<Rightarrow> 'e list \<Rightarrow> bool" where
  "sub_ok cf h s got \<longleftrightarrow> cursor_ok cf h s got \<and> links_ok s \<and> queue_ok cf s \<and> caught_up cf h s"

lemmas sub_defs = sub_ok_def cursor_ok_def links_ok_def queue_ok_def caught_up_def
lemmas phase_defs = buffered_def in_replay_def is_live_def

lemma sizes_simps [simp]:
  "sizes cf [] = 0" "sizes cf (x # xs) = cf_size cf x + sizes cf xs" "sizes cf (xs @ ys) = sizes cf xs + sizes cf ys"
  by (simp_all add: sizes_def)

lemma subscription_ok: "sub_ok cf h (subscription after live) []"
  by (simp add: sub_defs phase_defs subscription_def)

lemma ended_ok: "sub_ok cf h s got \<Longrightarrow> sub_ok cf h (ended s) got"
  by (auto simp: sub_defs phase_defs ended_def)

lemma evict_ended_ok: "sub_ok cf h s got \<Longrightarrow> sub_ok cf h (ended (evict s)) got"
  by (auto simp: sub_defs phase_defs ended_def evict_def)

lemma live_phase: "is_live s \<Longrightarrow> sb_phase s \<noteq> Ended \<and> \<not> in_replay s"
  by (auto simp: phase_defs split: phase.splits)

lemma replay_phase: "in_replay s \<Longrightarrow> sb_phase s \<noteq> Ended \<and> \<not> is_live s"
  by (auto simp: phase_defs split: phase.splits)

lemma links_stay:
  assumes s: "links_ok s" "is_live s"
    and t: "sb_closed t = sb_closed s" "sb_shut t = sb_shut s" "sb_joined t = sb_joined s"
      "sb_queue t = sb_queue s \<or> sb_queue t = []" "\<not> in_replay t"
  shows "links_ok t"
  using s(1) t s(2) live_phase [OF s(2)] unfolding links_ok_def by (cases "sb_closed s"; cases "sb_shut s") simp_all

lemma links_shut: "links_ok s \<Longrightarrow> sb_phase s \<noteq> Ended \<Longrightarrow> sb_shut s = sb_closed s"
  unfolding links_ok_def by blast

subsection \<open>The events a run passes on\<close>

lemma offer_next:
  assumes "offer cf s xs = Next e rest"
  shows "e \<in> set xs" "set rest \<subseteq> set xs" "sb_after s < cf_seq cf e"
    "sb_head s \<Longrightarrow> cf_seq cf e = Suc (sb_after s)" "\<exists>passed. xs = passed @ e # rest"
    "x \<in> set xs \<Longrightarrow> cf_seq cf e < cf_seq cf x \<Longrightarrow> x \<in> set rest"
proof -
  let ?P = "\<lambda>e. cf_seq cf e \<le> sb_after s"
  have d: "dropWhile ?P xs = e # rest" and gap: "sb_head s \<Longrightarrow> \<not> Suc (sb_after s) < cf_seq cf e"
    using assms by (auto simp: offer_def split: list.splits if_splits)
  have xs: "xs = takeWhile ?P xs @ e # rest" by (metis d takeWhile_dropWhile_id)
  have e: "\<not> ?P e" using d by (metis dropWhile_eq_Cons_conv)
  show "e \<in> set xs" "set rest \<subseteq> set xs" by (subst xs, force)+
  show "sb_after s < cf_seq cf e" using e by simp
  show "cf_seq cf e = Suc (sb_after s)" if "sb_head s" using gap [OF that] e by simp
  show "\<exists>passed. xs = passed @ e # rest" using xs by blast
  show "x \<in> set rest" if x: "x \<in> set xs" "cf_seq cf e < cf_seq cf x"
  proof -
    have "x \<notin> set (takeWhile ?P xs)" using set_takeWhileD [of x ?P xs] e x(2) by auto
    then show ?thesis using x xs by (metis Un_iff less_irrefl set_ConsD set_append)
  qed
qed

lemma offer_nothing: "offer cf s xs = Nothing_New \<Longrightarrow> x \<in> set xs \<Longrightarrow> cf_seq cf x \<le> sb_after s"
  by (auto simp: offer_def split: list.splits if_splits dest: dropWhile_eq_Nil_conv [THEN iffD1])

lemma offer_Nil [simp]: "offer cf s [] = Nothing_New"
  by (simp add: offer_def)

text \<open>Passing an event on extends what was yielded by the next event of the history.\<close>

lemma yielded_cursor:
  assumes "numbered (cf_seq cf) h" "cursor_ok cf h s got" "offer cf s xs = Next e rest" "set xs \<subseteq> set h"
    and "q = Following \<or> q = Catching rest \<or> q = Draining rest \<or> q = Replaying rest"
  shows "cursor_ok cf h (yielded cf e q s) (got @ [e])"
proof -
  note o = offer_next [OF assms(3)]
  have "got = [] \<or> cf_seq cf e = Suc (cf_seq cf (last got))"
    using assms(2) o(4) by (auto simp: cursor_ok_def)
  then have "sublist (got @ [e]) h"
    using sublist_extend [OF assms(1)] assms(2,4) o(1) by (auto simp: cursor_ok_def)
  then show ?thesis
    using assms(2,4,5) o(2) by (auto simp: cursor_ok_def yielded_def buffered_def)
qed

subsection \<open>A run keeps the invariant\<close>

text \<open>A run may wait only when nothing published that could still be retained is left to yield.\<close>

definition run_ok :: "'e stream_config \<Rightarrow> 'e list \<Rightarrow> 'e list \<Rightarrow> 'e subscriber \<times> 'e outcome \<Rightarrow> bool" where
  "run_ok cf h got r \<longleftrightarrow>
     sub_ok cf h (fst r) (got_more got (snd r))
     \<and> (snd r = Waits \<longrightarrow>
          sb_phase (fst r) = Following \<and> \<not> sb_closed (fst r) \<and> (\<forall>x \<in> set (retainable cf h). cf_seq cf x \<le> sb_after (fst r)))"

lemma run_ok_ends: "run_ok cf h got (s, Ends) \<longleftrightarrow> sub_ok cf h s got"
  by (simp add: run_ok_def got_more_def)

lemma run_ok_yields: "run_ok cf h got (s, Yields e) \<longleftrightarrow> sub_ok cf h s (got @ [e])"
  by (simp add: run_ok_def got_more_def)

lemma queue_ok_rest:
  assumes "queue_ok cf s" "sb_queue s = passed @ e # rest"
  shows "length rest \<le> cf_queue cf \<and> sb_bytes s - (sizes cf (sb_queue s) - sizes cf rest) = sizes cf rest
    \<and> \<not> over_bytes cf (sizes cf rest)"
  using assms over_bytes_mono [of cf "sizes cf rest" "sizes cf (sb_queue s)"]
  by (auto simp: queue_ok_def)

lemma follow_ok:
  assumes n: "numbered (cf_seq cf) h" and ok: "sub_ok cf h s got" and ph: "sb_phase s = Following"
  shows "run_ok cf h got (follow cf s)"
proof (cases "sb_shut s")
  case True
  then show ?thesis using ok by (simp add: follow_def run_ok_ends ended_ok)
next
  case open_queue: False
  then have "\<not> sb_closed s" using ok ph by (auto simp: sub_ok_def links_ok_def)
  then have all: "x \<in> set (retainable cf h) \<Longrightarrow> sb_after s < cf_seq cf x \<Longrightarrow> x \<in> set (sb_queue s)" for x
    using ok ph by (auto simp: sub_ok_def caught_up_def)
  show ?thesis
  proof (cases "offer cf s (sb_queue s)")
    case Nothing_New
    then have "\<forall>x \<in> set (retainable cf h). cf_seq cf x \<le> sb_after s" using all offer_nothing linorder_not_le by metis
    then show ?thesis
      using ok ph open_queue \<open>\<not> sb_closed s\<close>
      by (auto simp: follow_def Nothing_New run_ok_def got_more_def sub_defs phase_defs)
  next
    case Gap
    then show ?thesis using ok open_queue by (simp add: follow_def run_ok_ends evict_ended_ok)
  next
    case (Next e rest)
    note o = offer_next [OF Next]
    let ?s = "s\<lparr>sb_queue := rest, sb_bytes := sb_bytes s - (sizes cf (sb_queue s) - sizes cf rest)\<rparr>"
    have q: "set (sb_queue s) \<subseteq> set h" and c: "cursor_ok cf h s got" using ok by (auto simp: sub_ok_def cursor_ok_def)
    have "cursor_ok cf h (yielded cf e Following s) (got @ [e])"
      by (rule yielded_cursor [OF n c Next q]) simp
    then have "cursor_ok cf h (yielded cf e Following ?s) (got @ [e])"
      using o(2) q by (auto simp: cursor_ok_def yielded_def buffered_def)
    moreover have "queue_ok cf (yielded cf e Following ?s)"
      using ok o(5) queue_ok_rest [of cf s] by (auto simp: sub_ok_def queue_ok_def yielded_def)
    moreover have "links_ok (yielded cf e Following ?s)"
      using ok ph open_queue \<open>\<not> sb_closed s\<close> by (auto simp: sub_ok_def links_ok_def yielded_def phase_defs)
    moreover have "caught_up cf h (yielded cf e Following ?s)"
      using ok ph \<open>\<not> sb_closed s\<close> all o(3,6) by (auto simp: sub_ok_def caught_up_def yielded_def)
    ultimately show ?thesis
      using open_queue by (simp add: follow_def Next run_ok_yields sub_ok_def)
  qed
qed

text \<open>Yielding in the replay or in a catch-up round; the queue stays as it is.\<close>

lemma pass_on_ok:
  assumes n: "numbered (cf_seq cf) h" and ok: "sub_ok cf h s got" and o: "offer cf s xs = Next e rest"
    and xs: "set xs \<subseteq> set h" and q: "q = Catching rest \<or> q = Draining rest \<or> q = Replaying rest"
    and ph: "if q = Replaying rest then in_replay s else is_live s"
  shows "run_ok cf h got (yielded cf e q s, Yields e)"
proof -
  have "cursor_ok cf h (yielded cf e q s) (got @ [e])"
    by (rule yielded_cursor [OF n _ o xs]) (use ok q in \<open>auto simp: sub_ok_def\<close>)
  moreover have "links_ok (yielded cf e q s)"
  proof (cases "q = Replaying rest")
    case True
    then show ?thesis
      using ok ph replay_phase [of s] by (auto simp: sub_ok_def links_ok_def yielded_def in_replay_def is_live_def)
  next
    case False
    then have "is_live s" "\<not> in_replay (yielded cf e q s)" "sb_phase (yielded cf e q s) \<noteq> Ended"
      using ph q by (auto simp: yielded_def in_replay_def)
    then show ?thesis
      using ok by (auto simp: sub_ok_def yielded_def intro: links_stay [of s])
  qed
  moreover have "queue_ok cf (yielded cf e q s) \<and> caught_up cf h (yielded cf e q s)"
    using ok q by (auto simp: sub_ok_def queue_ok_def caught_up_def yielded_def)
  ultimately show ?thesis by (simp add: run_ok_yields sub_ok_def)
qed

lemma drained_round_ok:
  assumes n: "numbered (cf_seq cf) h" and ok: "sub_ok cf h s got" and ds: "set ds \<subseteq> set h"
    and live: "is_live s"
    and again: "progressed \<Longrightarrow> offer cf s ds = Nothing_New \<Longrightarrow> \<not> sb_closed s \<Longrightarrow> run_ok cf h got (again s)"
    and newest: "\<not> progressed \<Longrightarrow> \<not> sb_closed s \<Longrightarrow> \<forall>x \<in> set (retainable cf h). cf_seq cf x \<le> sb_after s"
  shows "run_ok cf h got (drained_round cf progressed again ds s)"
proof (cases "offer cf s ds")
  case Nothing_New
  show ?thesis
  proof (cases "sb_closed s \<or> progressed")
    case True
    then show ?thesis using again [OF _ Nothing_New] ok
      by (cases "sb_closed s") (simp_all add: drained_round_def Nothing_New run_ok_ends ended_ok)
  next
    case False
    then have "\<forall>x \<in> set (retainable cf h). cf_seq cf x \<le> sb_after s" using newest by simp
    then have "sub_ok cf h (s\<lparr>sb_catching := False, sb_phase := Following\<rparr>) got"
      using ok live False by (auto simp: sub_defs phase_defs split: phase.splits)
    then have "run_ok cf h got (follow cf (s\<lparr>sb_catching := False, sb_phase := Following\<rparr>))"
      by (rule follow_ok [OF n]) simp
    then show ?thesis using False by (simp add: drained_round_def Nothing_New)
  qed
next
  case Gap
  then show ?thesis using ok by (simp add: drained_round_def run_ok_ends evict_ended_ok)
next
  case (Next e rest)
  then show ?thesis using pass_on_ok [OF n ok Next ds, of "Draining rest"] live by (simp add: drained_round_def)
qed

lemma drain_ok:
  assumes ok: "sub_ok cf h s got" and live: "is_live s" and d: "drain cf s = (s', ds)"
    and ph: "sb_phase s \<noteq> Following"
  shows "sub_ok cf h s' got" "set ds \<subseteq> set h" "is_live s'" "sb_closed s' = sb_closed s"
    "sb_after s' = sb_after s" "sb_closed s \<Longrightarrow> ds = []"
proof -
  have s': "s' = (if sb_shut s then s\<lparr>sb_closed := True\<rparr>
                  else s\<lparr>sb_queue := [], sb_bytes := sb_bytes s - sizes cf (sb_queue s)\<rparr>)"
      "ds = (if sb_shut s then [] else sb_queue s)"
    using d by (auto simp: drain_def split: if_splits)
  have l: "links_ok s" "sb_phase s \<noteq> Ended" using ok live_phase [OF live] by (auto simp: sub_ok_def)
  show "set ds \<subseteq> set h" using ok s'(2) by (simp add: sub_ok_def cursor_ok_def)
  show "is_live s'" using live s'(1) by (simp add: is_live_def)
  have shut: "sb_shut s = sb_closed s" by (rule links_shut [OF l])
  then show "sb_closed s' = sb_closed s" using s'(1) by simp
  show "sb_after s' = sb_after s" using s'(1) by simp
  show "ds = []" if "sb_closed s" using that shut s'(2) by simp
  have "cursor_ok cf h s' got"
    using ok unfolding s'(1) by (cases "sb_shut s") (simp_all add: sub_ok_def cursor_ok_def buffered_def)
  moreover have "queue_ok cf s'"
    using ok unfolding s'(1) by (cases "sb_shut s") (auto simp: sub_ok_def queue_ok_def)
  moreover have "caught_up cf h s'"
    using ph unfolding s'(1) by (cases "sb_shut s") (simp_all add: caught_up_def)
  moreover have "links_ok s'"
  proof (rule links_stay [OF l(1) live])
    show "\<not> in_replay s'" using live_phase [OF live] s'(1) by (simp add: in_replay_def)
  qed (use shut s'(1) in \<open>auto\<close>)
  ultimately show "sub_ok cf h s' got" by (simp add: sub_ok_def)
qed

text \<open>The states of the catch-up.\<close>

definition catching :: "'e stream_config \<Rightarrow> 'e list \<Rightarrow> 'e list \<Rightarrow> 'e subscriber \<Rightarrow> bool" where
  "catching cf h got s \<longleftrightarrow> sub_ok cf h s got \<and> is_live s \<and> sb_phase s \<noteq> Following"

lemma drain_phase: "drain cf s = (s', ds) \<Longrightarrow> sb_phase s' = sb_phase s"
  by (auto simp: drain_def split: if_splits)

lemma retained_round_ok:
  assumes n: "numbered (cf_seq cf) h" and c: "catching cf h got s" and xs: "set xs \<subseteq> set h"
    and again: "\<And>s'. progressed \<Longrightarrow> catching cf h got s' \<Longrightarrow> run_ok cf h got (again s')"
    and newest: "\<not> progressed \<Longrightarrow> shows_newest cf h xs"
  shows "run_ok cf h got (retained_round cf progressed again xs s)"
proof -
  have ok: "sub_ok cf h s got" "is_live s" "sb_phase s \<noteq> Following" using c by (auto simp: catching_def)
  obtain s' ds where d: "drain cf s = (s', ds)" by (metis surj_pair)
  note dr = drain_ok [OF ok(1,2) d ok(3)]
  have passed: "run_ok cf h got (drained_round cf progressed again ds s')"
    if none: "sb_closed s \<or> offer cf s xs = Nothing_New"
  proof (rule drained_round_ok [OF n dr(1-3)])
    show "run_ok cf h got (again s')" if progressed
      using again [OF that] dr(1,3) ok(3) drain_phase [OF d] by (simp add: catching_def)
    show "\<forall>x \<in> set (retainable cf h). cf_seq cf x \<le> sb_after s'" if "\<not> progressed" "\<not> sb_closed s'"
    proof
      fix x assume x: "x \<in> set (retainable cf h)"
      then have "last h \<in> set xs" using newest that(1) by (auto simp: shows_newest_def)
      then have "cf_seq cf (last h) \<le> sb_after s" using none that(2) dr(4) offer_nothing by metis
      then show "cf_seq cf x \<le> sb_after s'" using numbered_le_last [OF n retainable_sub [OF x]] dr(5) by simp
    qed
  qed
  show ?thesis
  proof (cases "sb_closed s")
    case True
    then have "retained_round cf progressed again xs s = drained_round cf progressed again ds s'"
      by (simp add: retained_round_def d)
    then show ?thesis using passed True by metis
  next
    case open_sub: False
    show ?thesis
    proof (cases "offer cf s xs")
      case Nothing_New
      then show ?thesis using passed open_sub by (simp add: retained_round_def d)
    next
      case Gap
      then show ?thesis using ok(1) open_sub by (simp add: retained_round_def run_ok_ends evict_ended_ok)
    next
      case (Next e rest)
      then show ?thesis
        using pass_on_ok [OF n ok(1) Next xs, of "Catching rest"] ok(2) open_sub by (simp add: retained_round_def)
    qed
  qed
qed

lemma new_round_ok:
  "numbered (cf_seq cf) h \<Longrightarrow> catching cf h got s \<Longrightarrow> shows_newest cf h evs \<Longrightarrow>
     run_ok cf h got (new_round cf evs s)"
  unfolding new_round_def by (rule retained_round_ok) (auto simp: shows_newest_def)

lemma joined_catching:
  assumes "sub_ok cf h s got" "in_replay s"
  shows "catching cf h got (s\<lparr>sb_joined := True, sb_phase := Catching []\<rparr>)"
proof -
  have "sub_ok cf h s got \<and> \<not> sb_joined s \<and> \<not> sb_closed s \<and> \<not> sb_shut s \<and> sb_queue s = []"
    using assms by (auto simp: sub_ok_def links_ok_def)
  then show ?thesis
    by (auto simp: catching_def sub_ok_def cursor_ok_def links_ok_def queue_ok_def caught_up_def phase_defs)
qed

lemma replay_round_ok:
  assumes n: "numbered (cf_seq cf) h" and ok: "sub_ok cf h s got" and ph: "in_replay s"
    and xs: "set xs \<subseteq> set h" and evs: "shows_newest cf h evs"
  shows "run_ok cf h got (replay_round cf evs xs s)"
proof (cases "offer cf s xs")
  case Nothing_New
  then show ?thesis
    using ok new_round_ok [OF n joined_catching [OF ok ph] evs]
    by (simp add: replay_round_def run_ok_ends ended_ok)
next
  case Gap
  then show ?thesis using ok by (simp add: replay_round_def run_ok_ends ended_ok)
next
  case (Next e rest)
  then show ?thesis using pass_on_ok [OF n ok Next xs, of "Replaying rest"] ph by (simp add: replay_round_def)
qed

lemma advance_ok:
  assumes n: "numbered (cf_seq cf) h" and ok: "sub_ok cf h s got" and evs: "shows_newest cf h evs"
  shows "run_ok cf h got (advance cf evs s)"
proof -
  have buf: "set (buffered s) \<subseteq> set h" "set evs \<subseteq> set h"
    using ok evs by (auto simp: sub_ok_def cursor_ok_def shows_newest_def)
  have again: "catching cf h got s' \<Longrightarrow> run_ok cf h got (new_round cf evs s')" for s'
    by (rule new_round_ok [OF n _ evs])
  show ?thesis
  proof (cases "sb_phase s")
    case Fresh
    then show ?thesis
      using replay_round_ok [OF n ok _ buf(2) evs] by (simp add: advance_def in_replay_def)
  next
    case (Replaying xs)
    then show ?thesis
      using replay_round_ok [OF n ok _ _ evs, of xs] buf(1) by (simp add: advance_def in_replay_def buffered_def)
  next
    case (Catching xs)
    have "catching cf h got s" using ok Catching by (simp add: catching_def is_live_def)
    then show ?thesis
      using retained_round_ok [OF n _ _ again, of s xs True] buf(1) Catching
      by (simp add: advance_def buffered_def)
  next
    case (Draining ds)
    have "catching cf h got s" using ok Draining by (simp add: catching_def is_live_def)
    then show ?thesis
      using drained_round_ok [OF n ok, of ds True "new_round cf evs"] again buf(1) Draining
      by (simp add: advance_def buffered_def is_live_def)
  next
    case Following
    then show ?thesis using follow_ok [OF n ok] by (simp add: advance_def)
  next
    case Stopping
    then show ?thesis using ok by (simp add: advance_def run_ok_ends ended_ok)
  next
    case Ended
    then show ?thesis using ok by (simp add: advance_def run_ok_ends)
  qed
qed

subsection \<open>Publishing, and every step\<close>

lemma sublist_more: "sublist xs h \<Longrightarrow> sublist xs (h @ ys)"
  by (simp add: sublist_append)

lemma untouched_ok:
  assumes "sub_ok cf h s got" "sb_joined s \<Longrightarrow> False"
  shows "sub_ok cf (h @ [e]) s got"
proof -
  have "\<not> (sb_phase s = Following \<and> \<not> sb_closed s)"
    using assms by (auto simp: sub_ok_def links_ok_def is_live_def)
  then show ?thesis using assms(1) by (auto simp: sub_ok_def cursor_ok_def caught_up_def intro: sublist_more)
qed

lemma evict_ok:
  assumes "sub_ok cf h s got" "sb_joined s"
  shows "sub_ok cf (h @ [e]) (evict s) got"
proof -
  have "\<not> sb_closed s \<and> \<not> in_replay s" using assms by (auto simp: sub_ok_def links_ok_def)
  then show ?thesis
    using assms(1) by (auto simp: sub_ok_def cursor_ok_def links_ok_def queue_ok_def caught_up_def evict_def
        buffered_def in_replay_def intro: sublist_more)
qed

lemma publish_to_ok:
  assumes ok: "sub_ok cf h s got" and joined: "sb_joined s"
  shows "sub_ok cf (h @ [e]) (publish_to cf e s) got"
proof -
  have s: "\<not> sb_closed s" "\<not> in_replay s" "\<not> sb_shut s" using ok joined by (auto simp: sub_ok_def links_ok_def)
  consider (evicts) "publish_to cf e s = evict s"
    | (queues) "publish_to cf e s = s\<lparr>sb_queue := sb_queue s @ [e], sb_bytes := sb_bytes s + cf_size cf e\<rparr>"
        "length (sb_queue s) < cf_queue cf" "\<not> over_bytes cf (sb_bytes s + cf_size cf e)"
    | (drops) "publish_to cf e s = s" "sb_catching s"
    unfolding publish_to_def using s(1) by metis
  then show ?thesis
  proof cases
    case evicts
    then show ?thesis using evict_ok [OF ok joined] by simp
  next
    case queues
    then show ?thesis
      using ok s by (auto simp: sub_ok_def cursor_ok_def links_ok_def queue_ok_def caught_up_def phase_defs
          intro: sublist_more)
  next
    case drops
    then show ?thesis
      using ok by (auto simp: sub_ok_def cursor_ok_def caught_up_def intro: sublist_more)
  qed
qed

definition system_ok :: "'e stream_config \<Rightarrow> 'e system \<Rightarrow> bool" where
  "system_ok cf sy \<longleftrightarrow>
     config_ok cf \<and> numbered (cf_seq cf) (sy_history sy) \<and> window_ok cf (sy_history sy) (sy_stream sy)
     \<and> (\<forall>(s, got) \<in> set (sy_subs sy). sub_ok cf (sy_history sy) s got)"

lemma new_system_ok: "config_ok cf \<Longrightarrow> system_ok cf new_system"
  by (simp add: system_ok_def new_system_def window_ok_def)

lemma publish_ok:
  assumes ok: "system_ok cf sy" and e: "next_event cf e (sy_history sy)"
  shows "system_ok cf (publish cf e sy)"
proof -
  have "numbered (cf_seq cf) (sy_history sy @ [e])"
    using ok e by (intro numbered_snoc) (auto simp: system_ok_def next_event_def)
  moreover have "window_ok cf (sy_history sy @ [e]) (retain cf e (sy_stream sy))"
    using ok e by (intro retain_ok) (auto simp: system_ok_def next_event_def)
  moreover have "sub_ok cf (sy_history sy @ [e]) (if sb_joined s then publish_to cf e s else s) got"
    if "(s, got) \<in> set (sy_subs sy)" for s got
    using that ok publish_to_ok [of cf "sy_history sy" s got e] untouched_ok [of cf "sy_history sy" s got e]
    by (auto simp: system_ok_def)
  ultimately show ?thesis using ok by (auto simp: system_ok_def publish_def)
qed

lemma update_sub_ok:
  assumes "system_ok cf sy" "sub_ok cf (sy_history sy) s got"
  shows "system_ok cf (sy\<lparr>sy_subs := (sy_subs sy)[i := (s, got)]\<rparr>)"
  using assms by (auto simp: system_ok_def dest!: set_update_subset_insert [THEN subsetD])

lemma run_sub_run_ok:
  assumes ok: "system_ok cf sy" and i: "i < length (sy_subs sy)" "sy_subs sy ! i = (s, got)"
  shows "run_ok cf (sy_history sy) got (advance cf (stream_events (sy_stream sy)) s)"
proof -
  have "(s, got) \<in> set (sy_subs sy)" using i nth_mem by fastforce
  then have "sub_ok cf (sy_history sy) s got" using ok by (auto simp: system_ok_def)
  then show ?thesis
    using ok by (auto simp: system_ok_def intro: advance_ok window_shows_newest)
qed

lemma run_sub_ok:
  assumes ok: "system_ok cf sy" and i: "i < length (sy_subs sy)"
  shows "system_ok cf (run_sub cf i sy)"
proof -
  obtain s got where s: "sy_subs sy ! i = (s, got)" by (metis surj_pair)
  obtain s' r where a: "advance cf (stream_events (sy_stream sy)) s = (s', r)" by (metis surj_pair)
  have "sub_ok cf (sy_history sy) s' (got_more got r)"
    using run_sub_run_ok [OF ok i s] a by (simp add: run_ok_def)
  then show ?thesis using update_sub_ok [OF ok] by (simp add: run_sub_def s a)
qed

lemma stream_step_ok: "stream_step cf sy sz \<Longrightarrow> system_ok cf sy \<Longrightarrow> system_ok cf sz"
proof (induction rule: stream_step.induct)
  case (publishes e sy)
  then show ?case by (simp add: publish_ok)
next
  case (compacts limit keep sy st)
  then show ?case by (auto simp: system_ok_def intro: compact_ok)
next
  case (subscribes sy after live)
  then show ?case by (auto simp: system_ok_def subscription_ok)
next
  case (runs i sy)
  then show ?case by (simp add: run_sub_ok)
next
  case (leaves i sy s got)
  then have "(s, got) \<in> set (sy_subs sy)" by (metis nth_mem)
  then have "sub_ok cf (sy_history sy) (ended s) got"
    using leaves by (auto simp: system_ok_def intro: ended_ok)
  then show ?case by (rule update_sub_ok [OF leaves(3)])
qed

interpretation stream_inv: preserving "stream_step cf" "system_ok cf" for cf :: "'e stream_config"
  by unfold_locales (rule stream_step_ok)

lemma reached_ok: "config_ok cf \<Longrightarrow> (stream_step cf)\<^sup>*\<^sup>* new_system sy \<Longrightarrow> system_ok cf sy"
  using stream_inv.steps_ok new_system_ok by blast

subsection \<open>The end of an evicted subscription\<close>

text \<open>It has only the events of its current round left, one fewer after each run.\<close>

definition runs_left :: "'e subscriber \<Rightarrow> nat" where
  "runs_left s = (case sb_phase s of Ended \<Rightarrow> 0 | Draining ds \<Rightarrow> Suc (length ds) | _ \<Rightarrow> 1)"

lemma closed_advance:
  assumes "links_ok s" "sb_closed s"
  shows "let t = fst (advance cf evs s) in
    links_ok t \<and> sb_closed t \<and> runs_left t \<le> runs_left s - 1"
proof (cases "sb_phase s = Ended")
  case True
  then show ?thesis using assms by (simp add: advance_def runs_left_def)
next
  case False
  then have s: "sb_shut s" "\<not> in_replay s" "sb_queue s = []" "\<not> sb_joined s"
    using assms by (auto simp: links_ok_def)
  have ended: "links_ok (ended u) \<and> sb_closed (ended u) \<and> runs_left (ended u) = 0"
    if "sb_queue u = []" "\<not> sb_joined u" for u :: "'a subscriber"
    using that by (simp add: ended_def links_ok_def runs_left_def is_live_def in_replay_def)
  have gone: "sb_queue (evict s) = []" "\<not> sb_joined (evict s)" using s assms by (auto simp: evict_def)
  show ?thesis
  proof (cases "sb_phase s")
    case (Draining ds)
    show ?thesis
    proof (cases "offer cf s ds")
      case (Next e rest)
      have "length rest < length ds" using offer_next(5) [OF Next] by auto
      then show ?thesis
        using s assms Draining
        by (auto simp: advance_def drained_round_def Next yielded_def links_ok_def runs_left_def phase_defs)
    qed (use s assms Draining ended gone in \<open>auto simp: advance_def drained_round_def Let_def\<close>)
  qed (use s assms ended gone False in
      \<open>auto simp: advance_def retained_round_def drained_round_def drain_def follow_def in_replay_def Let_def\<close>)
qed

lemma closed_runs_left:
  "links_ok s \<Longrightarrow> sb_closed s \<Longrightarrow> runs_left s \<le> length windows \<Longrightarrow>
     sb_phase (fold (\<lambda>evs s. fst (advance cf evs s)) windows s) = Ended"
proof (induction windows arbitrary: s)
  case Nil
  then show ?case by (auto simp: runs_left_def split: phase.splits)
next
  case (Cons evs windows)
  note step = closed_advance [OF Cons.prems(1,2), of cf evs]
  then have "runs_left (fst (advance cf evs s)) \<le> length windows"
    using Cons.prems(3) unfolding Let_def list.size by linarith
  then show ?case using step Cons.IH by (simp add: Let_def)
qed

lemma closed_runs_end:
  assumes "links_ok s" "sb_closed s" "length (buffered s) < length windows"
  shows "sb_phase (fold (\<lambda>evs s. fst (advance cf evs s)) windows s) = Ended"
proof (rule closed_runs_left [OF assms(1,2)])
  show "runs_left s \<le> length windows"
    using assms(3) by (auto simp: runs_left_def buffered_def split: phase.splits)
qed

subsection \<open>An undisturbed subscription\<close>

fun outcomes :: "'e stream_config \<Rightarrow> 'e list \<Rightarrow> 'e subscriber \<Rightarrow> nat \<Rightarrow> 'e outcome list" where
  "outcomes cf evs s 0 = []"
| "outcomes cf evs s (Suc n) = (case advance cf evs s of (s', r) \<Rightarrow> r # outcomes cf evs s' n)"

definition newer :: "'e stream_config \<Rightarrow> nat \<Rightarrow> 'e list \<Rightarrow> 'e list" where
  "newer cf after evs = filter (\<lambda>e. after < cf_seq cf e) evs"

lemma numbered_Cons: "numbered f (x # xs) \<Longrightarrow> numbered f xs \<and> (\<forall>y \<in> set xs. f x < f y)"
proof
  assume n: "numbered f (x # xs)"
  show "numbered f xs" by (rule numbered_sublist [OF n]) (metis append_Cons append_Nil sublist_append_leftI)
  obtain b where b: "map f (x # xs) = [b..<b + length (x # xs)]" using n by (auto simp: numbered_def)
  show "\<forall>y \<in> set xs. f x < f y"
  proof
    fix y assume "y \<in> set xs"
    then obtain i where "i < length xs" "xs ! i = y" by (auto simp: in_set_conv_nth)
    then show "f x < f y" using numbered_nth [OF b, of 0] numbered_nth [OF b, of "Suc i"] by simp
  qed
qed

lemma dropWhile_newer: "numbered (cf_seq cf) evs \<Longrightarrow> dropWhile (\<lambda>e. cf_seq cf e \<le> a) evs = newer cf a evs"
proof (induction evs)
  case (Cons x xs)
  note tail = numbered_Cons [OF Cons.prems]
  then have "a < cf_seq cf x \<Longrightarrow> newer cf a xs = xs" by (force simp: newer_def filter_id_conv)
  then show ?case using Cons.IH tail by (simp add: newer_def)
qed (simp add: newer_def)

lemma newer_numbered: "numbered (cf_seq cf) evs \<Longrightarrow> numbered (cf_seq cf) (newer cf a evs)"
  by (metis dropWhile_newer numbered_sublist sublist_dropWhile)

lemma caught_up_round:
  assumes "\<forall>e \<in> set evs. cf_seq cf e \<le> sb_after s" "\<not> sb_closed s" "\<not> sb_shut s" "sb_queue s = []"
  shows "snd (new_round cf evs s) = Waits"
proof -
  have "dropWhile (\<lambda>e. cf_seq cf e \<le> sb_after s) evs = []" using assms(1) by (simp add: dropWhile_eq_Nil_conv)
  then have "offer cf s evs = Nothing_New" by (simp only: offer_def list.case)
  then show ?thesis
    using assms(2-4) by (simp add: new_round_def retained_round_def drain_def drained_round_def follow_def)
qed

lemma replays:
  assumes "numbered (cf_seq cf) xs" "\<forall>e \<in> set xs. sb_after s < cf_seq cf e \<and> \<not> cf_terminal cf e"
    and "sb_head s \<Longrightarrow> xs \<noteq> [] \<Longrightarrow> cf_seq cf (hd xs) = Suc (sb_after s)"
    and "\<forall>e \<in> set evs. cf_seq cf e \<le> (if xs = [] then sb_after s else cf_seq cf (last xs))"
    and "\<not> sb_closed s" "\<not> sb_shut s" "sb_queue s = []"
    and "replay_round cf evs xs s = (s', r)"
  shows "r # outcomes cf evs s' (length xs) = map Yields xs @ [if sb_live s then Waits else Ends]"
  using assms
proof (induction xs arbitrary: s s' r)
  case Nil
  have "sb_live s \<Longrightarrow> snd (new_round cf evs (s\<lparr>sb_joined := True, sb_phase := Catching []\<rparr>)) = Waits"
    by (rule caught_up_round) (use Nil.prems in simp_all)
  then show ?case using Nil.prems(8) by (cases "sb_live s") (auto simp: replay_round_def)
next
  case (Cons x xs)
  note tail = numbered_Cons [OF Cons.prems(1)]
  have "offer cf s (x # xs) = Next x xs"
    using Cons.prems(2,3) by (auto simp: offer_def)
  then have s': "s' = yielded cf x (Replaying xs) s" "r = Yields x"
    using Cons.prems(8) by (auto simp: replay_round_def)
  have ph: "sb_phase s' = Replaying xs" using Cons.prems(2) by (simp add: s'(1) yielded_def)
  obtain t q where t: "replay_round cf evs xs s' = (t, q)" by (metis surj_pair)
  have "q # outcomes cf evs t (length xs) = map Yields xs @ [if sb_live s' then Waits else Ends]"
  proof (rule Cons.IH [OF _ _ _ _ _ _ _ t])
    show "cf_seq cf (hd xs) = Suc (sb_after s')" if "xs \<noteq> []"
      using numbered_next [of "cf_seq cf" "[x]" "hd xs" "tl xs"] Cons.prems(1) that by (simp add: s'(1) yielded_def)
    show "\<forall>e \<in> set evs. cf_seq cf e \<le> (if xs = [] then sb_after s' else cf_seq cf (last xs))"
      using Cons.prems(4) by (auto simp: s'(1) yielded_def)
  qed (use tail Cons.prems in \<open>simp_all add: s'(1) yielded_def\<close>)
  then show ?case using t s'(2) ph Cons.prems by (simp add: advance_def s'(1) yielded_def)
qed

end
