(* ===== verification/Event_Stream_Properties.thy ===== *)
theory Event_Stream_Properties
  imports Event_Stream_Facts
begin

section \<open>Properties of replayed event streams\<close>

text \<open>
  Whatever publishers, subscribers and compaction do in whatever order: what a subscription yields, when it
  may wait, what the stream may hold, and that an evicted subscription comes to its end.
\<close>

subsection \<open>A stream of numbers\<close>

text \<open>The instance the examples run on: events are their own sequence numbers.\<close>

definition numbers :: "nat stream_config" where
  "numbers = \<lparr>cf_retention = 2, cf_queue = 1, cf_bytes = Some 9, cf_seq = (\<lambda>e. e), cf_terminal = (\<lambda>e. False),
     cf_size = (\<lambda>e. 4)\<rparr>"

text \<open>Three events, then a subscription that reads the retained ones and waits.\<close>

definition numbers_subscribed :: "nat system" where
  "numbers_subscribed =
     (let sy = publish numbers 5 (publish numbers 4 (publish numbers 3 new_system)) in
      sy\<lparr>sy_subs := sy_subs sy @ [(subscription 0 True, [])]\<rparr>)"

definition numbers_read :: "nat system" where
  "numbers_read = run_sub numbers 0 (run_sub numbers 0 numbers_subscribed)"

definition numbers_lagging :: "nat system" where
  "numbers_lagging = publish numbers 7 (publish numbers 6 (run_sub numbers 0 numbers_read))"

lemma numbers_ok: "config_ok numbers"
  by (simp add: numbers_def config_ok_def)

lemma numbers_subscribed_reached: "(stream_step numbers)\<^sup>*\<^sup>* new_system numbers_subscribed"
proof -
  have e: "next_event numbers 3 (sy_history new_system)"
      "next_event numbers 4 (sy_history (publish numbers 3 new_system))"
      "next_event numbers 5 (sy_history (publish numbers 4 (publish numbers 3 new_system)))"
    by (simp_all add: next_event_def new_system_def publish_def numbers_def over_bytes_def)
  have "(stream_step numbers)\<^sup>*\<^sup>* new_system (publish numbers 5 (publish numbers 4 (publish numbers 3 new_system)))"
    by (meson e publishes rtranclp.rtrancl_refl rtranclp.rtrancl_into_rtrancl)
  then show ?thesis
    unfolding numbers_subscribed_def Let_def by (rule rtranclp.rtrancl_into_rtrancl) (rule subscribes)
qed

lemma numbers_read_reached: "(stream_step numbers)\<^sup>*\<^sup>* new_system numbers_read"
proof -
  have "0 < length (sy_subs numbers_subscribed)" "0 < length (sy_subs (run_sub numbers 0 numbers_subscribed))"
    by code_simp+
  then show ?thesis
    unfolding numbers_read_def
    by (meson numbers_subscribed_reached runs rtranclp.rtrancl_into_rtrancl)
qed

lemma numbers_lagging_reached: "(stream_step numbers)\<^sup>*\<^sup>* new_system numbers_lagging"
proof -
  have "next_event numbers 6 (sy_history (run_sub numbers 0 numbers_read))"
      "next_event numbers 7 (sy_history (publish numbers 6 (run_sub numbers 0 numbers_read)))"
      "0 < length (sy_subs numbers_read)"
    by code_simp+
  then show ?thesis
    unfolding numbers_lagging_def
    by (meson numbers_read_reached runs publishes rtranclp.rtrancl_into_rtrancl)
qed

subsection \<open>What a subscription yields\<close>

text \<open>C19. Whatever happens to a stream, what a subscription has yielded is an unbroken run of the events
  published: in order, none twice and none passed over after the first.\<close>

theorem subscription_yields_unbroken_history:
  assumes "config_ok cf" "(stream_step cf)\<^sup>*\<^sup>* new_system sy" "(s, got) \<in> set (sy_subs sy)"
  shows "sublist got (sy_history sy)"
  using reached_ok [OF assms(1,2)] assms(3) by (auto simp: system_ok_def sub_ok_def cursor_ok_def)

lemma subscription_yields_unbroken_history_witness:
  "sublist [4, 5] (sy_history numbers_read) \<and> sy_history numbers_read = [3, 4, 5]"
proof -
  have "map snd (sy_subs numbers_read) = [[4, 5]]" "sy_history numbers_read = [3, 4, 5]" by code_simp+
  then have "(fst (hd (sy_subs numbers_read)), [4, 5]) \<in> set (sy_subs numbers_read)"
    by (cases "sy_subs numbers_read") auto
  then show ?thesis
    using subscription_yields_unbroken_history [OF numbers_ok numbers_read_reached] \<open>sy_history numbers_read = _\<close>
    by blast
qed

text \<open>C5. A subscription waits only once it has everything it can get: when a run of it ends in waiting, no
  retained event is past its cursor, and a published event past its cursor is not newer than some event too
  large for the byte limit. If the newest event fits, what was yielded ends with it.\<close>

theorem waiting_subscription_has_everything:
  assumes "config_ok cf" "(stream_step cf)\<^sup>*\<^sup>* new_system sy"
    and "i < length (sy_subs sy)" "sy_subs sy ! i = (s, got)"
    and "advance cf (stream_events (sy_stream sy)) s = (s', Waits)"
  shows "(\<forall>e \<in> set (stream_events (sy_stream sy)). cf_seq cf e \<le> sb_after s')
    \<and> (\<forall>e \<in> set (sy_history sy). cf_seq cf e \<le> sb_after s' \<or>
         (\<exists>big \<in> set (sy_history sy). oversized cf big \<and> cf_seq cf e \<le> cf_seq cf big))
    \<and> (got \<noteq> [] \<and> \<not> oversized cf (last (sy_history sy)) \<longrightarrow> suffix got (sy_history sy))"
proof -
  let ?h = "sy_history sy"
  note ok = reached_ok [OF assms(1,2)]
  have n: "numbered (cf_seq cf) ?h" and w: "window_ok cf ?h (sy_stream sy)" using ok by (simp_all add: system_ok_def)
  have r: "sub_ok cf ?h s' got" "\<forall>e \<in> set (retainable cf ?h). cf_seq cf e \<le> sb_after s'"
    using run_sub_run_ok [OF ok assms(3,4)] assms(5) by (auto simp: run_ok_def got_more_def)
  have all: "cf_seq cf e \<le> sb_after s'" if "e \<in> set ?h" "\<not> oversized cf (last ?h)" for e
  proof -
    have "last ?h \<in> set (retainable cf ?h)"
      using that by (cases ?h rule: rev_cases) auto
    then show ?thesis using r(2) numbered_le_last [OF n that(1)] le_trans by blast
  qed
  have "suffix got ?h" if "got \<noteq> []" "\<not> oversized cf (last ?h)"
    using n r(1) all [OF _ that(2)] that(1) by (intro newest_suffix [of "cf_seq cf"]) (auto simp: sub_ok_def cursor_ok_def)
  then show ?thesis using r(2) window_retainable [OF w] retainable_misses [OF _ _ n] by blast
qed

lemma waiting_subscription_has_everything_witness:
  "\<exists>s' :: nat subscriber. list_all (\<lambda>e. cf_seq numbers e \<le> sb_after s') (sy_history numbers_read)
      \<and> suffix [4, 5] (sy_history numbers_read)"
proof -
  have w: "snd (advance numbers (stream_events (sy_stream numbers_read)) (fst (sy_subs numbers_read ! 0))) = Waits"
      "snd (sy_subs numbers_read ! 0) = [4, 5]" "0 < length (sy_subs numbers_read)"
    by code_simp+
  then have s: "sy_subs numbers_read ! 0 = (fst (sy_subs numbers_read ! 0), [4, 5])" by (metis prod.collapse)
  obtain s' where
    "advance numbers (stream_events (sy_stream numbers_read)) (fst (sy_subs numbers_read ! 0)) = (s', Waits)"
    using w(1) by (metis prod.collapse)
  from waiting_subscription_has_everything [OF numbers_ok numbers_read_reached w(3) s this]
  moreover have "\<not> oversized numbers e" for e by (simp add: oversized_def over_bytes_def numbers_def)
  ultimately show ?thesis by (auto simp: list_all_iff)
qed

text \<open>C34. The stream never holds more than it was configured for: retained events and bytes, and the queue
  and queued bytes of every subscriber, keep to their limits, and the byte counters are true.\<close>

theorem stream_memory_is_bounded:
  assumes "config_ok cf" "(stream_step cf)\<^sup>*\<^sup>* new_system sy"
  shows "length (es_events (sy_stream sy)) \<le> cf_retention cf \<and> \<not> over_bytes cf (es_bytes (sy_stream sy))
    \<and> es_bytes (sy_stream sy) = sum_list (map snd (es_events (sy_stream sy)))
    \<and> (\<forall>(s, got) \<in> set (sy_subs sy). length (sb_queue s) \<le> cf_queue cf
         \<and> sb_bytes s = sizes cf (sb_queue s) \<and> \<not> over_bytes cf (sb_bytes s))"
  using reached_ok [OF assms] by (auto simp: system_ok_def window_ok_def sub_ok_def queue_ok_def)

lemma stream_memory_is_bounded_witness:
  "length (es_events (sy_stream numbers_read)) \<le> cf_retention numbers
    \<and> \<not> over_bytes numbers (es_bytes (sy_stream numbers_read))"
  using stream_memory_is_bounded [OF numbers_ok numbers_read_reached] by blast

text \<open>A subscription nothing interferes with replays the retained events past its cursor, one a run, and
  then waits for the next, or ends where it was not to follow live.\<close>

theorem undisturbed_subscription_replays:
  assumes "numbered (cf_seq cf) evs" "\<forall>e \<in> set evs. \<not> cf_terminal cf e"
  shows "outcomes cf evs (subscription after live) (Suc (length (newer cf after evs))) =
    map Yields (newer cf after evs) @ [if live then Waits else Ends]"
proof -
  let ?s = "subscription after live" and ?xs = "newer cf after evs"
  obtain s' r where r: "replay_round cf evs ?xs ?s = (s', r)" by (metis surj_pair)
  have n: "numbered (cf_seq cf) ?xs" by (rule newer_numbered [OF assms(1)])
  have "cf_seq cf e \<le> cf_seq cf (last ?xs)" if "e \<in> set evs" "?xs \<noteq> []" for e
  proof (cases "after < cf_seq cf e")
    case True
    then show ?thesis using numbered_le_last [OF n, of e] that(1) by (simp add: newer_def)
  next
    case False
    have "last ?xs \<in> set ?xs" using that(2) by simp
    then show ?thesis using False by (simp add: newer_def)
  qed
  moreover have "cf_seq cf e \<le> after" if "e \<in> set evs" "?xs = []" for e
    using that by (auto simp: newer_def filter_empty_conv)
  ultimately have "r # outcomes cf evs s' (length ?xs) = map Yields ?xs @ [if live then Waits else Ends]"
    using replays [OF n _ _ _ _ _ _ r] assms(2) by (auto simp: subscription_def newer_def)
  moreover have "advance cf evs ?s = (s', r)"
    using r dropWhile_newer [OF assms(1), of after] dropWhile_newer [OF n, of after]
    by (simp add: advance_def subscription_def replay_round_def offer_def newer_def)
  ultimately show ?thesis by simp
qed

lemma undisturbed_subscription_replays_witness:
  "outcomes numbers [3, 4, 5] (subscription 3 True) (Suc (length (newer numbers 3 [3, 4, 5]))) =
     map Yields (newer numbers 3 [3, 4, 5]) @ [if True then Waits else Ends]
   \<and> newer numbers 3 [3, 4, 5] = [4, 5]"
proof -
  have "numbered (cf_seq numbers) [3, 4, 5]"
    by (simp add: numbered_def numbers_def upt_rec exI [of _ 3])
  moreover have "\<forall>e \<in> set [3, 4, 5]. \<not> cf_terminal numbers e" by (simp add: numbers_def)
  ultimately show ?thesis
    using undisturbed_subscription_replays [of numbers "[3, 4, 5]" 3 True] by (simp add: newer_def numbers_def)
qed

subsection \<open>Compaction\<close>

text \<open>What \<open>compact\<close> retains, read off its specification: the newest event, then backwards the longest
  unbroken run that satisfies \<open>keep\<close>, cut at the limit.\<close>

theorem compact_keeps_newest_run:
  assumes "compact limit keep st = Some st'"
  shows "stream_events st' =
    rev (take limit (case rev (stream_events st) of [] \<Rightarrow> [] | e # older \<Rightarrow> e # takeWhile keep older))"
proof -
  let ?es = "es_events st" and ?new = "rev (stream_events st)"
  define kept where "kept = kept_count limit keep 0 ?new"
  from assms have st': "1 \<le> limit" "es_events st' = drop (length ?es - kept) ?es"
    by (auto simp: compact_def Let_def kept_def stream_events_def rev_map split: if_splits)
  have "rev (stream_events st') = take kept ?new"
    unfolding stream_events_def st'(2) drop_map [symmetric] by (simp add: take_rev)
  also have "\<dots> = take limit (case ?new of [] \<Rightarrow> [] | e # older \<Rightarrow> e # takeWhile keep older)"
    unfolding kept_def using st'(1) by (rule kept_count_run)
  finally show ?thesis by (metis rev_rev_ident)
qed

lemma compact_keeps_newest_run_witness:
  "\<exists>st'. stream_events st' = rev (take 2 (case rev (stream_events (sy_stream numbers_read)) of [] \<Rightarrow> []
     | e # older \<Rightarrow> e # takeWhile (\<lambda>e. 4 < e) older)) \<and> stream_events st' = [5]"
proof -
  let ?st = "the (compact 2 (\<lambda>e. 4 < e) (sy_stream numbers_read))"
  have "compact 2 (\<lambda>e. 4 < e) (sy_stream numbers_read) \<noteq> None" "stream_events ?st = [5]" by code_simp+
  then have "compact 2 (\<lambda>e. 4 < e) (sy_stream numbers_read) = Some ?st" by simp
  from compact_keeps_newest_run [OF this] show ?thesis using \<open>stream_events ?st = [5]\<close> by metis
qed

subsection \<open>Coming to an end\<close>

definition runs_of :: "'e stream_config \<Rightarrow> 'e list list \<Rightarrow> 'e subscriber \<Rightarrow> 'e subscriber" where
  "runs_of cf windows s = fold (\<lambda>evs s. fst (advance cf evs s)) windows s"

text \<open>A subscription the stream has evicted comes to its end: whatever the windows it still sees, it
  has ended once it ran once more often than it has events in hand.\<close>

theorem evicted_subscription_ends:
  assumes "config_ok cf" "(stream_step cf)\<^sup>*\<^sup>* new_system sy" "(s, got) \<in> set (sy_subs sy)"
    and "sb_closed s" "length (buffered s) < length windows"
  shows "sb_phase (runs_of cf windows s) = Ended"
proof -
  have "links_ok s" using reached_ok [OF assms(1,2)] assms(3) by (auto simp: system_ok_def sub_ok_def)
  then show ?thesis
    using assms(4,5) by (auto simp: runs_of_def intro: closed_runs_end)
qed

lemma evicted_subscription_ends_witness:
  "sb_phase (runs_of numbers [[6, 7]] (fst (hd (sy_subs numbers_lagging)))) = Ended"
proof -
  have "sy_subs numbers_lagging \<noteq> []" "sb_closed (fst (hd (sy_subs numbers_lagging)))"
      "length (buffered (fst (hd (sy_subs numbers_lagging)))) < length [[6, 7 :: nat]]"
    by code_simp+
  then show ?thesis
    using evicted_subscription_ends [OF numbers_ok numbers_lagging_reached] by (metis hd_in_set prod.collapse)
qed

end
