(* ===== verification/Run_Life.thy ===== *)
theory Run_Life
  imports Py_Json State_Machines
begin

section \<open>The life of a Run\<close>

text \<open>
  \<open>core/runs/run.py\<close>: one Run with its events, its cancellation and its end, and the end of \<open>_execute\<close> in
  \<open>core/runs/runs.py\<close>, which decides its outcome. A callback is a number; calling one appends the number to
  the called ones, and whether it returns something to wait for is an argument. \<open>rn_events\<close> is everything
  that was published; what of it is retained for a replay is the component of event streams. Times, the
  timeline, approvals and log lines are not modelled.
\<close>

subsection \<open>Kinds and statuses\<close>

datatype run_status = RUNNING | COMPLETED | FAILED | CANCELLED | INTERRUPTED

datatype run_kind =
    USER | CHANNEL | CRON | CALENDAR | REFLECTION | MEMORY_REFLECTION | SKILL_REFLECTION | LIBRARIAN
  | LIVE | SUBAGENT | SESSION_MESSAGE | SYSTEM

fun status_text :: "run_status \<Rightarrow> string" where
  "status_text RUNNING = ''running''"
| "status_text COMPLETED = ''completed''"
| "status_text FAILED = ''failed''"
| "status_text CANCELLED = ''cancelled''"
| "status_text INTERRUPTED = ''interrupted''"

fun run_kind_text :: "run_kind \<Rightarrow> string" where
  "run_kind_text USER = ''user''"
| "run_kind_text CHANNEL = ''channel''"
| "run_kind_text CRON = ''cron''"
| "run_kind_text CALENDAR = ''calendar''"
| "run_kind_text REFLECTION = ''reflection''"
| "run_kind_text MEMORY_REFLECTION = ''memory_reflection''"
| "run_kind_text SKILL_REFLECTION = ''skill_reflection''"
| "run_kind_text LIBRARIAN = ''librarian''"
| "run_kind_text LIVE = ''live''"
| "run_kind_text SUBAGENT = ''subagent''"
| "run_kind_text SESSION_MESSAGE = ''session_message''"
| "run_kind_text SYSTEM = ''system''"

definition run_kinds :: "run_kind list" where
  "run_kinds = [USER, CHANNEL, CRON, CALENDAR, REFLECTION, MEMORY_REFLECTION, SKILL_REFLECTION, LIBRARIAN,
                LIVE, SUBAGENT, SESSION_MESSAGE, SYSTEM]"

definition unattended_kinds :: "run_kind list" where
  "unattended_kinds = [REFLECTION, MEMORY_REFLECTION, SKILL_REFLECTION, LIBRARIAN]"

text \<open>A kind comes as one, as its text or not at all; a text that names none raises inside.\<close>

definition is_unattended_run_kind :: "(run_kind + string) option \<Rightarrow> bool" where
  "is_unattended_run_kind kind =
     (case kind of
        None \<Rightarrow> False
      | Some (Inl k) \<Rightarrow> k \<in> set unattended_kinds
      | Some (Inr t) \<Rightarrow> (case find (\<lambda>k. run_kind_text k = t) run_kinds of None \<Rightarrow> False | Some k \<Rightarrow> k \<in> set unattended_kinds))"

subsection \<open>Events\<close>

record run_event =
  re_sequence :: nat
  re_type :: string
  re_activity :: bool
  re_payload :: "(string \<times> pyval) list"

definition terminal_types :: "string list" where
  "terminal_types = [''run_completed'', ''run_failed'', ''run_cancelled'', ''run_interrupted'']"

definition compaction_types :: "string list" where
  "compaction_types = [''compaction_started'', ''compaction_aborted'', ''compaction_completed'']"

text \<open>A dict keeps the place of a key that is set again.\<close>

fun put :: "string \<Rightarrow> 'v \<Rightarrow> (string \<times> 'v) list \<Rightarrow> (string \<times> 'v) list" where
  "put k v [] = [(k, v)]"
| "put k v ((k', w) # es) = (if k' = k then (k, v) # es else (k', w) # put k v es)"

definition without :: "string \<Rightarrow> (string \<times> 'v) list \<Rightarrow> (string \<times> 'v) list" where
  "without k es = filter (\<lambda>e. fst e \<noteq> k) es"

definition payload_update :: "(string \<times> 'v) list \<Rightarrow> (string \<times> 'v) list \<Rightarrow> (string \<times> 'v) list" where
  "payload_update d extras = foldl (\<lambda>d (k, v). put k v d) d extras"

subsection \<open>State\<close>

datatype tool_entry = Active_Call | Cancelled_Call | Cancel_With nat

text \<open>What an execution ends with besides a result: the cause of an interruption or an error's text.\<close>

datatype run_error = Interrupted_By string "pyval option" | Run_Error string

record run =
  rn_id :: nat
  rn_kind :: run_kind
  rn_activity :: bool
  rn_status :: run_status
  rn_cancel :: bool
  rn_reason :: "string option"
  rn_initiator :: "string option"
  rn_events :: "run_event list"
  rn_next :: nat
  rn_entered :: bool
  rn_completing :: bool
  rn_admitted :: bool
  rn_done :: bool
  rn_task_cancelled :: bool
  rn_result :: "pyval option"
  rn_error :: "run_error option"
  rn_callbacks :: "nat list"
  rn_finalizers :: "nat list"
  rn_observers :: "nat list"
  rn_tools :: "(string \<times> tool_entry) list"
  rn_background :: "(string \<times> nat) list"
  rn_called :: "nat list"
  rn_cleanup :: "nat list"
  rn_expired :: bool
  rn_compaction :: string
  rn_user_compaction :: bool

definition new_run :: "nat \<Rightarrow> run_kind \<Rightarrow> bool \<Rightarrow> run" where
  "new_run i kind activity =
     \<lparr>rn_id = i, rn_kind = kind, rn_activity = activity, rn_status = RUNNING, rn_cancel = False, rn_reason = None,
      rn_initiator = None, rn_events = [], rn_next = 1, rn_entered = False, rn_completing = False,
      rn_admitted = False, rn_done = False, rn_task_cancelled = False, rn_result = None, rn_error = None,
      rn_callbacks = [], rn_finalizers = [], rn_observers = [], rn_tools = [], rn_background = [],
      rn_called = [], rn_cleanup = [], rn_expired = False, rn_compaction = ''unavailable'',
      rn_user_compaction = False\<rparr>"

definition last_sequence :: "run \<Rightarrow> nat" where
  "last_sequence r = rn_next r - 1"

definition controls :: "run \<Rightarrow> (string \<times> pyval) list" where
  "controls r =
     (let active = rn_status r = RUNNING \<and> \<not> rn_cancel r in
      [(''compaction'', PStr (if active then rn_compaction r else ''unavailable'')),
       (''background_tool_call_ids'', PList (if active then map (PStr \<circ> fst) (rn_background r) else []))])"

subsection \<open>Publishing\<close>

definition muted :: "string \<Rightarrow> bool \<Rightarrow> run \<Rightarrow> bool" where
  "muted ty allow_after_cancel r \<longleftrightarrow>
     ty \<notin> set terminal_types \<and> (rn_status r \<noteq> RUNNING \<or> (rn_cancel r \<and> \<not> allow_after_cancel))"

text \<open>\<open>emit\<close> up to the publication.\<close>

definition publish_event :: "string \<Rightarrow> (string \<times> pyval) list \<Rightarrow> bool \<Rightarrow> run \<Rightarrow> run" where
  "publish_event ty payload allow_after_cancel r =
     (if muted ty allow_after_cancel r then r
      else (let full = (if rn_user_compaction r \<and> ty \<in> set compaction_types
                        then put ''requested_by_user'' (PBool True) payload else payload) in
            r\<lparr>rn_events := rn_events r @
                [\<lparr>re_sequence = rn_next r, re_type = ty, re_activity = rn_activity r, re_payload = full\<rparr>],
              rn_next := Suc (rn_next r)\<rparr>))"

text \<open>The event of changed controls is none of the Compaction, so publishing it goes no deeper.\<close>

definition controls_changed :: "run \<Rightarrow> run" where
  "controls_changed r = publish_event ''run_controls_changed'' (controls r) False r"

definition set_compaction_state :: "string \<Rightarrow> run \<Rightarrow> run" where
  "set_compaction_state state r =
     (if rn_compaction r \<noteq> state then controls_changed (r\<lparr>rn_compaction := state\<rparr>) else r)"

definition emit :: "string \<Rightarrow> (string \<times> pyval) list \<Rightarrow> bool \<Rightarrow> run \<Rightarrow> run" where
  "emit ty payload allow_after_cancel r =
     (if muted ty allow_after_cancel r then r
      else (let s = publish_event ty payload allow_after_cancel r in
            if rn_compaction s = ''unavailable'' then s
            else if ty = ''compaction_started'' then set_compaction_state ''running'' s
            else if ty = ''compaction_completed'' \<or> ty = ''compaction_aborted''
            then set_compaction_state ''idle'' (s\<lparr>rn_user_compaction := False\<rparr>)
            else s))"

definition request_compaction :: "run \<Rightarrow> run \<times> bool" where
  "request_compaction r =
     (let active = rn_status r = RUNNING \<and> \<not> rn_cancel r in
      if \<not> active \<or> rn_compaction r \<notin> {''idle'', ''pending'', ''running''} then (r, False)
      else if rn_compaction r = ''idle''
      then (set_compaction_state ''pending'' (r\<lparr>rn_user_compaction := True\<rparr>), True)
      else (r, True))"

subsection \<open>Cancellation\<close>

definition call_later :: "(nat \<Rightarrow> bool) \<Rightarrow> nat \<Rightarrow> run \<Rightarrow> run" where
  "call_later awaits c r =
     (let s = r\<lparr>rn_called := rn_called r @ [c]\<rparr> in
      if awaits c \<and> \<not> rn_expired r then s\<lparr>rn_cleanup := rn_cleanup s @ [c]\<rparr> else s)"

definition tool_call_cancelled :: "string \<Rightarrow> run \<Rightarrow> bool" where
  "tool_call_cancelled i r \<longleftrightarrow> map_of (rn_tools r) i = Some Cancelled_Call"

definition drop_background :: "string \<Rightarrow> run \<Rightarrow> run" where
  "drop_background i r =
     (if map_of (rn_background r) i = None then r
      else controls_changed (r\<lparr>rn_background := without i (rn_background r)\<rparr>))"

definition cancel_tool_call :: "(nat \<Rightarrow> bool) \<Rightarrow> string \<Rightarrow> run \<Rightarrow> run \<times> bool" where
  "cancel_tool_call awaits i r =
     (case map_of (rn_tools r) i of
        None \<Rightarrow> (r, False)
      | Some Cancelled_Call \<Rightarrow> (r, False)
      | Some Active_Call \<Rightarrow> (drop_background i (r\<lparr>rn_tools := put i Cancelled_Call (rn_tools r)\<rparr>), True)
      | Some (Cancel_With c) \<Rightarrow>
          (call_later awaits c (drop_background i (r\<lparr>rn_tools := put i Cancelled_Call (rn_tools r)\<rparr>)), True))"

definition begin_tool_call :: "string \<Rightarrow> run \<Rightarrow> run" where
  "begin_tool_call i r =
     (if rn_cancel r then r\<lparr>rn_tools := put i Cancelled_Call (rn_tools r)\<rparr>
      else if rn_status r \<noteq> RUNNING then r
      else if map_of (rn_tools r) i = None then r\<lparr>rn_tools := put i Active_Call (rn_tools r)\<rparr> else r)"

definition register_tool_cancel :: "(nat \<Rightarrow> bool) \<Rightarrow> string \<Rightarrow> nat \<Rightarrow> run \<Rightarrow> run" where
  "register_tool_cancel awaits i c r =
     (if rn_cancel r \<or> tool_call_cancelled i r
      then call_later awaits c (r\<lparr>rn_tools := put i Cancelled_Call (rn_tools r)\<rparr>)
      else if rn_status r \<noteq> RUNNING then r
      else r\<lparr>rn_tools := put i (Cancel_With c) (rn_tools r)\<rparr>)"

definition clear_tool_cancel :: "string \<Rightarrow> run \<Rightarrow> run" where
  "clear_tool_cancel i r = drop_background i (r\<lparr>rn_tools := without i (rn_tools r)\<rparr>)"

definition register_tool_background :: "string \<Rightarrow> nat \<Rightarrow> run \<Rightarrow> run" where
  "register_tool_background i c r =
     (if rn_status r \<noteq> RUNNING \<or> rn_cancel r \<or> tool_call_cancelled i r then r
      else controls_changed (r\<lparr>rn_background := put i c (rn_background r)\<rparr>))"

text \<open>The callback's answer is an argument.\<close>

definition background_tool_call :: "string \<Rightarrow> bool \<Rightarrow> run \<Rightarrow> run \<times> bool" where
  "background_tool_call i accepts r =
     (if rn_status r \<noteq> RUNNING \<or> rn_cancel r \<or> tool_call_cancelled i r then (r, False)
      else (case map_of (rn_background r) i of
              None \<Rightarrow> (r, False)
            | Some c \<Rightarrow>
                (controls_changed (r\<lparr>rn_background := without i (rn_background r), rn_called := rn_called r @ [c]\<rparr>),
                 accepts)))"

definition add_cancel_callback :: "(nat \<Rightarrow> bool) \<Rightarrow> nat \<Rightarrow> run \<Rightarrow> run" where
  "add_cancel_callback awaits c r =
     (if rn_cancel r then call_later awaits c r
      else if rn_status r \<noteq> RUNNING then r
      else r\<lparr>rn_callbacks := rn_callbacks r @ [c]\<rparr>)"

definition cancel_tools :: "(nat \<Rightarrow> bool) \<Rightarrow> run \<Rightarrow> run" where
  "cancel_tools awaits r = foldl (\<lambda>s i. fst (cancel_tool_call awaits i s)) r (map fst (rn_tools r))"

definition call_callbacks :: "(nat \<Rightarrow> bool) \<Rightarrow> run \<Rightarrow> run" where
  "call_callbacks awaits r = foldl (\<lambda>s c. call_later awaits c s) r (rn_callbacks r)"

definition request_cancel :: "(nat \<Rightarrow> bool) \<Rightarrow> string option \<Rightarrow> string option \<Rightarrow> run \<Rightarrow> run" where
  "request_cancel awaits reason initiator r =
     (if rn_status r \<noteq> RUNNING \<or> rn_cancel r \<or> rn_completing r then r
      else (let s = call_callbacks awaits (cancel_tools awaits
                      (r\<lparr>rn_reason := reason, rn_initiator := initiator, rn_cancel := True\<rparr>)) in
            s\<lparr>rn_task_cancelled := rn_task_cancelled s \<or> rn_entered s\<rparr>))"

text \<open>One round of \<open>_wait_for_cancel_cleanup\<close>: what is done, and whether the deadline has passed; the answer
  is whether another round follows.\<close>

definition cleanup_round :: "nat list \<Rightarrow> nat list \<Rightarrow> bool \<Rightarrow> run \<Rightarrow> run \<times> bool" where
  "cleanup_round finished pending late r =
     (let s = r\<lparr>rn_cleanup := filter (\<lambda>c. c \<notin> set finished) (rn_cleanup r)\<rparr> in
      if pending \<noteq> [] \<or> (rn_cleanup s \<noteq> [] \<and> late) then (s\<lparr>rn_expired := True, rn_cleanup := []\<rparr>, False)
      else (s, rn_cleanup s \<noteq> []))"

definition add_completion_observer :: "nat \<Rightarrow> run \<Rightarrow> run" where
  "add_completion_observer c r = (if rn_status r \<noteq> RUNNING then r else r\<lparr>rn_observers := rn_observers r @ [c]\<rparr>)"

definition add_completion_finalizer :: "nat \<Rightarrow> run \<Rightarrow> run" where
  "add_completion_finalizer c r =
     (if rn_status r \<noteq> RUNNING \<or> rn_completing r then r else r\<lparr>rn_finalizers := rn_finalizers r @ [c]\<rparr>)"

subsection \<open>The end\<close>

definition settle_run :: "run \<Rightarrow> run" where
  "settle_run r =
     r\<lparr>rn_callbacks := [], rn_finalizers := [], rn_observers := [], rn_background := [],
       rn_tools := filter (\<lambda>e. snd e = Cancelled_Call) (rn_tools r), rn_done := True\<rparr>"

definition ended_with :: "run_status \<Rightarrow> string \<Rightarrow> (string \<times> pyval) list \<Rightarrow> (string \<times> pyval) list \<Rightarrow> run \<Rightarrow> run" where
  "ended_with status ty own extras r =
     settle_run (emit ty (payload_update ((''status'', PStr (status_text status)) # own) extras) False
       (r\<lparr>rn_status := status\<rparr>))"

definition mark_completed :: "pyval \<Rightarrow> (string \<times> pyval) list \<Rightarrow> run \<Rightarrow> run" where
  "mark_completed result extras r =
     (if rn_status r \<noteq> RUNNING then r
      else ended_with COMPLETED ''run_completed'' [] extras (r\<lparr>rn_result := Some result\<rparr>))"

definition error_text :: "run_error \<Rightarrow> string" where
  "error_text e = (case e of Interrupted_By cause _ \<Rightarrow> ''run interrupted: '' @ cause | Run_Error t \<Rightarrow> t)"

definition mark_failed :: "run_error \<Rightarrow> (string \<times> pyval) list \<Rightarrow> run \<Rightarrow> run" where
  "mark_failed e extras r =
     (if rn_status r \<noteq> RUNNING then r
      else ended_with FAILED ''run_failed'' [(''error'', PStr (error_text e))] extras (r\<lparr>rn_error := Some e\<rparr>))"

definition mark_interrupted :: "string \<Rightarrow> pyval option \<Rightarrow> (string \<times> pyval) list \<Rightarrow> run \<Rightarrow> run" where
  "mark_interrupted cause result extras r =
     (if rn_status r \<noteq> RUNNING then r
      else ended_with INTERRUPTED ''run_interrupted'' [(''cause'', PStr cause)] extras
             (r\<lparr>rn_result := result, rn_error := Some (Interrupted_By cause result)\<rparr>))"

definition mark_cancelled :: "(string \<times> pyval) list \<Rightarrow> run \<Rightarrow> run" where
  "mark_cancelled extras r =
     (if rn_status r \<noteq> RUNNING then r
      else ended_with CANCELLED ''run_cancelled''
             (case rn_reason r of None \<Rightarrow> [] | Some t \<Rightarrow> [(''reason'', PStr t)]) extras r)"

text \<open>\<open>wait\<close> and \<open>wait_admitted\<close>; \<open>None\<close> still waits, \<open>Inl\<close> is what they raise.\<close>

datatype wait_error = Run_Cancelled_Error | Raises run_error

definition wait_result :: "run \<Rightarrow> (wait_error + pyval option) option" where
  "wait_result r =
     (if \<not> rn_done r then None
      else Some (if rn_status r = CANCELLED then Inl Run_Cancelled_Error
                 else (case rn_error r of
                         Some e \<Rightarrow> if rn_status r = INTERRUPTED \<or> rn_status r = FAILED then Inl (Raises e)
                                   else Inr (rn_result r)
                       | None \<Rightarrow> Inr (rn_result r))))"

definition wait_admitted :: "run \<Rightarrow> (wait_error + unit) option" where
  "wait_admitted r =
     (if rn_admitted r then Some (Inr ())
      else if \<not> rn_done r then None
      else Some (Inl (case rn_error r of Some e \<Rightarrow> Raises e | None \<Rightarrow> Run_Cancelled_Error)))"

subsection \<open>Execution\<close>

text \<open>\<open>_execute\<close> in \<open>core/runs/runs.py\<close>. It enters, waits until the Run is persisted, and calls the executor.\<close>

definition enter :: "run \<Rightarrow> run" where
  "enter r = r\<lparr>rn_entered := True\<rparr>"

definition admit :: "string option \<Rightarrow> run \<Rightarrow> run" where
  "admit queue_item r =
     (let s = r\<lparr>rn_admitted := True\<rparr> in
      if rn_cancel s then s
      else emit ''run_started''
             ((''status'', PStr ''running'') # (case queue_item of None \<Rightarrow> [] | Some i \<Rightarrow> [(''queue_item_id'', PStr i)]))
             False s)"

text \<open>How the executor, or the admission before it, came to its end.\<close>

datatype execution_end =
  Returned pyval | Interrupted string "pyval option" | Task_Cancelled | Raised string | Aborted

text \<open>What the terminal steps meet: whether the wait for cleanups breaks off, the errors of finalizers and
  observers, and how the completion, or for a Run never admitted the withdrawal of its input, is persisted.\<close>

datatype save_outcome = Saved "(string \<times> pyval) list" | Save_Failed string | Save_Aborted

record ending =
  en_cleanup_aborts :: bool
  en_finalizer_errors :: "string list"
  en_extras :: "(string \<times> pyval) list"
  en_persists :: bool
  en_save :: save_outcome
  en_observer_errors :: "string list"

definition first_status :: "execution_end \<Rightarrow> run_status" where
  "first_status e =
     (case e of Returned _ \<Rightarrow> COMPLETED | Interrupted _ _ \<Rightarrow> INTERRUPTED | Task_Cancelled \<Rightarrow> CANCELLED
              | Raised _ \<Rightarrow> FAILED | Aborted \<Rightarrow> CANCELLED)"

definition own_error :: "execution_end \<Rightarrow> run_error option" where
  "own_error e =
     (case e of Interrupted cause v \<Rightarrow> Some (Interrupted_By cause v) | Raised t \<Rightarrow> Some (Run_Error t) | _ \<Rightarrow> None)"

text \<open>The outcome before the commit.\<close>

definition frozen_status :: "execution_end \<Rightarrow> bool \<Rightarrow> run \<Rightarrow> run_status" where
  "frozen_status e cleanup_aborts r =
     (if rn_cancel r \<or> first_status e = CANCELLED \<or> cleanup_aborts then CANCELLED else first_status e)"

text \<open>\<open>_decide_completion_activity\<close>: a silent answer never counts, a failing decision keeps the flag.\<close>

definition decide_activity :: "run_status \<Rightarrow> bool \<Rightarrow> bool option \<Rightarrow> bool \<Rightarrow> bool" where
  "decide_activity status silent decision flag =
     (if status = COMPLETED \<and> silent then False else (case decision of None \<Rightarrow> flag | Some d \<Rightarrow> d))"

definition freeze :: "run_status \<Rightarrow> bool \<Rightarrow> bool option \<Rightarrow> run \<Rightarrow> run" where
  "freeze status silent decision r =
     r\<lparr>rn_completing := True, rn_activity := decide_activity status silent decision (rn_activity r)\<rparr>"

text \<open>The commit can still fail the Run.\<close>

definition unsaved :: "(string \<times> pyval) list \<Rightarrow> (string \<times> pyval) list" where
  "unsaved payload = put ''history_persisted'' (PBool False) payload"

definition committed ::
  "run_status \<Rightarrow> run_error option \<Rightarrow> ending \<Rightarrow> bool \<Rightarrow> run_status \<times> run_error option \<times> (string \<times> pyval) list" where
  "committed status err en admitted =
     (if \<not> en_persists en then (status, err, en_extras en)
      else (case en_save en of
              Saved extra \<Rightarrow>
                (status, err, if admitted then payload_update (en_extras en) extra else unsaved (en_extras en))
            | Save_Failed t \<Rightarrow> (FAILED, Some (Run_Error t), unsaved (en_extras en))
            | Save_Aborted \<Rightarrow> (CANCELLED, err, unsaved (en_extras en))))"

definition with_notes :: "ending \<Rightarrow> (string \<times> pyval) list \<Rightarrow> (string \<times> pyval) list" where
  "with_notes en payload =
     (let errors = en_finalizer_errors en @ en_observer_errors en in
      if errors = [] then payload
      else put ''completion_notification_errors'' (PList (map PStr errors)) payload)"

text \<open>The marks; \<open>None\<close> is a failed assertion.\<close>

definition mark :: "run_status \<Rightarrow> run_error option \<Rightarrow> execution_end \<Rightarrow> (string \<times> pyval) list \<Rightarrow> run \<Rightarrow> run option" where
  "mark status err e payload r =
     (case status of
        CANCELLED \<Rightarrow> Some (mark_cancelled payload r)
      | INTERRUPTED \<Rightarrow>
          (case err of Some (Interrupted_By cause v) \<Rightarrow> Some (mark_interrupted cause v payload r) | _ \<Rightarrow> None)
      | FAILED \<Rightarrow> (case err of Some x \<Rightarrow> Some (mark_failed x payload r) | None \<Rightarrow> None)
      | _ \<Rightarrow> Some (mark_completed (case e of Returned v \<Rightarrow> v | _ \<Rightarrow> PNone) payload r))"

definition finish_execution :: "execution_end \<Rightarrow> run_status \<Rightarrow> ending \<Rightarrow> run \<Rightarrow> run option" where
  "finish_execution e status en r =
     (case committed status (own_error e) en (rn_admitted r) of
        (final, err, payload) \<Rightarrow> mark final err e (with_notes en payload) r)"

subsection \<open>Steps\<close>

text \<open>What happens to a Run, in any order. With it goes what \<open>_execute\<close> remembers from freezing the outcome
  to the mark. Executors publish no terminal events themselves.\<close>

type_synonym run_state = "run \<times> (execution_end \<times> run_status) option"

inductive life_step :: "run_state \<Rightarrow> run_state \<Rightarrow> bool" where
  enters: "life_step (r, p) (enter r, p)"
| admits: "\<not> rn_admitted r \<Longrightarrow> \<not> rn_completing r \<Longrightarrow> life_step (r, p) (admit item r, p)"
| emits: "ty \<notin> set terminal_types \<Longrightarrow> life_step (r, p) (emit ty payload escape r, p)"
| sets_compaction: "life_step (r, p) (set_compaction_state state r, p)"
| asks_compaction: "life_step (r, p) (fst (request_compaction r), p)"
| begins_tool: "life_step (r, p) (begin_tool_call i r, p)"
| registers_tool: "life_step (r, p) (register_tool_cancel awaits i c r, p)"
| cancels_tool: "life_step (r, p) (fst (cancel_tool_call awaits i r), p)"
| clears_tool: "life_step (r, p) (clear_tool_cancel i r, p)"
| offers_background: "life_step (r, p) (register_tool_background i c r, p)"
| backgrounds: "life_step (r, p) (fst (background_tool_call i accepts r), p)"
| adds_callback: "life_step (r, p) (add_cancel_callback awaits c r, p)"
| adds_observer: "life_step (r, p) (add_completion_observer c r, p)"
| adds_finalizer: "life_step (r, p) (add_completion_finalizer c r, p)"
| cancels: "life_step (r, p) (request_cancel awaits reason initiator r, p)"
| cleans_up: "life_step (r, p) (fst (cleanup_round finished pending late r), p)"
| freezes: "\<not> rn_completing r \<Longrightarrow> status = frozen_status e aborts r \<Longrightarrow>
     life_step (r, None) (freeze status silent decision r, Some (e, status))"
| finishes: "finish_execution e status en r = Some s \<Longrightarrow> life_step (r, Some (e, status)) (s, None)"

inductive_cases life_stepE: "life_step x y"

end
