(* ===== verification/Run_Life_Properties.thy ===== *)
theory Run_Life_Properties
  imports Run_Life
begin

section \<open>Properties of a Run's life\<close>

text \<open>
  A Run's history only grows while it lives and is sealed by exactly one terminal event; a cancellation
  reaches every cleanup; and the outcome of an execution.
\<close>

subsection \<open>Growing histories\<close>

text \<open>What every operation but the end does to a Run: it appends numbered events of a living Run, and once the
  outcome is frozen it changes nothing about the cancellation.\<close>

definition grows :: "run \<Rightarrow> run \<Rightarrow> bool" where
  "grows r s \<longleftrightarrow>
     rn_status s = rn_status r \<and> rn_done s = rn_done r \<and> rn_result s = rn_result r \<and> rn_error s = rn_error r
     \<and> (rn_cancel r \<longrightarrow> rn_cancel s) \<and> (rn_completing r \<longrightarrow> rn_completing s \<and> rn_cancel s = rn_cancel r)
     \<and> rn_next r \<le> rn_next s
     \<and> (\<exists>es. rn_events s = rn_events r @ es \<and> map re_sequence es = [rn_next r..<rn_next s]
           \<and> (\<forall>e \<in> set es. re_type e \<notin> set terminal_types) \<and> (rn_status r \<noteq> RUNNING \<longrightarrow> es = []))"

lemma grows_refl [simp, intro]: "grows r r"
  by (simp add: grows_def)

lemma grows_trans [trans]: "grows r s \<Longrightarrow> grows s t \<Longrightarrow> grows r t"
proof -
  assume rs: "grows r s" and st: "grows s t"
  obtain es where es: "rn_events s = rn_events r @ es" "map re_sequence es = [rn_next r..<rn_next s]"
      "\<forall>e \<in> set es. re_type e \<notin> set terminal_types" "rn_status r \<noteq> RUNNING \<longrightarrow> es = []"
    using rs by (auto simp: grows_def)
  obtain fs where fs: "rn_events t = rn_events s @ fs" "map re_sequence fs = [rn_next s..<rn_next t]"
      "\<forall>e \<in> set fs. re_type e \<notin> set terminal_types" "rn_status s \<noteq> RUNNING \<longrightarrow> fs = []"
    using st by (auto simp: grows_def)
  have "rn_next r \<le> rn_next s" "rn_next s \<le> rn_next t" using rs st by (simp_all add: grows_def)
  then have "[rn_next r..<rn_next s] @ [rn_next s..<rn_next t] = [rn_next r..<rn_next t]"
    by (metis le_add_diff_inverse upt_add_eq_append)
  then have "\<exists>es. rn_events t = rn_events r @ es \<and> map re_sequence es = [rn_next r..<rn_next t]
      \<and> (\<forall>e \<in> set es. re_type e \<notin> set terminal_types) \<and> (rn_status r \<noteq> RUNNING \<longrightarrow> es = [])"
    using es fs rs by (intro exI [of _ "es @ fs"]) (auto simp: grows_def)
  then show "grows r t" using rs st by (auto simp: grows_def)
qed

text \<open>Changes of other fields grow nothing.\<close>

definition same_history :: "run \<Rightarrow> run \<Rightarrow> bool" where
  "same_history r s \<longleftrightarrow>
     rn_status s = rn_status r \<and> rn_done s = rn_done r \<and> rn_result s = rn_result r \<and> rn_error s = rn_error r
     \<and> (rn_cancel r \<longrightarrow> rn_cancel s) \<and> (rn_completing r \<longrightarrow> rn_completing s \<and> rn_cancel s = rn_cancel r)
     \<and> rn_next s = rn_next r \<and> rn_events s = rn_events r"

lemma same_grows: "same_history r s \<Longrightarrow> grows r s"
  by (auto simp: same_history_def grows_def)

lemma grows_same: "grows r s \<Longrightarrow> same_history s t \<Longrightarrow> grows r t"
  by (auto simp: same_history_def grows_def)

lemma same_grows_trans: "same_history r s \<Longrightarrow> grows s t \<Longrightarrow> grows r t"
  using same_grows grows_trans by blast

lemma publish_grows: "ty \<notin> set terminal_types \<Longrightarrow> grows r (publish_event ty payload escape r)"
  by (auto simp: grows_def publish_event_def muted_def Let_def)

lemma controls_type: "''run_controls_changed'' \<notin> set terminal_types"
  by (simp add: terminal_types_def)

lemma controls_grow: "same_history r s \<Longrightarrow> grows r (controls_changed s)"
  using publish_grows [OF controls_type] same_grows_trans by (auto simp: controls_changed_def)

lemma compaction_grows: "same_history r s \<Longrightarrow> grows r (set_compaction_state state s)"
proof -
  assume "same_history r s"
  then have "same_history r (s\<lparr>rn_compaction := state\<rparr>)" by (simp add: same_history_def)
  then show ?thesis using controls_grow same_grows [OF \<open>same_history r s\<close>] by (auto simp: set_compaction_state_def)
qed

lemma emit_grows: "ty \<notin> set terminal_types \<Longrightarrow> grows r (emit ty payload escape r)"
proof -
  assume ty: "ty \<notin> set terminal_types"
  let ?s = "publish_event ty payload escape r"
  have "grows r ?s" using ty by (rule publish_grows)
  moreover have "grows ?s (set_compaction_state st (?s\<lparr>rn_user_compaction := False\<rparr>))" for st
    by (rule compaction_grows) (simp add: same_history_def)
  moreover have "grows ?s (set_compaction_state st ?s)" for st
    by (rule compaction_grows) (simp add: same_history_def)
  ultimately show ?thesis by (auto simp: emit_def Let_def intro: grows_trans)
qed

lemma background_grows: "same_history r s \<Longrightarrow> grows r (drop_background i s)"
proof -
  assume r: "same_history r s"
  then have "same_history r (s\<lparr>rn_background := without i (rn_background s)\<rparr>)" by (simp add: same_history_def)
  then show ?thesis using controls_grow same_grows [OF r] by (simp add: drop_background_def)
qed

lemma call_later_same: "same_history r (call_later awaits c r)"
  by (simp add: call_later_def same_history_def Let_def)

lemma cancel_tool_grows: "grows r (fst (cancel_tool_call awaits i r))"
proof -
  have "grows r (drop_background i (r\<lparr>rn_tools := es\<rparr>))" for es
    by (rule background_grows) (simp add: same_history_def)
  then show ?thesis using call_later_same grows_same
    by (fastforce simp: cancel_tool_call_def split: option.splits tool_entry.splits)
qed

lemma fold_grows: "(\<And>s x. grows s (f s x)) \<Longrightarrow> grows r (foldl f r xs)"
proof (induction xs arbitrary: r)
  case (Cons x xs)
  then show ?case using grows_trans by fastforce
qed simp

lemma cancel_tools_grow: "grows r (cancel_tools awaits r)"
  unfolding cancel_tools_def by (rule fold_grows) (rule cancel_tool_grows)

lemma call_callbacks_grow: "grows r (call_callbacks awaits r)"
  unfolding call_callbacks_def by (rule fold_grows) (rule same_grows [OF call_later_same])

lemma request_cancel_grows: "grows r (request_cancel awaits reason initiator r)"
proof (cases "rn_status r \<noteq> RUNNING \<or> rn_cancel r \<or> rn_completing r")
  case False
  let ?r = "r\<lparr>rn_reason := reason, rn_initiator := initiator, rn_cancel := True\<rparr>"
  have "grows r ?r" by (rule same_grows) (use False in \<open>simp add: same_history_def\<close>)
  also have "grows ?r (cancel_tools awaits ?r)" by (rule cancel_tools_grow)
  also have "grows (cancel_tools awaits ?r) (call_callbacks awaits (cancel_tools awaits ?r))"
    by (rule call_callbacks_grow)
  finally have "grows r (call_callbacks awaits (cancel_tools awaits ?r))" .
  then have "grows r ((call_callbacks awaits (cancel_tools awaits ?r))\<lparr>rn_task_cancelled := b\<rparr>)" for b
    by (rule grows_same) (simp add: same_history_def)
  then show ?thesis using False by (simp add: request_cancel_def Let_def)
qed (simp add: request_cancel_def)

text \<open>Every step but the last one grows the history.\<close>

lemma admit_grows: "grows r (admit item r)"
proof -
  have "same_history r (r\<lparr>rn_admitted := True\<rparr>)" by (simp add: same_history_def)
  moreover have "grows (r\<lparr>rn_admitted := True\<rparr>) (emit ''run_started'' p False (r\<lparr>rn_admitted := True\<rparr>))" for p
    by (rule emit_grows) (simp add: terminal_types_def)
  ultimately show ?thesis using same_grows_trans same_grows by (auto simp: admit_def Let_def)
qed

lemma register_tool_same: "same_history r (register_tool_cancel awaits i c r)"
  using call_later_same [of "r\<lparr>rn_tools := put i Cancelled_Call (rn_tools r)\<rparr>" awaits c]
  by (auto simp: register_tool_cancel_def same_history_def)

lemma add_callback_same: "same_history r (add_cancel_callback awaits c r)"
  using call_later_same [of r awaits c] by (auto simp: add_cancel_callback_def same_history_def)

lemma other_same:
  "same_history r (enter r)" "same_history r (begin_tool_call i r)" "same_history r (add_completion_observer c r)"
  "same_history r (add_completion_finalizer c r)" "same_history r (fst (cleanup_round finished pending late r))"
  "\<not> rn_completing r \<Longrightarrow> same_history r (freeze status silent d r)"
  by (auto simp: same_history_def enter_def begin_tool_call_def add_completion_observer_def
      add_completion_finalizer_def cleanup_round_def freeze_def Let_def)

lemma asks_grow: "grows r (fst (request_compaction r))"
proof -
  have "grows r (set_compaction_state ''pending'' (r\<lparr>rn_user_compaction := True\<rparr>))"
    by (rule compaction_grows) (simp add: same_history_def)
  then show ?thesis by (auto simp: request_compaction_def Let_def)
qed

lemma clears_grow: "grows r (clear_tool_cancel i r)"
  unfolding clear_tool_cancel_def by (rule background_grows) (simp add: same_history_def)

lemma offers_grow: "grows r (register_tool_background i c r)"
  by (auto simp: register_tool_background_def same_history_def intro!: controls_grow)

lemma backgrounds_grow: "grows r (fst (background_tool_call i accepts r))"
  by (auto simp: background_tool_call_def same_history_def intro!: controls_grow split: option.splits)

lemmas step_growth = emit_grows cancel_tool_grows request_cancel_grows admit_grows asks_grow clears_grow offers_grow
  backgrounds_grow other_same [THEN same_grows] register_tool_same [THEN same_grows] add_callback_same [THEN same_grows]

lemma step_grows:
  assumes "life_step (r, p) (s, q)" "p = None \<or> q \<noteq> None"
  shows "grows r s"
  using assms
proof (cases rule: life_step.cases)
  case (sets_compaction state)
  then show ?thesis by (simp add: compaction_grows same_history_def)
qed (simp_all add: step_growth)

subsection \<open>The seal\<close>

fun terminal_type :: "run_status \<Rightarrow> string" where
  "terminal_type RUNNING = ''''"
| "terminal_type COMPLETED = ''run_completed''"
| "terminal_type FAILED = ''run_failed''"
| "terminal_type CANCELLED = ''run_cancelled''"
| "terminal_type INTERRUPTED = ''run_interrupted''"

lemma terminal_type_terminal: "s \<noteq> RUNNING \<Longrightarrow> terminal_type s \<in> set terminal_types"
  by (cases s) (simp_all add: terminal_types_def)

text \<open>A living Run has numbered events, none of them terminal; an ended one has exactly one terminal event,
  the last, which tells its status.\<close>

definition history_ok :: "run \<Rightarrow> bool" where
  "history_ok r \<longleftrightarrow>
     map re_sequence (rn_events r) = [1..<rn_next r] \<and> 1 \<le> rn_next r \<and> (rn_done r \<longleftrightarrow> rn_status r \<noteq> RUNNING)
     \<and> (if rn_status r = RUNNING then \<forall>e \<in> set (rn_events r). re_type e \<notin> set terminal_types
        else \<exists>es e. rn_events r = es @ [e] \<and> re_type e = terminal_type (rn_status r)
               \<and> (\<forall>e \<in> set es. re_type e \<notin> set terminal_types))"

lemma grows_history: "history_ok r \<Longrightarrow> grows r s \<Longrightarrow> history_ok s"
proof -
  assume r: "history_ok r" and g: "grows r s"
  obtain es where es: "rn_events s = rn_events r @ es" "map re_sequence es = [rn_next r..<rn_next s]"
      "\<forall>e \<in> set es. re_type e \<notin> set terminal_types" "rn_status r \<noteq> RUNNING \<longrightarrow> es = []"
    using g by (auto simp: grows_def)
  have n: "1 \<le> rn_next r" "rn_next r \<le> rn_next s" using r g by (simp_all add: history_ok_def grows_def)
  then have "[1..<rn_next r] @ [rn_next r..<rn_next s] = [1..<rn_next s]"
    by (metis le_add_diff_inverse upt_add_eq_append)
  moreover have "rn_status s = rn_status r" "rn_done s = rn_done r" using g by (simp_all add: grows_def)
  ultimately show ?thesis
    using r es n by (cases "rn_status r = RUNNING") (auto simp: history_ok_def)
qed

text \<open>An end seals the history of a living Run.\<close>

lemma ended_history:
  assumes "history_ok r" "rn_status r = RUNNING" "status \<noteq> RUNNING" "rn_events s = rn_events r" "rn_next s = rn_next r"
  shows "history_ok (ended_with status (terminal_type status) own extras s)
    \<and> rn_status (ended_with status (terminal_type status) own extras s) = status"
proof -
  let ?ty = "terminal_type status"
  define t where "t = s\<lparr>rn_status := status\<rparr>"
  have t: "rn_status t = status" "rn_events t = rn_events r" "rn_next t = rn_next r"
    using assms(4,5) by (simp_all add: t_def)
  have ty: "?ty \<in> set terminal_types" using assms(3) by (rule terminal_type_terminal)
  then have "?ty \<noteq> ''compaction_started''" "?ty \<noteq> ''compaction_completed''" "?ty \<noteq> ''compaction_aborted''"
    by (auto simp: terminal_types_def)
  then have "emit ?ty payload False t = publish_event ?ty payload False t" for payload
    using ty by (simp add: emit_def muted_def Let_def)
  then have "ended_with status ?ty own extras s =
      settle_run (publish_event ?ty (payload_update ((''status'', PStr (status_text status)) # own) extras) False t)"
    by (simp add: ended_with_def t_def)
  moreover have "\<exists>payload. publish_event ?ty p False t = t\<lparr>rn_events := rn_events t @
      [\<lparr>re_sequence = rn_next t, re_type = ?ty, re_activity = rn_activity t, re_payload = payload\<rparr>],
      rn_next := Suc (rn_next t)\<rparr>" for p
    using ty by (auto simp: publish_event_def muted_def Let_def)
  ultimately obtain payload where "ended_with status ?ty own extras s = settle_run (t\<lparr>rn_events := rn_events t @
      [\<lparr>re_sequence = rn_next t, re_type = ?ty, re_activity = rn_activity t, re_payload = payload\<rparr>],
      rn_next := Suc (rn_next t)\<rparr>)" by metis
  then show ?thesis
    using assms(1-3) t by (auto simp: history_ok_def settle_run_def)
qed

lemma mark_history:
  assumes "history_ok r" "rn_status r = RUNNING" "mark status err e payload r = Some s" "status \<noteq> RUNNING"
  shows "history_ok s \<and> rn_status s = status"
proof -
  note ended = ended_history [OF assms(1,2,4)]
  show ?thesis
  proof (cases status)
    case RUNNING
    then show ?thesis using assms(4) by simp
  next
    case COMPLETED
    then show ?thesis using assms(2,3) ended by (auto simp: mark_def mark_completed_def)
  qed (use assms(2,3) ended in \<open>auto simp: mark_def mark_failed_def mark_cancelled_def mark_interrupted_def
      split: option.splits run_error.splits\<close>)
qed

subsection \<open>Cancellation\<close>

text \<open>Once a cancellation is requested, all cleanups that were registered have been called and all tool calls
  are cancelled.\<close>

definition cleanups_called :: "run \<Rightarrow> bool" where
  "cleanups_called r \<longleftrightarrow>
     distinct (map fst (rn_tools r))
     \<and> (rn_cancel r \<longrightarrow> set (rn_callbacks r) \<subseteq> set (rn_called r) \<and> (\<forall>e \<in> set (rn_tools r). snd e = Cancelled_Call))"

lemma put_keys: "map fst (put k v es) = (if k \<in> set (map fst es) then map fst es else map fst es @ [k])"
  by (induction es rule: put.induct) auto

lemma put_distinct [simp]: "distinct (map fst es) \<Longrightarrow> distinct (map fst (put k v es))"
  by (simp only: put_keys) simp

lemma put_values: "e \<in> set (put k v es) \<Longrightarrow> e = (k, v) \<or> e \<in> set es"
  by (induction es rule: put.induct) (auto split: if_splits)

lemma map_of_put: "map_of (put k v es) = (map_of es)(k \<mapsto> v)"
  by (induction es rule: put.induct) auto

lemma without_distinct [simp]: "distinct (map fst es) \<Longrightarrow> distinct (map fst (without k es))"
  by (simp add: without_def distinct_map_filter)

lemma without_values: "e \<in> set (without k es) \<Longrightarrow> e \<in> set es"
  by (simp add: without_def)

text \<open>Publishing changes none of this.\<close>

definition same_cleanups :: "run \<Rightarrow> run \<Rightarrow> bool" where
  "same_cleanups r s \<longleftrightarrow>
     rn_cancel s = rn_cancel r \<and> rn_callbacks s = rn_callbacks r \<and> rn_tools s = rn_tools r \<and> rn_called s = rn_called r"

lemma same_cleanups_called: "same_cleanups r s \<Longrightarrow> cleanups_called r \<Longrightarrow> cleanups_called s"
  by (simp add: same_cleanups_def cleanups_called_def)

lemma publish_same [simp]: "same_cleanups r (publish_event ty payload escape s) \<longleftrightarrow> same_cleanups r s"
  by (simp add: same_cleanups_def publish_event_def Let_def)

lemma controls_same [simp]: "same_cleanups r (controls_changed s) \<longleftrightarrow> same_cleanups r s"
  by (simp add: controls_changed_def)

lemma compaction_same [simp]: "same_cleanups r (set_compaction_state state s) \<longleftrightarrow> same_cleanups r s"
  by (simp add: set_compaction_state_def) (simp add: same_cleanups_def)

lemma emit_same [simp]: "same_cleanups r (emit ty payload escape s) \<longleftrightarrow> same_cleanups r s"
proof -
  have "same_cleanups r (t\<lparr>rn_user_compaction := False\<rparr>) \<longleftrightarrow> same_cleanups r t" for t
    by (simp add: same_cleanups_def)
  then show ?thesis by (simp add: emit_def Let_def)
qed

lemma background_same [simp]: "same_cleanups r (drop_background i s) \<longleftrightarrow> same_cleanups r s"
  by (simp add: drop_background_def) (simp add: same_cleanups_def)

lemma call_later_effect [simp]:
  "rn_tools (call_later awaits c r) = rn_tools r" "rn_callbacks (call_later awaits c r) = rn_callbacks r"
  "rn_cancel (call_later awaits c r) = rn_cancel r" "rn_called (call_later awaits c r) = rn_called r @ [c]"
  "rn_events (call_later awaits c r) = rn_events r"
  by (simp_all add: call_later_def Let_def)

definition callback_of :: "tool_entry option \<Rightarrow> nat list" where
  "callback_of e = (case e of Some (Cancel_With c) \<Rightarrow> [c] | _ \<Rightarrow> [])"

lemma put_same: "map_of es k = Some v \<Longrightarrow> put k v es = es"
  by (induction es rule: put.induct) (auto split: if_splits)

lemma cancel_tool_effect:
  "rn_tools (fst (cancel_tool_call awaits i r)) =
     (if map_of (rn_tools r) i = None then rn_tools r else put i Cancelled_Call (rn_tools r))"
  "rn_callbacks (fst (cancel_tool_call awaits i r)) = rn_callbacks r"
  "rn_cancel (fst (cancel_tool_call awaits i r)) = rn_cancel r"
  "rn_called (fst (cancel_tool_call awaits i r)) = rn_called r @ callback_of (map_of (rn_tools r) i)"
proof -
  let ?s = "drop_background i (r\<lparr>rn_tools := put i Cancelled_Call (rn_tools r)\<rparr>)"
  have "same_cleanups (r\<lparr>rn_tools := put i Cancelled_Call (rn_tools r)\<rparr>) ?s" by (simp add: same_cleanups_def [of r r])
      (simp add: same_cleanups_def)
  then have s: "rn_tools ?s = put i Cancelled_Call (rn_tools r)" "rn_callbacks ?s = rn_callbacks r"
      "rn_cancel ?s = rn_cancel r" "rn_called ?s = rn_called r"
    by (simp_all add: same_cleanups_def)
  show "rn_tools (fst (cancel_tool_call awaits i r)) =
     (if map_of (rn_tools r) i = None then rn_tools r else put i Cancelled_Call (rn_tools r))"
    "rn_callbacks (fst (cancel_tool_call awaits i r)) = rn_callbacks r"
    "rn_cancel (fst (cancel_tool_call awaits i r)) = rn_cancel r"
    "rn_called (fst (cancel_tool_call awaits i r)) = rn_called r @ callback_of (map_of (rn_tools r) i)"
    using s put_same [of "rn_tools r" i]
    by (simp_all add: cancel_tool_call_def callback_of_def split: option.split tool_entry.split)
qed

lemma put_in_middle: "k \<notin> set (map fst xs) \<Longrightarrow> put k v (xs @ (k, e) # ys) = xs @ (k, v) # ys"
  by (induction xs) auto

text \<open>Cancelling all tool calls calls their callbacks in the order of the calls.\<close>

lemma cancel_tools_from:
  assumes "rn_tools r = xs @ ys" "distinct (map fst (xs @ ys))"
  shows "rn_tools (foldl (\<lambda>s i. fst (cancel_tool_call awaits i s)) r (map fst ys)) =
      xs @ map (\<lambda>e. (fst e, Cancelled_Call)) ys
    \<and> rn_called (foldl (\<lambda>s i. fst (cancel_tool_call awaits i s)) r (map fst ys)) =
      rn_called r @ concat (map (\<lambda>e. callback_of (Some (snd e))) ys)
    \<and> rn_callbacks (foldl (\<lambda>s i. fst (cancel_tool_call awaits i s)) r (map fst ys)) = rn_callbacks r
    \<and> rn_cancel (foldl (\<lambda>s i. fst (cancel_tool_call awaits i s)) r (map fst ys)) = rn_cancel r"
  using assms
proof (induction ys arbitrary: xs r)
  case (Cons y ys)
  obtain i e where y: "y = (i, e)" by (cases y)
  have i: "i \<notin> set (map fst xs)" using Cons.prems by (auto simp: y)
  then have "map_of xs i = None" by (simp add: map_of_eq_None_iff)
  then have e: "map_of (rn_tools r) i = Some e" using Cons.prems(1) by (simp add: y map_add_def)
  let ?r = "fst (cancel_tool_call awaits i r)"
  have "rn_tools ?r = (xs @ [(i, Cancelled_Call)]) @ ys"
    using e Cons.prems(1) put_in_middle [OF i] by (simp add: cancel_tool_effect y)
  moreover have "distinct (map fst ((xs @ [(i, Cancelled_Call)]) @ ys))" using Cons.prems(2) by (simp add: y)
  ultimately show ?case
    using Cons.IH [of ?r "xs @ [(i, Cancelled_Call)]"] e by (simp add: y cancel_tool_effect)
qed simp

lemma cancel_tools_effect:
  assumes "distinct (map fst (rn_tools r))"
  shows "rn_tools (cancel_tools awaits r) = map (\<lambda>e. (fst e, Cancelled_Call)) (rn_tools r)"
    "rn_called (cancel_tools awaits r) = rn_called r @ concat (map (\<lambda>e. callback_of (Some (snd e))) (rn_tools r))"
    "rn_callbacks (cancel_tools awaits r) = rn_callbacks r" "rn_cancel (cancel_tools awaits r) = rn_cancel r"
  using cancel_tools_from [of r "[]" "rn_tools r" awaits] assms by (simp_all add: cancel_tools_def)

lemma call_all_effect:
  "rn_tools (foldl (\<lambda>s c. call_later awaits c s) r cs) = rn_tools r
   \<and> rn_called (foldl (\<lambda>s c. call_later awaits c s) r cs) = rn_called r @ cs
   \<and> rn_callbacks (foldl (\<lambda>s c. call_later awaits c s) r cs) = rn_callbacks r
   \<and> rn_cancel (foldl (\<lambda>s c. call_later awaits c s) r cs) = rn_cancel r"
  by (induction cs arbitrary: r) simp_all

lemma request_cancel_effect:
  assumes "distinct (map fst (rn_tools r))" "rn_status r = RUNNING" "\<not> rn_cancel r" "\<not> rn_completing r"
  shows "rn_tools (request_cancel awaits reason initiator r) = map (\<lambda>e. (fst e, Cancelled_Call)) (rn_tools r)"
    "rn_called (request_cancel awaits reason initiator r) =
       rn_called r @ concat (map (\<lambda>e. callback_of (Some (snd e))) (rn_tools r)) @ rn_callbacks r"
    "rn_callbacks (request_cancel awaits reason initiator r) = rn_callbacks r"
    "rn_cancel (request_cancel awaits reason initiator r)"
  using assms call_all_effect [of awaits]
  by (simp_all add: request_cancel_def call_callbacks_def cancel_tools_effect Let_def)

text \<open>No step leaves a cleanup out.\<close>

lemma registers_called: "cleanups_called r \<Longrightarrow> cleanups_called (register_tool_cancel awaits i c r)"
  by (auto simp: register_tool_cancel_def cleanups_called_def tool_call_cancelled_def dest!: put_values)

lemma begins_called: "cleanups_called r \<Longrightarrow> cleanups_called (begin_tool_call i r)"
  by (auto simp: begin_tool_call_def cleanups_called_def dest!: put_values)

lemma cancels_tool_called: "cleanups_called r \<Longrightarrow> cleanups_called (fst (cancel_tool_call awaits i r))"
  by (auto simp: cleanups_called_def cancel_tool_effect dest!: put_values)

lemma clears_called: "cleanups_called r \<Longrightarrow> cleanups_called (clear_tool_cancel i r)"
proof -
  assume "cleanups_called r"
  then have "cleanups_called (r\<lparr>rn_tools := without i (rn_tools r)\<rparr>)"
    by (auto simp: cleanups_called_def dest: without_values)
  moreover have "same_cleanups (r\<lparr>rn_tools := without i (rn_tools r)\<rparr>) (clear_tool_cancel i r)"
    by (simp add: clear_tool_cancel_def) (simp add: same_cleanups_def)
  ultimately show ?thesis using same_cleanups_called by blast
qed

lemma adds_callback_called: "cleanups_called r \<Longrightarrow> cleanups_called (add_cancel_callback awaits c r)"
  by (auto simp: add_cancel_callback_def cleanups_called_def)

lemma backgrounds_called: "cleanups_called r \<Longrightarrow> cleanups_called (fst (background_tool_call i accepts r))"
proof -
  assume r: "cleanups_called r"
  have "cleanups_called (controls_changed (r\<lparr>rn_background := es, rn_called := rn_called r @ [c]\<rparr>))" for es c
  proof (rule same_cleanups_called)
    show "cleanups_called (r\<lparr>rn_background := es, rn_called := rn_called r @ [c]\<rparr>)"
      using r by (auto simp: cleanups_called_def)
  qed (simp, simp add: same_cleanups_def)
  then show ?thesis using r by (auto simp: background_tool_call_def split: option.splits)
qed

lemma request_cancel_called: "cleanups_called r \<Longrightarrow> cleanups_called (request_cancel awaits reason initiator r)"
proof (cases "rn_status r \<noteq> RUNNING \<or> rn_cancel r \<or> rn_completing r")
  case False
  assume r: "cleanups_called r"
  then have "distinct (map fst (rn_tools r))" by (simp add: cleanups_called_def)
  then show ?thesis using False request_cancel_effect [of r awaits reason initiator]
    by (auto simp: cleanups_called_def o_def)
qed (simp add: request_cancel_def)

lemma other_cleanups:
  "same_cleanups r (enter r)" "same_cleanups r (add_completion_observer c r)"
  "same_cleanups r (add_completion_finalizer c r)" "same_cleanups r (fst (cleanup_round finished pending late r))"
  "same_cleanups r (freeze status silent d r)" "same_cleanups r (admit item r)"
  "same_cleanups r (fst (request_compaction r))" "same_cleanups r (register_tool_background i c r)"
proof -
  show "same_cleanups r (admit item r)" by (simp add: admit_def Let_def) (simp add: same_cleanups_def)
  show "same_cleanups r (fst (request_compaction r))"
    by (simp add: request_compaction_def Let_def) (simp add: same_cleanups_def)
  show "same_cleanups r (register_tool_background i c r)"
    by (simp add: register_tool_background_def) (simp add: same_cleanups_def)
qed (simp_all add: same_cleanups_def enter_def add_completion_observer_def add_completion_finalizer_def
      cleanup_round_def freeze_def Let_def)

lemma same_cleanups_refl [simp]: "same_cleanups r r"
  by (simp add: same_cleanups_def)

lemma settle_called: "cleanups_called r \<Longrightarrow> cleanups_called (settle_run r)"
  by (auto simp: cleanups_called_def settle_run_def distinct_map_filter)

lemma ended_called: "cleanups_called r \<Longrightarrow> same_cleanups r s \<Longrightarrow> cleanups_called (ended_with status ty own extras s)"
proof -
  assume r: "cleanups_called r" "same_cleanups r s"
  have "same_cleanups s (s\<lparr>rn_status := status\<rparr>)" by (simp add: same_cleanups_def)
  then have "cleanups_called (emit ty p False (s\<lparr>rn_status := status\<rparr>))" for p
    using r same_cleanups_called [of s] same_cleanups_called [OF r(2)] by simp
  then show ?thesis by (simp add: ended_with_def settle_called)
qed

lemma mark_called: "cleanups_called r \<Longrightarrow> mark status err e payload r = Some s \<Longrightarrow> cleanups_called s"
  using ended_called [of r]
  by (auto simp: mark_def mark_completed_def mark_failed_def mark_interrupted_def mark_cancelled_def same_cleanups_def
      split: run_status.splits option.splits run_error.splits)

lemmas step_called = registers_called begins_called cancels_tool_called clears_called adds_callback_called
  backgrounds_called request_cancel_called other_cleanups [THEN same_cleanups_called]

lemma step_cleanups:
  assumes "life_step (r, p) (s, q)" "cleanups_called r"
  shows "cleanups_called s"
  using assms
proof (cases rule: life_step.cases)
  case (emits ty payload escape)
  then show ?thesis using same_cleanups_called [of r] assms(2) by simp
next
  case (sets_compaction state)
  then show ?thesis using same_cleanups_called [of r] assms(2) by simp
next
  case (finishes e status en)
  then show ?thesis using mark_called [OF assms(2)] by (auto simp: finish_execution_def split: prod.splits)
qed (simp_all add: step_called)

subsection \<open>The outcome\<close>

lemma first_status_facts [simp]: "first_status e \<noteq> RUNNING"
  by (simp add: first_status_def split: execution_end.split)

lemma frozen_not_running [simp]: "frozen_status e aborts r \<noteq> RUNNING"
  by (simp add: frozen_status_def)

lemma committed_not_running:
  "committed status err en admitted = (final, err', payload) \<Longrightarrow> status \<noteq> RUNNING \<Longrightarrow> final \<noteq> RUNNING"
  by (auto simp: committed_def split: if_splits save_outcome.splits)

text \<open>The assertions before the marks hold.\<close>

lemma finish_marks:
  assumes "status = frozen_status e aborts r"
  shows "\<exists>final err payload s. committed status (own_error e) en (rn_admitted r) = (final, err, payload)
    \<and> mark final err e (with_notes en payload) r = Some s \<and> finish_execution e status en r = Some s \<and> final \<noteq> RUNNING"
proof -
  obtain final err payload where c: "committed status (own_error e) en (rn_admitted r) = (final, err, payload)"
    by (cases "committed status (own_error e) en (rn_admitted r)") auto
  have final: "final \<noteq> RUNNING" using committed_not_running [OF c] assms by simp
  have "final = INTERRUPTED \<Longrightarrow> \<exists>cause v. err = Some (Interrupted_By cause v)"
    using c assms by (auto simp: committed_def frozen_status_def first_status_def own_error_def
        split: if_splits save_outcome.splits execution_end.splits)
  moreover have "final = FAILED \<Longrightarrow> err \<noteq> None"
    using c assms by (auto simp: committed_def frozen_status_def first_status_def own_error_def
        split: if_splits save_outcome.splits execution_end.splits)
  ultimately have "mark final err e (with_notes en payload) r \<noteq> None"
    by (cases final) (auto simp: mark_def)
  then show ?thesis using c final by (auto simp: finish_execution_def)
qed

definition frozen_ok :: "run_state \<Rightarrow> bool" where
  "frozen_ok x \<longleftrightarrow>
     (rn_status (fst x) \<noteq> RUNNING \<longrightarrow> rn_completing (fst x) \<and> snd x = None)
     \<and> (case snd x of
          None \<Rightarrow> True
        | Some (e, status) \<Rightarrow>
            rn_completing (fst x) \<and> rn_status (fst x) = RUNNING \<and> (\<exists>aborts. status = frozen_status e aborts (fst x)))"

definition life_ok :: "run_state \<Rightarrow> bool" where
  "life_ok x \<longleftrightarrow> history_ok (fst x) \<and> cleanups_called (fst x) \<and> frozen_ok x"

lemma finish_history:
  assumes "history_ok r" "rn_status r = RUNNING" "status = frozen_status e aborts r"
    "finish_execution e status en r = Some s"
  shows "history_ok s \<and> rn_status s \<noteq> RUNNING"
  using finish_marks [OF assms(3), of en] mark_history [OF assms(1,2)] assms(4) by auto

lemma publish_keeps [simp]: "rn_completing (publish_event ty payload escape r) = rn_completing r"
    "rn_cancel (publish_event ty payload escape r) = rn_cancel r"
  by (simp_all add: publish_event_def Let_def)

lemma emit_keeps [simp]: "rn_completing (emit ty payload escape r) = rn_completing r"
    "rn_cancel (emit ty payload escape r) = rn_cancel r"
  by (simp_all add: emit_def set_compaction_state_def controls_changed_def Let_def)

lemma ended_keeps:
  "rn_completing (ended_with status ty own extras r) = rn_completing r"
  "rn_cancel (ended_with status ty own extras r) = rn_cancel r"
  by (simp_all add: ended_with_def settle_run_def)

lemma ended_result: "rn_result (ended_with status ty own extras r) = rn_result r"
proof -
  have "rn_result (publish_event t p b s) = rn_result s" for t p b s by (simp add: publish_event_def Let_def)
  then show ?thesis
    by (simp add: ended_with_def settle_run_def emit_def set_compaction_state_def controls_changed_def Let_def)
qed

lemma finish_keeps:
  assumes "finish_execution e status en r = Some s"
  shows "rn_completing s = rn_completing r \<and> rn_cancel s = rn_cancel r"
  using assms by (auto simp: finish_execution_def mark_def mark_completed_def mark_failed_def mark_interrupted_def
      mark_cancelled_def ended_keeps split: prod.splits run_status.splits option.splits run_error.splits if_splits)

lemma grows_frozen:
  assumes "frozen_ok (r, p)" "grows r s"
  shows "frozen_ok (s, p)"
proof (cases p)
  case None
  then show ?thesis using assms by (auto simp: frozen_ok_def grows_def)
next
  case (Some x)
  then obtain e status aborts where x: "p = Some (e, status)" "rn_completing r" "rn_status r = RUNNING"
      "status = frozen_status e aborts r"
    using assms(1) by (cases x) (auto simp: frozen_ok_def)
  then have "rn_completing s" "rn_status s = RUNNING" "status = frozen_status e aborts s"
    using assms(2) by (simp_all add: grows_def frozen_status_def)
  then show ?thesis using x(1) by (auto simp: frozen_ok_def)
qed

lemma life_step_ok: "life_step x y \<Longrightarrow> life_ok x \<Longrightarrow> life_ok y"
proof -
  assume step: "life_step x y" and ok: "life_ok x"
  obtain r p s q where xy: "x = (r, p)" "y = (s, q)" by (cases x; cases y)
  have called: "cleanups_called s" using step_cleanups [of r p s q] step ok by (simp add: xy life_ok_def)
  have r: "history_ok r" "frozen_ok (r, p)" using ok by (simp_all add: xy life_ok_def)
  have "history_ok s \<and> frozen_ok (s, q)"
  proof (cases "p = q")
    case True
    then have "p = None \<or> q \<noteq> None" by (cases p) auto
    then have "grows r s" using step step_grows [of r p s q] by (simp add: xy)
    then show ?thesis using grows_history grows_frozen r True by blast
  next
    case False
    from step [unfolded xy] show ?thesis
    proof (cases rule: life_step.cases)
      case (freezes status e aborts silent decision)
      then have "grows r s" using step step_grows [of r p s q] by (simp add: xy)
      then have "history_ok s" using grows_history r(1) by blast
      moreover have "rn_status r = RUNNING" using freezes(4) r(2) by (auto simp: frozen_ok_def)
      then have "rn_completing s" "rn_status s = RUNNING" "rn_cancel s = rn_cancel r"
        by (simp_all add: freezes(2) freeze_def)
      moreover from this(3) have "status = frozen_status e aborts s" by (simp add: freezes(5) frozen_status_def)
      ultimately show ?thesis unfolding frozen_ok_def freezes(3) fst_conv snd_conv option.case prod.case by blast
    next
      case (finishes e status en)
      then obtain aborts where a: "status = frozen_status e aborts r" "rn_status r = RUNNING" "rn_completing r"
        using r(2) by (auto simp: frozen_ok_def)
      then show ?thesis
        using finishes finish_history [OF r(1) a(2,1)] finish_keeps by (auto simp: frozen_ok_def)
    qed (use False in simp_all)
  qed
  then show ?thesis using called by (simp add: xy life_ok_def)
qed

interpretation run_life: preserving life_step life_ok
  by unfold_locales (rule life_step_ok)

lemma new_run_ok: "life_ok (new_run i kind activity, None)"
  by (simp add: life_ok_def history_ok_def cleanups_called_def frozen_ok_def new_run_def)

subsection \<open>One end\<close>

lemma ended_stays:
  assumes "life_step\<^sup>*\<^sup>* x y" "life_ok x" "rn_status (fst x) \<noteq> RUNNING"
  shows "same_history (fst x) (fst y) \<and> rn_status (fst y) \<noteq> RUNNING \<and> life_ok y"
  using assms
proof (induction rule: rtranclp_induct)
  case base
  then show ?case by (simp add: same_history_def)
next
  case (step y z)
  then have y: "same_history (fst x) (fst y)" "rn_status (fst y) \<noteq> RUNNING" "life_ok y" by simp_all
  then have "snd y = None" by (simp add: life_ok_def frozen_ok_def)
  then have "grows (fst y) (fst z)" using step_grows [of "fst y" None "fst z" "snd z"] step.hyps(2)
    by (metis prod.collapse)
  moreover have "rn_next (fst z) = rn_next (fst y)"
    using calculation y(2) by (auto simp: grows_def eq_commute [of "[]"])
  ultimately have "same_history (fst y) (fst z)"
    using y(2) by (auto simp: grows_def same_history_def)
  then show ?case using y run_life.step_ok [OF step.hyps(2) y(3)] by (auto simp: same_history_def)
qed

text \<open>C8. A Run ends once and for good: in whatever order things happen to it, its events are numbered from one
  without a gap, none of them is terminal while it runs, and from its end on exactly the last one is, telling
  its status; nothing that happens later changes its events or what its waiters get.\<close>

theorem run_ends_once:
  assumes "life_step\<^sup>*\<^sup>* (new_run i kind activity, None) x" "life_step\<^sup>*\<^sup>* x y"
  shows "history_ok (fst x)
    \<and> (rn_status (fst x) \<noteq> RUNNING \<longrightarrow>
         rn_events (fst y) = rn_events (fst x) \<and> wait_result (fst y) = wait_result (fst x) \<and> wait_result (fst x) \<noteq> None)"
proof -
  have ok: "life_ok x" using run_life.reachable_ok [OF new_run_ok rtranclp.rtrancl_refl assms(1)] .
  have "same_history (fst x) (fst y)" if "rn_status (fst x) \<noteq> RUNNING"
    using ended_stays [OF assms(2) ok that] by simp
  moreover have "rn_done (fst x)" if "rn_status (fst x) \<noteq> RUNNING"
    using ok that by (simp add: life_ok_def history_ok_def)
  moreover have "wait_result s = wait_result r" if "same_history r s" for r s
    using that by (cases "rn_error r") (simp_all add: wait_result_def same_history_def)
  moreover have "wait_result r \<noteq> None" if "rn_done r" for r using that by (simp add: wait_result_def)
  ultimately show ?thesis
    using ok by (simp add: life_ok_def same_history_def)
qed

text \<open>A Run that entered, was admitted, said a word and was saved.\<close>

definition spoken :: run_state where
  "spoken = (emit ''assistant_output'' [(''content'', PStr ''hi'')] False (admit None (enter (new_run 7 USER True))), None)"

definition clean_end :: ending where
  "clean_end = \<lparr>en_cleanup_aborts = False, en_finalizer_errors = [], en_extras = [], en_persists = True,
                en_save = Saved [], en_observer_errors = []\<rparr>"

definition spoken_frozen :: run_state where
  "spoken_frozen = (freeze COMPLETED False None (fst spoken), Some (Returned PNone, COMPLETED))"

definition spoken_over :: run_state where
  "spoken_over = (case finish_execution (Returned PNone) COMPLETED clean_end (fst spoken_frozen) of
                    Some r \<Rightarrow> (r, None) | None \<Rightarrow> spoken_frozen)"

lemma spoken_reached: "life_step\<^sup>*\<^sup>* (new_run 7 USER True, None) spoken_frozen"
proof -
  let ?a = "(enter (new_run 7 USER True), None)" and ?b = "(admit None (enter (new_run 7 USER True)), None)"
  have "life_step (new_run 7 USER True, None) ?a" by (rule enters)
  moreover have "life_step ?a ?b" by (rule admits) (simp_all add: enter_def new_run_def)
  moreover have "life_step ?b spoken" unfolding spoken_def by (rule emits) (simp add: terminal_types_def)
  moreover have "life_step spoken spoken_frozen"
  proof -
    have "\<not> rn_completing (fst spoken)" "COMPLETED = frozen_status (Returned PNone) False (fst spoken)"
      by code_simp+
    then have "life_step (fst spoken, None) spoken_frozen" unfolding spoken_frozen_def by (rule freezes)
    then show ?thesis by (simp add: spoken_def)
  qed
  ultimately show ?thesis by (meson rtranclp.rtrancl_refl rtranclp.rtrancl_into_rtrancl)
qed

lemma spoken_finished: "finish_execution (Returned PNone) COMPLETED clean_end (fst spoken_frozen) = Some (fst spoken_over)"
  "snd spoken_over = None"
  by code_simp+

lemma spoken_over_step: "life_step spoken_frozen spoken_over"
proof -
  have "life_step (fst spoken_frozen, Some (Returned PNone, COMPLETED)) (fst spoken_over, None)"
    using spoken_finished(1) by (rule finishes)
  then show ?thesis using spoken_finished(2) by (metis prod.collapse spoken_frozen_def snd_conv)
qed

lemma run_ends_once_witness:
  "map re_type (rn_events (fst spoken_over)) = [''run_started'', ''assistant_output'', ''run_completed'']
   \<and> rn_events (emit ''late'' [] True (fst spoken_over)) = rn_events (fst spoken_over)
   \<and> wait_result (emit ''late'' [] True (fst spoken_over)) = Some (Inr (Some PNone))"
proof -
  let ?y = "(emit ''late'' [] True (fst spoken_over), None)"
  have a: "life_step\<^sup>*\<^sup>* (new_run 7 USER True, None) spoken_over"
    using spoken_reached spoken_over_step by (rule rtranclp.rtrancl_into_rtrancl)
  have "life_step (fst spoken_over, None) ?y" by (rule emits) (simp add: terminal_types_def)
  moreover have "(fst spoken_over, None) = spoken_over" using spoken_finished(2) by (metis prod.collapse)
  ultimately have b: "life_step\<^sup>*\<^sup>* spoken_over ?y" by simp
  have "rn_status (fst spoken_over) = COMPLETED" "wait_result (fst spoken_over) = Some (Inr (Some PNone))"
      "map re_type (rn_events (fst spoken_over)) = [''run_started'', ''assistant_output'', ''run_completed'']"
    by code_simp+
  then show ?thesis using run_ends_once [OF a b] by simp
qed

lemma tool_cleanups: "concat (map (\<lambda>e. callback_of (Some (snd e))) es) = [c. (k, Cancel_With c) \<leftarrow> es]"
  by (induction es) (auto simp: callback_of_def split: tool_entry.split)

text \<open>C15. A cancellation reaches everything, in whatever order things happened before: it calls the cleanup of
  every Tool call still to be cancelled and then every cleanup the Run holds, each once; cancelling one Tool call
  calls its cleanup. Once it is requested, every cleanup the Run holds or is given later has been called and
  every Tool call, running or still to begin, is cancelled; and a second request changes nothing.\<close>

theorem cancellation_reaches_everything:
  assumes "life_step\<^sup>*\<^sup>* (new_run i kind activity, None) (r, p)"
  shows "(rn_status r = RUNNING \<and> \<not> rn_cancel r \<and> \<not> rn_completing r \<longrightarrow>
      rn_cancel (request_cancel awaits reason initiator r)
      \<and> rn_called (request_cancel awaits reason initiator r) =
          rn_called r @ [c. (k, Cancel_With c) \<leftarrow> rn_tools r] @ rn_callbacks r)
    \<and> (map_of (rn_tools r) k = Some (Cancel_With c) \<longrightarrow>
      rn_called (fst (cancel_tool_call awaits k r)) = rn_called r @ [c]
      \<and> tool_call_cancelled k (fst (cancel_tool_call awaits k r)))
    \<and> (rn_cancel r \<longrightarrow>
      set (rn_callbacks r) \<subseteq> set (rn_called r) \<and> c \<in> set (rn_called (add_cancel_callback awaits c r))
      \<and> c \<in> set (rn_called (register_tool_cancel awaits k c r))
      \<and> (\<forall>e \<in> set (rn_tools r). snd e = Cancelled_Call) \<and> tool_call_cancelled k (begin_tool_call k r)
      \<and> request_cancel awaits reason initiator r = r)"
proof -
  have ok: "life_ok (r, p)" using run_life.reachable_ok [OF new_run_ok rtranclp.rtrancl_refl assms] .
  then have d: "distinct (map fst (rn_tools r))" by (simp add: life_ok_def cleanups_called_def)
  have one: "rn_called (fst (cancel_tool_call awaits k r)) = rn_called r @ [c]"
      "tool_call_cancelled k (fst (cancel_tool_call awaits k r))"
    if "map_of (rn_tools r) k = Some (Cancel_With c)"
    using that by (simp_all add: cancel_tool_effect callback_of_def tool_call_cancelled_def map_of_put)
  show ?thesis
    using ok one request_cancel_effect [OF d]
    by (simp add: tool_cleanups life_ok_def cleanups_called_def add_cancel_callback_def register_tool_cancel_def begin_tool_call_def
        tool_call_cancelled_def map_of_put request_cancel_def)
qed

text \<open>A Run with a Tool call and its cleanup, and its cancellation.\<close>

definition with_cleanups :: run where
  "with_cleanups =
     register_tool_cancel (\<lambda>_. False) ''t'' 4 (begin_tool_call ''t'' (add_cancel_callback (\<lambda>_. False) 3 (new_run 7 USER True)))"

definition stopped_early :: run where
  "stopped_early = request_cancel (\<lambda>_. False) (Some ''stop'') None with_cleanups"

lemma with_cleanups_reached: "life_step\<^sup>*\<^sup>* (new_run 7 USER True, None) (with_cleanups, None)"
proof -
  let ?n = "\<lambda>_ :: nat. False"
  let ?a = "add_cancel_callback ?n 3 (new_run 7 USER True)"
  let ?b = "begin_tool_call ''t'' ?a"
  have "life_step (new_run 7 USER True, None) (?a, None)" "life_step (?a, None) (?b, None)"
      "life_step (?b, None) (with_cleanups, None)"
    unfolding with_cleanups_def by (rule adds_callback begins_tool registers_tool)+
  then show ?thesis by (meson rtranclp.rtrancl_refl rtranclp.rtrancl_into_rtrancl)
qed

lemma stopped_early_reached: "life_step\<^sup>*\<^sup>* (new_run 7 USER True, None) (stopped_early, None)"
  using with_cleanups_reached cancels unfolding stopped_early_def by (rule rtranclp.rtrancl_into_rtrancl)

lemma cancellation_reaches_everything_witness:
  "rn_called stopped_early = [4, 3] \<and> 9 \<in> set (rn_called (register_tool_cancel (\<lambda>_. False) ''u'' 9 stopped_early))
   \<and> tool_call_cancelled ''u'' (begin_tool_call ''u'' stopped_early)"
proof -
  have w: "rn_status with_cleanups = RUNNING \<and> \<not> rn_cancel with_cleanups \<and> \<not> rn_completing with_cleanups"
      "rn_called with_cleanups @ [c. (k, Cancel_With c) \<leftarrow> rn_tools with_cleanups] @ rn_callbacks with_cleanups = [4, 3]"
    by code_simp+
  have "rn_called stopped_early = [4, 3]" "rn_cancel stopped_early"
    using cancellation_reaches_everything [OF with_cleanups_reached, where awaits = "\<lambda>_. False" and reason = "Some ''stop''" and initiator = None] w
    unfolding stopped_early_def [symmetric] by simp_all
  then show ?thesis
    using cancellation_reaches_everything [OF stopped_early_reached, where c = 9 and awaits = "\<lambda>_. False" and k = "''u''"] by blast
qed

text \<open>C12. An execution whose outcome is frozen reaches its mark, and the outcome is the truth: a Run is completed
  only with the value its executor returned, when no cancellation was requested and its completion could be
  saved; one that was cancelled before is cancelled, unless saving that failed.\<close>

theorem completed_run_was_saved:
  assumes "life_step\<^sup>*\<^sup>* (new_run i kind activity, None) (r, Some (e, status))"
  shows "\<exists>s. finish_execution e status en r = Some s \<and> rn_status s \<noteq> RUNNING
    \<and> (rn_status s = COMPLETED \<longrightarrow> (\<exists>v. e = Returned v \<and> rn_result s = Some v) \<and> \<not> rn_cancel s
          \<and> (en_persists en \<longrightarrow> (\<exists>extra. en_save en = Saved extra)))
    \<and> (rn_cancel r \<longrightarrow> rn_status s = CANCELLED \<or> (rn_status s = FAILED \<and> (\<exists>t. en_save en = Save_Failed t)))"
proof -
  have ok: "life_ok (r, Some (e, status))"
    using run_life.reachable_ok [OF new_run_ok rtranclp.rtrancl_refl assms] .
  then obtain aborts where f: "status = frozen_status e aborts r" and run: "rn_status r = RUNNING"
    by (auto simp: life_ok_def frozen_ok_def)
  have hist: "history_ok r" using ok by (simp add: life_ok_def)
  obtain final err payload s where m: "committed status (own_error e) en (rn_admitted r) = (final, err, payload)"
      "mark final err e (with_notes en payload) r = Some s" "finish_execution e status en r = Some s" "final \<noteq> RUNNING"
    using finish_marks [OF f] by blast
  have final: "rn_status s = final" using mark_history [OF hist run m(2,4)] by simp
  have cancel: "rn_cancel s = rn_cancel r" using finish_keeps [OF m(3)] by simp
  have completed: "\<exists>v. e = Returned v \<and> rn_result s = Some v" "\<not> rn_cancel r"
      "en_persists en \<longrightarrow> (\<exists>extra. en_save en = Saved extra)" if "final = COMPLETED"
  proof -
    have status: "status = COMPLETED" "en_persists en \<longrightarrow> (\<exists>extra. en_save en = Saved extra)"
      using m(1) that by (auto simp: committed_def split: if_splits save_outcome.splits)
    then obtain v where v: "e = Returned v" and nc: "\<not> rn_cancel r"
      using f by (auto simp: frozen_status_def first_status_def split: if_splits execution_end.splits)
    have "rn_result s = Some v"
    proof -
      have "mark_completed v (with_notes en payload) r = s" using m(2) by (simp add: that v mark_def)
      then show ?thesis using run by (auto simp: mark_completed_def ended_result)
    qed
    then show "\<exists>v. e = Returned v \<and> rn_result s = Some v" "\<not> rn_cancel r"
      "en_persists en \<longrightarrow> (\<exists>extra. en_save en = Saved extra)" using v nc status(2) by simp_all
  qed
  have "final = CANCELLED \<or> (final = FAILED \<and> (\<exists>t. en_save en = Save_Failed t))" if "rn_cancel r"
  proof -
    have "status = CANCELLED" using that by (simp add: f frozen_status_def)
    then show ?thesis using m(1) by (auto simp: committed_def split: if_splits save_outcome.splits)
  qed
  then show ?thesis
    unfolding final [symmetric] using m(3,4) cancel completed by (intro exI [of _ s]) (simp add: final)
qed

lemma completed_run_was_saved_witness:
  "(case finish_execution (Returned PNone) COMPLETED (clean_end\<lparr>en_save := Save_Failed ''disk''\<rparr>) (fst spoken_frozen) of
      None \<Rightarrow> False | Some s \<Rightarrow> rn_status s \<noteq> COMPLETED)"
proof -
  have "spoken_frozen = (fst spoken_frozen, Some (Returned PNone, COMPLETED))" by (simp add: spoken_frozen_def)
  then have "life_step\<^sup>*\<^sup>* (new_run 7 USER True, None) (fst spoken_frozen, Some (Returned PNone, COMPLETED))"
    using spoken_reached by metis
  from completed_run_was_saved [OF this, of "clean_end\<lparr>en_save := Save_Failed ''disk''\<rparr>"]
  show ?thesis by (auto simp: clean_end_def)
qed

end
