(* ===== verification/Run_Queue.thy ===== *)
theory Run_Queue
  imports Run_Life
begin

section \<open>Admission and queues of Runs\<close>

text \<open>
  \<open>ChatRunManager\<close> of \<open>core/runs/runs.py\<close>: which Run a Session has, what waits for it, and which transitions
  keep Runs out. Everything between two suspensions of a coroutine is one operation. A coroutine that waits
  for input to be persisted or withdrawn keeps the lock; the lock then holds what it goes on with. The Future
  of an input is a ticket. What the parameters answer (the admission validator, the preparation of an
  executor, whether persisting works) is an argument of the operations. Observers, approvals and log lines
  are not modelled, and an input that was never accepted leaves nothing behind.
\<close>

subsection \<open>State\<close>

record address =
  ad_project :: "string option"
  ad_agent :: string
  ad_session :: string

record run_admission =
  am_working :: "string option"
  am_kind :: run_kind
  am_activity :: bool
  am_owner :: "string option"
  am_input :: "string option"
  am_parent :: "string option"

datatype start_error = Blocked_Start | Broken_Start

datatype ticket = Open_Ticket | Got_Run nat | Dropped | Refused start_error

record queued =
  qi_id :: string
  qi_content :: string
  qi_executor :: nat
  qi_internal :: bool
  qi_ticket :: nat
  qi_editable :: bool
  qi_steerable :: bool
  qi_steering :: bool
  qi_in_flight :: bool
  qi_withdrawn :: bool
  qi_admission :: run_admission
  qi_scope :: "string option"

record session_run =
  sr_live :: run_state
  sr_address :: address
  sr_working :: "string option"
  sr_owner :: "string option"
  sr_input :: "string option"
  sr_parent :: "string option"
  sr_item :: "string option"
  sr_drained :: bool

record preparation =
  pp_id :: nat
  pp_project :: "string option"
  pp_agent :: string
  pp_session :: "string option"
  pp_working :: "string option"
  pp_changed :: "string list"

text \<open>What a coroutine that suspends with the lock goes on with: an input that starts at once or waits, a
  refused input of a draining queue, an input of queues that are cleared.\<close>

datatype holder =
    Persist_Idle address queued "nat option"
  | Persist_Busy address queued
  | Drain_Withdraws address queued start_error
  | Clear_Withdraws address queued "queued list" "address list"

text \<open>A delivery of steering input to a Run: the input whose append is in flight, and the tickets to come.\<close>

record delivery =
  dl_run :: nat
  dl_flight :: "queued option"
  dl_left :: "nat list"

record manager =
  mg_active :: "(address \<times> nat) list"
  mg_queues :: "(address \<times> queued list) list"
  mg_sessions :: "address list"
  mg_agents :: "(string option \<times> string) list"
  mg_projects :: "string list"
  mg_preparing :: "preparation list"
  mg_reserved :: "(nat \<times> string) list"
  mg_pending :: "string option list"
  mg_known :: "nat list"
  mg_objects :: "nat \<Rightarrow> session_run option"
  mg_tickets :: "nat \<Rightarrow> ticket option"
  mg_deliveries :: "delivery list"
  mg_next :: nat
  mg_closed :: bool
  mg_lock :: "holder option"

record run_limits =
  lm_waiting :: nat
  lm_completed :: nat

definition new_manager :: manager where
  "new_manager = \<lparr>mg_active = [], mg_queues = [], mg_sessions = [], mg_agents = [], mg_projects = [],
     mg_preparing = [], mg_reserved = [], mg_pending = [], mg_known = [], mg_objects = (\<lambda>_. None),
     mg_tickets = (\<lambda>_. None), mg_deliveries = [], mg_next = 0, mg_closed = False, mg_lock = None\<rparr>"

subsection \<open>Reading the state\<close>

definition status_of :: "manager \<Rightarrow> nat \<Rightarrow> run_status option" where
  "status_of s i = map_option (\<lambda>r. rn_status (fst (sr_live r))) (mg_objects s i)"

definition running :: "manager \<Rightarrow> nat \<Rightarrow> bool" where
  "running s i \<longleftrightarrow> status_of s i = Some RUNNING"

definition active_run :: "manager \<Rightarrow> address \<Rightarrow> nat option" where
  "active_run s a = (case map_of (mg_active s) a of None \<Rightarrow> None | Some i \<Rightarrow> if running s i then Some i else None)"

definition active_runs :: "manager \<Rightarrow> nat list" where
  "active_runs s = filter (running s) (map snd (mg_active s))"

definition is_running :: "manager \<Rightarrow> nat \<Rightarrow> bool" where
  "is_running s i \<longleftrightarrow> i \<in> set (mg_known s) \<and> running s i"

definition queue_of :: "manager \<Rightarrow> address \<Rightarrow> queued list" where
  "queue_of s a = (case map_of (mg_queues s) a of None \<Rightarrow> [] | Some q \<Rightarrow> q)"

definition all_queued :: "manager \<Rightarrow> (address \<times> queued) list" where
  "all_queued s = concat (map (\<lambda>(a, q). map (\<lambda>i. (a, i)) q) (mg_queues s))"

definition waiting_work_count :: "manager \<Rightarrow> nat" where
  "waiting_work_count s = length (mg_reserved s) + length (mg_pending s) + sum_list (map (length \<circ> snd) (mg_queues s))"

definition waiting_work_count_for_scope :: "manager \<Rightarrow> string \<Rightarrow> nat" where
  "waiting_work_count_for_scope s scope =
     length (filter (\<lambda>w. snd w = scope) (mg_reserved s))
     + length (filter (\<lambda>e. qi_scope (snd e) = Some scope) (all_queued s))
     + length (filter (\<lambda>p. p = Some scope) (mg_pending s))"

definition has_activity_for_session :: "manager \<Rightarrow> address \<Rightarrow> bool" where
  "has_activity_for_session s a \<longleftrightarrow> active_run s a \<noteq> None \<or> queue_of s a \<noteq> []"

definition agent_key :: "address \<Rightarrow> string option \<times> string" where
  "agent_key a = (ad_project a, ad_agent a)"

definition has_activity_for_agent :: "manager \<Rightarrow> string option \<times> string \<Rightarrow> bool" where
  "has_activity_for_agent s key \<longleftrightarrow>
     list_ex (\<lambda>(a, i). agent_key a = key \<and> running s i) (mg_active s)
     \<or> list_ex (\<lambda>(a, q). agent_key a = key \<and> q \<noteq> []) (mg_queues s)"

definition working_project_of :: "manager \<Rightarrow> nat \<Rightarrow> string option" where
  "working_project_of s i = Option.bind (mg_objects s i) sr_working"

definition has_activity_for_working_project :: "manager \<Rightarrow> string \<Rightarrow> bool" where
  "has_activity_for_working_project s p \<longleftrightarrow>
     list_ex (\<lambda>(a, i). running s i \<and> working_project_of s i = Some p) (mg_active s)
     \<or> list_ex (\<lambda>(a, q). list_ex (\<lambda>item. am_working (qi_admission item) = Some p) q) (mg_queues s)"

definition has_activity_for_project :: "manager \<Rightarrow> string \<Rightarrow> bool" where
  "has_activity_for_project s p \<longleftrightarrow>
     has_activity_for_working_project s p
     \<or> list_ex (\<lambda>(a, i). ad_project a = Some p \<and> running s i) (mg_active s)
     \<or> list_ex (\<lambda>(a, q). ad_project a = Some p \<and> q \<noteq> []) (mg_queues s)"

text \<open>\<open>_run_admission_is_guarded_locked\<close>.\<close>

definition guarded :: "manager \<Rightarrow> address \<Rightarrow> string option \<Rightarrow> bool" where
  "guarded s a working \<longleftrightarrow>
     a \<in> set (mg_sessions s) \<or> agent_key a \<in> set (mg_agents s)
     \<or> list_ex (\<lambda>p. ad_project a = Some p \<or> working = Some p) (mg_projects s)"

text \<open>\<open>_ensure_run_admission_allowed_locked\<close>, with the validator's verdict.\<close>

definition refused :: "manager \<Rightarrow> address \<Rightarrow> run_admission \<Rightarrow> start_error option \<Rightarrow> start_error option" where
  "refused s a am verdict = (if guarded s a (am_working am) then Some Blocked_Start else verdict)"

definition covers_session :: "preparation \<Rightarrow> address \<Rightarrow> bool" where
  "covers_session p a \<longleftrightarrow>
     pp_project p = ad_project a \<and> pp_agent p = ad_agent a
     \<and> (case pp_session p of None \<Rightarrow> True | Some x \<Rightarrow> x = ad_session a)"

subsection \<open>Changing it\<close>

fun upd :: "'k \<Rightarrow> 'v \<Rightarrow> ('k \<times> 'v) list \<Rightarrow> ('k \<times> 'v) list" where
  "upd k v [] = [(k, v)]"
| "upd k v ((k', w) # es) = (if k' = k then (k, v) # es else (k', w) # upd k v es)"

definition del :: "'k \<Rightarrow> ('k \<times> 'v) list \<Rightarrow> ('k \<times> 'v) list" where
  "del k es = filter (\<lambda>e. fst e \<noteq> k) es"

text \<open>An empty queue has no entry.\<close>

definition set_queue :: "address \<Rightarrow> queued list \<Rightarrow> manager \<Rightarrow> manager" where
  "set_queue a q s = s\<lparr>mg_queues := (if q = [] then del a (mg_queues s) else upd a q (mg_queues s))\<rparr>"

definition settle_ticket :: "nat \<Rightarrow> ticket \<Rightarrow> manager \<Rightarrow> manager" where
  "settle_ticket t v s =
     (if mg_tickets s t = Some Open_Ticket then s\<lparr>mg_tickets := (mg_tickets s)(t \<mapsto> v)\<rparr> else s)"

definition ticket_done :: "manager \<Rightarrow> nat \<Rightarrow> bool" where
  "ticket_done s t \<longleftrightarrow> mg_tickets s t \<noteq> Some Open_Ticket"

definition unlock :: "manager \<Rightarrow> manager" where
  "unlock s = s\<lparr>mg_lock := None\<rparr>"

definition change_item :: "address \<Rightarrow> nat \<Rightarrow> (queued \<Rightarrow> queued) \<Rightarrow> manager \<Rightarrow> manager" where
  "change_item a t f s =
     set_queue a (map (\<lambda>item. if qi_ticket item = t then f item else item) (queue_of s a)) s"

subsection \<open>Starting\<close>

text \<open>\<open>_start_run_locked\<close>; its preparation has succeeded.\<close>

definition start_run :: "address \<Rightarrow> string option \<Rightarrow> run_admission \<Rightarrow> manager \<Rightarrow> manager" where
  "start_run a item am s =
     (let i = mg_next s in
      s\<lparr>mg_objects := (mg_objects s)(i \<mapsto>
          \<lparr>sr_live = (new_run i (am_kind am) (am_activity am), None), sr_address = a, sr_working = am_working am,
           sr_owner = am_owner am, sr_input = am_input am, sr_parent = am_parent am, sr_item = item,
           sr_drained = False\<rparr>),
        mg_active := upd a i (mg_active s), mg_known := mg_known s @ [i], mg_next := Suc i\<rparr>)"

datatype call_error = Shutting_Down | Refusal start_error | Already_Active | Work_Limit | Scope_Limit | Invalid_Call | Not_Found

definition start ::
  "address \<Rightarrow> run_admission \<Rightarrow> start_error option \<Rightarrow> start_error option \<Rightarrow> manager \<Rightarrow> manager \<times> (call_error + nat)" where
  "start a am verdict prepared s =
     (if mg_closed s then (s, Inl Shutting_Down)
      else (case refused s a am verdict of
              Some e \<Rightarrow> (s, Inl (Refusal e))
            | None \<Rightarrow>
                if active_run s a \<noteq> None \<or> queue_of s a \<noteq> [] then (s, Inl Already_Active)
                else (case prepared of
                        Some e \<Rightarrow> (s, Inl (Refusal e))
                      | None \<Rightarrow> (start_run a None am s, Inr (mg_next s)))))"

subsection \<open>Waiting work\<close>

definition reserve_waiting_work ::
  "run_limits \<Rightarrow> string \<Rightarrow> nat \<Rightarrow> manager \<Rightarrow> manager \<times> (call_error + nat \<times> string)" where
  "reserve_waiting_work lm scope scope_limit s =
     (if scope = [] \<or> scope_limit < 1 then (s, Inl Invalid_Call)
      else if mg_closed s then (s, Inl Shutting_Down)
      else if lm_waiting lm \<le> waiting_work_count s then (s, Inl Work_Limit)
      else if scope_limit \<le> waiting_work_count_for_scope s scope then (s, Inl Scope_Limit)
      else (s\<lparr>mg_reserved := mg_reserved s @ [(mg_next s, scope)], mg_next := Suc (mg_next s)\<rparr>,
            Inr (mg_next s, scope)))"

definition release_waiting_work :: "nat \<Rightarrow> manager \<Rightarrow> manager \<times> bool" where
  "release_waiting_work i s =
     (if map_of (mg_reserved s) i = None then (s, False)
      else (s\<lparr>mg_reserved := del i (mg_reserved s)\<rparr>, True))"

text \<open>\<open>_consume_waiting_work_admission\<close>; \<open>None\<close> is the \<open>ValueError\<close> of a reservation that is gone.\<close>

definition consume_reservation :: "nat option \<Rightarrow> manager \<Rightarrow> (manager \<times> string option) option" where
  "consume_reservation r s =
     (case r of
        None \<Rightarrow> Some (s, None)
      | Some i \<Rightarrow>
          (case map_of (mg_reserved s) i of
             None \<Rightarrow> None
           | Some scope \<Rightarrow> Some (s\<lparr>mg_reserved := del i (mg_reserved s)\<rparr>, Some scope)))"

subsection \<open>Enqueuing\<close>

text \<open>The end of both branches, once the input is persisted or could not be.\<close>

definition enqueue_idle_end ::
  "address \<Rightarrow> queued \<Rightarrow> nat option \<Rightarrow> bool \<Rightarrow> start_error option \<Rightarrow> manager \<Rightarrow> manager" where
  "enqueue_idle_end a item r works prepared s =
     (let s0 = unlock s in
      if \<not> works then s0
      else (case consume_reservation r s0 of
              None \<Rightarrow> s0
            | Some (s1, _) \<Rightarrow>
                (case prepared of
                   Some e \<Rightarrow> s1
                 | None \<Rightarrow>
                     (start_run a (Some (qi_id item)) (qi_admission item) s1)
                       \<lparr>mg_tickets := (mg_tickets s1)(qi_ticket item \<mapsto> Got_Run (mg_next s1))\<rparr>)))"

definition enqueue_busy_end :: "address \<Rightarrow> queued \<Rightarrow> bool \<Rightarrow> manager \<Rightarrow> manager" where
  "enqueue_busy_end a item works s =
     (let s0 = (unlock s)\<lparr>mg_pending := butlast (mg_pending s)\<rparr> in
      if \<not> works then s0
      else (set_queue a (queue_of s0 a @ [item]) s0)\<lparr>mg_tickets := (mg_tickets s0)(qi_ticket item \<mapsto> Open_Ticket)\<rparr>)"

text \<open>\<open>enqueue\<close> up to the wait for a durable input, or to its end for one that is not. The answer tells the
  error; an input gets its ticket when it is accepted.\<close>

definition enqueue ::
  "run_limits \<Rightarrow> address \<Rightarrow> queued \<Rightarrow> nat option \<Rightarrow> bool \<Rightarrow> start_error option \<Rightarrow> start_error option \<Rightarrow> manager \<Rightarrow>
     manager \<times> call_error option" where
  "enqueue lm a item0 r persists verdict prepared s0 =
     (let item = item0\<lparr>qi_ticket := mg_next s0, qi_in_flight := False, qi_withdrawn := False, qi_scope := None\<rparr>;
          s = s0\<lparr>mg_next := Suc (mg_next s0)\<rparr> in
      if mg_closed s then (s, Some Shutting_Down)
      else (case refused s a (qi_admission item) verdict of
              Some e \<Rightarrow> (s, Some (Refusal e))
            | None \<Rightarrow>
                if active_run s a = None \<and> queue_of s a = []
                then (if persists then (s\<lparr>mg_lock := Some (Persist_Idle a item r)\<rparr>, None)
                      else (enqueue_idle_end a item r True prepared s,
                            if consume_reservation r s = None then Some Invalid_Call
                            else map_option Refusal prepared))
                else (case consume_reservation r s of
                        None \<Rightarrow> (s, Some Invalid_Call)
                      | Some (s1, scope) \<Rightarrow>
                          if scope = None \<and> lm_waiting lm \<le> waiting_work_count s1 then (s1, Some Work_Limit)
                          else (let s2 = s1\<lparr>mg_pending := mg_pending s1 @ [scope]\<rparr>;
                                    waiting = item\<lparr>qi_scope := scope\<rparr> in
                                (if persists then s2\<lparr>mg_lock := Some (Persist_Busy a waiting)\<rparr>
                                 else enqueue_busy_end a waiting True s2, None)))))"

text \<open>Accepted input that survived a restart, in its order.\<close>

fun restore_queued_inputs :: "(address \<times> queued) list \<Rightarrow> manager \<Rightarrow> manager" where
  "restore_queued_inputs [] s = s"
| "restore_queued_inputs ((a, item0) # inputs) s0 =
     (let item = item0\<lparr>qi_ticket := mg_next s0, qi_in_flight := False, qi_withdrawn := False\<rparr>;
          s = s0\<lparr>mg_next := Suc (mg_next s0)\<rparr> in
      restore_queued_inputs inputs
        (if active_run s a = None \<and> queue_of s a = []
         then (start_run a (Some (qi_id item)) (qi_admission item) s)
                \<lparr>mg_tickets := (mg_tickets s)(qi_ticket item \<mapsto> Got_Run (mg_next s))\<rparr>
         else (set_queue a (queue_of s a @ [item]) s)\<lparr>mg_tickets := (mg_tickets s)(qi_ticket item \<mapsto> Open_Ticket)\<rparr>))"

subsection \<open>Changing what waits\<close>

definition take_out :: "address \<Rightarrow> nat \<Rightarrow> manager \<Rightarrow> manager" where
  "take_out a t s = set_queue a (filter (\<lambda>x. qi_ticket x \<noteq> t) (queue_of s a)) s"

text \<open>The first input with an id, unless its append is in flight, leaves the queue and its Future is cancelled.\<close>

definition remove_queued :: "address \<Rightarrow> string \<Rightarrow> manager \<Rightarrow> manager \<times> bool" where
  "remove_queued a i s =
     (case find (\<lambda>item. qi_id item = i) (queue_of s a) of
        None \<Rightarrow> (s, False)
      | Some item \<Rightarrow>
          if qi_in_flight item then (s, False)
          else (settle_ticket (qi_ticket item) Dropped (take_out a (qi_ticket item) s), True))"

definition withdraw_item :: "address \<Rightarrow> queued \<Rightarrow> manager \<Rightarrow> manager \<times> bool" where
  "withdraw_item a item s =
     (if list_ex (\<lambda>x. qi_ticket x = qi_ticket item \<and> qi_in_flight x) (queue_of s a)
      then (change_item a (qi_ticket item) (\<lambda>x. x\<lparr>qi_withdrawn := True\<rparr>) s, True)
      else remove_queued a (qi_id item) s)"

definition clear_queued :: "address \<Rightarrow> manager \<Rightarrow> manager" where
  "clear_queued a s = foldl (\<lambda>s item. fst (withdraw_item a item s)) s (queue_of s a)"

text \<open>\<open>clear_queued_many\<close>: durable input is withdrawn first, which suspends with the lock held.\<close>

function clear_loop :: "address \<Rightarrow> queued list \<Rightarrow> address list \<Rightarrow> manager \<Rightarrow> manager" where
  "clear_loop a [] [] s = unlock s"
| "clear_loop a [] (b # bs) s = clear_loop b (queue_of s b) bs s"
| "clear_loop a (item # items) bs s =
     (if am_input (qi_admission item) \<noteq> None then s\<lparr>mg_lock := Some (Clear_Withdraws a item items bs)\<rparr>
      else clear_loop a items bs (fst (withdraw_item a item s)))"
  by pat_completeness auto
termination
  by (relation "measures [\<lambda>(a, items, bs, s). length bs, \<lambda>(a, items, bs, s). length items]") auto

definition clear_queued_many :: "address list \<Rightarrow> manager \<Rightarrow> manager" where
  "clear_queued_many as s = (case as of [] \<Rightarrow> s | a # bs \<Rightarrow> clear_loop a (queue_of s a) bs s)"

definition clear_resumes :: "address \<Rightarrow> queued \<Rightarrow> queued list \<Rightarrow> address list \<Rightarrow> bool \<Rightarrow> manager \<Rightarrow> manager" where
  "clear_resumes a item items bs works s =
     (if works then clear_loop a items bs (fst (withdraw_item a item (unlock s))) else unlock s)"

definition update_queued :: "address \<Rightarrow> string \<Rightarrow> nat \<Rightarrow> string \<Rightarrow> bool option \<Rightarrow> manager \<Rightarrow> manager \<times> bool" where
  "update_queued a i executor content editable s =
     (case find (\<lambda>item. qi_id item = i) (queue_of s a) of
        None \<Rightarrow> (s, False)
      | Some item \<Rightarrow>
          if qi_steering item \<or> \<not> qi_editable item then (s, False)
          else (change_item a (qi_ticket item)
                  (\<lambda>x. x\<lparr>qi_executor := executor, qi_content := content,
                         qi_editable := (case editable of None \<Rightarrow> qi_editable x | Some b \<Rightarrow> b)\<rparr>) s, True))"

definition steer_queued :: "address \<Rightarrow> string \<Rightarrow> manager \<Rightarrow> manager \<times> call_error option" where
  "steer_queued a i s =
     (case find (\<lambda>item. qi_id item = i) (queue_of s a) of
        None \<Rightarrow> (s, Some Not_Found)
      | Some item \<Rightarrow>
          if \<not> qi_steerable item \<or> qi_internal item \<or> am_owner (qi_admission item) \<noteq> None then (s, Some Already_Active)
          else (change_item a (qi_ticket item) (\<lambda>x. x\<lparr>qi_steering := True\<rparr>) s, None))"

text \<open>The consumer of an input gives it up; the Future's callback then takes the input out of the queue,
  unless it is durable.\<close>

definition abandon :: "nat \<Rightarrow> manager \<Rightarrow> manager" where
  "abandon t s = settle_ticket t Dropped s"

definition remove_abandoned :: "address \<Rightarrow> queued \<Rightarrow> manager \<Rightarrow> manager" where
  "remove_abandoned a item s =
     (if mg_tickets s (qi_ticket item) = Some Dropped \<and> am_input (qi_admission item) = None
      then fst (remove_queued a (qi_id item) s) else s)"

subsection \<open>Steering\<close>

definition pending_steering :: "nat \<Rightarrow> manager \<Rightarrow> queued list" where
  "pending_steering i s =
     (case mg_objects s i of
        None \<Rightarrow> []
      | Some r \<Rightarrow>
          if sr_owner r \<noteq> None then []
          else filter (\<lambda>item. qi_steering item
                   \<and> (mg_tickets s (qi_ticket item) \<noteq> Some Dropped \<or> am_input (qi_admission item) \<noteq> None)
                   \<and> am_working (qi_admission item) = sr_working r) (queue_of s (sr_address r)))"

definition begin_delivery :: "nat \<Rightarrow> manager \<Rightarrow> manager" where
  "begin_delivery i s =
     s\<lparr>mg_deliveries := mg_deliveries s @
         [\<lparr>dl_run = i, dl_flight = None, dl_left = map qi_ticket (pending_steering i s)\<rparr>]\<rparr>"

definition change_delivery :: "nat \<Rightarrow> (delivery \<Rightarrow> delivery) \<Rightarrow> manager \<Rightarrow> manager" where
  "change_delivery i f s =
     s\<lparr>mg_deliveries := map (\<lambda>d. if dl_run d = i then f d else d) (mg_deliveries s)\<rparr>"

definition end_delivery :: "nat \<Rightarrow> manager \<Rightarrow> manager" where
  "end_delivery i s = s\<lparr>mg_deliveries := filter (\<lambda>d. dl_run d \<noteq> i) (mg_deliveries s)\<rparr>"

text \<open>The loop up to the append of the next input: one that left the queue, or that is done and not durable,
  is passed over, and a cancelled Run takes no more.\<close>

fun next_delivery :: "nat \<Rightarrow> address \<Rightarrow> bool \<Rightarrow> nat list \<Rightarrow> manager \<Rightarrow> manager" where
  "next_delivery i a cancelled [] s = end_delivery i s"
| "next_delivery i a cancelled (t # ts) s =
     (case find (\<lambda>item. qi_ticket item = t) (queue_of s a) of
        None \<Rightarrow> next_delivery i a cancelled ts s
      | Some item \<Rightarrow>
          if ticket_done s t \<and> am_input (qi_admission item) = None then next_delivery i a cancelled ts s
          else if cancelled then end_delivery i s
          else change_delivery i (\<lambda>d. d\<lparr>dl_flight := Some item, dl_left := ts\<rparr>)
                 (change_item a t (\<lambda>x. x\<lparr>qi_in_flight := True\<rparr>) s))"

definition continue_delivery :: "delivery \<Rightarrow> manager \<Rightarrow> manager" where
  "continue_delivery d s =
     (case mg_objects s (dl_run d) of
        None \<Rightarrow> s
      | Some r \<Rightarrow> next_delivery (dl_run d) (sr_address r) (rn_cancel (fst (sr_live r))) (dl_left d) s)"

text \<open>The append has succeeded or failed. An input withdrawn in the meantime leaves the queue either way.\<close>

definition land :: "nat \<Rightarrow> session_run \<Rightarrow> queued \<Rightarrow> bool \<Rightarrow> manager \<Rightarrow> manager" where
  "land i r item works s =
     (let a = sr_address r;
          t = qi_ticket item;
          withdrawn = list_ex (\<lambda>x. qi_ticket x = t \<and> qi_withdrawn x) (queue_of s a);
          s1 = (if works
                then settle_ticket t (Got_Run i) (take_out a t
                       (s\<lparr>mg_objects := (mg_objects s)(i \<mapsto> r\<lparr>sr_parent := am_parent (qi_admission item)\<rparr>)\<rparr>))
                else s);
          s2 = change_item a t (\<lambda>x. x\<lparr>qi_in_flight := False\<rparr>) s1 in
      if withdrawn then settle_ticket t Dropped (take_out a t s2) else s2)"

text \<open>A failed append ends the delivery.\<close>

definition append_ends :: "delivery \<Rightarrow> bool \<Rightarrow> manager \<Rightarrow> manager" where
  "append_ends d works s =
     (case (mg_objects s (dl_run d), dl_flight d) of
        (Some r, Some item) \<Rightarrow>
          (let s1 = change_delivery (dl_run d) (\<lambda>d. d\<lparr>dl_flight := None\<rparr>) (land (dl_run d) r item works s) in
           if works then s1 else end_delivery (dl_run d) s1)
      | _ \<Rightarrow> s)"

subsection \<open>Draining\<close>

text \<open>\<open>_prune_terminal_runs_locked\<close>.\<close>

definition prune_terminal_runs :: "run_limits \<Rightarrow> manager \<Rightarrow> manager" where
  "prune_terminal_runs lm s =
     (let terminal = filter (\<lambda>i. \<not> running s i) (mg_known s);
          gone = take (length terminal - lm_completed lm) terminal in
      s\<lparr>mg_known := filter (\<lambda>i. i \<notin> set gone) (mg_known s)\<rparr>)"

text \<open>Selected input first, each group in queue order.\<close>

definition steering_first :: "queued list \<Rightarrow> queued list" where
  "steering_first q = filter qi_steering q @ filter (\<lambda>item. \<not> qi_steering item) q"

fun drain_loop :: "(queued \<Rightarrow> start_error option) \<Rightarrow> address \<Rightarrow> queued list \<Rightarrow> manager \<Rightarrow> manager" where
  "drain_loop verdict a [] s = set_queue a [] (unlock s)"
| "drain_loop verdict a (item # q) s0 =
     (let s = set_queue a q (unlock s0) in
      if ticket_done s (qi_ticket item) \<and> am_input (qi_admission item) = None then drain_loop verdict a q s
      else (case refused s a (qi_admission item) (verdict item) of
              Some e \<Rightarrow>
                if am_input (qi_admission item) \<noteq> None then s\<lparr>mg_lock := Some (Drain_Withdraws a item e)\<rparr>
                else drain_loop verdict a q (settle_ticket (qi_ticket item) (Refused e) s)
            | None \<Rightarrow>
                settle_ticket (qi_ticket item) (Got_Run (mg_next s))
                  (start_run a (Some (qi_id item)) (qi_admission item) s)))"

definition drain_next :: "(queued \<Rightarrow> start_error option) \<Rightarrow> address \<Rightarrow> manager \<Rightarrow> manager" where
  "drain_next verdict a s =
     (if mg_closed s
      then set_queue a [] (foldl (\<lambda>s item. settle_ticket (qi_ticket item) Dropped s) s (queue_of s a))
      else if active_run s a \<noteq> None then s
      else drain_loop verdict a (steering_first (queue_of s a)) (set_queue a (steering_first (queue_of s a)) s))"

text \<open>The end of \<open>_execute\<close>, behind the mark.\<close>

definition run_over :: "run_limits \<Rightarrow> (queued \<Rightarrow> start_error option) \<Rightarrow> nat \<Rightarrow> session_run \<Rightarrow> manager \<Rightarrow> manager" where
  "run_over lm verdict i r s =
     (let s1 = s\<lparr>mg_objects := (mg_objects s)(i \<mapsto> r\<lparr>sr_drained := True\<rparr>),
                mg_active := (if map_of (mg_active s) (sr_address r) = Some i
                              then del (sr_address r) (mg_active s) else mg_active s)\<rparr> in
      drain_next verdict (sr_address r) (prune_terminal_runs lm s1))"

text \<open>The withdrawal of a refused input has come back.\<close>

definition drain_resumes :: "(queued \<Rightarrow> start_error option) \<Rightarrow> address \<Rightarrow> queued \<Rightarrow> start_error \<Rightarrow> manager \<Rightarrow> manager" where
  "drain_resumes verdict a item e s =
     (let s1 = settle_ticket (qi_ticket item) (Refused e) (unlock s) in drain_loop verdict a (queue_of s1 a) s1)"

subsection \<open>Shutting down\<close>

definition request_run_cancel :: "(nat \<Rightarrow> bool) \<Rightarrow> string option \<Rightarrow> string option \<Rightarrow> nat \<Rightarrow> manager \<Rightarrow> manager" where
  "request_run_cancel awaits reason initiator i s =
     (case mg_objects s i of
        None \<Rightarrow> s
      | Some r \<Rightarrow>
          s\<lparr>mg_objects := (mg_objects s)(i \<mapsto>
              r\<lparr>sr_live := (request_cancel awaits reason initiator (fst (sr_live r)), snd (sr_live r))\<rparr>)\<rparr>)"

definition cancel_by_session ::
  "(nat \<Rightarrow> bool) \<Rightarrow> string option \<Rightarrow> string option \<Rightarrow> address \<Rightarrow> manager \<Rightarrow> manager \<times> (call_error + nat)" where
  "cancel_by_session awaits reason initiator a s =
     (case active_run s a of
        None \<Rightarrow> (s, Inl Not_Found)
      | Some i \<Rightarrow> (request_run_cancel awaits reason initiator i s, Inr i))"

definition aclose_runs :: "(nat \<Rightarrow> bool) \<Rightarrow> manager \<Rightarrow> manager" where
  "aclose_runs awaits s =
     (let s1 = (if mg_closed s then s
                else (foldl (\<lambda>s (a, item). settle_ticket (qi_ticket item) Dropped s) (s\<lparr>mg_closed := True\<rparr>) (all_queued s))
                       \<lparr>mg_queues := [], mg_reserved := []\<rparr>) in
      foldl (\<lambda>s i. request_run_cancel awaits (Some ''shutdown'') (Some ''shutdown'') i s) s1 (map snd (mg_active s1)))"

subsection \<open>Transitions\<close>

definition prepare_admission :: "string \<Rightarrow> string option \<Rightarrow> string option \<Rightarrow> manager \<Rightarrow> manager \<times> (call_error + nat)" where
  "prepare_admission agent project session s =
     (let p = \<lparr>pp_id = mg_next s, pp_project = project, pp_agent = agent, pp_session = session, pp_working = None,
               pp_changed = mg_projects s\<rparr> in
      if mg_closed s \<or> (project, agent) \<in> set (mg_agents s)
         \<or> list_ex (\<lambda>x. project = Some x) (mg_projects s)
         \<or> list_ex (covers_session p) (mg_sessions s)
      then (s, Inl (Refusal Blocked_Start))
      else (s\<lparr>mg_preparing := mg_preparing s @ [p], mg_next := Suc (mg_next s)\<rparr>, Inr (mg_next s)))"

definition change_preparation :: "nat \<Rightarrow> (preparation \<Rightarrow> preparation) \<Rightarrow> manager \<Rightarrow> manager" where
  "change_preparation i f s =
     s\<lparr>mg_preparing := map (\<lambda>p. if pp_id p = i then f p else p) (mg_preparing s)\<rparr>"

definition bind_working_project :: "nat \<Rightarrow> string option \<Rightarrow> manager \<Rightarrow> manager \<times> call_error option" where
  "bind_working_project i project s =
     (case find (\<lambda>p. pp_id p = i) (mg_preparing s) of
        None \<Rightarrow> (s, Some Shutting_Down)
      | Some p \<Rightarrow>
          if mg_closed s then (s, Some Shutting_Down)
          else if list_ex (\<lambda>x. project = Some x) (pp_changed p @ mg_projects s)
          then (s, Some (Refusal Blocked_Start))
          else (change_preparation i (\<lambda>p. p\<lparr>pp_working := project\<rparr>) s, None))"

definition bind_session :: "nat \<Rightarrow> string \<Rightarrow> manager \<Rightarrow> manager \<times> call_error option" where
  "bind_session i session s =
     (case find (\<lambda>p. pp_id p = i) (mg_preparing s) of
        None \<Rightarrow> (s, Some (Refusal Blocked_Start))
      | Some p \<Rightarrow>
          if pp_session p \<noteq> None \<and> pp_session p \<noteq> Some session then (s, Some Invalid_Call)
          else (change_preparation i (\<lambda>p. p\<lparr>pp_session := Some session\<rparr>) s, None))"

definition release_preparation :: "nat \<Rightarrow> manager \<Rightarrow> manager" where
  "release_preparation i s = s\<lparr>mg_preparing := filter (\<lambda>p. pp_id p \<noteq> i) (mg_preparing s)\<rparr>"

definition guard_sessions :: "address list \<Rightarrow> manager \<Rightarrow> manager \<times> call_error option" where
  "guard_sessions as s =
     (if as = [] then (s, Some Invalid_Call)
      else if list_ex (\<lambda>a. has_activity_for_session s a \<or> list_ex (\<lambda>p. covers_session p a) (mg_preparing s)
                 \<or> guarded s a None) as
      then (s, Some (Refusal Blocked_Start))
      else (s\<lparr>mg_sessions := mg_sessions s @ as\<rparr>, None))"

definition release_sessions :: "address list \<Rightarrow> manager \<Rightarrow> manager" where
  "release_sessions as s = s\<lparr>mg_sessions := filter (\<lambda>a. a \<notin> set as) (mg_sessions s)\<rparr>"

definition guard_agent :: "string option \<times> string \<Rightarrow> manager \<Rightarrow> manager \<times> call_error option" where
  "guard_agent key s =
     (if key \<in> set (mg_agents s) \<or> list_ex (\<lambda>a. agent_key a = key) (mg_sessions s)
         \<or> list_ex (\<lambda>p. fst key = Some p) (mg_projects s)
         \<or> has_activity_for_agent s key \<or> list_ex (\<lambda>p. (pp_project p, pp_agent p) = key) (mg_preparing s)
      then (s, Some (Refusal Blocked_Start))
      else (s\<lparr>mg_agents := mg_agents s @ [key]\<rparr>, None))"

definition release_agent :: "string option \<times> string \<Rightarrow> manager \<Rightarrow> manager" where
  "release_agent key s = s\<lparr>mg_agents := filter (\<lambda>k. k \<noteq> key) (mg_agents s)\<rparr>"

definition guard_project :: "string \<Rightarrow> manager \<Rightarrow> manager \<times> call_error option" where
  "guard_project p s =
     (if p \<in> set (mg_projects s) \<or> list_ex (\<lambda>a. ad_project a = Some p) (mg_sessions s)
         \<or> list_ex (\<lambda>key. fst key = Some p) (mg_agents s)
         \<or> has_activity_for_project s p
         \<or> list_ex (\<lambda>x. pp_project x = Some p \<or> pp_working x = Some p) (mg_preparing s)
      then (s, Some (Refusal Blocked_Start))
      else (s\<lparr>mg_projects := mg_projects s @ [p],
              mg_preparing := map (\<lambda>x. x\<lparr>pp_changed := pp_changed x @ [p]\<rparr>) (mg_preparing s)\<rparr>, None))"

definition release_project :: "string \<Rightarrow> manager \<Rightarrow> manager" where
  "release_project p s = s\<lparr>mg_projects := filter (\<lambda>x. x \<noteq> p) (mg_projects s)\<rparr>"

subsection \<open>Steps\<close>

text \<open>One step of anything that acts on the manager, in any order. A Run takes a step of its own life, but ends
  only when it delivers nothing; an operation that needs the lock waits until it is free. \<open>reliable\<close> tells
  whether the withdrawal of a refused durable input always comes back without an error.\<close>

definition delivers :: "manager \<Rightarrow> nat \<Rightarrow> bool" where
  "delivers s i \<longleftrightarrow> list_ex (\<lambda>d. dl_run d = i) (mg_deliveries s)"

inductive mg_step :: "run_limits \<Rightarrow> bool \<Rightarrow> manager \<Rightarrow> manager \<Rightarrow> bool" for lm reliable where
  lives: "mg_objects s i = Some r \<Longrightarrow> \<not> sr_drained r \<Longrightarrow> life_step (sr_live r) x \<Longrightarrow>
     rn_status (fst x) = RUNNING \<or> \<not> delivers s i \<Longrightarrow>
     mg_step lm reliable s (s\<lparr>mg_objects := (mg_objects s)(i \<mapsto> r\<lparr>sr_live := x\<rparr>)\<rparr>)"
| starts: "mg_lock s = None \<Longrightarrow> mg_step lm reliable s (fst (start a am verdict prepared s))"
| enqueues: "mg_lock s = None \<Longrightarrow> mg_step lm reliable s (fst (enqueue lm a item r persists verdict prepared s))"
| idle_persisted: "mg_lock s = Some (Persist_Idle a item r) \<Longrightarrow>
     mg_step lm reliable s (enqueue_idle_end a item r works prepared s)"
| busy_persisted: "mg_lock s = Some (Persist_Busy a item) \<Longrightarrow> mg_step lm reliable s (enqueue_busy_end a item works s)"
| reserves: "mg_step lm reliable s (fst (reserve_waiting_work lm scope scope_limit s))"
| releases: "mg_step lm reliable s (fst (release_waiting_work i s))"
| removes: "mg_step lm reliable s (fst (remove_queued a k s))"
| clears: "mg_step lm reliable s (clear_queued a s)"
| clears_many: "mg_lock s = None \<Longrightarrow> mg_step lm reliable s (clear_queued_many as s)"
| clear_resumed: "mg_lock s = Some (Clear_Withdraws a item items bs) \<Longrightarrow>
     mg_step lm reliable s (clear_resumes a item items bs works s)"
| updates: "mg_step lm reliable s (fst (update_queued a k executor content editable s))"
| steers: "mg_step lm reliable s (fst (steer_queued a k s))"
| abandons: "mg_step lm reliable s (abandon t s)"
| reaps: "item \<in> set (queue_of s a) \<Longrightarrow> mg_step lm reliable s (remove_abandoned a item s)"
| begins: "running s i \<Longrightarrow> \<not> delivers s i \<Longrightarrow> mg_step lm reliable s (begin_delivery i s)"
| continues: "d \<in> set (mg_deliveries s) \<Longrightarrow> dl_flight d = None \<Longrightarrow> mg_step lm reliable s (continue_delivery d s)"
| appends: "d \<in> set (mg_deliveries s) \<Longrightarrow> dl_flight d \<noteq> None \<Longrightarrow> mg_step lm reliable s (append_ends d works s)"
| overs: "mg_lock s = None \<Longrightarrow> mg_objects s i = Some r \<Longrightarrow> \<not> running s i \<Longrightarrow> \<not> sr_drained r \<Longrightarrow>
     mg_step lm reliable s (run_over lm verdict i r s)"
| resumes: "mg_lock s = Some (Drain_Withdraws a item e) \<Longrightarrow>
     mg_step lm reliable s (drain_resumes verdict a item e s)"
| withdrawal_fails: "\<not> reliable \<Longrightarrow> mg_lock s = Some (Drain_Withdraws a item e) \<Longrightarrow> mg_step lm reliable s (unlock s)"
| cancels: "mg_step lm reliable s (request_run_cancel awaits reason initiator i s)"
| closes: "mg_lock s = None \<Longrightarrow> mg_step lm reliable s (aclose_runs awaits s)"
| prepares: "mg_lock s = None \<Longrightarrow> mg_step lm reliable s (fst (prepare_admission agent project session s))"
| binds_project: "mg_lock s = None \<Longrightarrow> mg_step lm reliable s (fst (bind_working_project i project s))"
| binds_session: "mg_lock s = None \<Longrightarrow> mg_step lm reliable s (fst (bind_session i session s))"
| prepared: "mg_lock s = None \<Longrightarrow> mg_step lm reliable s (release_preparation i s)"
| guards_sessions: "mg_lock s = None \<Longrightarrow> mg_step lm reliable s (fst (guard_sessions as s))"
| frees_sessions: "mg_lock s = None \<Longrightarrow> mg_step lm reliable s (release_sessions as s)"
| guards_agent: "mg_lock s = None \<Longrightarrow> mg_step lm reliable s (fst (guard_agent key s))"
| frees_agent: "mg_lock s = None \<Longrightarrow> mg_step lm reliable s (release_agent key s)"
| guards_project: "mg_lock s = None \<Longrightarrow> mg_step lm reliable s (fst (guard_project p s))"
| frees_project: "mg_lock s = None \<Longrightarrow> mg_step lm reliable s (release_project p s)"

end
