(* ===== verification/Run_Queue_Facts.thy ===== *)
theory Run_Queue_Facts
  imports Run_Queue Run_Life_Properties
begin

section \<open>Invariants of the Run manager\<close>

text \<open>
  What every step of the manager keeps: the shape of its tables, one living Run at most for a Session, a Run
  for every queue, guards without work behind them, and a place for every input whose Future is open. The
  operations are compositions of a few changes (a queue is replaced, a ticket settled, a Run started), and
  each invariant is shown for these.
\<close>

subsection \<open>Tables\<close>

lemma map_of_upd: "map_of (upd k v es) = (map_of es)(k \<mapsto> v)"
  by (induction es rule: upd.induct) auto

lemma map_of_del: "map_of (del k es) = (map_of es)(k := None)"
proof (induction es)
  case (Cons e es)
  then show ?case by (cases e) (auto simp: del_def)
qed (auto simp: del_def)

lemma upd_keys: "map fst (upd k v es) = (if k \<in> set (map fst es) then map fst es else map fst es @ [k])"
  by (induction es rule: upd.induct) auto

lemma upd_distinct: "distinct (map fst es) \<Longrightarrow> distinct (map fst (upd k v es))"
  by (simp only: upd_keys) simp

lemma del_distinct: "distinct (map fst es) \<Longrightarrow> distinct (map fst (del k es))"
  by (simp add: del_def distinct_map_filter)

definition keys_ok :: "manager \<Rightarrow> bool" where
  "keys_ok s \<longleftrightarrow> distinct (map fst (mg_active s)) \<and> distinct (map fst (mg_queues s)) \<and> distinct (map fst (mg_reserved s))
     \<and> (\<forall>i \<in> set (map fst (mg_reserved s)). i < mg_next s)
     \<and> distinct (map pp_id (mg_preparing s)) \<and> (\<forall>i \<in> set (map pp_id (mg_preparing s)). i < mg_next s)"

subsection \<open>What the changes change\<close>

lemma set_queue_keeps [simp]:
  "mg_active (set_queue a q s) = mg_active s" "mg_sessions (set_queue a q s) = mg_sessions s"
  "mg_agents (set_queue a q s) = mg_agents s" "mg_projects (set_queue a q s) = mg_projects s"
  "mg_preparing (set_queue a q s) = mg_preparing s" "mg_reserved (set_queue a q s) = mg_reserved s"
  "mg_pending (set_queue a q s) = mg_pending s" "mg_known (set_queue a q s) = mg_known s"
  "mg_objects (set_queue a q s) = mg_objects s" "mg_tickets (set_queue a q s) = mg_tickets s"
  "mg_deliveries (set_queue a q s) = mg_deliveries s" "mg_next (set_queue a q s) = mg_next s"
  "mg_closed (set_queue a q s) = mg_closed s" "mg_lock (set_queue a q s) = mg_lock s"
  by (simp_all add: set_queue_def)

lemma settle_keeps [simp]:
  "mg_active (settle_ticket t v s) = mg_active s" "mg_sessions (settle_ticket t v s) = mg_sessions s"
  "mg_agents (settle_ticket t v s) = mg_agents s" "mg_projects (settle_ticket t v s) = mg_projects s"
  "mg_preparing (settle_ticket t v s) = mg_preparing s" "mg_reserved (settle_ticket t v s) = mg_reserved s"
  "mg_pending (settle_ticket t v s) = mg_pending s" "mg_known (settle_ticket t v s) = mg_known s"
  "mg_objects (settle_ticket t v s) = mg_objects s" "mg_queues (settle_ticket t v s) = mg_queues s"
  "mg_deliveries (settle_ticket t v s) = mg_deliveries s" "mg_next (settle_ticket t v s) = mg_next s"
  "mg_closed (settle_ticket t v s) = mg_closed s" "mg_lock (settle_ticket t v s) = mg_lock s"
  by (simp_all add: settle_ticket_def)

lemma settle_tickets:
  "mg_tickets (settle_ticket t v s) u = (if u = t \<and> mg_tickets s t = Some Open_Ticket then Some v else mg_tickets s u)"
  by (simp add: settle_ticket_def)

lemma start_keeps [simp]:
  "mg_queues (start_run a item am s) = mg_queues s" "mg_sessions (start_run a item am s) = mg_sessions s"
  "mg_agents (start_run a item am s) = mg_agents s" "mg_projects (start_run a item am s) = mg_projects s"
  "mg_preparing (start_run a item am s) = mg_preparing s" "mg_reserved (start_run a item am s) = mg_reserved s"
  "mg_pending (start_run a item am s) = mg_pending s" "mg_tickets (start_run a item am s) = mg_tickets s"
  "mg_deliveries (start_run a item am s) = mg_deliveries s" "mg_next (start_run a item am s) = Suc (mg_next s)"
  "mg_closed (start_run a item am s) = mg_closed s" "mg_lock (start_run a item am s) = mg_lock s"
  "map_of (mg_active (start_run a item am s)) b = (if b = a then Some (mg_next s) else map_of (mg_active s) b)"
  by (simp_all add: start_run_def Let_def map_of_upd)

lemma unlock_keeps [simp]:
  "mg_active (unlock s) = mg_active s" "mg_sessions (unlock s) = mg_sessions s"
  "mg_agents (unlock s) = mg_agents s" "mg_projects (unlock s) = mg_projects s"
  "mg_preparing (unlock s) = mg_preparing s" "mg_reserved (unlock s) = mg_reserved s"
  "mg_pending (unlock s) = mg_pending s" "mg_known (unlock s) = mg_known s"
  "mg_objects (unlock s) = mg_objects s" "mg_queues (unlock s) = mg_queues s" "mg_tickets (unlock s) = mg_tickets s"
  "mg_deliveries (unlock s) = mg_deliveries s" "mg_next (unlock s) = mg_next s"
  "mg_closed (unlock s) = mg_closed s" "mg_lock (unlock s) = None"
  by (simp_all add: unlock_def)

lemma queue_of_set [simp]: "queue_of (set_queue a q s) b = (if b = a then q else queue_of s b)"
  by (simp add: queue_of_def set_queue_def map_of_upd map_of_del)

text \<open>Reads that depend on some of the fields only.\<close>

lemma queue_of_cong: "mg_queues s = mg_queues t \<Longrightarrow> queue_of s a = queue_of t a"
  by (simp add: queue_of_def)

lemma running_cong: "mg_objects s = mg_objects t \<Longrightarrow> running s i = running t i"
  by (simp add: running_def status_of_def)

lemma queue_of_keeps [simp]:
  "queue_of (settle_ticket t v s) a = queue_of s a" "queue_of (unlock s) a = queue_of s a"
  "queue_of (start_run b item am s) a = queue_of s a"
  by (simp_all add: queue_of_def)

lemma running_keeps [simp]:
  "running (settle_ticket t v s) i = running s i" "running (unlock s) i = running s i"
  "running (set_queue b q s) i = running s i"
  by (simp_all add: running_def status_of_def)

lemma active_run_keeps [simp]:
  "active_run (settle_ticket t v s) a = active_run s a" "active_run (unlock s) a = active_run s a"
  "active_run (set_queue b q s) a = active_run s a"
  by (simp_all add: active_run_def split: option.split)

lemma guarded_keeps [simp]:
  "guarded (settle_ticket t v s) a w = guarded s a w" "guarded (unlock s) a w = guarded s a w"
  "guarded (set_queue b q s) a w = guarded s a w" "guarded (start_run b item am s) a w = guarded s a w"
  by (simp_all add: guarded_def)

text \<open>How much waits.\<close>

definition queued_count :: "(address \<times> queued list) list \<Rightarrow> nat" where
  "queued_count qs = sum_list (map (length \<circ> snd) qs)"

lemma queued_upd:
  "distinct (map fst qs) \<Longrightarrow>
   queued_count (upd a q qs) + length (case map_of qs a of None \<Rightarrow> [] | Some p \<Rightarrow> p) = queued_count qs + length q"
proof (induction qs)
  case (Cons e qs)
  obtain b p where e: "e = (b, p)" by (cases e)
  then show ?case
  proof (cases "b = a")
    case True
    then have "map_of qs a = None" using Cons.prems by (simp add: e map_of_eq_None_iff)
    then show ?thesis by (simp add: e True queued_count_def)
  next
    case False
    then show ?thesis using Cons by (simp add: e queued_count_def)
  qed
qed (simp add: queued_count_def)

lemma queued_del:
  "distinct (map fst qs) \<Longrightarrow>
   queued_count (del a qs) + length (case map_of qs a of None \<Rightarrow> [] | Some p \<Rightarrow> p) = queued_count qs"
proof (induction qs)
  case (Cons e qs)
  obtain b p where e: "e = (b, p)" by (cases e)
  show ?case
  proof (cases "b = a")
    case True
    then have a: "a \<notin> set (map fst qs)" using Cons.prems by (simp add: e)
    then have "filter (\<lambda>e. fst e \<noteq> a) qs = qs" by (intro filter_True) auto
    then show ?thesis by (simp add: e True queued_count_def del_def)
  next
    case False
    then show ?thesis using Cons by (simp add: e queued_count_def del_def)
  qed
qed (simp add: queued_count_def del_def)

lemma waiting_count_alt: "waiting_work_count s = length (mg_reserved s) + length (mg_pending s) + queued_count (mg_queues s)"
  by (simp add: waiting_work_count_def queued_count_def)

lemma count_set_queue:
  "distinct (map fst (mg_queues s)) \<Longrightarrow>
   waiting_work_count (set_queue a q s) + length (queue_of s a) = waiting_work_count s + length q"
  using queued_upd [of "mg_queues s" a q] queued_del [of "mg_queues s" a]
  by (auto simp: waiting_count_alt set_queue_def queue_of_def)

subsection \<open>Living Runs\<close>

text \<open>The active Run of a Session is one of its own that has still to be drained, and every living Run is the
  active one of its Session.\<close>

definition living :: "session_run \<Rightarrow> bool" where
  "living r \<longleftrightarrow> rn_status (fst (sr_live r)) = RUNNING"

definition runs_ok :: "manager \<Rightarrow> bool" where
  "runs_ok s \<longleftrightarrow>
     (\<forall>a i. map_of (mg_active s) a = Some i \<longrightarrow> (\<exists>r. mg_objects s i = Some r \<and> sr_address r = a \<and> \<not> sr_drained r))
     \<and> (\<forall>i r. mg_objects s i = Some r \<longrightarrow> life_ok (sr_live r) \<and> i < mg_next s
           \<and> (living r \<longrightarrow> map_of (mg_active s) (sr_address r) = Some i))"

lemma runs_okI:
  assumes "\<And>a i. map_of (mg_active s) a = Some i \<Longrightarrow> \<exists>r. mg_objects s i = Some r \<and> sr_address r = a \<and> \<not> sr_drained r"
    and "\<And>i r. mg_objects s i = Some r \<Longrightarrow> life_ok (sr_live r) \<and> i < mg_next s"
    and "\<And>i r. mg_objects s i = Some r \<Longrightarrow> living r \<Longrightarrow> map_of (mg_active s) (sr_address r) = Some i"
  shows "runs_ok s"
  using assms unfolding runs_ok_def by blast

lemma runs_active:
  assumes "runs_ok s" "map_of (mg_active s) a = Some i"
  shows "\<exists>r. mg_objects s i = Some r \<and> sr_address r = a \<and> \<not> sr_drained r"
  using assms unfolding runs_ok_def by blast

lemma runs_stored:
  assumes "runs_ok s" "mg_objects s i = Some r"
  shows "life_ok (sr_live r)" "i < mg_next s" "living r \<Longrightarrow> map_of (mg_active s) (sr_address r) = Some i"
  using assms unfolding runs_ok_def by blast+

lemma running_living: "running s i \<longleftrightarrow> (\<exists>r. mg_objects s i = Some r \<and> living r)"
  by (auto simp: running_def status_of_def living_def)

lemma active_run_Some: "active_run s a = Some i \<longleftrightarrow> map_of (mg_active s) a = Some i \<and> running s i"
  by (auto simp: active_run_def split: option.splits)

lemma active_run_None: "active_run s a = None \<longleftrightarrow> (\<forall>i. map_of (mg_active s) a = Some i \<longrightarrow> \<not> running s i)"
  by (auto simp: active_run_def split: option.splits)

text \<open>The Runs, and with them the invariant, are the same where these fields are.\<close>

definition same_runs :: "manager \<Rightarrow> manager \<Rightarrow> bool" where
  "same_runs s t \<longleftrightarrow> mg_active t = mg_active s \<and> mg_objects t = mg_objects s \<and> mg_next s \<le> mg_next t"

lemma same_runs_ok: "same_runs s t \<Longrightarrow> runs_ok s \<Longrightarrow> runs_ok t"
  unfolding same_runs_def runs_ok_def by (metis order_less_le_trans)

lemma same_runs_refl [simp]: "same_runs s s"
  by (simp add: same_runs_def)

lemma same_runs_trans: "same_runs s t \<Longrightarrow> same_runs t u \<Longrightarrow> same_runs s u"
  by (auto simp: same_runs_def)

lemma same_runs_changes [simp]:
  "same_runs s (set_queue a q t) \<longleftrightarrow> same_runs s t" "same_runs s (settle_ticket i v t) \<longleftrightarrow> same_runs s t"
  "same_runs s (unlock t) \<longleftrightarrow> same_runs s t"
  by (simp_all add: same_runs_def)

lemma runs_start:
  assumes "runs_ok s" "active_run s a = None"
  shows "runs_ok (start_run a item am s)"
proof -
  let ?i = "mg_next s"
  have dead: "\<not> living r" if "mg_objects s j = Some r" "sr_address r = a" for j r
    using assms that by (auto simp: runs_ok_def active_run_None running_living)
  have "map_of (mg_active s) b \<noteq> Some ?i" for b using assms(1) by (auto simp: runs_ok_def)
  then show ?thesis
    using assms(1) dead new_run_ok
    by (auto simp: runs_ok_def start_run_def Let_def map_of_upd living_def less_Suc_eq split: if_splits)
qed

text \<open>A Run that goes on living or ends.\<close>

lemma runs_object:
  assumes "runs_ok s" "mg_objects s i = Some r" "sr_address q = sr_address r" "sr_drained q = sr_drained r"
    "life_ok (sr_live q)" "living q \<longrightarrow> living r"
  shows "runs_ok (s\<lparr>mg_objects := (mg_objects s)(i \<mapsto> q)\<rparr>)"
proof (rule runs_okI)
  fix a j assume "map_of (mg_active (s\<lparr>mg_objects := (mg_objects s)(i \<mapsto> q)\<rparr>)) a = Some j"
  then show "\<exists>r. mg_objects (s\<lparr>mg_objects := (mg_objects s)(i \<mapsto> q)\<rparr>) j = Some r \<and> sr_address r = a \<and> \<not> sr_drained r"
    using runs_active [OF assms(1), of a j] assms(2-4) by (cases "j = i") auto
next
  fix j x assume "mg_objects (s\<lparr>mg_objects := (mg_objects s)(i \<mapsto> q)\<rparr>) j = Some x"
  then show "life_ok (sr_live x) \<and> j < mg_next (s\<lparr>mg_objects := (mg_objects s)(i \<mapsto> q)\<rparr>)"
    using runs_stored [OF assms(1)] assms(2,5) by (cases "j = i") auto
next
  fix j x assume "mg_objects (s\<lparr>mg_objects := (mg_objects s)(i \<mapsto> q)\<rparr>) j = Some x" "living x"
  then show "map_of (mg_active (s\<lparr>mg_objects := (mg_objects s)(i \<mapsto> q)\<rparr>)) (sr_address x) = Some j"
    using runs_stored(3) [OF assms(1)] assms(2,3,6) by (cases "j = i") auto
qed

lemma life_step_living:
  assumes "life_step x y" "life_ok x" "rn_status (fst y) = RUNNING"
  shows "rn_status (fst x) = RUNNING"
  using ended_stays [of x y] assms by auto

lemma runs_lives:
  assumes "runs_ok s" "mg_objects s i = Some r" "life_step (sr_live r) x"
  shows "runs_ok (s\<lparr>mg_objects := (mg_objects s)(i \<mapsto> r\<lparr>sr_live := x\<rparr>)\<rparr>)"
proof (rule runs_object [OF assms(1,2)])
  have ok: "life_ok (sr_live r)" using assms(1,2) by (auto simp: runs_ok_def)
  show "life_ok (sr_live (r\<lparr>sr_live := x\<rparr>))" using run_life.step_ok [OF assms(3) ok] by simp
  show "living (r\<lparr>sr_live := x\<rparr>) \<longrightarrow> living r"
    using life_step_living [OF assms(3) ok] by (simp add: living_def)
qed simp_all

lemma runs_cancel: "runs_ok s \<Longrightarrow> runs_ok (request_run_cancel awaits reason initiator i s)"
proof (cases "mg_objects s i")
  case (Some r)
  assume "runs_ok s"
  obtain x p where x: "sr_live r = (x, p)" by (cases "sr_live r")
  have "life_step (sr_live r) (request_cancel awaits reason initiator (fst (sr_live r)), snd (sr_live r))"
    unfolding x fst_conv snd_conv by (rule life_step.cancels)
  from runs_lives [OF \<open>runs_ok s\<close> Some this] show ?thesis by (simp add: request_run_cancel_def Some)
qed (simp add: request_run_cancel_def)

lemma runs_ended:
  assumes "runs_ok s" "mg_objects s i = Some r" "\<not> running s i"
  shows "runs_ok (s\<lparr>mg_objects := (mg_objects s)(i \<mapsto> r\<lparr>sr_drained := True\<rparr>),
           mg_active := (if map_of (mg_active s) (sr_address r) = Some i
                         then del (sr_address r) (mg_active s) else mg_active s)\<rparr>)" (is "runs_ok ?s")
proof (rule runs_okI)
  have dead: "\<not> living r" using assms(2,3) by (simp add: running_living)
  have other: "map_of (mg_active ?s) a = Some j \<Longrightarrow> map_of (mg_active s) a = Some j \<and> j \<noteq> i" for a j
    using runs_active [OF assms(1), of a i] assms(2) by (auto simp: map_of_del split: if_splits)
  show "\<exists>r. mg_objects ?s j = Some r \<and> sr_address r = a \<and> \<not> sr_drained r" if "map_of (mg_active ?s) a = Some j" for a j
    using runs_active [OF assms(1), of a j] other [OF that] by auto
  show "life_ok (sr_live x) \<and> j < mg_next ?s" if "mg_objects ?s j = Some x" for j x
    using runs_stored [OF assms(1)] assms(2) that by (cases "j = i") auto
  show "map_of (mg_active ?s) (sr_address x) = Some j" if "mg_objects ?s j = Some x" "living x" for j x
  proof -
    have j: "j \<noteq> i" using that dead by (auto simp: living_def)
    then have "map_of (mg_active s) (sr_address x) = Some j" using runs_stored(3) [OF assms(1)] that by simp
    then show ?thesis using j by (auto simp: map_of_del)
  qed
qed

subsection \<open>Queues with a Run\<close>

text \<open>Input waits only behind a Run that has still to be drained, or while it is drained. An operation that
  suspended with the lock finds what it left.\<close>

definition drains :: "manager \<Rightarrow> address \<Rightarrow> bool" where
  "drains s a \<longleftrightarrow> (case mg_lock s of Some (Drain_Withdraws b item e) \<Rightarrow> b = a | _ \<Rightarrow> False)"

definition served_at :: "manager \<Rightarrow> address \<Rightarrow> bool" where
  "served_at s a \<longleftrightarrow> queue_of s a \<noteq> [] \<longrightarrow> map_of (mg_active s) a \<noteq> None \<or> drains s a"

definition lock_ok :: "bool \<Rightarrow> manager \<Rightarrow> bool" where
  "lock_ok reliable s \<longleftrightarrow>
     (case mg_lock s of
        Some (Persist_Idle a item r) \<Rightarrow>
          active_run s a = None \<and> queue_of s a = [] \<and> \<not> guarded s a (am_working (qi_admission item))
      | Some (Persist_Busy a item) \<Rightarrow>
          (reliable \<longrightarrow> map_of (mg_active s) a \<noteq> None) \<and> \<not> guarded s a (am_working (qi_admission item))
      | Some (Drain_Withdraws a item e) \<Rightarrow> active_run s a = None
      | _ \<Rightarrow> True)"

subsection \<open>Guards\<close>

text \<open>Nothing runs or waits behind a guard, and nobody prepares to start something there.\<close>

definition work_at :: "manager \<Rightarrow> address \<Rightarrow> string option \<Rightarrow> bool" where
  "work_at s a w \<longleftrightarrow>
     (\<exists>i. active_run s a = Some i \<and> working_project_of s i = w)
     \<or> (\<exists>item \<in> set (queue_of s a). am_working (qi_admission item) = w)"

definition preparation_guarded :: "manager \<Rightarrow> preparation \<Rightarrow> bool" where
  "preparation_guarded s p \<longleftrightarrow>
     (pp_project p, pp_agent p) \<in> set (mg_agents s) \<or> (\<exists>x \<in> set (mg_projects s). pp_project p = Some x \<or> pp_working p = Some x)
     \<or> (\<exists>a \<in> set (mg_sessions s). covers_session p a)"

definition guards_ok :: "manager \<Rightarrow> bool" where
  "guards_ok s \<longleftrightarrow>
     (\<forall>a w. work_at s a w \<longrightarrow> \<not> guarded s a w) \<and> (\<forall>p \<in> set (mg_preparing s). \<not> preparation_guarded s p)"

definition core_but :: "bool \<Rightarrow> address option \<Rightarrow> manager \<Rightarrow> bool" where
  "core_but reliable but s \<longleftrightarrow>
     keys_ok s \<and> runs_ok s \<and> lock_ok reliable s \<and> guards_ok s \<and> (reliable \<longrightarrow> (\<forall>a. Some a \<noteq> but \<longrightarrow> served_at s a))"

abbreviation core_ok :: "bool \<Rightarrow> manager \<Rightarrow> bool" where
  "core_ok reliable \<equiv> core_but reliable None"

lemmas core_defs = core_but_def served_at_def lock_ok_def guards_ok_def work_at_def drains_def

text \<open>The invariant reads these fields.\<close>

lemma core_cong:
  assumes "core_but reliable but s" "keys_ok t"
    "mg_active t = mg_active s" "mg_queues t = mg_queues s" "mg_next s \<le> mg_next t" "mg_objects t = mg_objects s"
    "mg_lock t = mg_lock s" "mg_sessions t = mg_sessions s" "mg_agents t = mg_agents s" "mg_projects t = mg_projects s"
    "mg_preparing t = mg_preparing s"
  shows "core_but reliable but t"
proof -
  note same = assms(3-11)
  have reads: "running t = running s" "queue_of t = queue_of s" "guarded t = guarded s"
      "working_project_of t = working_project_of s" "preparation_guarded t = preparation_guarded s"
    using same by (simp_all add: running_def status_of_def queue_of_def guarded_def working_project_of_def
        preparation_guarded_def fun_eq_iff)
  then have active: "active_run t = active_run s"
    using same(1) by (intro ext) (simp add: active_run_def split: option.split)
  have "lock_ok reliable t = lock_ok reliable s" using reads active same by (simp add: lock_ok_def split: option.split holder.split)
  moreover have "guards_ok t = guards_ok s" using reads active same by (simp add: guards_ok_def work_at_def)
  moreover have "drains t = drains s" using same by (simp add: drains_def fun_eq_iff)
  moreover have "runs_ok s \<Longrightarrow> runs_ok t" using same by (metis same_runs_ok same_runs_def)
  ultimately show ?thesis using assms(1,2) same reads by (simp add: core_but_def served_at_def)
qed

lemma core_tickets [simp]:
  "core_but reliable but (settle_ticket t v s) \<longleftrightarrow> core_but reliable but s"
  "core_but reliable but (s\<lparr>mg_tickets := ts\<rparr>) \<longleftrightarrow> core_but reliable but s"
  "core_but reliable but (s\<lparr>mg_deliveries := ds\<rparr>) \<longleftrightarrow> core_but reliable but s"
proof -
  show "core_but reliable but (settle_ticket t v s) \<longleftrightarrow> core_but reliable but s"
    by (rule iffI; rule core_cong, assumption) (simp_all add: core_but_def keys_ok_def)
  show "core_but reliable but (s\<lparr>mg_tickets := ts\<rparr>) \<longleftrightarrow> core_but reliable but s"
    by (rule iffI; rule core_cong, assumption) (simp_all add: core_but_def keys_ok_def)
  show "core_but reliable but (s\<lparr>mg_deliveries := ds\<rparr>) \<longleftrightarrow> core_but reliable but s"
    by (rule iffI; rule core_cong, assumption) (simp_all add: core_but_def keys_ok_def)
qed

lemma keys_set_queue: "keys_ok s \<Longrightarrow> keys_ok (set_queue a q s)"
  by (auto simp: keys_ok_def set_queue_def upd_distinct del_distinct)

text \<open>A queue that loses input, or whose input changes in what nobody admits it by.\<close>

definition admitted_by :: "queued list \<Rightarrow> queued list \<Rightarrow> bool" where
  "admitted_by q p \<longleftrightarrow> (\<forall>item \<in> set q. \<exists>x \<in> set p. qi_admission x = qi_admission item)"

lemma working_keeps [simp]:
  "working_project_of (set_queue a q s) i = working_project_of s i"
  "working_project_of (unlock s) i = working_project_of s i"
  by (simp_all add: working_project_of_def)

lemma preparation_keeps [simp]:
  "preparation_guarded (set_queue a q s) p = preparation_guarded s p"
  "preparation_guarded (unlock s) p = preparation_guarded s p"
  "preparation_guarded (start_run a item am s) p = preparation_guarded s p"
  by (simp_all add: preparation_guarded_def)

lemma core_shrink:
  assumes "core_but reliable but s" "admitted_by q (queue_of s a)"
  shows "core_but reliable but (set_queue a q s)"
proof -
  have empty: "queue_of s a = [] \<Longrightarrow> q = []" using assms(2) by (auto simp: admitted_by_def)
  have "work_at (set_queue a q s) b w \<Longrightarrow> work_at s b w" for b w
    using assms(2) by (auto simp: work_at_def admitted_by_def split: if_splits) metis+
  moreover have "lock_ok reliable s \<Longrightarrow> lock_ok reliable (set_queue a q s)"
    using empty by (auto simp: lock_ok_def split: option.splits holder.splits)
  moreover have "served_at s b \<Longrightarrow> served_at (set_queue a q s) b" for b
    using empty by (auto simp: served_at_def drains_def)
  moreover have "runs_ok s \<Longrightarrow> runs_ok (set_queue a q s)"
    by (rule same_runs_ok [of s]) (simp_all add: same_runs_def)
  ultimately show ?thesis
    using assms(1) keys_set_queue by (auto simp: core_but_def guards_ok_def)
qed

lemma core_change_item:
  assumes "core_but reliable but s" "\<And>x. qi_admission (f x) = qi_admission x"
  shows "core_but reliable but (change_item a t f s)"
  unfolding change_item_def by (rule core_shrink [OF assms(1)]) (auto simp: admitted_by_def assms(2))

lemma core_take_out: "core_but reliable but s \<Longrightarrow> core_but reliable but (take_out a t s)"
  unfolding take_out_def by (rule core_shrink) (auto simp: admitted_by_def)

lemma core_remove: "core_but reliable but s \<Longrightarrow> core_but reliable but (fst (remove_queued a k s))"
  by (simp add: remove_queued_def core_take_out split: option.split)

lemma core_withdraw: "core_but reliable but s \<Longrightarrow> core_but reliable but (fst (withdraw_item a item s))"
  by (simp add: withdraw_item_def core_change_item core_remove)

lemma core_fold: "core_but reliable but s \<Longrightarrow> (\<And>s x. core_but reliable but s \<Longrightarrow> core_but reliable but (f s x)) \<Longrightarrow>
    core_but reliable but (foldl f s xs)"
  by (induction xs arbitrary: s) simp_all

lemma core_clear: "core_but reliable but s \<Longrightarrow> core_but reliable but (clear_queued a s)"
  unfolding clear_queued_def by (rule core_fold) (simp_all add: core_withdraw)

text \<open>The lock is given back by anything but a drain.\<close>

lemma core_unlock:
  assumes "core_but reliable but s" "\<And>a. drains s a \<Longrightarrow> but = Some a"
  shows "core_but reliable but (unlock s)"
proof -
  have "work_at (unlock s) a w = work_at s a w" for a w by (simp add: work_at_def)
  moreover have "keys_ok (unlock s) = keys_ok s" by (simp add: keys_ok_def)
  moreover have "runs_ok s \<Longrightarrow> runs_ok (unlock s)" by (rule same_runs_ok [of s]) simp_all
  moreover have "Some a \<noteq> but \<Longrightarrow> served_at s a \<Longrightarrow> served_at (unlock s) a" for a
    using assms(2) [of a] by (auto simp: served_at_def)
  ultimately show ?thesis using assms(1) by (auto simp: core_but_def guards_ok_def lock_ok_def)
qed

subsection \<open>Starting and waiting\<close>

lemma running_start: "runs_ok s \<Longrightarrow> running (start_run a item am s) i \<longleftrightarrow> i = mg_next s \<or> running s i"
  by (auto simp: running_living start_run_def Let_def living_def new_run_def)

lemma active_run_start:
  "runs_ok s \<Longrightarrow> active_run (start_run a item am s) b = (if b = a then Some (mg_next s) else active_run s b)"
proof -
  assume ok: "runs_ok s"
  have "map_of (mg_active s) b \<noteq> Some (mg_next s)" using runs_active [OF ok, of b] runs_stored(2) [OF ok] by blast
  then show ?thesis by (auto simp: active_run_def running_start [OF ok] split: option.split)
qed

lemma working_start:
  "runs_ok s \<Longrightarrow> working_project_of (start_run a item am s) i =
     (if i = mg_next s then am_working am else working_project_of s i)"
  by (simp add: working_project_of_def start_run_def Let_def)

lemma core_start:
  assumes "core_but reliable but s" "but = None \<or> but = Some a" "active_run s a = None" "\<not> guarded s a (am_working am)"
    "mg_lock s = None"
  shows "core_ok reliable (start_run a item am s)"
proof -
  have ok: "runs_ok s" "guards_ok s" "keys_ok s" using assms(1) by (simp_all add: core_but_def)
  have next': "active_run s b \<noteq> Some (mg_next s)" for b
    using runs_stored(2) [OF ok(1), of "mg_next s"] by (auto simp: active_run_Some running_living)
  have "work_at (start_run a item am s) b w \<Longrightarrow> work_at s b w \<or> (b = a \<and> w = am_working am)" for b w
    using next' by (auto simp: work_at_def active_run_start [OF ok(1)] working_start [OF ok(1)] split: if_splits)
  then have "guards_ok (start_run a item am s)" using ok(2) assms(4) by (auto simp: guards_ok_def)
  moreover have "keys_ok (start_run a item am s)"
  proof -
    have "mg_active (start_run a item am s) = upd a (mg_next s) (mg_active s)" by (simp add: start_run_def Let_def)
    then show ?thesis using ok(3) by (auto simp: keys_ok_def upd_distinct less_Suc_eq)
  qed
  moreover have "runs_ok (start_run a item am s)" using runs_start ok(1) assms(3) by blast
  moreover have "lock_ok reliable (start_run a item am s)" using assms(5) by (simp add: lock_ok_def)
  moreover have "served_at (start_run a item am s) b" if "b = a \<or> served_at s b" for b
    using that assms(5) by (auto simp: served_at_def drains_def)
  ultimately show ?thesis using assms(1,2) by (auto simp: core_but_def)
qed

lemma core_append:
  assumes "core_ok reliable s" "reliable \<Longrightarrow> map_of (mg_active s) a \<noteq> None" "mg_lock s = None"
    "\<not> guarded s a (am_working (qi_admission item))"
  shows "core_ok reliable (set_queue a (queue_of s a @ [item]) s)"
proof -
  let ?t = "set_queue a (queue_of s a @ [item]) s"
  have "work_at ?t b w \<Longrightarrow> work_at s b w \<or> (b = a \<and> w = am_working (qi_admission item))" for b w
    by (auto simp: work_at_def split: if_splits)
  then have "guards_ok ?t" using assms(1,4) by (auto simp: core_but_def guards_ok_def)
  moreover have "lock_ok reliable ?t" using assms(3) by (simp add: lock_ok_def)
  moreover have "runs_ok s" using assms(1) by (simp add: core_but_def)
  then have "runs_ok ?t" by (rule same_runs_ok [rotated]) simp
  moreover have "served_at ?t b" if "served_at s b" reliable for b
    using that assms(2,3) by (cases "b = a") (auto simp: served_at_def drains_def)
  ultimately show ?thesis using assms(1) keys_set_queue by (auto simp: core_but_def)
qed

text \<open>A Run lives on or ends; the address and the working Project are its own for good.\<close>

lemma core_object:
  assumes "core_but reliable but s" "mg_objects s i = Some r" "sr_address q = sr_address r" "sr_drained q = sr_drained r"
    "sr_working q = sr_working r" "life_ok (sr_live q)" "living q \<longrightarrow> living r"
  shows "core_but reliable but (s\<lparr>mg_objects := (mg_objects s)(i \<mapsto> q)\<rparr>)" (is "core_but reliable but ?t")
proof -
  have runs: "runs_ok ?t" using runs_object [OF _ assms(2,3,4,6,7)] assms(1) by (simp add: core_but_def)
  have "running ?t j \<Longrightarrow> running s j" for j
    using assms(2,7) by (auto simp: running_living split: if_splits)
  then have active: "active_run ?t a = Some j \<Longrightarrow> active_run s a = Some j" for a j
    by (auto simp: active_run_Some)
  then have none: "active_run s a = None \<Longrightarrow> active_run ?t a = None" for a
    by (metis not_None_eq)
  have queue: "queue_of ?t = queue_of s" "guarded ?t = guarded s" "preparation_guarded ?t = preparation_guarded s"
    by (simp_all add: queue_of_def guarded_def preparation_guarded_def fun_eq_iff)
  have "working_project_of ?t j = working_project_of s j" for j
    using assms(2,5) by (simp add: working_project_of_def)
  then have "work_at ?t a w \<Longrightarrow> work_at s a w" for a w using active by (auto simp: work_at_def queue)
  then have "guards_ok ?t" using assms(1) by (auto simp: core_but_def guards_ok_def queue)
  moreover have "lock_ok reliable ?t"
    using assms(1) none by (auto simp: core_but_def lock_ok_def queue split: option.splits holder.splits)
  moreover have "served_at ?t a = served_at s a" for a by (simp add: served_at_def queue drains_def)
  moreover have "keys_ok ?t = keys_ok s" by (simp add: keys_ok_def)
  ultimately show ?thesis using assms(1) runs by (simp add: core_but_def)
qed

lemma core_lives:
  assumes "core_but reliable but s" "mg_objects s i = Some r" "life_step (sr_live r) x"
  shows "core_but reliable but (s\<lparr>mg_objects := (mg_objects s)(i \<mapsto> r\<lparr>sr_live := x\<rparr>)\<rparr>)"
proof (rule core_object [OF assms(1,2)])
  have ok: "life_ok (sr_live r)" using assms(1,2) runs_stored by (auto simp: core_but_def)
  show "life_ok (sr_live (r\<lparr>sr_live := x\<rparr>))" using run_life.step_ok [OF assms(3) ok] by simp
  show "living (r\<lparr>sr_live := x\<rparr>) \<longrightarrow> living r"
    using life_step_living [OF assms(3) ok] by (simp add: living_def)
qed simp_all

lemma core_cancel: "core_but reliable but s \<Longrightarrow> core_but reliable but (request_run_cancel awaits reason initiator i s)"
proof (cases "mg_objects s i")
  case (Some r)
  assume ok: "core_but reliable but s"
  obtain x p where x: "sr_live r = (x, p)" by (cases "sr_live r")
  have "life_step (sr_live r) (request_cancel awaits reason initiator (fst (sr_live r)), snd (sr_live r))"
    unfolding x fst_conv snd_conv by (rule life_step.cancels)
  from core_lives [OF ok Some this] show ?thesis by (simp add: request_run_cancel_def Some)
qed (simp add: request_run_cancel_def)

subsection \<open>Draining\<close>

lemma unlock_free [simp]: "mg_lock s = None \<Longrightarrow> unlock s = s"
  by (simp add: unlock_def)

lemma core_filled: "core_but reliable (Some a) s \<Longrightarrow> served_at s a \<Longrightarrow> core_ok reliable s"
  by (auto simp: core_but_def)

lemma core_drain_lock:
  assumes "core_but reliable (Some a) s" "mg_lock s = None" "active_run s a = None"
  shows "core_ok reliable (s\<lparr>mg_lock := Some (Drain_Withdraws a item e)\<rparr>)" (is "core_ok reliable ?t")
proof -
  have reads: "running ?t = running s" "queue_of ?t = queue_of s" "guarded ?t = guarded s"
      "working_project_of ?t = working_project_of s" "preparation_guarded ?t = preparation_guarded s"
    by (simp_all add: running_def status_of_def queue_of_def guarded_def working_project_of_def
        preparation_guarded_def fun_eq_iff)
  then have active: "active_run ?t = active_run s"
    by (intro ext) (simp add: active_run_def split: option.split)
  have "runs_ok ?t" using assms(1) by (simp add: core_but_def runs_ok_def)
  moreover have "served_at ?t b" if reliable for b
    using that assms(1,2) by (cases "b = a") (auto simp: core_but_def served_at_def drains_def reads)
  moreover have "guards_ok ?t" using assms(1) by (simp add: core_but_def guards_ok_def work_at_def reads active)
  moreover have "lock_ok reliable ?t" using assms(3) by (simp add: lock_ok_def active)
  moreover have "keys_ok ?t" using assms(1) by (simp add: core_but_def keys_ok_def)
  ultimately show ?thesis by (simp add: core_but_def)
qed

declare drain_loop.simps [simp del]

text \<open>One round of the drain: an input that nobody waits for is passed over, one that may start does, and one
  that may not is withdrawn first when it is durable.\<close>

definition forgotten :: "manager \<Rightarrow> queued \<Rightarrow> bool" where
  "forgotten s item \<longleftrightarrow> ticket_done s (qi_ticket item) \<and> am_input (qi_admission item) = None"

lemma drain_rounds:
  assumes "mg_lock s0 = None" "s = set_queue a q s0"
  shows "forgotten s item \<Longrightarrow> drain_loop verdict a (item # q) s0 = drain_loop verdict a q s"
    "\<not> forgotten s item \<Longrightarrow> refused s a (qi_admission item) (verdict item) = None \<Longrightarrow>
       drain_loop verdict a (item # q) s0 =
         settle_ticket (qi_ticket item) (Got_Run (mg_next s)) (start_run a (Some (qi_id item)) (qi_admission item) s)"
    "\<not> forgotten s item \<Longrightarrow> refused s a (qi_admission item) (verdict item) = Some e \<Longrightarrow>
       am_input (qi_admission item) \<noteq> None \<Longrightarrow>
       drain_loop verdict a (item # q) s0 = s\<lparr>mg_lock := Some (Drain_Withdraws a item e)\<rparr>"
    "\<not> forgotten s item \<Longrightarrow> refused s a (qi_admission item) (verdict item) = Some e \<Longrightarrow>
       am_input (qi_admission item) = None \<Longrightarrow>
       drain_loop verdict a (item # q) s0 = drain_loop verdict a q (settle_ticket (qi_ticket item) (Refused e) s)"
proof -
  have "drain_loop verdict a (item # q) s0 =
      (if forgotten s item then drain_loop verdict a q s
       else (case refused s a (qi_admission item) (verdict item) of
               Some e \<Rightarrow>
                 if am_input (qi_admission item) \<noteq> None then s\<lparr>mg_lock := Some (Drain_Withdraws a item e)\<rparr>
                 else drain_loop verdict a q (settle_ticket (qi_ticket item) (Refused e) s)
             | None \<Rightarrow> settle_ticket (qi_ticket item) (Got_Run (mg_next s)) (start_run a (Some (qi_id item)) (qi_admission item) s)))"
    by (simp only: drain_loop.simps Let_def unlock_free [OF assms(1)] forgotten_def assms(2))
  note this [simp]
  show "forgotten s item \<Longrightarrow> drain_loop verdict a (item # q) s0 = drain_loop verdict a q s"
    "\<not> forgotten s item \<Longrightarrow> refused s a (qi_admission item) (verdict item) = None \<Longrightarrow>
       drain_loop verdict a (item # q) s0 =
         settle_ticket (qi_ticket item) (Got_Run (mg_next s)) (start_run a (Some (qi_id item)) (qi_admission item) s)"
    "\<not> forgotten s item \<Longrightarrow> refused s a (qi_admission item) (verdict item) = Some e \<Longrightarrow>
       am_input (qi_admission item) \<noteq> None \<Longrightarrow>
       drain_loop verdict a (item # q) s0 = s\<lparr>mg_lock := Some (Drain_Withdraws a item e)\<rparr>"
    "\<not> forgotten s item \<Longrightarrow> refused s a (qi_admission item) (verdict item) = Some e \<Longrightarrow>
       am_input (qi_admission item) = None \<Longrightarrow>
       drain_loop verdict a (item # q) s0 = drain_loop verdict a q (settle_ticket (qi_ticket item) (Refused e) s)"
    by simp_all
qed

lemma core_drain:
  assumes "core_but reliable (Some a) s" "mg_lock s = None" "active_run s a = None" "queue_of s a = q"
  shows "core_ok reliable (drain_loop verdict a q s)"
  using assms
proof (induction q arbitrary: s)
  case Nil
  have "core_but reliable (Some a) (set_queue a [] s)"
    using Nil.prems(1) by (rule core_shrink) (simp add: admitted_by_def)
  moreover have "served_at (set_queue a [] s) a" by (simp add: served_at_def)
  ultimately have "core_ok reliable (set_queue a [] s)" by (rule core_filled)
  then show ?case using Nil.prems(2) by (simp add: drain_loop.simps)
next
  case (Cons item q)
  let ?s = "set_queue a q s"
  have s: "core_but reliable (Some a) ?s" "mg_lock ?s = None" "active_run ?s a = None" "queue_of ?s a = q"
    using Cons.prems core_shrink [OF Cons.prems(1), of q a] by (auto simp: admitted_by_def)
  note rounds = drain_rounds [OF Cons.prems(2) refl, of a q item verdict]
  show ?case
  proof (cases "forgotten ?s item")
    case True
    then show ?thesis using Cons.IH [OF s] rounds(1) by simp
  next
    case False
    show ?thesis
    proof (cases "refused ?s a (qi_admission item) (verdict item)")
      case None
      then have "\<not> guarded ?s a (am_working (qi_admission item))" by (auto simp: refused_def split: if_splits)
      then have "core_ok reliable (start_run a (Some (qi_id item)) (qi_admission item) ?s)"
        using core_start [OF s(1) _ s(3) _ s(2)] by simp
      then show ?thesis unfolding rounds(2) [OF False None] by simp
    next
      case (Some e)
      show ?thesis
      proof (cases "am_input (qi_admission item) = None")
        case True
        have "core_ok reliable (drain_loop verdict a q (settle_ticket (qi_ticket item) (Refused e) ?s))"
          using s by (intro Cons.IH) simp_all
        then show ?thesis unfolding rounds(4) [OF False Some True] .
      next
        case durable: False
        show ?thesis unfolding rounds(3) [OF False Some durable] using core_drain_lock [OF s(1-3)] .
      qed
    qed
  qed
qed

lemma core_prune [simp]: "core_but reliable but (prune_terminal_runs lm s) \<longleftrightarrow> core_but reliable but s"
  unfolding prune_terminal_runs_def Let_def
  by (rule iffI; rule core_cong, assumption) (simp_all add: core_but_def keys_ok_def)

lemma prune_keeps [simp]:
  "queue_of (prune_terminal_runs lm s) a = queue_of s a" "mg_lock (prune_terminal_runs lm s) = mg_lock s"
  "mg_closed (prune_terminal_runs lm s) = mg_closed s" "active_run (prune_terminal_runs lm s) a = active_run s a"
  "mg_active (prune_terminal_runs lm s) = mg_active s"
  by (simp_all add: prune_terminal_runs_def Let_def queue_of_def active_run_def running_def status_of_def split: option.split)

lemma core_drain_next:
  assumes "core_but reliable (Some a) s" "mg_lock s = None"
  shows "core_ok reliable (drain_next verdict a s)"
proof (cases "mg_closed s")
  case True
  let ?t = "foldl (\<lambda>s item. settle_ticket (qi_ticket item) Dropped s) s (queue_of s a)"
  have "core_but reliable (Some a) ?t" using assms(1) by (rule core_fold) simp
  then have "core_but reliable (Some a) (set_queue a [] ?t)" by (rule core_shrink) (simp add: admitted_by_def)
  then have "core_ok reliable (set_queue a [] ?t)" by (rule core_filled) (simp add: served_at_def)
  then show ?thesis using True by (simp add: drain_next_def)
next
  case False
  show ?thesis
  proof (cases "active_run s a")
    case None
    let ?q = "steering_first (queue_of s a)"
    have "core_but reliable (Some a) (set_queue a ?q s)"
      using assms(1) by (rule core_shrink) (auto simp: admitted_by_def steering_first_def)
    then have "core_ok reliable (drain_loop verdict a ?q (set_queue a ?q s))"
      by (rule core_drain) (use None assms(2) in simp_all)
    then show ?thesis using False None by (simp add: drain_next_def)
  next
    case (Some i)
    then have "served_at s a" by (simp add: served_at_def active_run_Some)
    then show ?thesis using core_filled assms(1) False Some by (simp add: drain_next_def)
  qed
qed

lemma core_over:
  assumes "core_ok reliable s" "mg_lock s = None" "mg_objects s i = Some r" "\<not> running s i"
  shows "core_ok reliable (run_over lm verdict i r s)"
proof -
  let ?a = "sr_address r"
  let ?t = "s\<lparr>mg_objects := (mg_objects s)(i \<mapsto> r\<lparr>sr_drained := True\<rparr>),
           mg_active := (if map_of (mg_active s) ?a = Some i then del ?a (mg_active s) else mg_active s)\<rparr>"
  have dead: "\<not> living (r\<lparr>sr_drained := True\<rparr>)" using assms(3,4) by (simp add: running_living living_def)
  have runs: "runs_ok ?t" using runs_ended assms(1,3,4) by (simp add: core_but_def)
  have running: "running ?t j \<Longrightarrow> running s j" for j
    using dead by (auto simp: running_living split: if_splits)
  have active: "active_run ?t b = Some j \<Longrightarrow> active_run s b = Some j" for b j
    using running by (auto simp: active_run_Some map_of_del split: if_splits)
  have queue: "queue_of ?t = queue_of s" "guarded ?t = guarded s" "preparation_guarded ?t = preparation_guarded s"
    by (simp_all add: queue_of_def guarded_def preparation_guarded_def fun_eq_iff)
  have "working_project_of ?t j = working_project_of s j" for j
    using assms(3) by (simp add: working_project_of_def)
  then have "work_at ?t b w \<Longrightarrow> work_at s b w" for b w using active by (auto simp: work_at_def queue)
  then have "guards_ok ?t" using assms(1) by (auto simp: core_but_def guards_ok_def queue)
  moreover have "lock_ok reliable ?t" using assms(2) by (simp add: lock_ok_def)
  moreover have "served_at ?t b" if "b \<noteq> ?a" "served_at s b" for b
    using that assms(2) by (auto simp: served_at_def queue drains_def map_of_del)
  moreover have "keys_ok ?t" using assms(1) by (auto simp: core_but_def keys_ok_def del_distinct)
  ultimately have "core_but reliable (Some ?a) ?t" using assms(1) runs by (auto simp: core_but_def)
  then have "core_but reliable (Some ?a) (prune_terminal_runs lm ?t)" by simp
  then have "core_ok reliable (drain_next verdict ?a (prune_terminal_runs lm ?t))"
    by (rule core_drain_next) (simp add: assms(2))
  then show ?thesis by (simp add: run_over_def Let_def)
qed

lemma core_resumes:
  assumes "core_ok reliable s" "mg_lock s = Some (Drain_Withdraws a item e)"
  shows "core_ok reliable (drain_resumes verdict a item e s)"
proof -
  have "core_but reliable (Some a) s" using assms(1) by (auto simp: core_but_def)
  then have "core_but reliable (Some a) (unlock s)" by (rule core_unlock) (simp add: drains_def assms(2))
  moreover have "active_run s a = None" using assms by (simp add: core_but_def lock_ok_def)
  ultimately show ?thesis
    unfolding drain_resumes_def Let_def by (intro core_drain) simp_all
qed

subsection \<open>Enqueuing and clearing\<close>

lemma refused_None: "refused s a am verdict = None \<Longrightarrow> \<not> guarded s a (am_working am)"
  by (auto simp: refused_def split: if_splits)

lemma core_call_start:
  assumes "core_ok reliable s" "mg_lock s = None"
  shows "core_ok reliable (fst (start a am verdict prepared s))"
  using assms core_start [OF assms(1), of a am None] refused_None [of s a am verdict]
  by (auto simp: start_def split: option.split)

lemma del_reserved:
  assumes "keys_ok s"
  shows "keys_ok (s\<lparr>mg_reserved := del i (mg_reserved s)\<rparr>)"
  using assms by (auto simp: keys_ok_def del_distinct) (auto simp: del_def)

lemma core_other [simp]:
  "core_but reliable but (s\<lparr>mg_pending := ps\<rparr>) \<longleftrightarrow> core_but reliable but s"
  "core_but reliable but (s\<lparr>mg_closed := b\<rparr>) \<longleftrightarrow> core_but reliable but s"
proof -
  show "core_but reliable but (s\<lparr>mg_pending := ps\<rparr>) \<longleftrightarrow> core_but reliable but s"
    by (rule iffI; rule core_cong, assumption) (simp_all add: core_but_def keys_ok_def)
  show "core_but reliable but (s\<lparr>mg_closed := b\<rparr>) \<longleftrightarrow> core_but reliable but s"
    by (rule iffI; rule core_cong, assumption) (simp_all add: core_but_def keys_ok_def)
qed

lemma core_unreserve: "core_but reliable but s \<Longrightarrow> core_but reliable but (s\<lparr>mg_reserved := del i (mg_reserved s)\<rparr>)"
  by (rule core_cong, assumption) (simp_all add: core_but_def del_reserved)

lemma core_next: "core_but reliable but s \<Longrightarrow> core_but reliable but (s\<lparr>mg_next := Suc (mg_next s)\<rparr>)"
  by (rule core_cong, assumption) (auto simp: core_but_def keys_ok_def less_Suc_eq)

lemma consume_cases:
  assumes "consume_reservation r s = Some (t, scope)"
  obtains "t = s" "scope = None" "r = None"
  | i c where "r = Some i" "map_of (mg_reserved s) i = Some c" "scope = Some c"
      "t = s\<lparr>mg_reserved := del i (mg_reserved s)\<rparr>"
proof (cases r)
  case None
  then show ?thesis using assms that(1) by (simp add: consume_reservation_def)
next
  case (Some i)
  show ?thesis
  proof (cases "map_of (mg_reserved s) i")
    case None
    then show ?thesis using assms Some by (simp add: consume_reservation_def)
  next
    case (Some c)
    then show ?thesis using assms \<open>r = Some i\<close> by (intro that(2) [of i c]) (simp_all add: consume_reservation_def)
  qed
qed

lemma core_consume: "core_but reliable but s \<Longrightarrow> consume_reservation r s = Some (t, scope) \<Longrightarrow> core_but reliable but t"
  by (erule consume_cases) (auto simp: core_unreserve)

lemma consume_keeps:
  assumes "consume_reservation r s = Some (t, scope)"
  shows "queue_of t = queue_of s" "mg_active t = mg_active s" "mg_lock t = mg_lock s" "guarded t = guarded s"
    "active_run t = active_run s" "mg_next t = mg_next s" "mg_pending t = mg_pending s" "mg_queues t = mg_queues s"
    "mg_tickets t = mg_tickets s"
  using assms by (auto simp: queue_of_def guarded_def fun_eq_iff active_run_def running_def status_of_def
      elim!: consume_cases split: option.split)

lemma core_idle_end:
  assumes "core_ok reliable s" "active_run s a = None" "\<not> guarded s a (am_working (qi_admission item))" "\<And>b. \<not> drains s b"
  shows "core_ok reliable (enqueue_idle_end a item r works prepared s)"
proof -
  have s0: "core_ok reliable (unlock s)" by (rule core_unlock) (use assms in auto)
  show ?thesis
  proof (cases "consume_reservation r (unlock s)")
    case None
    then show ?thesis using s0 by (simp add: enqueue_idle_end_def Let_def)
  next
    case (Some x)
    obtain s1 scope where x: "consume_reservation r (unlock s) = Some (s1, scope)" using Some by (cases x) simp
    note keeps = consume_keeps [OF x]
    have s1: "core_ok reliable s1" using core_consume [OF s0 x] .
    have "core_ok reliable (start_run a (Some (qi_id item)) (qi_admission item) s1)"
      by (rule core_start [OF s1]) (use keeps assms(2,3) in simp_all)
    then show ?thesis using s0 s1 x by (simp add: enqueue_idle_end_def Let_def split: option.split)
  qed
qed

lemma core_busy_end:
  assumes "core_ok reliable s" "reliable \<Longrightarrow> map_of (mg_active s) a \<noteq> None"
    "\<not> guarded s a (am_working (qi_admission item))" "\<And>b. \<not> drains s b"
  shows "core_ok reliable (enqueue_busy_end a item works s)"
proof -
  have "core_ok reliable (unlock s)" by (rule core_unlock) (use assms in auto)
  then have s0: "core_ok reliable ((unlock s)\<lparr>mg_pending := butlast (mg_pending s)\<rparr>)" (is "core_ok reliable ?s") by simp
  have "queue_of ?s = queue_of s" "guarded ?s = guarded s" by (simp_all add: queue_of_def guarded_def fun_eq_iff)
  then have "core_ok reliable (set_queue a (queue_of ?s a @ [item]) ?s)"
    by (intro core_append [OF s0]) (use assms in simp_all)
  then show ?thesis using s0 by (simp add: enqueue_busy_end_def Let_def)
qed

text \<open>An operation that takes the lock and suspends.\<close>

lemma core_take_lock:
  assumes "core_ok reliable s" "mg_lock s = None" "lock_ok reliable (s\<lparr>mg_lock := l\<rparr>)"
  shows "core_ok reliable (s\<lparr>mg_lock := l\<rparr>)" (is "core_ok reliable ?t")
proof -
  have reads: "running ?t = running s" "queue_of ?t = queue_of s" "guarded ?t = guarded s"
      "working_project_of ?t = working_project_of s" "preparation_guarded ?t = preparation_guarded s"
    by (simp_all add: running_def status_of_def queue_of_def guarded_def working_project_of_def
        preparation_guarded_def fun_eq_iff)
  then have active: "active_run ?t = active_run s"
    by (intro ext) (simp add: active_run_def split: option.split)
  have "runs_ok ?t" using assms(1) by (simp add: core_but_def runs_ok_def)
  moreover have "served_at ?t b" if "served_at s b" for b
    using that assms(2) by (auto simp: served_at_def drains_def reads)
  moreover have "guards_ok ?t" using assms(1) by (simp add: core_but_def guards_ok_def work_at_def reads active)
  moreover have "keys_ok ?t" using assms(1) by (simp add: core_but_def keys_ok_def)
  ultimately show ?thesis using assms(1,3) by (auto simp: core_but_def)
qed

lemma lock_reads [simp]:
  "active_run (s\<lparr>mg_lock := l\<rparr>) a = active_run s a" "queue_of (s\<lparr>mg_lock := l\<rparr>) a = queue_of s a"
  "guarded (s\<lparr>mg_lock := l\<rparr>) a w = guarded s a w"
  by (simp_all add: active_run_def running_def status_of_def queue_of_def guarded_def split: option.split)

lemma pending_reads [simp]:
  "active_run (s\<lparr>mg_pending := l\<rparr>) a = active_run s a" "queue_of (s\<lparr>mg_pending := l\<rparr>) a = queue_of s a"
  "guarded (s\<lparr>mg_pending := l\<rparr>) a w = guarded s a w" "drains (s\<lparr>mg_pending := l\<rparr>) a = drains s a"
  by (simp_all add: active_run_def running_def status_of_def queue_of_def guarded_def drains_def split: option.split)

lemma next_reads [simp]:
  "active_run (s\<lparr>mg_next := n\<rparr>) a = active_run s a" "queue_of (s\<lparr>mg_next := n\<rparr>) a = queue_of s a"
  "guarded (s\<lparr>mg_next := n\<rparr>) a w = guarded s a w" "drains (s\<lparr>mg_next := n\<rparr>) a = drains s a"
  by (simp_all add: active_run_def running_def status_of_def queue_of_def guarded_def drains_def split: option.split)

text \<open>What an accepted input waits behind.\<close>

lemma busy_served:
  assumes "core_ok reliable s" "mg_lock s = None" "active_run s a \<noteq> None \<or> queue_of s a \<noteq> []" reliable
  shows "map_of (mg_active s) a \<noteq> None"
  using assms by (auto simp: core_but_def served_at_def drains_def active_run_Some)

lemma core_enqueue:
  assumes "core_ok reliable s" "mg_lock s = None"
  shows "core_ok reliable (fst (enqueue lm a item0 r persists verdict prepared s))"
proof -
  let ?item = "item0\<lparr>qi_ticket := mg_next s, qi_in_flight := False, qi_withdrawn := False, qi_scope := None\<rparr>"
  let ?s = "s\<lparr>mg_next := Suc (mg_next s)\<rparr>"
  have s: "core_ok reliable ?s" "mg_lock ?s = None" "\<not> drains ?s b" for b
    using assms core_next by (simp_all add: drains_def)
  show ?thesis
  proof (cases "mg_closed ?s \<or> refused ?s a (qi_admission ?item) verdict \<noteq> None")
    case True
    then show ?thesis using s(1) by (auto simp: enqueue_def Let_def)
  next
    case False
    then have free: "\<not> guarded ?s a (am_working (qi_admission ?item))" using refused_None by blast
    show ?thesis
    proof (cases "active_run ?s a = None \<and> queue_of ?s a = []")
      case True
      then have "core_ok reliable (enqueue_idle_end a ?item r True prepared ?s)"
        using core_idle_end [OF s(1) _ free s(3)] by blast
      moreover have "core_ok reliable (?s\<lparr>mg_lock := Some (Persist_Idle a ?item r)\<rparr>)"
        by (rule core_take_lock [OF s(1,2)]) (use True free in \<open>simp add: lock_ok_def\<close>)
      ultimately show ?thesis using False True by (simp add: enqueue_def Let_def)
    next
      case busy: False
      show ?thesis
      proof (cases "consume_reservation r ?s")
        case None
        then show ?thesis using False busy s(1) by (auto simp: enqueue_def Let_def)
      next
        case (Some x)
        obtain s1 scope where x: "consume_reservation r ?s = Some (s1, scope)" using Some by (cases x) simp
        note keeps = consume_keeps [OF x]
        let ?s2 = "s1\<lparr>mg_pending := mg_pending s1 @ [scope]\<rparr>"
        let ?w = "?item\<lparr>qi_scope := scope\<rparr>"
        have s1: "core_ok reliable s1" using core_consume [OF s(1) x] .
        have served: "reliable \<Longrightarrow> map_of (mg_active ?s2) a \<noteq> None"
          using busy_served [OF s(1,2)] busy keeps by auto
        have free2: "\<not> guarded ?s2 a (am_working (qi_admission ?w))" using free keeps by simp
        have "core_ok reliable (enqueue_busy_end a ?w True ?s2)"
          using s1 served free2 keeps s(2) by (intro core_busy_end) (simp_all add: drains_def)
        moreover have "core_ok reliable (?s2\<lparr>mg_lock := Some (Persist_Busy a ?w)\<rparr>)"
          by (rule core_take_lock) (use s1 keeps s(2) served free2 in \<open>auto simp: lock_ok_def\<close>)
        ultimately show ?thesis using False busy x s1 by (auto simp: enqueue_def Let_def)
      qed
    qed
  qed
qed

lemma core_clear_loop:
  "core_ok reliable s \<Longrightarrow> mg_lock s = None \<Longrightarrow> core_ok reliable (clear_loop a items bs s)"
proof (induction a items bs s rule: clear_loop.induct)
  case (3 a item items bs s)
  have "core_ok reliable (s\<lparr>mg_lock := Some (Clear_Withdraws a item items bs)\<rparr>)"
    by (rule core_take_lock) (use "3.prems" in \<open>simp_all add: lock_ok_def\<close>)
  moreover have "mg_lock (fst (withdraw_item a item s)) = None"
    using "3.prems"(2) by (simp add: withdraw_item_def change_item_def remove_queued_def take_out_def split: option.split)
  ultimately show ?case using "3.IH" "3.prems" by (simp add: core_withdraw)
qed simp_all

lemma core_clear_resumes:
  assumes "core_ok reliable s" "mg_lock s = Some (Clear_Withdraws a item items bs)"
  shows "core_ok reliable (clear_resumes a item items bs works s)"
proof -
  have u: "core_ok reliable (unlock s)" by (rule core_unlock) (use assms in \<open>simp_all add: drains_def\<close>)
  moreover have "mg_lock (fst (withdraw_item a item (unlock s))) = None"
    by (simp add: withdraw_item_def change_item_def remove_queued_def take_out_def split: option.split)
  ultimately show ?thesis by (simp add: clear_resumes_def core_clear_loop core_withdraw)
qed

lemma core_settle_fold: "core_but reliable but s \<Longrightarrow> core_but reliable but (foldl (\<lambda>s x. settle_ticket (f x) (v x) s) s xs)"
  by (rule core_fold) simp_all

subsection \<open>Steering and shutting down\<close>

lemma core_parent:
  assumes "core_but reliable but s" "mg_objects s i = Some r"
  shows "core_but reliable but (s\<lparr>mg_objects := (mg_objects s)(i \<mapsto> r\<lparr>sr_parent := p\<rparr>)\<rparr>)"
  using assms(1) runs_stored(1) [OF _ assms(2)]
  by (intro core_object [OF assms]) (simp_all add: core_but_def living_def)

lemma core_land:
  assumes "core_but reliable but s" "mg_objects s i = Some r"
  shows "core_but reliable but (land i r item works s)"
  using assms core_parent [OF assms]
  by (simp add: land_def Let_def core_take_out core_change_item)

lemma change_delivery_keeps [simp]:
  "core_but reliable but (change_delivery i f s) \<longleftrightarrow> core_but reliable but s"
  "core_but reliable but (end_delivery i s) \<longleftrightarrow> core_but reliable but s"
  "core_but reliable but (begin_delivery i s) \<longleftrightarrow> core_but reliable but s"
  by (simp_all add: change_delivery_def end_delivery_def begin_delivery_def)

lemma core_next_delivery: "core_but reliable but s \<Longrightarrow> core_but reliable but (next_delivery i a cancelled ts s)"
  by (induction i a cancelled ts s rule: next_delivery.induct) (simp_all add: core_change_item split: option.split)

lemma core_append_ends: "core_but reliable but s \<Longrightarrow> core_but reliable but (append_ends d works s)"
  by (auto simp: append_ends_def Let_def core_land split: option.split)

lemma core_close:
  assumes "core_ok reliable s" "mg_lock s = None"
  shows "core_ok reliable (aclose_runs awaits s)"
proof -
  have empty: "core_ok reliable (t\<lparr>mg_queues := [], mg_reserved := []\<rparr>)" if "core_ok reliable t" "mg_lock t = None" for t
  proof -
    let ?t = "t\<lparr>mg_queues := [], mg_reserved := []\<rparr>"
    have reads: "running ?t = running t" "guarded ?t = guarded t" "queue_of ?t a = []"
        "working_project_of ?t = working_project_of t" "preparation_guarded ?t = preparation_guarded t" for a
      by (simp_all add: running_def status_of_def queue_of_def guarded_def working_project_of_def
          preparation_guarded_def fun_eq_iff)
    then have active: "active_run ?t = active_run t"
      by (intro ext) (simp add: active_run_def split: option.split)
    have "runs_ok ?t" using that(1) by (simp add: core_but_def runs_ok_def)
    then show ?thesis
      using that by (auto simp: core_but_def keys_ok_def guards_ok_def work_at_def served_at_def lock_ok_def reads active)
  qed
  have lock: "mg_lock (foldl (\<lambda>s (a, item). settle_ticket (qi_ticket item) Dropped s) t xs) = mg_lock t" for t xs
    by (induction xs arbitrary: t) (auto split: prod.split)
  have closed: "core_ok reliable (foldl (\<lambda>s (a, item). settle_ticket (qi_ticket item) Dropped s)
      (s\<lparr>mg_closed := True\<rparr>) (all_queued s))"
    by (rule core_fold) (use assms(1) in \<open>auto split: prod.split\<close>)
  have "core_ok reliable ((foldl (\<lambda>s (a, item). settle_ticket (qi_ticket item) Dropped s)
      (s\<lparr>mg_closed := True\<rparr>) (all_queued s))\<lparr>mg_queues := [], mg_reserved := []\<rparr>)"
    by (rule empty [OF closed]) (simp add: lock assms(2))
  moreover have "core_ok reliable (foldl (\<lambda>s i. request_run_cancel awaits (Some ''shutdown'') (Some ''shutdown'') i s) t xs)"
    if "core_ok reliable t" for t xs
    using that by (rule core_fold) (rule core_cancel)
  ultimately show ?thesis using assms(1) by (simp add: aclose_runs_def Let_def)
qed

subsection \<open>Transitions\<close>

text \<open>Work is noticed by the checks of the three guards.\<close>

lemma work_active:
  assumes "active_run s a = Some i"
  shows "(a, i) \<in> set (mg_active s)" "running s i"
  using assms by (auto simp: active_run_Some dest: map_of_SomeD)

lemma work_queued:
  assumes "item \<in> set (queue_of s a)"
  shows "(a, queue_of s a) \<in> set (mg_queues s)" "queue_of s a \<noteq> []"
proof -
  show "queue_of s a \<noteq> []" using assms by auto
  then obtain q where q: "map_of (mg_queues s) a = Some q" by (cases "map_of (mg_queues s) a") (simp_all add: queue_of_def)
  then have "queue_of s a = q" by (simp add: queue_of_def)
  then show "(a, queue_of s a) \<in> set (mg_queues s)" using map_of_SomeD [OF q] by simp
qed

lemma work_noticed:
  assumes "work_at s a w"
  shows "has_activity_for_session s a" "has_activity_for_agent s (agent_key a)"
    "ad_project a = Some p \<or> w = Some p \<Longrightarrow> has_activity_for_project s p"
proof -
  consider (active) i where "active_run s a = Some i" "working_project_of s i = w"
    | (queued) item where "item \<in> set (queue_of s a)" "am_working (qi_admission item) = w"
    using assms by (auto simp: work_at_def)
  then have "has_activity_for_session s a \<and> has_activity_for_agent s (agent_key a)
      \<and> (ad_project a = Some p \<or> w = Some p \<longrightarrow> has_activity_for_project s p)"
  proof cases
    case active
    then show ?thesis using work_active [OF active(1)]
      by (auto simp: has_activity_for_session_def has_activity_for_agent_def has_activity_for_project_def
          has_activity_for_working_project_def list_ex_iff intro!: bexI [of _ "(a, i)"])
  next
    case queued
    then show ?thesis using work_queued [OF queued(1)]
      by (auto simp: has_activity_for_session_def has_activity_for_agent_def has_activity_for_project_def
          has_activity_for_working_project_def list_ex_iff intro!: bexI [of _ "(a, queue_of s a)"])
  qed
  then show "has_activity_for_session s a" "has_activity_for_agent s (agent_key a)"
    "ad_project a = Some p \<or> w = Some p \<Longrightarrow> has_activity_for_project s p" by blast+
qed

text \<open>An operation on the guards and preparations alone.\<close>

lemma core_guards:
  assumes "core_ok reliable s" "mg_lock s = None" "guards_ok t"
    "mg_active t = mg_active s" "mg_queues t = mg_queues s" "mg_next s \<le> mg_next t" "mg_objects t = mg_objects s"
    "mg_lock t = mg_lock s" "keys_ok t"
  shows "core_ok reliable t"
proof -
  have "runs_ok s \<Longrightarrow> runs_ok t" using assms(4-7) by (metis same_runs_ok same_runs_def)
  moreover have "served_at t a = served_at s a" for a
    using assms(4-8) by (simp add: served_at_def drains_def queue_of_def)
  moreover have "lock_ok reliable t" using assms(2,8) by (simp add: lock_ok_def)
  ultimately show ?thesis using assms(1,3,9) by (simp add: core_but_def)
qed

lemma work_at_cong:
  "mg_active t = mg_active s \<Longrightarrow> mg_queues t = mg_queues s \<Longrightarrow> mg_objects t = mg_objects s \<Longrightarrow> work_at t = work_at s"
proof -
  assume same: "mg_active t = mg_active s" "mg_queues t = mg_queues s" "mg_objects t = mg_objects s"
  then have "running t = running s" by (simp add: running_def status_of_def fun_eq_iff)
  then have "active_run t = active_run s" using same(1) by (intro ext) (simp add: active_run_def split: option.split)
  moreover have "queue_of t = queue_of s" "working_project_of t = working_project_of s"
    using same by (simp_all add: queue_of_def working_project_of_def fun_eq_iff)
  ultimately show ?thesis by (simp add: work_at_def fun_eq_iff)
qed

lemmas guard_reads = guards_ok_def guarded_def preparation_guarded_def

lemma core_prepare:
  "core_ok reliable s \<Longrightarrow> mg_lock s = None \<Longrightarrow> core_ok reliable (fst (prepare_admission agent project session s))"
proof -
  assume s: "core_ok reliable s" "mg_lock s = None"
  let ?p = "\<lparr>pp_id = mg_next s, pp_project = project, pp_agent = agent, pp_session = session, pp_working = None,
      pp_changed = mg_projects s\<rparr>"
  let ?t = "s\<lparr>mg_preparing := mg_preparing s @ [?p], mg_next := Suc (mg_next s)\<rparr>"
  have g: "guards_ok s" using s by (simp add: core_but_def)
  have w: "work_at ?t = work_at s" by (rule work_at_cong) simp_all
  have "keys_ok s" using s by (simp add: core_but_def)
  then have keys: "keys_ok ?t" by (auto simp: keys_ok_def less_Suc_eq)
  have ok: "core_ok reliable ?t" if free: "\<not> preparation_guarded s ?p"
  proof (rule core_guards [OF s])
    show "guards_ok ?t" using g free unfolding guard_reads w by simp
  qed (simp_all add: keys)
  have free: "\<not> preparation_guarded s ?p"
    if "(project, agent) \<notin> set (mg_agents s)" "\<not> list_ex (\<lambda>x. project = Some x) (mg_projects s)"
      "\<not> list_ex (covers_session ?p) (mg_sessions s)"
    using that by (auto simp: preparation_guarded_def list_ex_iff)
  show ?thesis
    unfolding prepare_admission_def Let_def using s(1) ok [OF free] by simp
qed

lemma core_changed_preparation:
  assumes "core_ok reliable s" "mg_lock s = None" "map pp_id ps = map pp_id (mg_preparing s)"
    "\<And>p. p \<in> set ps \<Longrightarrow> \<not> preparation_guarded s p"
  shows "core_ok reliable (s\<lparr>mg_preparing := ps\<rparr>)"
proof (rule core_guards [OF assms(1,2)])
  have w: "work_at (s\<lparr>mg_preparing := ps\<rparr>) = work_at s" by (rule work_at_cong) simp_all
  have g: "guards_ok s" "keys_ok s" using assms(1) by (simp_all add: core_but_def)
  show "guards_ok (s\<lparr>mg_preparing := ps\<rparr>)"
    using g assms(4) unfolding guard_reads w by simp
  show "keys_ok (s\<lparr>mg_preparing := ps\<rparr>)"
    using g(2) assms(3) by (simp add: keys_ok_def)
qed simp_all

lemma prepared_free: "core_ok reliable s \<Longrightarrow> p \<in> set (mg_preparing s) \<Longrightarrow> \<not> preparation_guarded s p"
  by (simp add: core_but_def guards_ok_def)

text \<open>A preparation changes in itself only.\<close>

lemma core_change_preparation:
  assumes "core_ok reliable s" "mg_lock s = None" "find (\<lambda>p. pp_id p = i) (mg_preparing s) = Some p"
    "\<not> preparation_guarded s (f p)" "\<And>q. pp_id (f q) = pp_id q"
  shows "core_ok reliable (change_preparation i f s)"
  unfolding change_preparation_def
proof (rule core_changed_preparation [OF assms(1,2)])
  let ?ps = "map (\<lambda>p. if pp_id p = i then f p else p) (mg_preparing s)"
  show "map pp_id ?ps = map pp_id (mg_preparing s)" using assms(5) by simp
  have d: "distinct (map pp_id (mg_preparing s))" using assms(1) by (simp add: core_but_def keys_ok_def)
  have p: "p \<in> set (mg_preparing s)" "pp_id p = i" using assms(3) by (auto simp: find_Some_iff)
  fix q assume "q \<in> set ?ps"
  then obtain x where x: "x \<in> set (mg_preparing s)" "q = (if pp_id x = i then f x else x)" by auto
  show "\<not> preparation_guarded s q"
  proof (cases "pp_id x = i")
    case True
    then have "x = p" using d x(1) p by (simp add: inj_on_def distinct_map)
    then show ?thesis using assms(4) x(2) True by simp
  next
    case False
    then show ?thesis using prepared_free [OF assms(1) x(1)] x(2) by simp
  qed
qed

lemma found_free:
  assumes "core_ok reliable s" "find (\<lambda>p. pp_id p = i) (mg_preparing s) = Some p"
  shows "\<not> preparation_guarded s p"
  using prepared_free [OF assms(1), of p] assms(2) by (auto simp: find_Some_iff)

lemma core_bind_project:
  assumes "core_ok reliable s" "mg_lock s = None"
  shows "core_ok reliable (fst (bind_working_project i project s))"
proof (cases "find (\<lambda>p. pp_id p = i) (mg_preparing s)")
  case (Some p)
  have "core_ok reliable (change_preparation i (\<lambda>p. p\<lparr>pp_working := project\<rparr>) s)"
    if "\<not> list_ex (\<lambda>x. project = Some x) (mg_projects s)"
    by (rule core_change_preparation [OF assms Some])
      (use that found_free [OF assms(1) Some] in \<open>auto simp: preparation_guarded_def covers_session_def list_ex_iff\<close>)
  then show ?thesis using assms(1) Some by (simp add: bind_working_project_def)
qed (simp add: bind_working_project_def assms(1))

lemma core_bind_session:
  assumes "core_ok reliable s" "mg_lock s = None"
  shows "core_ok reliable (fst (bind_session i session s))"
proof (cases "find (\<lambda>p. pp_id p = i) (mg_preparing s)")
  case (Some p)
  have "core_ok reliable (change_preparation i (\<lambda>p. p\<lparr>pp_session := Some session\<rparr>) s)"
    if "pp_session p = None \<or> pp_session p = Some session"
    by (rule core_change_preparation [OF assms Some])
      (use that found_free [OF assms(1) Some] in \<open>auto simp: preparation_guarded_def covers_session_def split: option.splits\<close>)
  then show ?thesis using assms(1) Some by (auto simp: bind_session_def)
qed (simp add: bind_session_def assms(1))

lemma core_release_preparation:
  assumes "core_ok reliable s" "mg_lock s = None"
  shows "core_ok reliable (release_preparation i s)"
proof (rule core_guards [OF assms])
  have g: "guards_ok s" "keys_ok s" using assms(1) by (simp_all add: core_but_def)
  have w: "work_at (release_preparation i s) = work_at s" by (rule work_at_cong) (simp_all add: release_preparation_def)
  show "guards_ok (release_preparation i s)"
    using g(1) unfolding guard_reads w by (simp add: release_preparation_def)
  show "keys_ok (release_preparation i s)"
    using g(2) by (simp add: keys_ok_def release_preparation_def distinct_map_filter)
qed (simp_all add: release_preparation_def)

text \<open>A guard goes up where nothing works.\<close>

lemma core_guard_sessions:
  assumes "core_ok reliable s" "mg_lock s = None"
  shows "core_ok reliable (fst (guard_sessions as s))"
proof -
  have g: "guards_ok s" "keys_ok s" using assms(1) by (simp_all add: core_but_def)
  let ?t = "s\<lparr>mg_sessions := mg_sessions s @ as\<rparr>"
  have w: "work_at ?t = work_at s" by (rule work_at_cong) simp_all
  have "core_ok reliable ?t"
    if idle: "\<And>a. a \<in> set as \<Longrightarrow> \<not> has_activity_for_session s a \<and> \<not> list_ex (\<lambda>p. covers_session p a) (mg_preparing s)"
  proof (rule core_guards [OF assms])
    have "\<not> work_at s a w" if "a \<in> set as" for a w using idle [OF that] work_noticed(1) by blast
    then show "guards_ok ?t" using g(1) idle unfolding guard_reads w by (auto simp: list_ex_iff)
    show "keys_ok ?t" using g(2) by (simp add: keys_ok_def)
  qed simp_all
  then show ?thesis using assms(1) by (auto simp: guard_sessions_def list_ex_iff)
qed

lemma core_guard_agent:
  assumes "core_ok reliable s" "mg_lock s = None"
  shows "core_ok reliable (fst (guard_agent key s))"
proof -
  have g: "guards_ok s" "keys_ok s" using assms(1) by (simp_all add: core_but_def)
  let ?t = "s\<lparr>mg_agents := mg_agents s @ [key]\<rparr>"
  have w: "work_at ?t = work_at s" by (rule work_at_cong) simp_all
  have "core_ok reliable ?t"
    if "\<not> has_activity_for_agent s key" "\<not> list_ex (\<lambda>p. (pp_project p, pp_agent p) = key) (mg_preparing s)"
  proof (rule core_guards [OF assms])
    have "agent_key a \<noteq> key" if "work_at s a w" for a w using work_noticed(2) [OF that] \<open>\<not> has_activity_for_agent s key\<close> by blast
    then show "guards_ok ?t" using g(1) that(2) unfolding guard_reads w by (auto simp: list_ex_iff)
    show "keys_ok ?t" using g(2) by (simp add: keys_ok_def)
  qed simp_all
  then show ?thesis using assms(1) by (auto simp: guard_agent_def)
qed

lemma core_guard_project:
  assumes "core_ok reliable s" "mg_lock s = None"
  shows "core_ok reliable (fst (guard_project p s))"
proof -
  have g: "guards_ok s" "keys_ok s" using assms(1) by (simp_all add: core_but_def)
  let ?t = "s\<lparr>mg_projects := mg_projects s @ [p],
              mg_preparing := map (\<lambda>x. x\<lparr>pp_changed := pp_changed x @ [p]\<rparr>) (mg_preparing s)\<rparr>"
  have w: "work_at ?t = work_at s" by (rule work_at_cong) simp_all
  have "core_ok reliable ?t"
    if "\<not> has_activity_for_project s p" "\<not> list_ex (\<lambda>x. pp_project x = Some p \<or> pp_working x = Some p) (mg_preparing s)"
  proof (rule core_guards [OF assms])
    have "ad_project a \<noteq> Some p \<and> w \<noteq> Some p" if "work_at s a w" for a w
      using work_noticed(3) [OF that] \<open>\<not> has_activity_for_project s p\<close> by blast
    then show "guards_ok ?t"
      using g(1) that(2) unfolding guard_reads w by (auto simp: list_ex_iff covers_session_def)
    show "keys_ok ?t" using g(2) by (auto simp: keys_ok_def o_def)
  qed simp_all
  then show ?thesis using assms(1) by (auto simp: guard_project_def)
qed

lemma core_releases:
  assumes "core_ok reliable s" "mg_lock s = None"
  shows "core_ok reliable (release_sessions as s)" "core_ok reliable (release_agent key s)" "core_ok reliable (release_project p s)"
proof -
  have g: "guards_ok s" "keys_ok s" using assms(1) by (simp_all add: core_but_def)
  have w: "work_at (release_sessions as s) = work_at s" "work_at (release_agent key s) = work_at s"
      "work_at (release_project p s) = work_at s"
    by (rule work_at_cong; simp add: release_sessions_def release_agent_def release_project_def)+
  show "core_ok reliable (release_sessions as s)"
  proof (rule core_guards [OF assms])
    show "guards_ok (release_sessions as s)"
      using g(1) unfolding guard_reads w by (auto simp: release_sessions_def)
  qed (use g(2) in \<open>simp_all add: release_sessions_def keys_ok_def\<close>)
  show "core_ok reliable (release_agent key s)"
  proof (rule core_guards [OF assms])
    show "guards_ok (release_agent key s)"
      using g(1) unfolding guard_reads w by (auto simp: release_agent_def)
  qed (use g(2) in \<open>simp_all add: release_agent_def keys_ok_def\<close>)
  show "core_ok reliable (release_project p s)"
  proof (rule core_guards [OF assms])
    show "guards_ok (release_project p s)"
      using g(1) unfolding guard_reads w by (auto simp: release_project_def list_ex_iff)
  qed (use g(2) in \<open>simp_all add: release_project_def keys_ok_def\<close>)
qed

subsection \<open>Steps\<close>

lemma core_clear_many: "core_ok reliable s \<Longrightarrow> mg_lock s = None \<Longrightarrow> core_ok reliable (clear_queued_many as s)"
  by (simp add: clear_queued_many_def core_clear_loop split: list.split)

lemma core_reserve:
  assumes "core_but reliable but s"
  shows "core_but reliable but (fst (reserve_waiting_work lm scope k s))"
proof -
  have keys: "keys_ok s" using assms by (simp add: core_but_def)
  then have "mg_next s \<notin> set (map fst (mg_reserved s))" by (auto simp: keys_ok_def)
  then have "keys_ok (s\<lparr>mg_reserved := mg_reserved s @ [(mg_next s, scope)], mg_next := Suc (mg_next s)\<rparr>)"
    using keys by (auto simp: keys_ok_def less_Suc_eq)
  then have "core_but reliable but (s\<lparr>mg_reserved := mg_reserved s @ [(mg_next s, scope)], mg_next := Suc (mg_next s)\<rparr>)"
    by (intro core_cong [OF assms]) simp_all
  then show ?thesis using assms by (simp add: reserve_waiting_work_def)
qed

lemma core_release: "core_but reliable but s \<Longrightarrow> core_but reliable but (fst (release_waiting_work i s))"
  by (simp add: release_waiting_work_def core_unreserve)

lemma core_update: "core_but reliable but s \<Longrightarrow> core_but reliable but (fst (update_queued a k executor content editable s))"
  by (simp add: update_queued_def core_change_item split: option.split)

lemma core_steer: "core_but reliable but s \<Longrightarrow> core_but reliable but (fst (steer_queued a k s))"
  by (simp add: steer_queued_def core_change_item split: option.split)

lemma core_abandoned: "core_but reliable but s \<Longrightarrow> core_but reliable but (remove_abandoned a item s)"
  by (simp add: remove_abandoned_def core_remove)

lemma core_continue: "core_but reliable but s \<Longrightarrow> core_but reliable but (continue_delivery d s)"
  by (simp add: continue_delivery_def core_next_delivery split: option.split)

lemma locked_idle:
  assumes "core_ok reliable s" "mg_lock s = Some (Persist_Idle a item r)"
  shows "core_ok reliable (enqueue_idle_end a item r works prepared s)"
  by (rule core_idle_end [OF assms(1)]) (use assms in \<open>simp_all add: core_but_def lock_ok_def drains_def\<close>)

lemma locked_busy:
  assumes "core_ok reliable s" "mg_lock s = Some (Persist_Busy a item)"
  shows "core_ok reliable (enqueue_busy_end a item works s)"
  by (rule core_busy_end [OF assms(1)]) (use assms in \<open>simp_all add: core_but_def lock_ok_def drains_def\<close>)

text \<open>Without a reliable withdrawal only the claim that all input is served is lost.\<close>

lemma core_give_up:
  assumes "core_ok False s"
  shows "core_ok False (unlock s)"
proof -
  have "work_at (unlock s) a w = work_at s a w" for a w by (simp add: work_at_def)
  moreover have "keys_ok (unlock s) = keys_ok s" by (simp add: keys_ok_def)
  moreover have "runs_ok s \<Longrightarrow> runs_ok (unlock s)" by (rule same_runs_ok [of s]) simp_all
  ultimately show ?thesis using assms by (auto simp: core_but_def guards_ok_def lock_ok_def)
qed

lemma mg_step_ok: "mg_step lm reliable s t \<Longrightarrow> core_ok reliable s \<Longrightarrow> core_ok reliable t"
proof (induction rule: mg_step.induct)
  case withdrawal_fails
  then show ?case using core_give_up by (cases reliable) simp_all
qed (simp_all add: core_lives core_call_start core_enqueue locked_idle locked_busy core_reserve core_release core_remove
    core_clear core_clear_many core_clear_resumes core_update core_steer core_abandoned core_continue core_append_ends
    core_over core_resumes core_cancel core_close core_prepare core_bind_project core_bind_session
    core_release_preparation core_guard_sessions core_guard_agent core_guard_project core_releases abandon_def)

interpretation run_manager: preserving "mg_step lm reliable" "core_ok reliable" for lm reliable
  by unfold_locales (rule mg_step_ok)

lemma new_manager_ok: "core_ok reliable new_manager"
  by (simp add: new_manager_def core_but_def keys_ok_def runs_ok_def lock_ok_def guards_ok_def work_at_def served_at_def
      queue_of_def active_run_def)

text \<open>What a restart restores is in order as well: it restores before anything else happens.\<close>

lemma core_restore:
  assumes "core_ok reliable s" "mg_lock s = None" "mg_sessions s = []" "mg_agents s = []" "mg_projects s = []" reliable
  shows "core_ok reliable (restore_queued_inputs inputs s)"
  using assms(1-5)
proof (induction inputs arbitrary: s)
  case (Cons input inputs)
  obtain a item0 where input: "input = (a, item0)" by (cases input)
  let ?item = "item0\<lparr>qi_ticket := mg_next s, qi_in_flight := False, qi_withdrawn := False\<rparr>"
  let ?s = "s\<lparr>mg_next := Suc (mg_next s)\<rparr>"
  have s: "core_ok reliable ?s" "mg_lock ?s = None" using Cons.prems(1,2) core_next by simp_all
  have free: "\<not> guarded ?s b w" for b w using Cons.prems(3-5) by (simp add: guarded_def)
  show ?case
  proof (cases "active_run ?s a = None \<and> queue_of ?s a = []")
    case True
    let ?t = "(start_run a (Some (qi_id ?item)) (qi_admission ?item) ?s)
        \<lparr>mg_tickets := (mg_tickets ?s)(qi_ticket ?item \<mapsto> Got_Run (mg_next ?s))\<rparr>"
    have "core_ok reliable (start_run a (Some (qi_id ?item)) (qi_admission ?item) ?s)"
      using core_start [OF s(1) _ _ free s(2)] True by blast
    then have "core_ok reliable ?t" by simp
    then have "core_ok reliable (restore_queued_inputs inputs ?t)" by (rule Cons.IH) (use Cons.prems in simp_all)
    then show ?thesis unfolding input restore_queued_inputs.simps Let_def if_P [OF True] .
  next
    case False
    let ?t = "(set_queue a (queue_of ?s a @ [?item]) ?s)\<lparr>mg_tickets := (mg_tickets ?s)(qi_ticket ?item \<mapsto> Open_Ticket)\<rparr>"
    have "map_of (mg_active ?s) a \<noteq> None" using busy_served [OF s] False assms(6) by blast
    then have "core_ok reliable (set_queue a (queue_of ?s a @ [?item]) ?s)"
      using free s(2) by (intro core_append [OF s(1)]) simp_all
    then have "core_ok reliable ?t" by simp
    then have "core_ok reliable (restore_queued_inputs inputs ?t)" by (rule Cons.IH) (use Cons.prems in simp_all)
    then show ?thesis unfolding input restore_queued_inputs.simps Let_def if_not_P [OF False] .
  qed
qed simp

end
