(* ===== verification/Run_Queue_Waiting.thy ===== *)
theory Run_Queue_Waiting
  imports Run_Queue_Facts
begin

section \<open>Waiting input\<close>

text \<open>
  Two more invariants of the manager. Every Future that is still open belongs to an input in a queue, or to
  the one whose withdrawal a drain waits for; tickets are fresh when an input is accepted, so that each has
  one answer at most. And what waits keeps to the limit of the manager.
\<close>

subsection \<open>Tickets\<close>

definition tickets_at :: "manager \<Rightarrow> address \<Rightarrow> nat list" where
  "tickets_at s a = map qi_ticket (queue_of s a)"

definition placed :: "manager \<Rightarrow> nat \<Rightarrow> bool" where
  "placed s t \<longleftrightarrow>
     (\<exists>a. t \<in> set (tickets_at s a)) \<or> (\<exists>a item e. mg_lock s = Some (Drain_Withdraws a item e) \<and> qi_ticket item = t)"

definition accepts :: "manager \<Rightarrow> queued option" where
  "accepts s = (case mg_lock s of Some (Persist_Idle a item r) \<Rightarrow> Some item | Some (Persist_Busy a item) \<Rightarrow> Some item | _ \<Rightarrow> None)"

text \<open>\<open>A\<close> holds answers that were given before, \<open>U\<close> the tickets that are just being moved.\<close>

definition waits_but :: "(nat \<rightharpoonup> ticket) \<Rightarrow> nat set \<Rightarrow> manager \<Rightarrow> bool" where
  "waits_but A U s \<longleftrightarrow>
     (\<forall>t v. A t = Some v \<longrightarrow> v \<noteq> Open_Ticket \<and> mg_tickets s t = Some v)
     \<and> (\<forall>a. distinct (tickets_at s a)) \<and> (\<forall>a. \<forall>t \<in> set (tickets_at s a). mg_tickets s t \<noteq> None)
     \<and> (\<forall>t. mg_tickets s t \<noteq> None \<longrightarrow> t < mg_next s)
     \<and> (\<forall>item. accepts s = Some item \<longrightarrow> mg_tickets s (qi_ticket item) = None \<and> qi_ticket item < mg_next s)
     \<and> (\<forall>t. t \<notin> U \<longrightarrow> mg_tickets s t = Some Open_Ticket \<longrightarrow> placed s t)"

abbreviation waits_ok :: "(nat \<rightharpoonup> ticket) \<Rightarrow> manager \<Rightarrow> bool" where
  "waits_ok A \<equiv> waits_but A {}"

lemma waits_cong:
  assumes "waits_but A U s" "mg_queues t = mg_queues s" "mg_tickets t = mg_tickets s" "mg_lock t = mg_lock s"
    "mg_next s \<le> mg_next t"
  shows "waits_but A U t"
proof -
  have "tickets_at t = tickets_at s" "accepts t = accepts s"
    using assms(2,4) by (simp_all add: tickets_at_def queue_of_def accepts_def fun_eq_iff)
  moreover from this(1) have "placed t = placed s" using assms(4) by (simp add: placed_def fun_eq_iff)
  ultimately show ?thesis using assms(1,3,5) by (fastforce simp: waits_but_def)
qed

lemma tickets_at_set [simp]: "tickets_at (set_queue a q s) b = (if b = a then map qi_ticket q else tickets_at s b)"
  by (simp add: tickets_at_def)

lemma tickets_at_keeps [simp]:
  "tickets_at (settle_ticket t v s) a = tickets_at s a" "tickets_at (unlock s) a = tickets_at s a"
  "tickets_at (s\<lparr>mg_tickets := ts\<rparr>) a = tickets_at s a" "tickets_at (s\<lparr>mg_lock := l\<rparr>) a = tickets_at s a"
  by (simp_all add: tickets_at_def queue_of_def)

lemma accepts_keeps [simp]:
  "accepts (settle_ticket t v s) = accepts s" "accepts (set_queue a q s) = accepts s" "accepts (unlock s) = None"
  "accepts (s\<lparr>mg_tickets := ts\<rparr>) = accepts s"
  by (simp_all add: accepts_def)

lemma placed_keeps [simp]:
  "placed (settle_ticket t v s) u = placed s u" "placed (s\<lparr>mg_tickets := ts\<rparr>) u = placed s u"
  by (simp_all add: placed_def)

lemma waits_grow: "waits_but A U s \<Longrightarrow> U \<subseteq> V \<Longrightarrow> waits_but A V s"
  by (auto simp: waits_but_def)

lemma waits_done: "waits_but A (insert t U) s \<Longrightarrow> mg_tickets s t \<noteq> Some Open_Ticket \<Longrightarrow> waits_but A U s"
  by (auto simp: waits_but_def)

lemma waits_all_done: "waits_but A U s \<Longrightarrow> (\<And>t. t \<in> U \<Longrightarrow> mg_tickets s t \<noteq> Some Open_Ticket) \<Longrightarrow> waits_ok A s"
  unfolding waits_but_def by blast

lemma waits_placed:
  assumes "waits_but A (insert t U) s" "placed s t"
  shows "waits_but A U s"
proof -
  have "u \<notin> U \<Longrightarrow> mg_tickets s u = Some Open_Ticket \<Longrightarrow> placed s u" for u
    using assms by (cases "u = t") (simp_all add: waits_but_def)
  then show ?thesis using assms(1) by (simp add: waits_but_def)
qed

lemma waits_settle:
  assumes "waits_but A (insert t U) s" "v \<noteq> Open_Ticket"
  shows "waits_but A U (settle_ticket t v s)"
  using assms by (auto simp: waits_but_def settle_tickets)

lemma waits_settled: "waits_but A U s \<Longrightarrow> v \<noteq> Open_Ticket \<Longrightarrow> waits_but A U (settle_ticket t v s)"
  by (rule waits_settle [OF waits_grow]) auto

lemma waits_queue:
  assumes "waits_but A U s" "distinct (map qi_ticket q)" "qi_ticket ` set q \<subseteq> set (tickets_at s a)"
    "set (tickets_at s a) - qi_ticket ` set q \<subseteq> V" "U \<subseteq> V"
  shows "waits_but A V (set_queue a q s)"
proof -
  have "placed (set_queue a q s) t" if "placed s t" "t \<notin> V" for t
    using that assms(4) by (auto simp: placed_def)
  then show ?thesis using assms by (auto simp: waits_but_def)
qed

lemma waits_same_queue:
  assumes "waits_but A U s" "map qi_ticket q = tickets_at s a"
  shows "waits_but A U (set_queue a q s)"
proof (rule waits_queue [OF assms(1)])
  show "distinct (map qi_ticket q)" unfolding assms(2) using assms(1) by (simp add: waits_but_def)
  show "qi_ticket ` set q \<subseteq> set (tickets_at s a)" "set (tickets_at s a) - qi_ticket ` set q \<subseteq> U"
    unfolding assms(2) [symmetric] by auto
qed simp

lemma waits_change_item:
  "waits_but A U s \<Longrightarrow> (\<And>x. qi_ticket (f x) = qi_ticket x) \<Longrightarrow> waits_but A U (change_item a t f s)"
  unfolding change_item_def by (rule waits_same_queue) (simp_all add: tickets_at_def)

lemma waits_distinct: "waits_but A U s \<Longrightarrow> distinct (tickets_at s a)"
  by (simp add: waits_but_def)

lemma waits_take_out:
  assumes "waits_but A U s"
  shows "waits_but A (insert t U) (take_out a t s)"
  unfolding take_out_def
  by (rule waits_queue [OF assms]) (use waits_distinct [OF assms, of a] in \<open>auto simp: tickets_at_def distinct_map_filter\<close>)

lemma waits_remove: "waits_but A U s \<Longrightarrow> waits_but A U (fst (remove_queued a k s))"
  by (simp add: remove_queued_def waits_take_out waits_settle split: option.split)

lemma waits_withdraw: "waits_but A U s \<Longrightarrow> waits_but A U (fst (withdraw_item a item s))"
  by (simp add: withdraw_item_def waits_change_item waits_remove)

lemma waits_fold: "waits_but A U s \<Longrightarrow> (\<And>s x. waits_but A U s \<Longrightarrow> waits_but A U (f s x)) \<Longrightarrow> waits_but A U (foldl f s xs)"
  by (induction xs arbitrary: s) simp_all

lemma waits_clear: "waits_but A U s \<Longrightarrow> waits_but A U (clear_queued a s)"
  unfolding clear_queued_def by (rule waits_fold) (simp_all add: waits_withdraw)

lemma waits_unlock:
  assumes "waits_but A U s" "\<And>a item e. mg_lock s = Some (Drain_Withdraws a item e) \<Longrightarrow> qi_ticket item \<in> U"
  shows "waits_but A U (unlock s)"
proof -
  have "placed s t \<Longrightarrow> t \<notin> U \<Longrightarrow> placed (unlock s) t" for t using assms(2) by (auto simp: placed_def)
  then show ?thesis using assms(1) by (auto simp: waits_but_def)
qed

lemma waits_take_lock:
  assumes "waits_but A U s" "mg_lock s = None"
    "\<And>item. accepts (s\<lparr>mg_lock := l\<rparr>) = Some item \<Longrightarrow> mg_tickets s (qi_ticket item) = None \<and> qi_ticket item < mg_next s"
  shows "waits_but A U (s\<lparr>mg_lock := l\<rparr>)"
proof -
  have "placed s t \<Longrightarrow> placed (s\<lparr>mg_lock := l\<rparr>) t" for t using assms(2) by (auto simp: placed_def)
  then show ?thesis using assms(1,3) by (auto simp: waits_but_def)
qed

lemma waits_start [simp]: "waits_but A U s \<Longrightarrow> waits_but A U (start_run a item am s)"
  by (erule waits_cong) simp_all

text \<open>A fresh ticket is given out with its answer, or with an input that waits.\<close>

lemma waits_answer:
  assumes "waits_but A U s" "mg_lock s = None" "mg_tickets s t = None" "t < mg_next s" "v \<noteq> Open_Ticket"
  shows "waits_but A U (s\<lparr>mg_tickets := (mg_tickets s)(t \<mapsto> v)\<rparr>)"
  using assms by (auto simp: waits_but_def accepts_def)

lemma waits_append:
  assumes "waits_but A U s" "mg_lock s = None" "mg_tickets s (qi_ticket item) = None" "qi_ticket item < mg_next s"
  shows "waits_but A U ((set_queue a (queue_of s a @ [item]) s)\<lparr>mg_tickets := (mg_tickets s)(qi_ticket item \<mapsto> Open_Ticket)\<rparr>)"
    (is "waits_but A U ?t")
proof -
  have at: "tickets_at ?t b = (if b = a then tickets_at s a @ [qi_ticket item] else tickets_at s b)" for b
    by simp (simp add: tickets_at_def)
  have "qi_ticket item \<notin> set (tickets_at s a)" using assms(1,3) unfolding waits_but_def by metis
  moreover have sub: "insert (qi_ticket item) (set (tickets_at s a)) \<subseteq> set (tickets_at ?t a)" "set (tickets_at s b) \<subseteq> set (tickets_at ?t b)" for b
    unfolding at by auto
  then have "placed ?t (qi_ticket item)" unfolding placed_def by blast
  moreover have "placed ?t u" if "placed s u" for u
  proof -
    have "\<exists>b. u \<in> set (tickets_at s b)" using that assms(2) by (simp add: placed_def)
    then show ?thesis using sub(2) unfolding placed_def by blast
  qed
  moreover have "map qi_ticket (queue_of s a) = tickets_at s a" "qi_ticket ` set (queue_of s a) = set (tickets_at s a)"
    by (simp_all add: tickets_at_def)
  moreover have "x \<in> set (queue_of s a) \<Longrightarrow> qi_ticket x \<in> set (tickets_at s a)" for x by (simp add: tickets_at_def)
  ultimately show ?thesis using assms by (auto simp: waits_but_def accepts_def)
qed

lemma waits_cleared_loop: "waits_ok A s \<Longrightarrow> mg_lock s = None \<Longrightarrow> waits_ok A (clear_loop a items bs s)"
proof (induction a items bs s rule: clear_loop.induct)
  case (3 a item items bs s)
  have "waits_ok A (s\<lparr>mg_lock := Some (Clear_Withdraws a item items bs)\<rparr>)"
    by (rule waits_take_lock) (use "3.prems" in \<open>simp_all add: accepts_def\<close>)
  moreover have "mg_lock (fst (withdraw_item a item s)) = None"
    using "3.prems"(2) by (simp add: withdraw_item_def change_item_def remove_queued_def take_out_def split: option.split)
  ultimately show ?case using "3.IH" "3.prems" by (simp add: waits_withdraw)
qed simp_all

lemma waits_clear_resumes:
  assumes "waits_ok A s" "mg_lock s = Some (Clear_Withdraws a item items bs)"
  shows "waits_ok A (clear_resumes a item items bs works s)"
proof -
  have "waits_ok A (unlock s)" by (rule waits_unlock) (use assms in simp_all)
  moreover have "mg_lock (fst (withdraw_item a item (unlock s))) = None"
    by (simp add: withdraw_item_def change_item_def remove_queued_def take_out_def split: option.split)
  ultimately show ?thesis by (simp add: clear_resumes_def waits_cleared_loop waits_withdraw)
qed

subsection \<open>Draining and enqueuing\<close>

lemma waits_drain:
  assumes "waits_ok A s" "mg_lock s = None" "queue_of s a = q"
  shows "waits_ok A (drain_loop verdict a q s)"
  using assms
proof (induction q arbitrary: s)
  case Nil
  have "waits_ok A (set_queue a [] s)" by (rule waits_same_queue [OF Nil.prems(1)]) (simp add: tickets_at_def Nil.prems(3))
  then show ?case using Nil.prems(2) by (simp add: drain_loop.simps)
next
  case (Cons item q)
  let ?s = "set_queue a q s"
  let ?t = "qi_ticket item"
  have d: "distinct (tickets_at s a)" using waits_distinct [OF Cons.prems(1)] .
  have out: "waits_but A {?t} ?s"
    by (rule waits_queue [OF Cons.prems(1)]) (use d in \<open>auto simp: tickets_at_def Cons.prems(3)\<close>)
  have s: "mg_lock ?s = None" "queue_of ?s a = q" using Cons.prems by simp_all
  note rounds = drain_rounds [OF Cons.prems(2) refl, of a q item verdict]
  show ?case
  proof (cases "forgotten ?s item")
    case True
    then have "waits_ok A ?s" by (intro waits_done [OF out]) (simp add: forgotten_def ticket_done_def)
    then show ?thesis using Cons.IH [OF _ s] rounds(1) True by simp
  next
    case False
    show ?thesis
    proof (cases "refused ?s a (qi_admission item) (verdict item)")
      case None
      have "waits_ok A (settle_ticket ?t (Got_Run (mg_next ?s)) (start_run a (Some (qi_id item)) (qi_admission item) ?s))"
        by (rule waits_settle [OF waits_start [OF out]]) simp
      then show ?thesis unfolding rounds(2) [OF False None] .
    next
      case (Some e)
      show ?thesis
      proof (cases "am_input (qi_admission item) = None")
        case True
        have "waits_ok A (settle_ticket ?t (Refused e) ?s)" by (rule waits_settle [OF out]) simp
        then have "waits_ok A (drain_loop verdict a q (settle_ticket ?t (Refused e) ?s))" by (rule Cons.IH) (use s in simp_all)
        then show ?thesis unfolding rounds(4) [OF False Some True] .
      next
        case durable: False
        let ?l = "?s\<lparr>mg_lock := Some (Drain_Withdraws a item e)\<rparr>"
        have "waits_but A {?t} ?l" by (rule waits_take_lock [OF out s(1)]) (simp add: accepts_def)
        then have "waits_ok A ?l" by (rule waits_placed) (auto simp: placed_def)
        then show ?thesis unfolding rounds(3) [OF False Some durable] .
      qed
    qed
  qed
qed

lemma waits_prune: "waits_but A U s \<Longrightarrow> waits_but A U (prune_terminal_runs lm s)"
  by (erule waits_cong) (simp_all add: prune_terminal_runs_def Let_def)

lemma settle_all_queues [simp]:
  "mg_queues (foldl (\<lambda>s item. settle_ticket (qi_ticket item) Dropped s) s q) = mg_queues s"
  by (induction q arbitrary: s) simp_all

lemma settle_all_tickets:
  "mg_tickets (foldl (\<lambda>s item. settle_ticket (qi_ticket item) Dropped s) s q) u =
     (if u \<in> qi_ticket ` set q \<and> mg_tickets s u = Some Open_Ticket then Some Dropped else mg_tickets s u)"
  by (induction q arbitrary: s) (auto simp: settle_tickets)

lemma waits_drain_next:
  assumes "waits_ok A s" "mg_lock s = None"
  shows "waits_ok A (drain_next verdict a s)"
proof (cases "mg_closed s")
  case True
  let ?t = "foldl (\<lambda>s item. settle_ticket (qi_ticket item) Dropped s) s (queue_of s a)"
  have t: "waits_ok A ?t" using assms(1) by (rule waits_fold) (simp add: waits_settled)
  have at: "tickets_at ?t a = tickets_at s a" by (simp add: tickets_at_def queue_of_def)
  have "waits_but A (set (tickets_at s a)) (set_queue a [] ?t)" by (rule waits_queue [OF t]) (simp_all add: at)
  then have "waits_ok A (set_queue a [] ?t)"
    by (rule waits_all_done) (auto simp: settle_all_tickets tickets_at_def)
  then show ?thesis using True by (simp add: drain_next_def)
next
  case False
  let ?q = "steering_first (queue_of s a)"
  have d: "distinct (map qi_ticket (queue_of s a))" using waits_distinct [OF assms(1), of a] by (simp add: tickets_at_def)
  have "distinct (map qi_ticket ?q)" using d by (auto simp: steering_first_def distinct_map inj_on_def)
  moreover have "set ?q = set (queue_of s a)" by (auto simp: steering_first_def)
  ultimately have "waits_ok A (set_queue a ?q s)" by (intro waits_queue [OF assms(1)]) (simp_all add: tickets_at_def)
  then have "waits_ok A (drain_loop verdict a ?q (set_queue a ?q s))" by (rule waits_drain) (simp_all add: assms(2))
  then show ?thesis using False assms(1) by (simp add: drain_next_def)
qed

lemma waits_over:
  assumes "waits_ok A s" "mg_lock s = None"
  shows "waits_ok A (run_over lm verdict i r s)"
proof -
  have "waits_ok A (s\<lparr>mg_objects := os, mg_active := as\<rparr>)" for os as by (rule waits_cong [OF assms(1)]) simp_all
  then show ?thesis unfolding run_over_def Let_def by (intro waits_drain_next waits_prune) (simp_all add: assms(2))
qed

lemma waits_resumes:
  assumes "waits_ok A s" "mg_lock s = Some (Drain_Withdraws a item e)"
  shows "waits_ok A (drain_resumes verdict a item e s)"
proof -
  have "waits_but A {qi_ticket item} (unlock s)"
    by (rule waits_unlock [OF waits_grow [OF assms(1)]]) (simp_all add: assms(2))
  then have "waits_ok A (settle_ticket (qi_ticket item) (Refused e) (unlock s))" by (rule waits_settle) simp
  then show ?thesis unfolding drain_resumes_def Let_def by (rule waits_drain) simp_all
qed

lemma waits_consume: "waits_but A U s \<Longrightarrow> consume_reservation r s = Some (t, scope) \<Longrightarrow> waits_but A U t"
  by (erule waits_cong) (simp_all add: consume_keeps)

lemma waits_unlock_enqueue:
  assumes "waits_ok A s" "\<And>a item e. mg_lock s \<noteq> Some (Drain_Withdraws a item e)"
  shows "waits_ok A (unlock s)"
  by (rule waits_unlock [OF assms(1)]) (use assms(2) in blast)

lemma waits_idle_end:
  assumes "waits_ok A s" "\<And>a item e. mg_lock s \<noteq> Some (Drain_Withdraws a item e)"
    "mg_tickets s (qi_ticket item) = None" "qi_ticket item < mg_next s"
  shows "waits_ok A (enqueue_idle_end a item r works prepared s)"
proof -
  have s0: "waits_ok A (unlock s)" by (rule waits_unlock_enqueue [OF assms(1,2)])
  show ?thesis
  proof (cases "consume_reservation r (unlock s)")
    case None
    then show ?thesis using s0 by (simp add: enqueue_idle_end_def Let_def)
  next
    case (Some x)
    obtain s1 scope where x: "consume_reservation r (unlock s) = Some (s1, scope)" using Some by (cases x) simp
    note keeps = consume_keeps [OF x]
    have s1: "waits_ok A s1" by (rule waits_consume [OF s0 x])
    let ?t = "start_run a (Some (qi_id item)) (qi_admission item) s1"
    have "waits_ok A (?t\<lparr>mg_tickets := (mg_tickets ?t)(qi_ticket item \<mapsto> Got_Run (mg_next s1))\<rparr>)"
      by (rule waits_answer [OF waits_start [OF s1]]) (use keeps assms(3,4) in simp_all)
    then show ?thesis using s0 s1 x by (simp add: enqueue_idle_end_def Let_def split: option.split)
  qed
qed

lemma waits_busy_end:
  assumes "waits_ok A s" "\<And>a item e. mg_lock s \<noteq> Some (Drain_Withdraws a item e)"
    "mg_tickets s (qi_ticket item) = None" "qi_ticket item < mg_next s"
  shows "waits_ok A (enqueue_busy_end a item works s)"
proof -
  have "waits_ok A (unlock s)" by (rule waits_unlock_enqueue [OF assms(1,2)])
  then have s0: "waits_ok A ((unlock s)\<lparr>mg_pending := ps\<rparr>)" for ps by (rule waits_cong) simp_all
  show ?thesis
    using s0 [of "butlast (mg_pending s)"] waits_append [OF s0 [of "butlast (mg_pending s)"], of item a] assms(3,4)
    by (simp add: enqueue_busy_end_def Let_def)
qed

lemma waits_next: "waits_but A U s \<Longrightarrow> waits_but A U (s\<lparr>mg_next := Suc (mg_next s)\<rparr>)"
  by (erule waits_cong) simp_all

lemma waits_enqueue:
  assumes "waits_ok A s" "mg_lock s = None"
  shows "waits_ok A (fst (enqueue lm a item0 r persists verdict prepared s))"
proof -
  let ?item = "item0\<lparr>qi_ticket := mg_next s, qi_in_flight := False, qi_withdrawn := False, qi_scope := None\<rparr>"
  let ?s = "s\<lparr>mg_next := Suc (mg_next s)\<rparr>"
  have s: "waits_ok A ?s" "mg_lock ?s = None" using assms waits_next by simp_all
  have fresh: "mg_tickets ?s (mg_next s) = None" using assms(1) by (cases "mg_tickets s (mg_next s)") (auto simp: waits_but_def)
  show ?thesis
  proof (cases "mg_closed ?s \<or> refused ?s a (qi_admission ?item) verdict \<noteq> None")
    case True
    then show ?thesis using s(1) by (auto simp: enqueue_def Let_def)
  next
    case False
    show ?thesis
    proof (cases "active_run ?s a = None \<and> queue_of ?s a = []")
      case True
      have "waits_ok A (enqueue_idle_end a ?item r True prepared ?s)"
        by (rule waits_idle_end [OF s(1)]) (use s(2) fresh in simp_all)
      moreover have "waits_ok A (?s\<lparr>mg_lock := Some (Persist_Idle a ?item r)\<rparr>)"
        by (rule waits_take_lock [OF s]) (use fresh in \<open>auto simp: accepts_def\<close>)
      ultimately show ?thesis using False True by (simp add: enqueue_def Let_def)
    next
      case busy: False
      show ?thesis
      proof (cases "consume_reservation r ?s")
        case None
        then show ?thesis using False busy s(1) by (auto simp: enqueue_def Let_def)
      next
        case (Some x)
        obtain s1 scope where x: "consume_reservation r ?s = Some (s1, scope)" using Some by (cases x) simp
        note keeps = consume_keeps [OF x]
        let ?s2 = "s1\<lparr>mg_pending := mg_pending s1 @ [scope]\<rparr>"
        let ?w = "?item\<lparr>qi_scope := scope\<rparr>"
        have s1: "waits_ok A s1" by (rule waits_consume [OF s(1) x])
        then have s2: "waits_ok A ?s2" by (rule waits_cong) simp_all
        have "waits_ok A (enqueue_busy_end a ?w True ?s2)"
          by (rule waits_busy_end [OF s2]) (use keeps s(2) fresh in simp_all)
        moreover have "waits_ok A (?s2\<lparr>mg_lock := Some (Persist_Busy a ?w)\<rparr>)"
          by (rule waits_take_lock [OF s2]) (use keeps s(2) fresh in \<open>auto simp: accepts_def\<close>)
        ultimately show ?thesis using False busy x s1 by (auto simp: enqueue_def Let_def)
      qed
    qed
  qed
qed

lemma waits_locked:
  assumes "waits_ok A s"
  shows "mg_lock s = Some (Persist_Idle a item r) \<Longrightarrow> waits_ok A (enqueue_idle_end a item r works prepared s)"
    "mg_lock s = Some (Persist_Busy a item) \<Longrightarrow> waits_ok A (enqueue_busy_end a item works s)"
proof -
  show "waits_ok A (enqueue_idle_end a item r works prepared s)" if "mg_lock s = Some (Persist_Idle a item r)"
    by (rule waits_idle_end [OF assms]) (use that assms in \<open>simp_all add: waits_but_def accepts_def\<close>)
  show "waits_ok A (enqueue_busy_end a item works s)" if "mg_lock s = Some (Persist_Busy a item)"
    by (rule waits_busy_end [OF assms]) (use that assms in \<open>simp_all add: waits_but_def accepts_def\<close>)
qed

subsection \<open>Steering and shutting down\<close>

lemma waits_objects: "waits_but A U s \<Longrightarrow> waits_but A U (s\<lparr>mg_objects := os\<rparr>)"
  by (erule waits_cong) simp_all

lemma waits_deliveries: "waits_but A U s \<Longrightarrow> waits_but A U (s\<lparr>mg_deliveries := ds\<rparr>)"
  by (erule waits_cong) simp_all

lemma waits_cancel: "waits_but A U s \<Longrightarrow> waits_but A U (request_run_cancel awaits reason initiator i s)"
  by (simp add: request_run_cancel_def waits_objects split: option.split)

lemma waits_land: "waits_but A U s \<Longrightarrow> waits_but A U (land i r item works s)"
  by (simp add: land_def Let_def waits_change_item waits_settle waits_take_out waits_objects)

lemma waits_changed_delivery:
  "waits_but A U s \<Longrightarrow> waits_but A U (change_delivery i f s)" "waits_but A U s \<Longrightarrow> waits_but A U (end_delivery i s)"
  "waits_but A U s \<Longrightarrow> waits_but A U (begin_delivery i s)"
  by (simp_all add: change_delivery_def end_delivery_def begin_delivery_def waits_deliveries)

lemma waits_next_delivery: "waits_but A U s \<Longrightarrow> waits_but A U (next_delivery i a cancelled ts s)"
  by (induction i a cancelled ts s rule: next_delivery.induct)
    (simp_all add: waits_change_item waits_changed_delivery split: option.split)

lemma waits_append_ends: "waits_but A U s \<Longrightarrow> waits_but A U (append_ends d works s)"
  by (auto simp: append_ends_def Let_def waits_land waits_changed_delivery split: option.split)

lemma dropped_tickets:
  "mg_tickets (foldl (\<lambda>s (a, item). settle_ticket (qi_ticket item) Dropped s) s es) u =
     (if u \<in> (\<lambda>e. qi_ticket (snd e)) ` set es \<and> mg_tickets s u = Some Open_Ticket then Some Dropped else mg_tickets s u)"
  by (induction es arbitrary: s) (auto simp: settle_tickets split: prod.split)

lemma dropped_lock: "mg_lock (foldl (\<lambda>s (a, item). settle_ticket (qi_ticket item) Dropped s) s es) = mg_lock s"
  by (induction es arbitrary: s) (auto split: prod.split)

lemma queued_in_all: "t \<in> set (tickets_at s a) \<Longrightarrow> t \<in> (\<lambda>e. qi_ticket (snd e)) ` set (all_queued s)"
proof -
  assume "t \<in> set (tickets_at s a)"
  then obtain item where item: "t = qi_ticket item" "item \<in> set (queue_of s a)" by (auto simp: tickets_at_def)
  then obtain q where "map_of (mg_queues s) a = Some q" "item \<in> set q"
    by (cases "map_of (mg_queues s) a") (auto simp: queue_of_def)
  then have "(a, item) \<in> set (all_queued s)" by (auto simp: all_queued_def dest!: map_of_SomeD)
  then show ?thesis unfolding item(1) by (rule rev_image_eqI) simp
qed

lemma waits_close:
  assumes "waits_ok A s" "mg_lock s = None"
  shows "waits_ok A (aclose_runs awaits s)"
proof -
  let ?t = "foldl (\<lambda>s (a, item). settle_ticket (qi_ticket item) Dropped s) (s\<lparr>mg_closed := True\<rparr>) (all_queued s)"
  have "waits_ok A (s\<lparr>mg_closed := True\<rparr>)" by (rule waits_cong [OF assms(1)]) simp_all
  then have t: "waits_ok A ?t" by (rule waits_fold) (auto simp: waits_settled split: prod.split)
  have "mg_tickets ?t u \<noteq> Some Open_Ticket" for u
  proof
    assume "mg_tickets ?t u = Some Open_Ticket"
    then have u: "mg_tickets s u = Some Open_Ticket" "u \<notin> (\<lambda>e. qi_ticket (snd e)) ` set (all_queued s)"
      unfolding dropped_tickets by (simp_all split: if_splits)
    then have "placed s u" using assms(1) by (simp add: waits_but_def)
    then show False using u(2) queued_in_all assms(2) by (auto simp: placed_def)
  qed
  moreover have "accepts ?t = None" using assms(2) by (simp add: accepts_def dropped_lock)
  ultimately have "waits_ok A (?t\<lparr>mg_queues := [], mg_reserved := []\<rparr>)"
    using t by (simp add: waits_but_def tickets_at_def queue_of_def accepts_def)
  moreover have "waits_ok A (foldl (\<lambda>s i. request_run_cancel awaits (Some ''shutdown'') (Some ''shutdown'') i s) u is)"
    if "waits_ok A u" for u "is"
    using that by (rule waits_fold) (rule waits_cancel)
  ultimately show ?thesis using assms(1) by (simp add: aclose_runs_def Let_def)
qed

subsection \<open>Steps\<close>

lemma waits_called_start: "waits_ok A s \<Longrightarrow> waits_ok A (fst (start a am verdict prepared s))"
  by (simp add: start_def split: option.split)

lemma waits_reservations:
  assumes "waits_but A U s"
  shows "waits_but A U (fst (reserve_waiting_work lm scope k s))" "waits_but A U (fst (release_waiting_work i s))"
  by (rule waits_cong [OF assms]; simp add: reserve_waiting_work_def release_waiting_work_def)+

lemma waits_clear_many: "waits_ok A s \<Longrightarrow> mg_lock s = None \<Longrightarrow> waits_ok A (clear_queued_many as s)"
  by (simp add: clear_queued_many_def waits_cleared_loop split: list.split)

lemma waits_edits:
  assumes "waits_but A U s"
  shows "waits_but A U (fst (update_queued a k executor content editable s))" "waits_but A U (fst (steer_queued a k s))"
    "waits_but A U (abandon t s)" "waits_but A U (remove_abandoned a item s)" "waits_but A U (continue_delivery d s)"
  using assms
  by (simp_all add: update_queued_def steer_queued_def waits_change_item abandon_def waits_settled remove_abandoned_def
      waits_remove continue_delivery_def waits_next_delivery split: option.split)

lemma waits_guards:
  assumes "waits_but A U s"
  shows "waits_but A U (s\<lparr>mg_preparing := ps\<rparr>)" "waits_but A U (s\<lparr>mg_sessions := xs\<rparr>)" "waits_but A U (s\<lparr>mg_agents := ks\<rparr>)"
    "waits_but A U (s\<lparr>mg_projects := qs\<rparr>)" "waits_but A U (s\<lparr>mg_preparing := ps, mg_next := Suc (mg_next s)\<rparr>)"
    "waits_but A U (s\<lparr>mg_projects := qs, mg_preparing := ps\<rparr>)"
  by (rule waits_cong [OF assms]; simp)+

lemma waits_transitions:
  assumes "waits_but A U s"
  shows "waits_but A U (fst (prepare_admission agent project session s))"
    "waits_but A U (fst (bind_working_project i project s))"
    "waits_but A U (fst (bind_session i k s))"
    "waits_but A U (release_preparation i s)"
    "waits_but A U (fst (guard_sessions as s))"
    "waits_but A U (release_sessions as s)"
    "waits_but A U (fst (guard_agent key s))"
    "waits_but A U (release_agent key s)"
    "waits_but A U (fst (guard_project p s))"
    "waits_but A U (release_project p s)"
  by (simp_all add: prepare_admission_def Let_def bind_working_project_def bind_session_def change_preparation_def
      release_preparation_def guard_sessions_def release_sessions_def guard_agent_def release_agent_def guard_project_def
      release_project_def assms waits_guards [OF assms] split: option.split)

lemma waits_step: "mg_step lm True s t \<Longrightarrow> waits_ok A s \<Longrightarrow> waits_ok A t"
  by (induction rule: mg_step.induct)
    (simp_all add: waits_objects waits_called_start waits_enqueue waits_locked waits_reservations waits_remove waits_clear
      waits_clear_many waits_clear_resumes waits_edits waits_append_ends waits_changed_delivery waits_over waits_resumes
      waits_cancel waits_close waits_transitions)

interpretation waiting_input: preserving "mg_step lm True" "waits_ok A" for lm A
  by unfold_locales (rule waits_step)

lemma new_manager_waits: "waits_ok Map.empty new_manager"
  by (simp add: new_manager_def waits_but_def tickets_at_def queue_of_def accepts_def)

lemma waits_restore: "waits_ok A s \<Longrightarrow> mg_lock s = None \<Longrightarrow> waits_ok A (restore_queued_inputs inputs s)"
proof (induction inputs arbitrary: s)
  case (Cons input inputs)
  obtain a item0 where input: "input = (a, item0)" by (cases input)
  let ?item = "item0\<lparr>qi_ticket := mg_next s, qi_in_flight := False, qi_withdrawn := False\<rparr>"
  let ?s = "s\<lparr>mg_next := Suc (mg_next s)\<rparr>"
  have s: "waits_ok A ?s" "mg_lock ?s = None" using Cons.prems waits_next by simp_all
  have fresh: "mg_tickets ?s (mg_next s) = None" using Cons.prems(1) by (cases "mg_tickets s (mg_next s)") (auto simp: waits_but_def)
  show ?case
  proof (cases "active_run ?s a = None \<and> queue_of ?s a = []")
    case True
    let ?t = "start_run a (Some (qi_id ?item)) (qi_admission ?item) ?s"
    have "waits_ok A (?t\<lparr>mg_tickets := (mg_tickets ?t)(qi_ticket ?item \<mapsto> Got_Run (mg_next ?s))\<rparr>)"
      by (rule waits_answer [OF waits_start [OF s(1)]]) (use s(2) fresh in simp_all)
    then have "waits_ok A (restore_queued_inputs inputs
        (?t\<lparr>mg_tickets := (mg_tickets ?s)(qi_ticket ?item \<mapsto> Got_Run (mg_next ?s))\<rparr>))"
      by (intro Cons.IH) (use s(2) in simp_all)
    then show ?thesis unfolding input restore_queued_inputs.simps Let_def if_P [OF True] .
  next
    case False
    have "waits_ok A ((set_queue a (queue_of ?s a @ [?item]) ?s)\<lparr>mg_tickets := (mg_tickets ?s)(qi_ticket ?item \<mapsto> Open_Ticket)\<rparr>)"
      by (rule waits_append [OF s]) (use fresh in simp_all)
    then have "waits_ok A (restore_queued_inputs inputs
        ((set_queue a (queue_of ?s a @ [?item]) ?s)\<lparr>mg_tickets := (mg_tickets ?s)(qi_ticket ?item \<mapsto> Open_Ticket)\<rparr>))"
      by (rule Cons.IH) (use s(2) in simp_all)
    then show ?thesis unfolding input restore_queued_inputs.simps Let_def if_not_P [OF False] .
  qed
qed simp

end
