(* ===== verification/Run_Queue_Limit.thy ===== *)
theory Run_Queue_Limit
  imports Run_Queue_Facts
begin

section \<open>How much waits\<close>

text \<open>
  The invariant behind the limit of waiting work: a unit of it is a reservation, an input whose persistence is
  awaited, or a queued input, and an operation that turns one into another gives the first up.
\<close>

definition awaits_busy :: "manager \<Rightarrow> bool" where
  "awaits_busy s = (case mg_lock s of Some (Persist_Busy a item) \<Rightarrow> True | _ \<Rightarrow> False)"

definition limit_ok :: "nat \<Rightarrow> manager \<Rightarrow> bool" where
  "limit_ok bd s \<longleftrightarrow>
     distinct (map fst (mg_queues s)) \<and> waiting_work_count s \<le> bd
     \<and> length (mg_pending s) = (if awaits_busy s then 1 else 0)"

lemma limit_cong:
  assumes "limit_ok bd s" "mg_queues t = mg_queues s" "mg_pending t = mg_pending s" "awaits_busy t = awaits_busy s"
    "length (mg_reserved t) \<le> length (mg_reserved s)"
  shows "limit_ok bd t"
  using assms by (simp add: limit_ok_def waiting_work_count_def)

lemma busy_keeps [simp]:
  "awaits_busy (set_queue a q s) = awaits_busy s" "awaits_busy (settle_ticket t v s) = awaits_busy s"
  "awaits_busy (unlock s) = False" "awaits_busy (start_run a i am s) = awaits_busy s"
  by (simp_all add: awaits_busy_def)

lemma count_keeps [simp]:
  "waiting_work_count (settle_ticket t v s) = waiting_work_count s" "waiting_work_count (unlock s) = waiting_work_count s"
  "waiting_work_count (start_run a i am s) = waiting_work_count s"
  by (simp_all add: waiting_work_count_def)

lemma limit_changes [simp]:
  "limit_ok bd (settle_ticket t v s) = limit_ok bd s" "limit_ok bd (start_run a i am s) = limit_ok bd s"
  "limit_ok bd (s\<lparr>mg_tickets := ts\<rparr>) = limit_ok bd s" "limit_ok bd (s\<lparr>mg_deliveries := ds\<rparr>) = limit_ok bd s"
  "limit_ok bd (s\<lparr>mg_objects := os\<rparr>) = limit_ok bd s" "limit_ok bd (s\<lparr>mg_next := n\<rparr>) = limit_ok bd s"
  "limit_ok bd (s\<lparr>mg_preparing := ps\<rparr>) = limit_ok bd s" "limit_ok bd (s\<lparr>mg_sessions := xs\<rparr>) = limit_ok bd s"
  "limit_ok bd (s\<lparr>mg_agents := ks\<rparr>) = limit_ok bd s" "limit_ok bd (s\<lparr>mg_projects := qs\<rparr>) = limit_ok bd s"
  "limit_ok bd (s\<lparr>mg_active := as\<rparr>) = limit_ok bd s" "limit_ok bd (s\<lparr>mg_closed := b\<rparr>) = limit_ok bd s"
  "limit_ok bd (prune_terminal_runs lm' s) = limit_ok bd s"
  by (simp_all add: limit_ok_def waiting_work_count_def awaits_busy_def prune_terminal_runs_def Let_def)

lemma limit_queue:
  assumes "limit_ok bd s" "length q \<le> length (queue_of s a)"
  shows "limit_ok bd (set_queue a q s)"
proof -
  have d: "distinct (map fst (mg_queues s))" using assms(1) by (simp add: limit_ok_def)
  then have "distinct (map fst (mg_queues (set_queue a q s)))" by (simp add: set_queue_def upd_distinct del_distinct)
  moreover have "waiting_work_count (set_queue a q s) \<le> waiting_work_count s" using count_set_queue [OF d, of a q] assms(2) by simp
  ultimately show ?thesis using assms(1) by (simp add: limit_ok_def)
qed

lemma limit_unlock: "limit_ok bd s \<Longrightarrow> \<not> awaits_busy s \<Longrightarrow> limit_ok bd (unlock s)"
  by (erule limit_cong) simp_all

lemma limit_change_item: "limit_ok bd s \<Longrightarrow> limit_ok bd (change_item a t f s)"
  unfolding change_item_def by (rule limit_queue) simp_all

lemma limit_take_out: "limit_ok bd s \<Longrightarrow> limit_ok bd (take_out a t s)"
  unfolding take_out_def by (rule limit_queue) simp_all

lemma limit_remove: "limit_ok bd s \<Longrightarrow> limit_ok bd (fst (remove_queued a k s))"
  by (simp add: remove_queued_def limit_take_out split: option.split)

lemma limit_withdraw: "limit_ok bd s \<Longrightarrow> limit_ok bd (fst (withdraw_item a item s))"
  by (simp add: withdraw_item_def limit_change_item limit_remove)

lemma limit_fold: "limit_ok bd s \<Longrightarrow> (\<And>s x. limit_ok bd s \<Longrightarrow> limit_ok bd (f s x)) \<Longrightarrow> limit_ok bd (foldl f s xs)"
  by (induction xs arbitrary: s) simp_all

lemma limit_clear: "limit_ok bd s \<Longrightarrow> limit_ok bd (clear_queued a s)"
  unfolding clear_queued_def by (rule limit_fold) (simp_all add: limit_withdraw)

lemma withdraw_busy [simp]: "awaits_busy (fst (withdraw_item a item s)) = awaits_busy s"
  by (simp add: withdraw_item_def change_item_def remove_queued_def take_out_def split: option.split)

lemma limit_cleared_loop: "limit_ok bd s \<Longrightarrow> \<not> awaits_busy s \<Longrightarrow> limit_ok bd (clear_loop a items bs s)"
proof (induction a items bs s rule: clear_loop.induct)
  case (3 a item items bs s)
  have "limit_ok bd (s\<lparr>mg_lock := Some (Clear_Withdraws a item items bs)\<rparr>)"
    by (rule limit_cong [OF "3.prems"(1)]) (use "3.prems"(2) in \<open>simp_all add: awaits_busy_def\<close>)
  then show ?case using "3.IH" "3.prems" by (simp add: limit_withdraw)
qed (simp_all add: limit_unlock)

lemma limit_clear_resumes:
  "limit_ok bd s \<Longrightarrow> mg_lock s = Some (Clear_Withdraws a item items bs) \<Longrightarrow> limit_ok bd (clear_resumes a item items bs works s)"
proof -
  assume s: "limit_ok bd s" "mg_lock s = Some (Clear_Withdraws a item items bs)"
  then have "limit_ok bd (unlock s)" by (intro limit_unlock) (simp_all add: awaits_busy_def)
  then show ?thesis by (simp add: clear_resumes_def limit_cleared_loop limit_withdraw)
qed

lemma limit_drain:
  "limit_ok bd s \<Longrightarrow> mg_lock s = None \<Longrightarrow> queue_of s a = q \<Longrightarrow> limit_ok bd (drain_loop verdict a q s)"
proof (induction q arbitrary: s)
  case Nil
  then show ?case by (simp add: drain_loop.simps limit_queue)
next
  case (Cons item q)
  let ?s = "set_queue a q s"
  have s: "limit_ok bd ?s" "mg_lock ?s = None" "queue_of ?s a = q"
    using Cons.prems by (simp_all add: limit_queue)
  have l: "limit_ok bd (?s\<lparr>mg_lock := Some (Drain_Withdraws a item e)\<rparr>)" for e
    by (rule limit_cong [OF s(1)]) (use s(2) in \<open>simp_all add: awaits_busy_def\<close>)
  note rounds = drain_rounds [OF Cons.prems(2) refl, of a q item verdict]
  consider "forgotten ?s item" | "\<not> forgotten ?s item" "refused ?s a (qi_admission item) (verdict item) = None"
    | e where "\<not> forgotten ?s item" "refused ?s a (qi_admission item) (verdict item) = Some e" "am_input (qi_admission item) \<noteq> None"
    | e where "\<not> forgotten ?s item" "refused ?s a (qi_admission item) (verdict item) = Some e" "am_input (qi_admission item) = None"
    by fastforce
  then show ?case
  proof cases
    case 1
    show ?thesis unfolding rounds(1) [OF 1] by (rule Cons.IH [OF s])
  next
    case 2
    show ?thesis unfolding rounds(2) [OF 2] using s(1) by simp
  next
    case 3
    show ?thesis unfolding rounds(3) [OF 3] by (rule l)
  next
    case (4 e)
    show ?thesis unfolding rounds(4) [OF 4] by (rule Cons.IH) (use s in simp_all)
  qed
qed

lemma limit_drain_next:
  assumes "limit_ok bd s" "mg_lock s = None"
  shows "limit_ok bd (drain_next verdict a s)"
proof -
  have "length (filter (\<lambda>i. \<not> qi_steering i) q) + length (filter qi_steering q) = length q" for q
    by (induction q) simp_all
  then have len: "length (steering_first q) = length q" for q by (simp add: steering_first_def add.commute)
  have "limit_ok bd (foldl (\<lambda>s item. settle_ticket (qi_ticket item) Dropped s) s (queue_of s a))"
    using assms(1) by (rule limit_fold) simp
  then have "limit_ok bd (set_queue a [] (foldl (\<lambda>s item. settle_ticket (qi_ticket item) Dropped s) s (queue_of s a)))"
    by (rule limit_queue) simp
  moreover have "limit_ok bd (drain_loop verdict a (steering_first (queue_of s a)) (set_queue a (steering_first (queue_of s a)) s))"
    by (rule limit_drain) (simp_all add: assms limit_queue len)
  ultimately show ?thesis using assms(1) by (simp add: drain_next_def)
qed

lemma limit_over:
  assumes "limit_ok bd s" "mg_lock s = None"
  shows "limit_ok bd (run_over lm' verdict i r s)"
proof -
  have "limit_ok bd (s\<lparr>mg_objects := os, mg_active := as\<rparr>)" for os as by (rule limit_cong [OF assms(1)]) (simp_all add: awaits_busy_def)
  then show ?thesis unfolding run_over_def Let_def by (intro limit_drain_next) (simp_all add: assms(2))
qed

lemma limit_resumes:
  assumes "limit_ok bd s" "mg_lock s = Some (Drain_Withdraws a item e)"
  shows "limit_ok bd (drain_resumes verdict a item e s)"
proof -
  have "limit_ok bd (unlock s)" using assms by (intro limit_unlock) (simp_all add: awaits_busy_def)
  then show ?thesis unfolding drain_resumes_def Let_def by (intro limit_drain) simp_all
qed

subsection \<open>Enqueuing\<close>

lemma del_shorter: "map_of es k = Some v \<Longrightarrow> length (del k es) < length es"
proof -
  assume "map_of es k = Some v"
  then have "(k, v) \<in> set es" by (rule map_of_SomeD)
  then show ?thesis unfolding del_def by (intro length_filter_less) auto
qed

lemma del_length: "length (del k es) \<le> length es"
  by (simp add: del_def)

lemma limit_unreserve: "limit_ok bd s \<Longrightarrow> limit_ok bd (s\<lparr>mg_reserved := del i (mg_reserved s)\<rparr>)"
  by (erule limit_cong) (simp_all add: del_length awaits_busy_def)

lemma limit_consume: "limit_ok bd s \<Longrightarrow> consume_reservation r s = Some (t, scope) \<Longrightarrow> limit_ok bd t"
  by (erule consume_cases) (auto simp: limit_unreserve)

lemma limit_reserve: "limit_ok bd s \<Longrightarrow> lm_waiting lm \<le> bd \<Longrightarrow> limit_ok bd (fst (reserve_waiting_work lm scope k s))"
proof -
  assume s: "limit_ok bd s" and lm: "lm_waiting lm \<le> bd"
  have "limit_ok bd (s\<lparr>mg_reserved := mg_reserved s @ [(mg_next s, scope)], mg_next := Suc (mg_next s)\<rparr>)"
    if "waiting_work_count s < lm_waiting lm"
    using s that lm by (simp add: limit_ok_def waiting_work_count_def awaits_busy_def)
  then show ?thesis using s by (simp add: reserve_waiting_work_def)
qed

lemma limit_release: "limit_ok bd s \<Longrightarrow> limit_ok bd (fst (release_waiting_work i s))"
  by (simp add: release_waiting_work_def limit_unreserve)

lemma limit_idle_end: "limit_ok bd s \<Longrightarrow> \<not> awaits_busy s \<Longrightarrow> limit_ok bd (enqueue_idle_end a item r works prepared s)"
  using limit_consume [OF limit_unlock, of bd s r]
  by (auto simp: enqueue_idle_end_def Let_def limit_unlock split: option.split)

text \<open>An input whose persistence is awaited counts already.\<close>

lemma limit_busy_end:
  assumes "distinct (map fst (mg_queues s))" "waiting_work_count s \<le> bd" "length (mg_pending s) = 1"
  shows "limit_ok bd (enqueue_busy_end a item works s)"
proof -
  let ?s = "(unlock s)\<lparr>mg_pending := butlast (mg_pending s)\<rparr>"
  have c: "Suc (waiting_work_count ?s) = waiting_work_count s" using assms(3) by (simp add: waiting_work_count_def)
  have s: "limit_ok bd ?s" using assms c by (simp add: limit_ok_def awaits_busy_def)
  have d: "distinct (map fst (mg_queues ?s))" using assms(1) by simp
  let ?t = "set_queue a (queue_of ?s a @ [item]) ?s"
  have "distinct (map fst (mg_queues ?t))" using d by (simp add: set_queue_def upd_distinct)
  moreover have "waiting_work_count ?t \<le> bd" using count_set_queue [OF d, of a "queue_of ?s a @ [item]"] c assms(2) by simp
  ultimately have "limit_ok bd ?t" using assms(3) by (simp add: limit_ok_def awaits_busy_def)
  then show ?thesis using s by (simp add: enqueue_busy_end_def Let_def)
qed

lemma limit_enqueue:
  assumes "limit_ok bd s" "mg_lock s = None" "lm_waiting lm \<le> bd"
  shows "limit_ok bd (fst (enqueue lm a item0 r persists verdict prepared s))"
proof -
  let ?item = "item0\<lparr>qi_ticket := mg_next s, qi_in_flight := False, qi_withdrawn := False, qi_scope := None\<rparr>"
  let ?s = "s\<lparr>mg_next := Suc (mg_next s)\<rparr>"
  have s: "limit_ok bd ?s" "mg_lock ?s = None" using assms by simp_all
  have idle: "\<not> awaits_busy ?s" using s(2) by (simp add: awaits_busy_def)
  show ?thesis
  proof (cases "mg_closed ?s \<or> refused ?s a (qi_admission ?item) verdict \<noteq> None")
    case True
    then show ?thesis using s(1) by (auto simp: enqueue_def Let_def)
  next
    case False
    show ?thesis
    proof (cases "active_run ?s a = None \<and> queue_of ?s a = []")
      case True
      have "limit_ok bd (enqueue_idle_end a ?item r True prepared ?s)" by (rule limit_idle_end [OF s(1) idle])
      moreover have "limit_ok bd (?s\<lparr>mg_lock := Some (Persist_Idle a ?item r)\<rparr>)"
        by (rule limit_cong [OF s(1)]) (use s(2) in \<open>simp_all add: awaits_busy_def\<close>)
      ultimately show ?thesis using False True by (simp add: enqueue_def Let_def)
    next
      case busy: False
      show ?thesis
      proof (cases "consume_reservation r ?s")
        case None
        then show ?thesis using False busy s(1) by (auto simp: enqueue_def Let_def)
      next
        case (Some x)
        obtain s1 scope where x: "consume_reservation r ?s = Some (s1, scope)" using Some by (cases x) simp
        note keeps = consume_keeps [OF x]
        have s1: "limit_ok bd s1" by (rule limit_consume [OF s(1) x])
        have idle1: "\<not> awaits_busy s1" using keeps(3) s(2) by (simp add: awaits_busy_def)
        show ?thesis
        proof (cases "scope = None \<and> lm_waiting lm \<le> waiting_work_count s1")
          case True
          then show ?thesis using False busy x s1 by (auto simp: enqueue_def Let_def)
        next
          case free: False
          let ?s2 = "s1\<lparr>mg_pending := mg_pending s1 @ [scope]\<rparr>"
          let ?w = "?item\<lparr>qi_scope := scope\<rparr>"
          have "waiting_work_count s1 < bd"
          proof (cases scope)
            case None
            then show ?thesis using free assms(3) by simp
          next
            case (Some c)
            then obtain i where i: "map_of (mg_reserved ?s) i = Some c" "s1 = ?s\<lparr>mg_reserved := del i (mg_reserved ?s)\<rparr>"
              using x by (auto elim: consume_cases)
            then have "waiting_work_count s1 < waiting_work_count ?s"
              using del_shorter [OF i(1)] by (simp add: waiting_work_count_def)
            then show ?thesis using s(1) by (simp add: limit_ok_def)
          qed
          then have c: "waiting_work_count ?s2 \<le> bd" by (simp add: waiting_work_count_def)
          have d: "distinct (map fst (mg_queues ?s2))" and p: "length (mg_pending ?s2) = 1"
            using s1 idle1 by (simp_all add: limit_ok_def)
          have "limit_ok bd (enqueue_busy_end a ?w True ?s2)" by (rule limit_busy_end [OF d c p])
          moreover have "limit_ok bd (?s2\<lparr>mg_lock := Some (Persist_Busy a ?w)\<rparr>)"
            using d c p by (simp add: limit_ok_def awaits_busy_def waiting_work_count_def)
          ultimately show ?thesis using False busy x free by (auto simp: enqueue_def Let_def)
        qed
      qed
    qed
  qed
qed

lemma limit_locked:
  assumes "limit_ok bd s"
  shows "mg_lock s = Some (Persist_Idle a item r) \<Longrightarrow> limit_ok bd (enqueue_idle_end a item r works prepared s)"
    "mg_lock s = Some (Persist_Busy a item) \<Longrightarrow> limit_ok bd (enqueue_busy_end a item works s)"
proof -
  show "limit_ok bd (enqueue_idle_end a item r works prepared s)" if "mg_lock s = Some (Persist_Idle a item r)"
    using assms that by (intro limit_idle_end) (simp_all add: awaits_busy_def)
  show "limit_ok bd (enqueue_busy_end a item works s)" if "mg_lock s = Some (Persist_Busy a item)"
    using assms that by (intro limit_busy_end) (simp_all add: awaits_busy_def limit_ok_def)
qed

subsection \<open>Steps\<close>

lemma limit_cancel: "limit_ok bd s \<Longrightarrow> limit_ok bd (request_run_cancel awaits reason initiator i s)"
  by (simp add: request_run_cancel_def split: option.split)

lemma limit_changed_delivery [simp]:
  "limit_ok bd (change_delivery i f s) = limit_ok bd s" "limit_ok bd (end_delivery i s) = limit_ok bd s"
  "limit_ok bd (begin_delivery i s) = limit_ok bd s"
  by (simp_all add: change_delivery_def end_delivery_def begin_delivery_def)

lemma limit_next_delivery: "limit_ok bd s \<Longrightarrow> limit_ok bd (next_delivery i a cancelled ts s)"
  by (induction i a cancelled ts s rule: next_delivery.induct) (simp_all add: limit_change_item split: option.split)

lemma limit_append_ends: "limit_ok bd s \<Longrightarrow> limit_ok bd (append_ends d works s)"
  by (auto simp: append_ends_def land_def Let_def limit_take_out limit_change_item split: option.split)

lemma limit_close:
  assumes "limit_ok bd s" "mg_lock s = None"
  shows "limit_ok bd (aclose_runs awaits s)"
proof -
  let ?t = "foldl (\<lambda>s (a, item). settle_ticket (qi_ticket item) Dropped s) (s\<lparr>mg_closed := True\<rparr>) (all_queued s)"
  have "limit_ok bd ?t" by (rule limit_fold) (use assms(1) in \<open>auto split: prod.split\<close>)
  then have "limit_ok bd (?t\<lparr>mg_queues := [], mg_reserved := []\<rparr>)"
    by (simp add: limit_ok_def waiting_work_count_def awaits_busy_def)
  moreover have "limit_ok bd (foldl (\<lambda>s i. request_run_cancel awaits (Some ''shutdown'') (Some ''shutdown'') i s) u is)"
    if "limit_ok bd u" for u "is"
    using that by (rule limit_fold) (rule limit_cancel)
  ultimately show ?thesis using assms(1) by (simp add: aclose_runs_def Let_def)
qed

lemma limit_others:
  assumes "limit_ok bd s"
  shows "limit_ok bd (fst (start a am verdict prepared s))" "limit_ok bd (fst (update_queued a k executor content editable s))"
    "limit_ok bd (fst (steer_queued a k s))" "limit_ok bd (abandon t s)" "limit_ok bd (remove_abandoned a item s)"
    "limit_ok bd (continue_delivery d s)"
  using assms
  by (simp_all add: start_def update_queued_def steer_queued_def limit_change_item abandon_def remove_abandoned_def
      limit_remove continue_delivery_def limit_next_delivery split: option.split)

lemma limit_transitions:
  assumes "limit_ok bd s"
  shows "limit_ok bd (fst (prepare_admission agent project session s))"
    "limit_ok bd (fst (bind_working_project i project s))" "limit_ok bd (fst (bind_session i k s))"
    "limit_ok bd (release_preparation i s)" "limit_ok bd (fst (guard_sessions as s))"
    "limit_ok bd (release_sessions as s)" "limit_ok bd (fst (guard_agent key s))" "limit_ok bd (release_agent key s)"
    "limit_ok bd (fst (guard_project p s))" "limit_ok bd (release_project p s)"
proof -
  have two: "limit_ok bd (s\<lparr>mg_preparing := ps, mg_next := n\<rparr>)" "limit_ok bd (s\<lparr>mg_projects := qs, mg_preparing := ps\<rparr>)" for ps n qs
    by (rule limit_cong [OF assms]; simp add: awaits_busy_def)+
  show "limit_ok bd (fst (prepare_admission agent project session s))"
    "limit_ok bd (fst (bind_working_project i project s))" "limit_ok bd (fst (bind_session i k s))"
    "limit_ok bd (release_preparation i s)" "limit_ok bd (fst (guard_sessions as s))"
    "limit_ok bd (release_sessions as s)" "limit_ok bd (fst (guard_agent key s))" "limit_ok bd (release_agent key s)"
    "limit_ok bd (fst (guard_project p s))" "limit_ok bd (release_project p s)"
    by (simp_all add: prepare_admission_def Let_def bind_working_project_def bind_session_def change_preparation_def
        release_preparation_def guard_sessions_def release_sessions_def guard_agent_def release_agent_def guard_project_def
        release_project_def assms two split: option.split)
qed

lemma limit_clear_many: "limit_ok bd s \<Longrightarrow> mg_lock s = None \<Longrightarrow> limit_ok bd (clear_queued_many as s)"
  by (simp add: clear_queued_many_def limit_cleared_loop awaits_busy_def split: list.split)

lemma limit_step: "mg_step lm reliable s t \<Longrightarrow> lm_waiting lm \<le> bd \<and> limit_ok bd s \<Longrightarrow> lm_waiting lm \<le> bd \<and> limit_ok bd t"
proof (induction rule: mg_step.induct)
  case withdrawal_fails
  then show ?case by (simp add: limit_unlock awaits_busy_def)
qed (simp_all add: limit_enqueue limit_locked limit_reserve limit_release limit_remove limit_clear limit_clear_many
    limit_clear_resumes limit_append_ends limit_over limit_resumes limit_cancel limit_close limit_others limit_transitions)

interpretation waiting_work: preserving "mg_step lm reliable" "\<lambda>s. lm_waiting lm \<le> bd \<and> limit_ok bd s" for lm reliable bd
  by unfold_locales (rule limit_step)

lemma limit_raise: "limit_ok bd s \<Longrightarrow> waiting_work_count s \<le> bd' \<Longrightarrow> limit_ok bd' s"
  by (simp add: limit_ok_def)

text \<open>A restart restores any number of inputs.\<close>

lemma new_manager_limit: "limit_ok bd new_manager"
  by (simp add: new_manager_def limit_ok_def waiting_work_count_def awaits_busy_def)

lemma limit_restore:
  "limit_ok bd s \<Longrightarrow> mg_lock s = None \<Longrightarrow> limit_ok (bd + length inputs) (restore_queued_inputs inputs s)"
proof (induction inputs arbitrary: s bd)
  case (Cons input inputs)
  obtain a item0 where input: "input = (a, item0)" by (cases input)
  let ?item = "item0\<lparr>qi_ticket := mg_next s, qi_in_flight := False, qi_withdrawn := False\<rparr>"
  let ?s = "s\<lparr>mg_next := Suc (mg_next s)\<rparr>"
  have s: "limit_ok bd ?s" "mg_lock ?s = None" using Cons.prems by simp_all
  let ?t = "if active_run ?s a = None \<and> queue_of ?s a = []
     then (start_run a (Some (qi_id ?item)) (qi_admission ?item) ?s)\<lparr>mg_tickets := (mg_tickets ?s)(qi_ticket ?item \<mapsto> Got_Run (mg_next ?s))\<rparr>
     else (set_queue a (queue_of ?s a @ [?item]) ?s)\<lparr>mg_tickets := (mg_tickets ?s)(qi_ticket ?item \<mapsto> Open_Ticket)\<rparr>"
  have d: "distinct (map fst (mg_queues ?s))" using s(1) by (simp add: limit_ok_def)
  have "distinct (map fst (mg_queues (set_queue a (queue_of ?s a @ [?item]) ?s)))" using d by (simp add: set_queue_def upd_distinct)
  moreover have "waiting_work_count (set_queue a (queue_of ?s a @ [?item]) ?s) \<le> Suc bd"
    using count_set_queue [OF d, of a "queue_of ?s a @ [?item]"] s(1) by (simp add: limit_ok_def)
  ultimately have "limit_ok (Suc bd) (set_queue a (queue_of ?s a @ [?item]) ?s)"
    using s by (simp add: limit_ok_def awaits_busy_def)
  moreover have "limit_ok (Suc bd) ?s" using s(1) by (simp add: limit_ok_def)
  ultimately have "limit_ok (Suc bd) ?t" by simp
  moreover have "mg_lock ?t = None" using s(2) by simp
  ultimately have "limit_ok (Suc bd + length inputs) (restore_queued_inputs inputs ?t)" by (rule Cons.IH)
  then show ?case by (simp add: input Let_def)
qed simp

end
