(* ===== verification/Run_Queue_Properties.thy ===== *)
theory Run_Queue_Properties
  imports Run_Queue_Waiting Run_Queue_Limit
begin

section \<open>Properties of the Run manager\<close>

text \<open>
  What its callers rely on, in every reachable state: one living Run for a Session, guards that keep work out,
  queued input that is served in its turn and never lost, and the limit of waiting work. A manager starts
  with what a restart restores. The last property shows what a failing withdrawal does to a queue.
\<close>

subsection \<open>Reachable states\<close>

abbreviation mg_reached :: "run_limits \<Rightarrow> bool \<Rightarrow> (address \<times> queued) list \<Rightarrow> manager \<Rightarrow> bool" where
  "mg_reached lm reliable inputs \<equiv> (mg_step lm reliable)\<^sup>*\<^sup>* (restore_queued_inputs inputs new_manager)"

lemma core_weaken: "core_but True None s \<Longrightarrow> core_but reliable None s"
  by (cases reliable) (auto simp: core_but_def lock_ok_def split: option.splits holder.splits)

lemma reached_core:
  assumes "mg_reached lm reliable inputs s"
  shows "core_ok reliable s"
proof -
  have "core_ok True (restore_queued_inputs inputs new_manager)"
    by (rule core_restore [OF new_manager_ok]) (simp_all add: new_manager_def)
  then have "core_ok reliable (restore_queued_inputs inputs new_manager)" by (rule core_weaken)
  then show ?thesis by (rule run_manager.steps_ok [OF assms])
qed

lemma reached_waits:
  assumes "mg_reached lm True inputs s"
  shows "waits_ok Map.empty s"
proof -
  have "waits_ok Map.empty (restore_queued_inputs inputs new_manager)"
    by (rule waits_restore [OF new_manager_waits]) (simp add: new_manager_def)
  then show ?thesis by (rule waiting_input.steps_ok [OF assms])
qed

subsection \<open>The drain of a queue\<close>

lemma drain_result:
  assumes "mg_lock s = None" "runs_ok s"
  shows "queue_of (drain_loop verdict a q s) a = []
    \<or> (length (queue_of (drain_loop verdict a q s) a) < length q
       \<and> (active_run (drain_loop verdict a q s) a \<noteq> None \<or> drains (drain_loop verdict a q s) a))"
  using assms
proof (induction q arbitrary: s)
  case Nil
  then show ?case by (simp add: drain_loop.simps)
next
  case (Cons item q)
  let ?s = "set_queue a q s"
  have ok: "runs_ok ?s" by (rule same_runs_ok [OF _ Cons.prems(2)]) simp
  have settled: "runs_ok (settle_ticket t v ?s)" for t v by (rule same_runs_ok [OF _ Cons.prems(2)]) simp
  note rounds = drain_rounds [OF Cons.prems(1) refl, of a q item verdict]
  consider "forgotten ?s item" | "\<not> forgotten ?s item" "refused ?s a (qi_admission item) (verdict item) = None"
    | e where "\<not> forgotten ?s item" "refused ?s a (qi_admission item) (verdict item) = Some e" "am_input (qi_admission item) \<noteq> None"
    | e where "\<not> forgotten ?s item" "refused ?s a (qi_admission item) (verdict item) = Some e" "am_input (qi_admission item) = None"
    by fastforce
  then show ?case
  proof cases
    case 1
    show ?thesis unfolding rounds(1) [OF 1] using Cons.IH [of ?s] ok Cons.prems(1) by auto
  next
    case 2
    show ?thesis unfolding rounds(2) [OF 2] by (simp add: active_run_start [OF ok])
  next
    case 3
    show ?thesis unfolding rounds(3) [OF 3] by (simp add: drains_def)
  next
    case (4 e)
    show ?thesis unfolding rounds(4) [OF 4]
      using Cons.IH [of "settle_ticket (qi_ticket item) (Refused e) ?s"] settled Cons.prems(1) by auto
  qed
qed

lemma steering_first_length [simp]: "length (steering_first q) = length q"
  by (induction q) (simp_all add: steering_first_def)

lemma drain_next_result:
  assumes "mg_lock s = None" "runs_ok s" "queue_of s a \<noteq> []" "active_run s a = None"
  shows "length (queue_of (drain_next verdict a s) a) < length (queue_of s a)
    \<and> (queue_of (drain_next verdict a s) a = [] \<or> active_run (drain_next verdict a s) a \<noteq> None \<or> drains (drain_next verdict a s) a)"
proof (cases "mg_closed s")
  case True
  then show ?thesis using assms(3) by (simp add: drain_next_def)
next
  case False
  let ?q = "steering_first (queue_of s a)"
  have "runs_ok (set_queue a ?q s)" by (rule same_runs_ok [OF _ assms(2)]) simp
  then show ?thesis
    using drain_result [of "set_queue a ?q s" verdict a ?q] assms False by (auto simp: drain_next_def)
qed

lemma drain_opens_nothing:
  "mg_lock s = None \<Longrightarrow> mg_tickets (drain_loop verdict a q s) u = Some Open_Ticket \<Longrightarrow> mg_tickets s u = Some Open_Ticket"
proof (induction q arbitrary: s)
  case Nil
  then show ?case by (simp add: drain_loop.simps)
next
  case (Cons item q)
  let ?s = "set_queue a q s"
  note rounds = drain_rounds [OF Cons.prems(1) refl, of a q item verdict]
  consider "forgotten ?s item" | "\<not> forgotten ?s item" "refused ?s a (qi_admission item) (verdict item) = None"
    | e where "\<not> forgotten ?s item" "refused ?s a (qi_admission item) (verdict item) = Some e" "am_input (qi_admission item) \<noteq> None"
    | e where "\<not> forgotten ?s item" "refused ?s a (qi_admission item) (verdict item) = Some e" "am_input (qi_admission item) = None"
    by fastforce
  then show ?case
  proof cases
    case 1
    show ?thesis using Cons.prems(2) Cons.IH [of ?s] Cons.prems(1) unfolding rounds(1) [OF 1] by simp
  next
    case 2
    show ?thesis using Cons.prems(2) unfolding rounds(2) [OF 2] by (simp add: settle_tickets split: if_splits)
  next
    case 3
    show ?thesis using Cons.prems(2) unfolding rounds(3) [OF 3] by simp
  next
    case (4 e)
    show ?thesis
      using Cons.prems(2) Cons.IH [of "settle_ticket (qi_ticket item) (Refused e) ?s"] Cons.prems(1)
      unfolding rounds(4) [OF 4] by (simp add: settle_tickets split: if_splits)
  qed
qed

text \<open>An input that the drain passes over.\<close>

definition passed_over :: "(queued \<Rightarrow> start_error option) \<Rightarrow> address \<Rightarrow> manager \<Rightarrow> queued \<Rightarrow> bool" where
  "passed_over verdict a s item \<longleftrightarrow>
     am_input (qi_admission item) = None
     \<and> (ticket_done s (qi_ticket item) \<or> refused s a (qi_admission item) (verdict item) \<noteq> None)"

lemma passed_over_settle [simp]:
  "qi_ticket item \<noteq> t \<Longrightarrow> passed_over verdict a (settle_ticket t v s) item = passed_over verdict a s item"
  "passed_over verdict a (set_queue b q s) item = passed_over verdict a s item"
  by (simp_all add: passed_over_def ticket_done_def refused_def settle_tickets)

lemma drain_turn:
  assumes "mg_lock s = None" "runs_ok s" "distinct (map qi_ticket (pre @ item # rest))"
    "\<And>x. x \<in> set pre \<Longrightarrow> passed_over verdict a s x"
    "\<not> forgotten s item" "refused s a (qi_admission item) (verdict item) = None"
  defines "t \<equiv> drain_loop verdict a (pre @ item # rest) s"
  shows "queue_of t a = rest" "active_run t a = Some (mg_next s)"
    "map_option (\<lambda>r. (sr_live r, sr_item r, sr_working r)) (mg_objects t (mg_next s)) =
       Some ((new_run (mg_next s) (am_kind (qi_admission item)) (am_activity (qi_admission item)), None),
             Some (qi_id item), am_working (qi_admission item))"
    "mg_tickets s (qi_ticket item) = Some Open_Ticket \<Longrightarrow> mg_tickets t (qi_ticket item) = Some (Got_Run (mg_next s))"
    "x \<in> set pre \<Longrightarrow> mg_tickets t (qi_ticket x) \<noteq> Some Open_Ticket"
proof -
  have "queue_of t a = rest \<and> active_run t a = Some (mg_next s)
      \<and> map_option (\<lambda>r. (sr_live r, sr_item r, sr_working r)) (mg_objects t (mg_next s)) =
         Some ((new_run (mg_next s) (am_kind (qi_admission item)) (am_activity (qi_admission item)), None),
               Some (qi_id item), am_working (qi_admission item))
      \<and> (mg_tickets s (qi_ticket item) = Some Open_Ticket \<longrightarrow> mg_tickets t (qi_ticket item) = Some (Got_Run (mg_next s)))
      \<and> (\<forall>x \<in> set pre. mg_tickets t (qi_ticket x) \<noteq> Some Open_Ticket)"
    using assms(1-6) unfolding t_def
  proof (induction pre arbitrary: s)
    case Nil
    let ?s = "set_queue a rest s"
    have ok: "runs_ok ?s" by (rule same_runs_ok [OF _ Nil.prems(2)]) simp
    have f: "\<not> forgotten ?s item" using Nil.prems(5) by (simp add: forgotten_def ticket_done_def)
    have n: "refused ?s a (qi_admission item) (verdict item) = None" using Nil.prems(6) by (simp add: refused_def)
    note round = drain_rounds(2) [OF Nil.prems(1) refl, of a rest item verdict, OF f n]
    show ?case
      unfolding append_Nil round
      by (simp add: active_run_start [OF ok] settle_tickets) (simp add: start_run_def Let_def)
  next
    case (Cons y pre)
    let ?q = "pre @ item # rest"
    let ?s = "set_queue a ?q s"
    note rounds = drain_rounds [OF Cons.prems(1) refl, of a ?q y verdict]
    have y: "passed_over verdict a s y" using Cons.prems(4) by simp
    have new: "qi_ticket item \<noteq> qi_ticket y" "x \<in> set pre \<Longrightarrow> qi_ticket x \<noteq> qi_ticket y" for x
      using Cons.prems(3) by (auto simp: image_iff)
    obtain u where u: "drain_loop verdict a (y # ?q) s = drain_loop verdict a ?q u" "mg_tickets u (qi_ticket y) \<noteq> Some Open_Ticket"
      "u = ?s \<or> (\<exists>v. u = settle_ticket (qi_ticket y) v ?s)"
    proof (cases "forgotten ?s y")
      case True
      then have "mg_tickets ?s (qi_ticket y) \<noteq> Some Open_Ticket" unfolding forgotten_def ticket_done_def by blast
      then show ?thesis by (rule that [OF rounds(1) [OF True]]) blast
    next
      case False
      then obtain e where e: "refused ?s a (qi_admission y) (verdict y) = Some e" "am_input (qi_admission y) = None"
        using y by (auto simp: passed_over_def forgotten_def ticket_done_def refused_def)
      show ?thesis
      proof (rule that [OF rounds(4) [OF False e]])
        show "mg_tickets (settle_ticket (qi_ticket y) (Refused e) ?s) (qi_ticket y) \<noteq> Some Open_Ticket"
          by (simp add: settle_tickets)
      qed blast
    qed
    have keeps: "mg_lock u = None" "runs_ok u" "mg_next u = mg_next s" "mg_tickets u (qi_ticket item) = mg_tickets s (qi_ticket item)"
      "\<not> forgotten u item" "refused u a (qi_admission item) (verdict item) = None"
      "x \<in> set pre \<Longrightarrow> passed_over verdict a u x" for x
    proof -
      have "runs_ok ?s" "runs_ok (settle_ticket i v ?s)" for i v by (rule same_runs_ok [OF _ Cons.prems(2)]; simp)+
      then show "mg_lock u = None" "runs_ok u" "mg_next u = mg_next s"
        "mg_tickets u (qi_ticket item) = mg_tickets s (qi_ticket item)"
        "\<not> forgotten u item" "refused u a (qi_admission item) (verdict item) = None"
        using u(3) new(1) Cons.prems(1,5,6) by (auto simp: settle_tickets forgotten_def ticket_done_def refused_def)
      show "passed_over verdict a u x" if "x \<in> set pre"
      proof -
        have "passed_over verdict a s x" "qi_ticket x \<noteq> qi_ticket y" using that new(2) Cons.prems(4) by simp_all
        then show ?thesis using u(3) by auto
      qed
    qed
    have "distinct (map qi_ticket ?q)" using Cons.prems(3) by simp
    note ih = Cons.IH [OF keeps(1,2) this keeps(7,5,6)]
    have "mg_tickets (drain_loop verdict a ?q u) (qi_ticket y) \<noteq> Some Open_Ticket"
      using drain_opens_nothing [OF keeps(1)] u(2) by blast
    then show ?case unfolding append_Cons u(1) using ih keeps(3,4) by simp
  qed
  then show "queue_of t a = rest" "active_run t a = Some (mg_next s)"
    "map_option (\<lambda>r. (sr_live r, sr_item r, sr_working r)) (mg_objects t (mg_next s)) =
       Some ((new_run (mg_next s) (am_kind (qi_admission item)) (am_activity (qi_admission item)), None),
             Some (qi_id item), am_working (qi_admission item))"
    "mg_tickets s (qi_ticket item) = Some Open_Ticket \<Longrightarrow> mg_tickets t (qi_ticket item) = Some (Got_Run (mg_next s))"
    "x \<in> set pre \<Longrightarrow> mg_tickets t (qi_ticket x) \<noteq> Some Open_Ticket"
    by blast+
qed

subsection \<open>A manager at work\<close>

text \<open>Concrete states: a Run of a Session, two inputs behind it, and the end of the Run.\<close>

definition small :: run_limits where
  "small = \<lparr>lm_waiting = 2, lm_completed = 8\<rparr>"

definition here :: address where
  "here = \<lparr>ad_project = Some ''demo'', ad_agent = ''main'', ad_session = ''one''\<rparr>"

definition asked :: "string option \<Rightarrow> run_admission" where
  "asked input = \<lparr>am_working = None, am_kind = USER, am_activity = True, am_owner = None, am_input = input, am_parent = None\<rparr>"

definition written :: "string \<Rightarrow> string option \<Rightarrow> queued" where
  "written i input = \<lparr>qi_id = i, qi_content = ''text'', qi_executor = 0, qi_internal = False, qi_ticket = 0, qi_editable = True,
     qi_steerable = True, qi_steering = False, qi_in_flight = False, qi_withdrawn = False, qi_admission = asked input,
     qi_scope = None\<rparr>"

definition occupied :: manager where
  "occupied = fst (start here (asked None) None None new_manager)"

definition lived :: "run_state \<Rightarrow> manager \<Rightarrow> manager" where
  "lived x s = (case mg_objects s 0 of None \<Rightarrow> s | Some r \<Rightarrow> s\<lparr>mg_objects := (mg_objects s)(0 \<mapsto> r\<lparr>sr_live := x\<rparr>)\<rparr>)"

definition frozen :: run_state where
  "frozen = (freeze CANCELLED False None (new_run 0 USER True), Some (Task_Cancelled, CANCELLED))"

definition over :: run_state where
  "over = (case finish_execution Task_Cancelled CANCELLED clean_end (fst frozen) of None \<Rightarrow> frozen | Some r \<Rightarrow> (r, None))"

text \<open>One input behind the Run, durable or not, then another, and the Run has ended.\<close>

definition one_accepted :: "string option \<Rightarrow> manager" where
  "one_accepted input = fst (enqueue small here (written ''first'' input) None (input \<noteq> None) None None occupied)"

definition one_waits :: "string option \<Rightarrow> manager" where
  "one_waits input =
     (case accepts (one_accepted input) of
        None \<Rightarrow> one_accepted input | Some item \<Rightarrow> enqueue_busy_end here item True (one_accepted input))"

definition two_wait :: "string option \<Rightarrow> manager" where
  "two_wait input = fst (enqueue small here (written ''second'' None) None False None None (one_waits input))"

definition left_behind :: "string option \<Rightarrow> manager" where
  "left_behind input = lived over (lived frozen (two_wait input))"

lemma lives_step:
  assumes "map_option (\<lambda>r. (sr_live r, sr_drained r)) (mg_objects s 0) = Some (x, False)" "life_step x y" "mg_deliveries s = []"
  shows "mg_step lm reliable s (lived y s)"
proof -
  obtain r where r: "mg_objects s 0 = Some r" "sr_live r = x" "\<not> sr_drained r" using assms(1) by auto
  then have "mg_step lm reliable s (s\<lparr>mg_objects := (mg_objects s)(0 \<mapsto> r\<lparr>sr_live := y\<rparr>)\<rparr>)"
    using assms(2,3) by (intro mg_step.lives) (simp_all add: delivers_def)
  then show ?thesis by (simp add: lived_def r)
qed

lemma frozen_step: "life_step (new_run 0 USER True, None) frozen"
  unfolding frozen_def by (rule freezes [where aborts = False]) (simp_all add: frozen_status_def first_status_def new_run_def)

lemma over_finished: "finish_execution Task_Cancelled CANCELLED clean_end (fst frozen) = Some (fst over)" "snd over = None"
  by code_simp+

lemma over_step: "life_step frozen over"
proof -
  have "life_step (fst frozen, Some (Task_Cancelled, CANCELLED)) (fst over, None)" using over_finished(1) by (rule finishes)
  then show ?thesis using over_finished(2) by (metis prod.collapse frozen_def snd_conv)
qed

lemma occupied_step: "mg_step small reliable new_manager occupied"
  unfolding occupied_def by (rule starts) (simp add: new_manager_def)

lemma one_step: "mg_step small reliable occupied (one_accepted input)"
  unfolding one_accepted_def by (rule enqueues) code_simp

lemma one_locks: "accepts (one_accepted None) = None"
    "mg_lock (one_accepted (Some ''key'')) =
       Some (Persist_Busy here ((written ''first'' (Some ''key''))\<lparr>qi_ticket := 1\<rparr>))"
  by code_simp+

lemma one_steps: "input \<in> {None, Some ''key''} \<Longrightarrow> (mg_step small reliable)\<^sup>*\<^sup>* (one_accepted input) (one_waits input)"
proof -
  have "one_waits None = one_accepted None" by (simp add: one_waits_def one_locks(1))
  moreover have "mg_step small reliable (one_accepted (Some ''key'')) (one_waits (Some ''key''))"
    using busy_persisted [OF one_locks(2)] by (simp add: one_waits_def accepts_def one_locks(2))
  ultimately show "input \<in> {None, Some ''key''} \<Longrightarrow> ?thesis" by auto
qed

lemma shapes:
  "input \<in> {None, Some ''key''} \<Longrightarrow> mg_lock (one_waits input) = None \<and> mg_deliveries (two_wait input) = []
     \<and> mg_deliveries (lived frozen (two_wait input)) = []
     \<and> map_option (\<lambda>r. (sr_live r, sr_drained r)) (mg_objects (two_wait input) 0) = Some ((new_run 0 USER True, None), False)
     \<and> map_option (\<lambda>r. (sr_live r, sr_drained r)) (mg_objects (lived frozen (two_wait input)) 0) = Some (frozen, False)"
proof -
  have "mg_lock (one_waits None) = None" "mg_lock (one_waits (Some ''key'')) = None"
    "mg_deliveries (two_wait None) = []" "mg_deliveries (two_wait (Some ''key'')) = []"
    "map_option (\<lambda>r. (sr_live r, sr_drained r)) (mg_objects (two_wait None) 0) = Some ((new_run 0 USER True, None), False)"
    "map_option (\<lambda>r. (sr_live r, sr_drained r)) (mg_objects (two_wait (Some ''key'')) 0) = Some ((new_run 0 USER True, None), False)"
    by code_simp+
  then show "input \<in> {None, Some ''key''} \<Longrightarrow> ?thesis" by (auto simp: lived_def)
qed

lemma left_behind_reached:
  assumes "input \<in> {None, Some ''key''}"
  shows "(mg_step small reliable)\<^sup>*\<^sup>* new_manager (two_wait input)" "mg_reached small reliable [] (left_behind input)"
proof -
  have "(mg_step small reliable)\<^sup>*\<^sup>* new_manager (one_accepted input)"
    using occupied_step one_step by (meson rtranclp.rtrancl_refl rtranclp.rtrancl_into_rtrancl)
  then have "(mg_step small reliable)\<^sup>*\<^sup>* new_manager (one_waits input)"
    using one_steps [OF assms] by (rule rtranclp_trans)
  moreover have "mg_step small reliable (one_waits input) (two_wait input)"
    unfolding two_wait_def by (rule enqueues) (simp add: shapes [OF assms])
  ultimately show two: "(mg_step small reliable)\<^sup>*\<^sup>* new_manager (two_wait input)" by (rule rtranclp.rtrancl_into_rtrancl)
  have "mg_step small reliable (two_wait input) (lived frozen (two_wait input))"
    "mg_step small reliable (lived frozen (two_wait input)) (left_behind input)"
    unfolding left_behind_def using shapes [OF assms] by (auto intro!: lives_step frozen_step over_step)
  then show "mg_reached small reliable [] (left_behind input)"
    using two by simp
qed

subsection \<open>One living Run\<close>

text \<open>C3. A Session never has two living Runs: in every reachable state a Run that is running is the active Run
  of its Session, so two of the same Session are the same.\<close>

theorem session_has_one_living_run:
  assumes "mg_reached lm reliable inputs s" "mg_objects s i = Some r" "mg_objects s j = Some q"
    "running s i" "running s j" "sr_address r = sr_address q"
  shows "i = j \<and> active_run s (sr_address r) = Some i"
proof -
  have ok: "runs_ok s" using reached_core [OF assms(1)] by (simp add: core_but_def)
  have "living r" "living q" using assms(2-5) by (simp_all add: running_living)
  then have "map_of (mg_active s) (sr_address r) = Some i" "map_of (mg_active s) (sr_address r) = Some j"
    using runs_stored(3) [OF ok assms(2)] runs_stored(3) [OF ok assms(3)] assms(6) by simp_all
  then show ?thesis using assms(4) by (simp add: active_run_Some)
qed

lemma session_has_one_living_run_witness:
  "active_run (two_wait None) here = Some 0
   \<and> snd (start here (asked None) None None (two_wait None)) = Inl Already_Active"
proof -
  have r: "mg_reached small True [] (two_wait None)" using left_behind_reached(1) [of None] by simp
  obtain q where q: "mg_objects (two_wait None) 0 = Some q" using shapes [of None] by auto
  have "map_option sr_address (mg_objects (two_wait None) 0) = Some here" by code_simp
  then have a: "sr_address q = here" by (simp add: q)
  have u: "running (two_wait None) 0" by code_simp
  have "active_run (two_wait None) here = Some 0" using session_has_one_living_run [OF r q q u u refl] by (simp add: a)
  moreover have "snd (start here (asked None) None None (two_wait None)) = Inl Already_Active" by code_simp
  ultimately show ?thesis by simp
qed

subsection \<open>Guards\<close>

lemma activity_work:
  assumes "keys_ok s"
  shows "has_activity_for_session s a \<Longrightarrow> \<exists>w. work_at s a w"
    "has_activity_for_agent s key \<Longrightarrow> \<exists>a w. agent_key a = key \<and> work_at s a w"
    "has_activity_for_project s p \<Longrightarrow> \<exists>a w. (ad_project a = Some p \<or> w = Some p) \<and> work_at s a w"
proof -
  have active: "work_at s a (working_project_of s i)" if "(a, i) \<in> set (mg_active s)" "running s i" for a i
  proof -
    have "map_of (mg_active s) a = Some i" using assms that(1) by (simp add: keys_ok_def)
    then show ?thesis using that(2) by (auto simp: work_at_def active_run_Some)
  qed
  have waits: "work_at s a (am_working (qi_admission item))" if "(a, q) \<in> set (mg_queues s)" "item \<in> set q" for a q item
  proof -
    have "map_of (mg_queues s) a = Some q" using assms that(1) by (simp add: keys_ok_def)
    then show ?thesis using that(2) by (auto simp: work_at_def queue_of_def)
  qed
  have some: "q \<noteq> [] \<Longrightarrow> \<exists>item. item \<in> set q" for q :: "queued list" by (cases q) auto
  show "has_activity_for_session s a \<Longrightarrow> \<exists>w. work_at s a w"
    using some [of "queue_of s a"] by (fastforce simp: has_activity_for_session_def work_at_def)
  show "has_activity_for_agent s key \<Longrightarrow> \<exists>a w. agent_key a = key \<and> work_at s a w"
    unfolding has_activity_for_agent_def list_ex_iff using active waits some by (fastforce split: prod.splits)
  show "has_activity_for_project s p \<Longrightarrow> \<exists>a w. (ad_project a = Some p \<or> w = Some p) \<and> work_at s a w"
    unfolding has_activity_for_project_def has_activity_for_working_project_def list_ex_iff
    using active waits some by (fastforce split: prod.splits)
qed

text \<open>C9. Nothing runs or waits behind a guard, and nobody prepares to start something there, whatever else the
  callers do.\<close>

theorem guards_exclude_work:
  assumes "mg_reached lm reliable inputs s"
  shows "(a \<in> set (mg_sessions s) \<longrightarrow>
       \<not> has_activity_for_session s a \<and> \<not> list_ex (\<lambda>x. covers_session x a) (mg_preparing s))
    \<and> (key \<in> set (mg_agents s) \<longrightarrow>
       \<not> has_activity_for_agent s key \<and> \<not> list_ex (\<lambda>x. (pp_project x, pp_agent x) = key) (mg_preparing s))
    \<and> (p \<in> set (mg_projects s) \<longrightarrow>
       \<not> has_activity_for_project s p \<and> \<not> list_ex (\<lambda>x. pp_project x = Some p \<or> pp_working x = Some p) (mg_preparing s))"
proof -
  have k: "keys_ok s" and g: "guards_ok s" using reached_core [OF assms] by (simp_all add: core_but_def)
  note work = activity_work [OF k]
  have free: "work_at s b w \<Longrightarrow> \<not> guarded s b w" "x \<in> set (mg_preparing s) \<Longrightarrow> \<not> preparation_guarded s x" for b w x
    using g by (simp_all add: guards_ok_def)
  have "\<not> has_activity_for_session s a" if "a \<in> set (mg_sessions s)"
    using work(1) free(1) that by (auto simp: guarded_def)
  moreover have "\<not> has_activity_for_agent s key" if "key \<in> set (mg_agents s)"
    using work(2) [of key] free(1) that by (auto simp: guarded_def)
  moreover have "\<not> has_activity_for_project s p" if "p \<in> set (mg_projects s)"
    using work(3) [of p] free(1) that by (fastforce simp: guarded_def list_ex_iff)
  ultimately show ?thesis using free(2) by (auto simp: preparation_guarded_def list_ex_iff)
qed

lemma guards_exclude_work_witness:
  "snd (guard_sessions [here] new_manager) = None
   \<and> \<not> has_activity_for_session (fst (guard_sessions [here] new_manager)) here
   \<and> snd (start here (asked None) None None (fst (guard_sessions [here] new_manager))) = Inl (Refusal Blocked_Start)"
proof -
  let ?s = "fst (guard_sessions [here] new_manager)"
  have "mg_step small True new_manager ?s" by (rule guards_sessions) (simp add: new_manager_def)
  then have r: "mg_reached small True [] ?s" by simp
  have "mg_sessions ?s = [here]" by code_simp
  then have "\<not> has_activity_for_session ?s here" using guards_exclude_work [OF r, of here] by simp
  moreover have "snd (guard_sessions [here] new_manager) = None"
    "snd (start here (asked None) None None ?s) = Inl (Refusal Blocked_Start)"
    by code_simp+
  ultimately show ?thesis by simp
qed

subsection \<open>Service of queued input\<close>

text \<open>The step that drains the queue of a Session next: the end of its Run, or of the withdrawal the drain
  waits for.\<close>

definition drain_step :: "run_limits \<Rightarrow> (queued \<Rightarrow> start_error option) \<Rightarrow> address \<Rightarrow> manager \<Rightarrow> manager \<Rightarrow> bool" where
  "drain_step lm verdict a s t \<longleftrightarrow>
     (\<exists>i r. map_of (mg_active s) a = Some i \<and> mg_objects s i = Some r \<and> \<not> running s i \<and> t = run_over lm verdict i r s)
     \<or> (\<exists>item e. mg_lock s = Some (Drain_Withdraws a item e) \<and> t = drain_resumes verdict a item e s)"

text \<open>C4. Queued input is never stranded, as long as withdrawals of refused input come back: when no Run of the
  Session is running and nobody else holds the lock, a drain step of its queue can be taken, and it leaves
  the queue shorter and, unless it is empty, a running Run or a further withdrawal behind which it goes on.\<close>

theorem queued_input_is_never_stranded:
  assumes "mg_reached lm True inputs s" "queue_of s a \<noteq> []" "active_run s a = None" "mg_lock s = None \<or> drains s a"
  shows "\<exists>t. mg_step lm True s t \<and> drain_step lm verdict a s t \<and> length (queue_of t a) < length (queue_of s a)
    \<and> (queue_of t a = [] \<or> active_run t a \<noteq> None \<or> drains t a)"
proof -
  have core: "core_ok True s" using reached_core [OF assms(1)] .
  then have runs: "runs_ok s" by (simp add: core_but_def)
  show ?thesis
  proof (cases "mg_lock s")
    case None
    then obtain i where i: "map_of (mg_active s) a = Some i" using core assms(2) by (auto simp: core_but_def served_at_def drains_def)
    then obtain r where r: "mg_objects s i = Some r" "sr_address r = a" "\<not> sr_drained r" using runs_active [OF runs] by blast
    have dead: "\<not> running s i" using assms(3) i by (auto simp: active_run_None)
    let ?u = "prune_terminal_runs lm (s\<lparr>mg_objects := (mg_objects s)(i \<mapsto> r\<lparr>sr_drained := True\<rparr>), mg_active := del a (mg_active s)\<rparr>)"
    let ?t = "run_over lm verdict i r s"
    have t: "?t = drain_next verdict a ?u" by (simp add: run_over_def Let_def r(2) i)
    have "runs_ok (s\<lparr>mg_objects := (mg_objects s)(i \<mapsto> r\<lparr>sr_drained := True\<rparr>), mg_active := del a (mg_active s)\<rparr>)"
      using runs_ended [OF runs r(1) dead] by (simp add: r(2) i)
    then have "runs_ok ?u" by (rule same_runs_ok [rotated]) (simp add: same_runs_def prune_terminal_runs_def Let_def)
    moreover have "queue_of ?u a = queue_of s a" by (simp add: queue_of_def prune_terminal_runs_def Let_def)
    moreover have "active_run ?u a = None" by (simp add: active_run_def map_of_del)
    ultimately have "length (queue_of ?t a) < length (queue_of s a)
        \<and> (queue_of ?t a = [] \<or> active_run ?t a \<noteq> None \<or> drains ?t a)"
      unfolding t using drain_next_result [of ?u a verdict] None assms(2) by simp
    moreover have "mg_step lm True s ?t" by (rule mg_step.overs [OF None r(1) dead r(3)])
    ultimately show ?thesis using i r(1) dead by (auto simp: drain_step_def)
  next
    case (Some h)
    then obtain item e where l: "mg_lock s = Some (Drain_Withdraws a item e)"
      using assms(4) by (auto simp: drains_def split: holder.splits)
    let ?u = "settle_ticket (qi_ticket item) (Refused e) (unlock s)"
    let ?t = "drain_resumes verdict a item e s"
    have "runs_ok ?u" by (rule same_runs_ok [OF _ runs]) simp
    then have "length (queue_of ?t a) < length (queue_of s a)
        \<and> (queue_of ?t a = [] \<or> active_run ?t a \<noteq> None \<or> drains ?t a)"
      using drain_result [of ?u verdict a "queue_of s a"] assms(2) by (auto simp: drain_resumes_def Let_def)
    moreover have "mg_step lm True s ?t" by (rule mg_step.resumes [OF l])
    ultimately show ?thesis using l by (auto simp: drain_step_def)
  qed
qed

lemma queued_input_is_never_stranded_witness:
  "\<exists>t. drain_step small (\<lambda>_. None) here (left_behind None) t \<and> length (queue_of t here) < 2"
proof -
  have "queue_of (left_behind None) here \<noteq> []" "active_run (left_behind None) here = None" "mg_lock (left_behind None) = None"
    "length (queue_of (left_behind None) here) = 2"
    by code_simp+
  then show ?thesis
    using queued_input_is_never_stranded [OF left_behind_reached(2) [of None], of here "\<lambda>_. None"] by auto
qed

subsection \<open>Turns\<close>

text \<open>C13. Queued input takes its turn: a drain passes over input that nobody waits for or that may not start and
  is not durable, and answers whoever waits for it; it starts the first input that may start, selected input
  before the rest and each in queue order, answers it with the new Run, and leaves what is behind it as it
  was.\<close>

theorem waiting_input_takes_its_turn:
  assumes "mg_reached lm True inputs s" "mg_lock s = None" "\<not> mg_closed s" "active_run s a = None"
    "steering_first (queue_of s a) = pre @ item # rest" "list_all (passed_over verdict a s) pre"
    "\<not> forgotten s item" "refused s a (qi_admission item) (verdict item) = None"
  shows "queue_of (drain_next verdict a s) a = rest
    \<and> active_run (drain_next verdict a s) a = Some (mg_next s)
    \<and> map_option (\<lambda>r. (sr_live r, sr_item r, sr_working r)) (mg_objects (drain_next verdict a s) (mg_next s)) =
        Some ((new_run (mg_next s) (am_kind (qi_admission item)) (am_activity (qi_admission item)), None),
              Some (qi_id item), am_working (qi_admission item))
    \<and> (mg_tickets s (qi_ticket item) = Some Open_Ticket \<longrightarrow>
        mg_tickets (drain_next verdict a s) (qi_ticket item) = Some (Got_Run (mg_next s)))
    \<and> list_all (\<lambda>x. mg_tickets (drain_next verdict a s) (qi_ticket x) \<noteq> Some Open_Ticket) pre"
proof -
  let ?s = "set_queue a (pre @ item # rest) s"
  have "runs_ok s" using reached_core [OF assms(1)] by (simp add: core_but_def)
  then have runs: "runs_ok ?s" by (rule same_runs_ok [rotated]) simp
  have d: "distinct (map qi_ticket (queue_of s a))"
    using waits_distinct [OF reached_waits [OF assms(1)], of a] by (simp add: tickets_at_def)
  have "distinct (map qi_ticket (steering_first (queue_of s a)))"
    using d by (auto simp: steering_first_def distinct_map inj_on_def)
  then have "distinct (map qi_ticket (pre @ item # rest))" unfolding assms(5) .
  moreover have "passed_over verdict a ?s x" if "x \<in> set pre" for x using assms(6) that by (simp add: list_all_iff)
  moreover have "\<not> forgotten ?s item" using assms(7) by (simp add: forgotten_def ticket_done_def)
  moreover have "refused ?s a (qi_admission item) (verdict item) = None" using assms(8) by (simp add: refused_def)
  moreover have "mg_lock ?s = None" using assms(2) by simp
  moreover have "drain_next verdict a s = drain_loop verdict a (pre @ item # rest) ?s"
    using assms(3,4,5) by (simp add: drain_next_def)
  ultimately show ?thesis
    using drain_turn [of ?s pre item rest verdict a] runs by (simp add: list_all_iff)
qed

text \<open>The first input may not start, the second takes its turn.\<close>

lemma waiting_input_takes_its_turn_witness:
  "mg_tickets (drain_next (\<lambda>i. if qi_id i = ''first'' then Some Broken_Start else None) here (left_behind None)) 2 = Some (Got_Run 3)"
proof -
  let ?v = "\<lambda>i. if qi_id i = ''first'' then Some Broken_Start else None"
  let ?one = "(written ''first'' None)\<lparr>qi_ticket := 1\<rparr>" and ?two = "(written ''second'' None)\<lparr>qi_ticket := 2\<rparr>"
  have "mg_lock (left_behind None) = None" "\<not> mg_closed (left_behind None)" "active_run (left_behind None) here = None"
    "steering_first (queue_of (left_behind None) here) = [?one] @ ?two # []"
    "list_all (passed_over ?v here (left_behind None)) [?one]"
    "\<not> forgotten (left_behind None) ?two" "refused (left_behind None) here (qi_admission ?two) (?v ?two) = None"
    by code_simp+
  from waiting_input_takes_its_turn [OF left_behind_reached(2) [of None] this]
  have "mg_tickets (left_behind None) (qi_ticket ?two) = Some Open_Ticket \<Longrightarrow>
      mg_tickets (drain_next ?v here (left_behind None)) (qi_ticket ?two) = Some (Got_Run (mg_next (left_behind None)))"
    by simp
  moreover have "mg_tickets (left_behind None) (qi_ticket ?two) = Some Open_Ticket" "mg_next (left_behind None) = 3" "qi_ticket ?two = 2"
    by code_simp+
  ultimately show ?thesis by simp
qed

subsection \<open>Answers\<close>

text \<open>C14. No accepted input is lost, as long as withdrawals of refused input come back: in every reachable state an
  open Future belongs to an input that waits in a queue, or to the one whose withdrawal a drain waits for.\<close>

theorem open_input_has_a_place:
  assumes "mg_reached lm True inputs s" "mg_tickets s t = Some Open_Ticket"
  shows "(\<exists>a item. item \<in> set (queue_of s a) \<and> qi_ticket item = t)
    \<or> (\<exists>a item e. mg_lock s = Some (Drain_Withdraws a item e) \<and> qi_ticket item = t)"
proof -
  have "placed s t" using reached_waits [OF assms(1)] assms(2) by (simp add: waits_but_def)
  then show ?thesis by (auto simp: placed_def tickets_at_def)
qed

lemma open_input_has_a_place_witness:
  "\<exists>a item. item \<in> set (queue_of (left_behind None) a) \<and> qi_ticket item = 1"
proof -
  have "mg_tickets (left_behind None) 1 = Some Open_Ticket" "mg_lock (left_behind None) = None" by code_simp+
  then show ?thesis using open_input_has_a_place [OF left_behind_reached(2) [of None], of 1] by simp
qed

subsection \<open>The limit\<close>

text \<open>C21. Waiting work keeps to the limit of the manager, whatever its callers do: reservations, input being
  persisted and queued input together never come to more than the limit, or than what waited before where that
  was more already, and so never more than the limit or the number of inputs a restart restored.\<close>

theorem waiting_work_is_bounded:
  assumes "mg_reached lm reliable inputs s" "(mg_step lm reliable)\<^sup>*\<^sup>* s t"
  shows "waiting_work_count t \<le> max (lm_waiting lm) (waiting_work_count s)
    \<and> waiting_work_count s \<le> max (lm_waiting lm) (length inputs)"
proof -
  let ?bd = "max (lm_waiting lm) (length inputs)"
  have "mg_lock new_manager = None" by (simp add: new_manager_def)
  then have "limit_ok (0 + length inputs) (restore_queued_inputs inputs new_manager)"
    by (rule limit_restore [OF new_manager_limit])
  moreover from this have "waiting_work_count (restore_queued_inputs inputs new_manager) \<le> ?bd"
    unfolding limit_ok_def by linarith
  ultimately have "limit_ok ?bd (restore_queued_inputs inputs new_manager)" by (rule limit_raise)
  then have "limit_ok ?bd s" using waiting_work.steps_ok [OF assms(1), of ?bd] by simp
  then have s: "limit_ok (max (lm_waiting lm) (waiting_work_count s)) s" "waiting_work_count s \<le> max (lm_waiting lm) (length inputs)"
    by (simp_all add: limit_ok_def)
  have "limit_ok (max (lm_waiting lm) (waiting_work_count s)) t"
    using waiting_work.steps_ok [OF assms(2), of "max (lm_waiting lm) (waiting_work_count s)"] s(1) by simp
  then show ?thesis using s(2) by (simp add: limit_ok_def)
qed

lemma waiting_work_is_bounded_witness:
  "waiting_work_count (two_wait None) = 2 \<and> snd (enqueue small here (written ''third'' None) None False None None (two_wait None)) = Some Work_Limit
   \<and> waiting_work_count (two_wait None) \<le> lm_waiting small"
proof -
  have r: "mg_reached small True [] (two_wait None)" using left_behind_reached(1) [of None] by simp
  have "waiting_work_count (two_wait None) = 2"
    "snd (enqueue small here (written ''third'' None) None False None None (two_wait None)) = Some Work_Limit"
    by code_simp+
  then show ?thesis using waiting_work_is_bounded [OF r rtranclp.rtrancl_refl] by simp
qed

subsection \<open>A withdrawal that fails\<close>

text \<open>C31. A withdrawal that fails while a queue is drained strands it: the manager can reach a state in which
  nothing holds the lock, input waits in the queue of a Session with its Future open, and the Session has no
  Run left whose end would drain it.\<close>

theorem failed_withdrawal_strands_queue:
  "\<exists>s item. mg_reached small False [] s \<and> mg_lock s = None \<and> \<not> mg_closed s
     \<and> item \<in> set (queue_of s here) \<and> mg_tickets s (qi_ticket item) = Some Open_Ticket
     \<and> map_of (mg_active s) here = None"
proof -
  let ?v = "\<lambda>i. if qi_id i = ''first'' then Some Blocked_Start else None"
  let ?s = "left_behind (Some ''key'')"
  let ?t = "run_over small ?v 0 (the (mg_objects ?s 0)) ?s"
  have o: "map_option sr_drained (mg_objects ?s 0) = Some False" "\<not> running ?s 0" "mg_lock ?s = None" by code_simp+
  then obtain q where q: "mg_objects ?s 0 = Some q" "\<not> sr_drained q" by auto
  have "mg_step small False ?s (run_over small ?v 0 q ?s)" by (rule overs [OF o(3) q(1) o(2) q(2)])
  then have t: "mg_reached small False [] ?t"
    using left_behind_reached(2) [of "Some ''key''" False] q(1) by (auto intro: rtranclp.rtrancl_into_rtrancl)
  have l: "mg_lock ?t = Some (Drain_Withdraws here ((written ''first'' (Some ''key''))\<lparr>qi_ticket := 1\<rparr>) Blocked_Start)"
    by code_simp
  have "mg_step small False ?t (unlock ?t)" by (rule withdrawal_fails [OF _ l]) simp
  then have u: "mg_reached small False [] (unlock ?t)" using t by (auto intro: rtranclp.rtrancl_into_rtrancl)
  have "mg_lock (unlock ?t) = None" "\<not> mg_closed (unlock ?t)"
    "(written ''second'' None)\<lparr>qi_ticket := 2\<rparr> \<in> set (queue_of (unlock ?t) here)"
    "mg_tickets (unlock ?t) (qi_ticket ((written ''second'' None)\<lparr>qi_ticket := 2\<rparr>)) = Some Open_Ticket"
    "map_of (mg_active (unlock ?t)) here = None"
    by code_simp+
  then show ?thesis using u by blast
qed

end
