(* ===== verification/Cron_Time.thy ===== *)
theory Cron_Time
  imports Py_Text
begin

section \<open>Times of cron jobs\<close>

text \<open>
  \<open>core/automation/_cron_timing.py\<close> and the durations and event times of \<open>_cron_jobs.py\<close> and
  \<open>_cron_events.py\<close>. An instant is the number of microseconds since the epoch in UTC, the resolution of
  \<open>datetime\<close>; an aware \<open>datetime\<close> stands for its instant, in whatever zone it is shown. Instants stay
  within the years \<open>datetime\<close> has.
\<close>

type_synonym instant = int

definition seconds :: "int \<Rightarrow> int" where
  "seconds n = n * 1000000"

definition one_day :: int where
  "one_day = seconds 86400"

subsection \<open>Durations\<close>

text \<open>\<open>int\<close> raises a \<open>ValueError\<close> for more than 4300 digits.\<close>

datatype duration_error = Not_A_Duration | Too_Many_Digits

definition max_digits :: nat where
  "max_digits = 4300"

definition duration_unit :: "char \<Rightarrow> nat option" where
  "duration_unit c =
     (if c = CHR ''m'' then Some 60 else if c = CHR ''h'' then Some 3600
      else if c = CHR ''d'' then Some 86400 else None)"

text \<open>The amount \<open>[1-9]\d*\<close> of a duration.\<close>

definition is_amount :: "string \<Rightarrow> bool" where
  "is_amount t \<longleftrightarrow> t \<noteq> [] \<and> list_all is_digit t \<and> hd t \<noteq> CHR ''0''"

definition parse_duration_seconds :: "string \<Rightarrow> duration_error + nat" where
  "parse_duration_seconds t =
     (if t = [] \<or> \<not> is_amount (butlast t) then Inl Not_A_Duration
      else (case duration_unit (last t) of
              None \<Rightarrow> Inl Not_A_Duration
            | Some u \<Rightarrow>
                if max_digits < length (butlast t) then Inl Too_Many_Digits
                else Inr (int_of_digits 10 (butlast t) * u)))"

definition format_duration :: "nat \<Rightarrow> string" where
  "format_duration s =
     (if s mod 86400 = 0 then digits_of 10 (s div 86400) @ ''d''
      else if s mod 3600 = 0 then digits_of 10 (s div 3600) @ ''h''
      else digits_of 10 (s div 60) @ ''m'')"

subsection \<open>Event times\<close>

datatype event_edge = Edge_Start | Edge_End

datatype event_time_error = Bad_Event_Time | Offset_Too_Long | Offset_Digits

definition edge_text :: "event_edge \<Rightarrow> string" where
  "edge_text e = (case e of Edge_Start \<Rightarrow> ''start'' | Edge_End \<Rightarrow> ''end'')"

definition max_event_offset :: nat where
  "max_event_offset = 31 * 24 * 60"

definition minutes_unit :: "char \<Rightarrow> nat option" where
  "minutes_unit c =
     (if c = CHR ''m'' then Some 1 else if c = CHR ''h'' then Some 60
      else if c = CHR ''d'' then Some (24 * 60) else None)"

text \<open>The pattern \<open>^(start|end)(?:\s*([+-])\s*([1-9][0-9]*)\s*([mhd]))?$\<close>: its edge and, where there is
  an offset, its sign, amount and unit. The classes it repeats are disjoint from what follows them, so
  the longest runs are the only way to match.\<close>

definition match_offset :: "string \<Rightarrow> (bool \<times> string \<times> nat) option" where
  "match_offset t =
     (case dropWhile is_space t of
        [] \<Rightarrow> None
      | sign # t1 \<Rightarrow>
          (let t2 = dropWhile is_space t1;
               amount = takeWhile is_digit t2 in
           case dropWhile is_space (dropWhile is_digit t2) of
             [u] \<Rightarrow>
               if (sign = CHR ''+'' \<or> sign = CHR ''-'') \<and> is_amount amount
               then map_option (\<lambda>n. (sign = CHR ''-'', amount, n)) (minutes_unit u) else None
           | _ \<Rightarrow> None))"

definition match_event_time :: "string \<Rightarrow> (event_edge \<times> (bool \<times> string \<times> nat) option) option" where
  "match_event_time t =
     (let edge = (if starts_with ''start'' t then Some Edge_Start
                  else if starts_with ''end'' t then Some Edge_End else None) in
      case edge of
        None \<Rightarrow> None
      | Some e \<Rightarrow>
          (let tail = drop (length (edge_text e)) t in
           if tail = [] then Some (e, None)
           else map_option (\<lambda>m. (e, Some m)) (match_offset tail)))"

text \<open>A value that is no text counts as the empty text.\<close>

definition parse_event_time :: "string \<Rightarrow> event_time_error + event_edge \<times> int" where
  "parse_event_time t =
     (case match_event_time (lower (single_spaced t)) of
        None \<Rightarrow> Inl Bad_Event_Time
      | Some (e, None) \<Rightarrow> Inr (e, 0)
      | Some (e, Some (negative, amount, u)) \<Rightarrow>
          if max_digits < length amount then Inl Offset_Digits
          else (let minutes = int_of_digits 10 amount * u in
                if max_event_offset < minutes then Inl Offset_Too_Long
                else Inr (e, if negative then - int minutes else int minutes)))"

definition format_event_time :: "event_edge option \<Rightarrow> int option \<Rightarrow> string" where
  "format_event_time e off =
     (let edge = (case e of None \<Rightarrow> ''None'' | Some x \<Rightarrow> edge_text x);
          n = (case off of None \<Rightarrow> 0 | Some k \<Rightarrow> k);
          minutes = nat (abs n);
          amount = (if minutes mod (24 * 60) = 0 then digits_of 10 (minutes div (24 * 60)) @ ''d''
                    else if minutes mod 60 = 0 then digits_of 10 (minutes div 60) @ ''h''
                    else digits_of 10 minutes @ ''m'') in
      if n = 0 then (case e of None \<Rightarrow> [] | Some x \<Rightarrow> edge_text x)
      else edge @ '' '' @ (if n < 0 then ''-'' else ''+'') @ '' '' @ amount)"

subsection \<open>Waits\<close>

text \<open>The greatest exponent is the least power of the factor 2 that reaches 3600 / 60, the sixth.\<close>

definition once_retry_delay :: "int \<Rightarrow> nat" where
  "once_retry_delay attempt = min (60 * 2 ^ nat (min (max (attempt - 1) 0) 6)) 3600"

text \<open>\<open>_sleep_until_utc\<close> reads the clock, takes a nap of at most a minute and reads it again; the readings
  and whether a change wakes the nap are the input.\<close>

datatype slept = Reached | Woken | Sleeping

definition nap :: "instant \<Rightarrow> instant \<Rightarrow> int" where
  "nap target now = min (target - now) (seconds 60)"

fun sleep_until :: "instant \<Rightarrow> (instant \<times> bool) list \<Rightarrow> slept" where
  "sleep_until target [] = Sleeping"
| "sleep_until target ((now, woken) # readings) =
     (if target \<le> now then Reached else if woken then Woken else sleep_until target readings)"

end
