(* ===== verification/Cron_Schedule.thy ===== *)
theory Cron_Schedule
  imports Cron_Time
begin

section \<open>Schedules of cron jobs\<close>

text \<open>
  \<open>core/automation/_cron_schedule.py\<close>: which fires of a job are owed, when the next one is, and the
  occurrences a window shows. Stored timestamps, which are checked when a job is loaded, stand for the
  instants they name. The zone database and \<open>croniter\<close> are parameters. Elapsed times are exact, as the
  floating point seconds of the source are for spans below 2^31 seconds.
\<close>

subsection \<open>Jobs\<close>

datatype schedule_type = Cron_Schedule | Interval_Schedule | Once_Schedule | Event_Schedule | Webhook_Schedule | Email_Schedule

datatype job_status = Active | Paused | Completed | Failed | Missed

record event_progress =
  ep_due :: instant
  ep_ids :: "string list"

record cron_job =
  cj_id :: string
  cj_name :: string
  cj_type :: schedule_type
  cj_status :: job_status
  cj_expression :: "string option"
  cj_run_at :: "instant option"
  cj_interval :: "nat option"
  cj_anchor :: "instant option"
  cj_remaining :: "nat option"
  cj_created :: instant
  cj_covered :: "instant option"
  cj_attempt :: "instant option"
  cj_completed :: "instant option"
  cj_checked :: "instant option"
  cj_event :: "string option"
  cj_edge :: "event_edge option"
  cj_offset :: "int option"
  cj_progress :: "event_progress option"
  cj_email :: bool

subsection \<open>Zones and cron expressions\<close>

text \<open>A naive wall time is the number of microseconds it would be in UTC. A zone gives the offset at an
  instant and the instant of a wall time, which is the first of two that have it. \<open>get_next\<close> and
  \<open>get_prev\<close> of \<open>croniter\<close> give the neighbouring tick of a wall time; \<open>None\<close> is \<open>CroniterBadDateError\<close>,
  when there is none within the search horizon.\<close>

type_synonym wall = int

record zone =
  zn_offset :: "instant \<Rightarrow> int"
  zn_resolve :: "wall \<Rightarrow> instant"

record ticker =
  tk_next :: "string \<Rightarrow> wall \<Rightarrow> wall option"
  tk_prev :: "string \<Rightarrow> wall \<Rightarrow> wall option"

definition wall_at :: "zone \<Rightarrow> instant \<Rightarrow> wall" where
  "wall_at z t = t + zn_offset z t"

text \<open>A wall time that a forward jump skips shows as a later one.\<close>

definition skipped :: "zone \<Rightarrow> wall \<Rightarrow> bool" where
  "skipped z w \<longleftrightarrow> w < wall_at z (zn_resolve z w)"

text \<open>What a fire computation may raise, and its not coming back.\<close>

datatype cron_error = No_Tick | Not_Returned | No_Run_At | No_Interval

subsection \<open>The next tick\<close>

text \<open>The first tick after a wall time that lies past the reference; \<open>None\<close> never comes back.\<close>

partial_function (option) future_tick ::
  "zone \<Rightarrow> (wall \<Rightarrow> wall option) \<Rightarrow> instant \<Rightarrow> wall \<Rightarrow> (cron_error + wall) option" where
  "future_tick z next_tick reference w =
     (case next_tick w of
        None \<Rightarrow> Some (Inl No_Tick)
      | Some v \<Rightarrow> if reference < zn_resolve z v then Some (Inr v) else future_tick z next_tick reference v)"

text \<open>The end of a gap between a skipped wall time and one that is not, by bisection.\<close>

function gap_end :: "zone \<Rightarrow> wall \<Rightarrow> wall \<Rightarrow> wall" where
  "gap_end z low high =
     (if high - low \<le> 1 then high
      else (let middle = low + (high - low) div 2 in
            if skipped z middle then gap_end z middle high else gap_end z low middle))"
  by pat_completeness auto
termination
  by (relation "measure (\<lambda>(z, low, high). nat (high - low))") auto

declare gap_end.simps [simp del]

text \<open>A tick in a gap resolves past the gap, where a tick behind the gap may come first.\<close>

definition beat_gap_tick ::
  "zone \<Rightarrow> (wall \<Rightarrow> wall option) \<Rightarrow> instant \<Rightarrow> wall \<Rightarrow> cron_error + instant" where
  "beat_gap_tick z next_tick reference w =
     (let due = zn_resolve z w in
      if w < wall_at z due
      then (case next_tick (gap_end z w (wall_at z due) - 1) of
              None \<Rightarrow> Inl No_Tick
            | Some v \<Rightarrow>
                let other = zn_resolve z v in
                Inr (if reference < other \<and> other < due then other else due))
      else Inr due)"

text \<open>Just after a forward jump, an earlier tick can still lie ahead, moved by the gap.\<close>

definition beat_moved_tick ::
  "zone \<Rightarrow> (wall \<Rightarrow> wall option) \<Rightarrow> instant \<Rightarrow> instant \<Rightarrow> cron_error + instant" where
  "beat_moved_tick z next_tick reference due =
     (let offset = zn_offset z reference;
          prior = zn_offset z (reference - one_day);
          earlier = wall_at z reference - (offset - prior) in
      if prior < offset \<and> skipped z earlier
      then (case next_tick earlier of
              None \<Rightarrow> Inl No_Tick
            | Some v \<Rightarrow>
                let other = zn_resolve z v in
                Inr (if v < wall_at z reference \<and> reference < other \<and> other < due then other else due))
      else Inr due)"

definition next_cron_fire ::
  "zone \<Rightarrow> (wall \<Rightarrow> wall option) \<Rightarrow> instant \<Rightarrow> cron_error + instant" where
  "next_cron_fire z next_tick reference =
     (case future_tick z next_tick reference (wall_at z reference) of
        None \<Rightarrow> Inl Not_Returned
      | Some (Inl e) \<Rightarrow> Inl e
      | Some (Inr w) \<Rightarrow>
          (case beat_gap_tick z next_tick reference w of
             Inl e \<Rightarrow> Inl e
           | Inr due \<Rightarrow> beat_moved_tick z next_tick reference due))"

subsection \<open>The latest tick\<close>

text \<open>Ticks are tried backwards from a wall time; \<open>best\<close> is the latest one found that is due, with the
  offset before it, once the search goes on behind a forward jump.\<close>

partial_function (option) past_tick ::
  "zone \<Rightarrow> (wall \<Rightarrow> wall option) \<Rightarrow> instant \<Rightarrow> (instant \<times> int) option \<Rightarrow> wall \<Rightarrow> instant option option" where
  "past_tick z prev_tick reference best w =
     (case prev_tick w of
        None \<Rightarrow> Some (map_option fst best)
      | Some v \<Rightarrow>
          (case best of
             Some (latest, prior) \<Rightarrow>
               if v - prior \<le> latest then Some (Some latest)
               else past_tick z prev_tick reference
                      (if zn_resolve z v \<le> reference then Some (max latest (zn_resolve z v), prior) else best) v
           | None \<Rightarrow>
               if reference < zn_resolve z v then past_tick z prev_tick reference None v
               else if zn_offset z (zn_resolve z v) \<le> zn_offset z (zn_resolve z v - one_day)
               then Some (Some (zn_resolve z v))
               else past_tick z prev_tick reference
                      (Some (zn_resolve z v, zn_offset z (zn_resolve z v - one_day))) v))"

text \<open>The second of two instants with the same wall time.\<close>

definition folded :: "zone \<Rightarrow> instant \<Rightarrow> bool" where
  "folded z t \<longleftrightarrow> zn_resolve z (wall_at z t) \<noteq> t"

definition search_start :: "zone \<Rightarrow> instant \<Rightarrow> wall" where
  "search_start z reference =
     (let w = wall_at z reference in
      (if folded z reference then w + ((w - zn_resolve z w) - zn_offset z reference) else w) + 1)"

definition previous_cron_fire ::
  "zone \<Rightarrow> (wall \<Rightarrow> wall option) \<Rightarrow> instant \<Rightarrow> cron_error + instant option" where
  "previous_cron_fire z prev_tick reference =
     (case past_tick z prev_tick reference None (search_start z reference) of
        None \<Rightarrow> Inl Not_Returned | Some r \<Rightarrow> Inr r)"

subsection \<open>Owed fires\<close>

record owed_fire_at =
  ow_due :: instant
  ow_missed :: nat
  ow_first :: "instant option"

definition max_counted :: nat where
  "max_counted = 100"

definition covered_until :: "cron_job \<Rightarrow> instant" where
  "covered_until j =
     foldl max (cj_created j)
       (concat (map (\<lambda>t. case t of None \<Rightarrow> [] | Some i \<Rightarrow> [i])
          [cj_covered j, cj_attempt j, cj_completed j, cj_checked j]))"

definition owed_interval_fire :: "cron_job \<Rightarrow> instant \<Rightarrow> instant \<Rightarrow> owed_fire_at option" where
  "owed_interval_fire j after now =
     (case (cj_interval j, cj_anchor j) of
        (Some period, Some anchor) \<Rightarrow>
          if now < anchor then None
          else (let latest = (now - anchor) div seconds (int period);
                    due = anchor + seconds (latest * int period);
                    first = (if after < anchor then 0 else (after - anchor) div seconds (int period) + 1) in
                if due \<le> after then None
                else if first = latest then Some \<lparr>ow_due = due, ow_missed = 0, ow_first = None\<rparr>
                else Some \<lparr>ow_due = due, ow_missed = nat (min (latest - first) (int max_counted)),
                           ow_first = Some (anchor + seconds (first * int period))\<rparr>)
      | _ \<Rightarrow> None)"

text \<open>How many of the ticks from a cursor on lie before the due time, counted up to a bound.\<close>

fun count_missed ::
  "zone \<Rightarrow> (wall \<Rightarrow> wall option) \<Rightarrow> instant \<Rightarrow> nat \<Rightarrow> instant \<Rightarrow> cron_error + nat" where
  "count_missed z next_tick due 0 cursor = Inr 0"
| "count_missed z next_tick due (Suc k) cursor =
     (if due \<le> cursor then Inr 0
      else (case next_cron_fire z next_tick cursor of
              Inl e \<Rightarrow> Inl e
            | Inr c \<Rightarrow> map_sum id Suc (count_missed z next_tick due k c)))"

definition owed_cron_fire ::
  "zone \<Rightarrow> ticker \<Rightarrow> string \<Rightarrow> instant \<Rightarrow> instant \<Rightarrow> cron_error + owed_fire_at option" where
  "owed_cron_fire z tk e after now =
     (case previous_cron_fire z (tk_prev tk e) now of
        Inl err \<Rightarrow> Inl err
      | Inr None \<Rightarrow> Inr None
      | Inr (Some due) \<Rightarrow>
          if due \<le> after then Inr None
          else (case next_cron_fire z (tk_next tk e) after of
                  Inl err \<Rightarrow> Inl err
                | Inr first \<Rightarrow>
                    if due \<le> first then Inr (Some \<lparr>ow_due = due, ow_missed = 0, ow_first = None\<rparr>)
                    else (case next_cron_fire z (tk_next tk e) first of
                            Inl err \<Rightarrow> Inl err
                          | Inr cursor \<Rightarrow>
                              map_sum id (\<lambda>n. Some \<lparr>ow_due = due, ow_missed = Suc n, ow_first = Some first\<rparr>)
                                (count_missed z (tk_next tk e) due (max_counted - 1) cursor))))"

definition untimed :: "schedule_type list" where
  "untimed = [Event_Schedule, Webhook_Schedule, Email_Schedule]"

definition resting :: "cron_job \<Rightarrow> bool" where
  "resting j \<longleftrightarrow> cj_status j \<noteq> Active \<or> cj_remaining j = Some 0 \<or> cj_type j \<in> set untimed"

definition owed_fire :: "zone \<Rightarrow> ticker \<Rightarrow> instant \<Rightarrow> cron_job \<Rightarrow> cron_error + owed_fire_at option" where
  "owed_fire z tk now j =
     (if resting j then Inr None
      else if cj_type j = Once_Schedule
      then (case cj_run_at j of
              None \<Rightarrow> Inl No_Run_At
            | Some t \<Rightarrow>
                Inr (if t \<le> now then Some \<lparr>ow_due = t, ow_missed = 0, ow_first = None\<rparr> else None))
      else if cj_type j = Interval_Schedule then Inr (owed_interval_fire j (covered_until j) now)
      else (case cj_expression j of
              None \<Rightarrow> Inr None
            | Some e \<Rightarrow> owed_cron_fire z tk e (covered_until j) now))"

subsection \<open>The next fire\<close>

definition next_interval_fire :: "cron_job \<Rightarrow> instant \<Rightarrow> cron_error + instant" where
  "next_interval_fire j reference =
     (case (cj_interval j, cj_anchor j) of
        (Some period, Some anchor) \<Rightarrow>
          Inr (if reference < anchor then anchor
               else anchor + seconds (((reference - anchor) div seconds (int period) + 1) * int period))
      | _ \<Rightarrow> Inl No_Interval)"

definition next_fire_at :: "zone \<Rightarrow> ticker \<Rightarrow> instant \<Rightarrow> cron_job \<Rightarrow> cron_error + instant option" where
  "next_fire_at z tk reference j =
     (if resting j then Inr None
      else if cj_type j = Once_Schedule
      then (case cj_run_at j of None \<Rightarrow> Inl No_Run_At | Some t \<Rightarrow> Inr (Some t))
      else if cj_type j = Interval_Schedule then map_sum id Some (next_interval_fire j reference)
      else (case cj_expression j of
              None \<Rightarrow> Inr None
            | Some e \<Rightarrow> map_sum id Some (next_cron_fire z (tk_next tk e) reference)))"

subsection \<open>The occurrences of a window\<close>

text \<open>The least whole number not below a quotient.\<close>

definition ceil_div :: "int \<Rightarrow> int \<Rightarrow> int" where
  "ceil_div a b = - ((- a) div b)"

fun interval_ticks :: "instant \<Rightarrow> nat \<Rightarrow> instant \<Rightarrow> int \<Rightarrow> nat \<Rightarrow> instant list" where
  "interval_ticks anchor period window_end k 0 = []"
| "interval_ticks anchor period window_end k (Suc cap) =
     (let tick = anchor + seconds (k * int period) in
      if tick < window_end then tick # interval_ticks anchor period window_end (k + 1) cap else [])"

definition project_interval :: "cron_job \<Rightarrow> instant \<Rightarrow> instant \<Rightarrow> nat \<Rightarrow> instant list" where
  "project_interval j window_start window_end cap =
     (case (cj_interval j, cj_anchor j) of
        (Some period, Some anchor) \<Rightarrow>
          (let elapsed = window_start - anchor;
               first = (if 0 < elapsed then max 1 (ceil_div elapsed (seconds (int period))) else 1) in
           interval_ticks anchor period window_end first cap)
      | _ \<Rightarrow> [])"

text \<open>A round without a tick in the window advances the cursor too, so the loop is bounded by the window
  and not by the cap.\<close>

partial_function (option) cron_ticks ::
  "zone \<Rightarrow> (wall \<Rightarrow> wall option) \<Rightarrow> instant \<Rightarrow> instant \<Rightarrow> nat \<Rightarrow> instant \<Rightarrow> instant list \<Rightarrow>
     (cron_error + instant list) option" where
  "cron_ticks z next_tick window_start window_end cap cursor ticks =
     (if cap \<le> length ticks then Some (Inr ticks)
      else (case next_cron_fire z next_tick cursor of
              Inl e \<Rightarrow> Some (Inl e)
            | Inr t \<Rightarrow>
                if window_end \<le> t then Some (Inr ticks)
                else cron_ticks z next_tick window_start window_end cap t
                       (if window_start \<le> t then ticks @ [t] else ticks)))"

definition project_cron ::
  "zone \<Rightarrow> ticker \<Rightarrow> cron_job \<Rightarrow> instant \<Rightarrow> instant \<Rightarrow> nat \<Rightarrow> cron_error + instant list" where
  "project_cron z tk j window_start window_end cap =
     (case cj_expression j of
        None \<Rightarrow> Inr []
      | Some e \<Rightarrow>
          (let start = max window_start (cj_created j) in
           if window_end \<le> start then Inr []
           else (case cron_ticks z (tk_next tk e) start window_end cap (start - 1) [] of
                   None \<Rightarrow> Inl Not_Returned | Some r \<Rightarrow> r)))"

definition schedule_ticks ::
  "zone \<Rightarrow> ticker \<Rightarrow> cron_job \<Rightarrow> instant \<Rightarrow> instant \<Rightarrow> nat \<Rightarrow> cron_error + instant list" where
  "schedule_ticks z tk j window_start window_end cap =
     (case cj_type j of
        Once_Schedule \<Rightarrow>
          (case cj_run_at j of
             None \<Rightarrow> Inl No_Run_At
           | Some t \<Rightarrow> Inr (if window_start \<le> t \<and> t < window_end then [t] else []))
      | Interval_Schedule \<Rightarrow> Inr (project_interval j window_start window_end cap)
      | Cron_Schedule \<Rightarrow> project_cron z tk j window_start window_end cap
      | _ \<Rightarrow> Inr [])"

text \<open>Only as many coming ticks as the job has Runs left.\<close>

fun limit_future :: "instant \<Rightarrow> nat \<Rightarrow> instant list \<Rightarrow> instant list" where
  "limit_future now budget [] = []"
| "limit_future now budget (t # ts) =
     (if now \<le> t then (case budget of 0 \<Rightarrow> [] | Suc b \<Rightarrow> t # limit_future now b ts)
      else t # limit_future now budget ts)"

record cron_occurrence =
  co_job :: string
  co_name :: string
  co_fire :: instant
  co_type :: schedule_type

definition project_occurrences ::
  "zone \<Rightarrow> ticker \<Rightarrow> cron_job \<Rightarrow> instant \<Rightarrow> instant \<Rightarrow> instant \<Rightarrow> nat \<Rightarrow> cron_error + cron_occurrence list" where
  "project_occurrences z tk j window_start window_end now cap =
     map_sum id
       (\<lambda>ticks. map (\<lambda>t. \<lparr>co_job = cj_id j, co_name = cj_name j, co_fire = t, co_type = cj_type j\<rparr>)
          (case cj_remaining j of None \<Rightarrow> ticks | Some budget \<Rightarrow> limit_future now budget ticks))
       (schedule_ticks z tk j window_start window_end cap)"

end
