(* ===== verification/Schedule_Text.thy ===== *)
theory Schedule_Text
  imports Cron_Schedule
begin

section \<open>Schedule texts and normal schedules\<close>

text \<open>
  \<open>parse_schedule\<close>, \<open>format_schedule\<close> and \<open>normalize_job_schedule\<close> of
  \<open>core/automation/_cron_schedule.py\<close>: the schedule language of the tools, and the fields a job of each
  type keeps. \<open>datetime.fromisoformat\<close>, its inverse and the test of a cron expression are parameters.
\<close>

text \<open>An ISO text names an instant or, without an offset, a wall time.\<close>

datatype iso_time = At_Instant instant | At_Wall wall

record schedule_reader =
  sr_zone :: zone
  sr_iso :: "string \<Rightarrow> iso_time option"
  sr_schedulable :: "string \<Rightarrow> bool"

datatype schedule_error =
    Empty_Schedule | Bad_Duration | Escaped_Digits | Duration_Too_Large | Bad_Expression | Not_A_Schedule

record parsed_schedule =
  ps_type :: schedule_type
  ps_expression :: "string option"
  ps_interval :: "nat option"
  ps_anchor :: "instant option"
  ps_run_at :: "instant option"

text \<open>The last microsecond \<open>datetime\<close> has, 9999-12-31T23:59:59.999999.\<close>

definition max_instant :: instant where
  "max_instant = 253402300799999999"

definition only_type :: "schedule_type \<Rightarrow> parsed_schedule" where
  "only_type ty = \<lparr>ps_type = ty, ps_expression = None, ps_interval = None, ps_anchor = None, ps_run_at = None\<rparr>"

definition run_instant :: "zone \<Rightarrow> iso_time \<Rightarrow> instant" where
  "run_instant z t = (case t of At_Instant i \<Rightarrow> i | At_Wall w \<Rightarrow> zn_resolve z w)"

text \<open>\<open>in\<close> and \<open>every\<close> with a duration.\<close>

definition parse_relative :: "instant \<Rightarrow> bool \<Rightarrow> string \<Rightarrow> schedule_error + parsed_schedule" where
  "parse_relative reference once duration =
     (case parse_duration_seconds duration of
        Inl Not_A_Duration \<Rightarrow> Inl Bad_Duration
      | Inl Too_Many_Digits \<Rightarrow> Inl Escaped_Digits
      | Inr n \<Rightarrow>
          if max_instant < reference + seconds (int n) then Inl Duration_Too_Large
          else Inr (if once then (only_type Once_Schedule)\<lparr>ps_run_at := Some (reference + seconds (int n))\<rparr>
                    else (only_type Interval_Schedule)\<lparr>ps_interval := Some n, ps_anchor := Some reference\<rparr>))"

definition parse_schedule ::
  "schedule_reader \<Rightarrow> instant \<Rightarrow> string \<Rightarrow> schedule_error + parsed_schedule" where
  "parse_schedule sr reference t =
     (let text = single_spaced t;
          parts = partition_on (CHR '' '') text;
          prefix = fst parts;
          spaced = fst (snd parts);
          duration = snd (snd parts) in
      if strip t = [] then Inl Empty_Schedule
      else if casefold text = ''webhook'' then Inr (only_type Webhook_Schedule)
      else if casefold text = ''email'' then Inr (only_type Email_Schedule)
      else if spaced \<and> prefix = ''in'' then parse_relative reference True duration
      else if spaced \<and> prefix = ''every'' then parse_relative reference False duration
      else if length (words text) = 5
      then if sr_schedulable sr text then Inr ((only_type Cron_Schedule)\<lparr>ps_expression := Some text\<rparr>)
           else Inl Bad_Expression
      else if CHR ''T'' \<notin> set text \<and> CHR '' '' \<notin> set text then Inl Not_A_Schedule
      else (case sr_iso sr text of
              None \<Rightarrow> Inl Not_A_Schedule
            | Some i \<Rightarrow> Inr ((only_type Once_Schedule)\<lparr>ps_run_at := Some (run_instant (sr_zone sr) i)\<rparr>)))"

definition format_schedule :: "(instant \<Rightarrow> string) \<Rightarrow> cron_job \<Rightarrow> string" where
  "format_schedule iso_text j =
     (case cj_type j of
        Cron_Schedule \<Rightarrow> (case cj_expression j of None \<Rightarrow> [] | Some e \<Rightarrow> e)
      | Interval_Schedule \<Rightarrow> (case cj_interval j of None \<Rightarrow> [] | Some n \<Rightarrow> ''every '' @ format_duration n)
      | Event_Schedule \<Rightarrow> format_event_time (cj_edge j) (cj_offset j)
      | Webhook_Schedule \<Rightarrow> ''webhook''
      | Email_Schedule \<Rightarrow> ''email''
      | Once_Schedule \<Rightarrow> (case cj_run_at j of None \<Rightarrow> [] | Some t \<Rightarrow> iso_text t))"

subsection \<open>The fields a job keeps\<close>

datatype job_problem =
    No_Email_Trigger | No_Expression | Wrong_Field_Count | Invalid_Expression | Bad_Interval | No_Anchor
  | Interval_Too_Large | No_Once_Time | Bad_Repeat | No_Event | No_Edge | Bad_Offset | Repeats_Event

definition without_event :: "cron_job \<Rightarrow> cron_job" where
  "without_event j = j\<lparr>cj_event := None, cj_edge := None, cj_offset := None\<rparr>"

definition without_times :: "cron_job \<Rightarrow> cron_job" where
  "without_times j = j\<lparr>cj_expression := None, cj_interval := None, cj_anchor := None, cj_run_at := None\<rparr>"

definition normalize_event :: "cron_job \<Rightarrow> job_problem + cron_job" where
  "normalize_event j =
     (case cj_event j of
        None \<Rightarrow> Inl No_Event
      | Some e \<Rightarrow>
          if strip e = [] then Inl No_Event
          else if cj_edge j = None then Inl No_Edge
          else if (case cj_offset j of None \<Rightarrow> False | Some n \<Rightarrow> int max_event_offset < abs n) then Inl Bad_Offset
          else if cj_remaining j \<noteq> None then Inl Repeats_Event
          else Inr (without_times (j\<lparr>cj_event := Some (strip e),
                      cj_offset := Some (case cj_offset j of None \<Rightarrow> 0 | Some n \<Rightarrow> n)\<rparr>)))"

definition normalize_cron :: "schedule_reader \<Rightarrow> cron_job \<Rightarrow> job_problem + cron_job" where
  "normalize_cron sr j =
     (case cj_expression j of
        None \<Rightarrow> Inl No_Expression
      | Some e \<Rightarrow>
          if strip e = [] then Inl No_Expression
          else if length (words (strip e)) \<noteq> 5 then Inl Wrong_Field_Count
          else if \<not> sr_schedulable sr (strip e) then Inl Invalid_Expression
          else Inr ((without_times j)\<lparr>cj_expression := Some (strip e)\<rparr>))"

definition normalize_interval :: "cron_job \<Rightarrow> job_problem + cron_job" where
  "normalize_interval j =
     (case cj_interval j of
        None \<Rightarrow> Inl Bad_Interval
      | Some n \<Rightarrow>
          if n < 60 \<or> n mod 60 \<noteq> 0 then Inl Bad_Interval
          else (case cj_anchor j of
                  None \<Rightarrow> Inl No_Anchor
                | Some a \<Rightarrow>
                    if max_instant < a + seconds (int n) then Inl Interval_Too_Large
                    else Inr (j\<lparr>cj_expression := None, cj_run_at := None\<rparr>)))"

definition normalize_once :: "cron_job \<Rightarrow> job_problem + cron_job" where
  "normalize_once j =
     (case cj_run_at j of
        None \<Rightarrow> Inl No_Once_Time
      | Some t \<Rightarrow>
          (let left = (case cj_remaining j of None \<Rightarrow> 1 | Some n \<Rightarrow> n) in
           if left \<noteq> 0 \<and> left \<noteq> 1 then Inl Bad_Repeat
           else Inr ((without_times j)\<lparr>cj_remaining := Some left, cj_run_at := Some t\<rparr>)))"

definition normalize_job_schedule :: "schedule_reader \<Rightarrow> cron_job \<Rightarrow> job_problem + cron_job" where
  "normalize_job_schedule sr j =
     (if cj_type j = Email_Schedule \<and> \<not> cj_email j then Inl No_Email_Trigger
      else (let k = (if cj_type j = Email_Schedule then j else j\<lparr>cj_email := False\<rparr>);
                m = without_event k in
            case cj_type j of
              Event_Schedule \<Rightarrow> normalize_event k
            | Webhook_Schedule \<Rightarrow> Inr (without_times m)
            | Email_Schedule \<Rightarrow> Inr (without_times m)
            | Cron_Schedule \<Rightarrow> normalize_cron sr m
            | Interval_Schedule \<Rightarrow> normalize_interval m
            | Once_Schedule \<Rightarrow> normalize_once m))"

end
