(* ===== verification/Cron_Facts.thy ===== *)
theory Cron_Facts
  imports Schedule_Text
begin

section \<open>Facts about schedules\<close>

text \<open>
  The ticks of an interval, the searches for cron ticks with what they return and that they do, and the
  bisection of a gap.
\<close>

subsection \<open>Interval ticks\<close>

definition tick_at :: "instant \<Rightarrow> nat \<Rightarrow> int \<Rightarrow> instant" where
  "tick_at anchor period k = anchor + seconds (k * int period)"

lemma seconds_mult: "seconds (k * n) = k * seconds n"
  by (simp add: seconds_def)

lemma seconds_pos: "0 < n \<Longrightarrow> 0 < seconds n"
  by (simp add: seconds_def)

text \<open>The number of whole periods from the anchor decides which ticks an instant has reached.\<close>

lemma le_div_iff: "0 < s \<Longrightarrow> (k :: int) \<le> x div s \<longleftrightarrow> k * s \<le> x"
proof
  assume s: "0 < s" and "k \<le> x div s"
  then have "k * s \<le> x div s * s" by (simp add: mult_right_mono)
  also have "\<dots> \<le> x" using s by (simp add: minus_mod_eq_div_mult [symmetric])
  finally show "k * s \<le> x" .
next
  assume s: "0 < s" and "k * s \<le> x"
  then show "k \<le> x div s" using zdiv_mono1 [of "k * s" x s] by simp
qed

lemma reached_iff:
  assumes "0 < period"
  shows "tick_at anchor period k \<le> t \<longleftrightarrow> k \<le> (t - anchor) div seconds (int period)"
  using assms le_div_iff [of "seconds (int period)" k "t - anchor"]
  by (simp add: tick_at_def seconds_mult seconds_pos) linarith

lemma passed_iff:
  "0 < period \<Longrightarrow> t < tick_at anchor period k \<longleftrightarrow> (t - anchor) div seconds (int period) + 1 \<le> k"
  using reached_iff [of period anchor k t] by linarith

lemma tick_mono: "0 < period \<Longrightarrow> tick_at anchor period i < tick_at anchor period k \<longleftrightarrow> i < k"
  by (simp add: tick_at_def seconds_def)

lemma tick_zero [simp]: "tick_at anchor period 0 = anchor"
  by (simp add: tick_at_def seconds_def)

text \<open>The least tick past an instant.\<close>

definition first_index :: "instant \<Rightarrow> nat \<Rightarrow> instant \<Rightarrow> int" where
  "first_index anchor period after =
     (if after < anchor then 0 else (after - anchor) div seconds (int period) + 1)"

lemma first_index_iff:
  assumes "0 < period" "0 \<le> i"
  shows "after < tick_at anchor period i \<longleftrightarrow> first_index anchor period after \<le> i"
proof (cases "after < anchor")
  case True
  then have "(after - anchor) div seconds (int period) < 0"
    using assms(1) by (simp add: seconds_pos div_neg_pos_less0)
  then show ?thesis using passed_iff [OF assms(1), of after anchor i] assms(2) True by (simp add: first_index_def)
next
  case False
  then show ?thesis using passed_iff [OF assms(1), of after anchor i] by (simp add: first_index_def)
qed

lemma first_index_nonneg: "0 < period \<Longrightarrow> 0 \<le> first_index anchor period after"
  by (simp add: first_index_def seconds_pos pos_imp_zdiv_nonneg_iff)

lemma owed_interval_eq:
  assumes j: "cj_interval j = Some period" "cj_anchor j = Some anchor" and p: "0 < period"
  shows "owed_interval_fire j after now =
    (let k = (now - anchor) div seconds (int period);
         f = first_index anchor period after in
     if now < anchor \<or> tick_at anchor period k \<le> after then None
     else Some \<lparr>ow_due = tick_at anchor period k, ow_missed = nat (min (k - f) (int max_counted)),
                ow_first = (if f = k then None else Some (tick_at anchor period f))\<rparr>)"
  by (simp add: owed_interval_fire_def j Let_def tick_at_def first_index_def max_counted_def)

lemma owed_interval_some:
  assumes j: "cj_interval j = Some period" "cj_anchor j = Some anchor" and p: "0 < period"
    and o: "owed_interval_fire j after now = Some ow"
  defines "k \<equiv> (now - anchor) div seconds (int period)"
  shows "ow_due ow = tick_at anchor period k" "0 \<le> k" "after < ow_due ow" "ow_due ow \<le> now"
    "now < tick_at anchor period (k + 1)"
    "ow_missed ow = min max_counted (nat (k - first_index anchor period after))"
    "ow_first ow = (if first_index anchor period after = k then None
                    else Some (tick_at anchor period (first_index anchor period after)))"
proof -
  from o have n: "\<not> now < anchor" "\<not> tick_at anchor period k \<le> after"
    and ow: "ow = \<lparr>ow_due = tick_at anchor period k,
                   ow_missed = nat (min (k - first_index anchor period after) (int max_counted)),
                   ow_first = (if first_index anchor period after = k then None
                               else Some (tick_at anchor period (first_index anchor period after)))\<rparr>"
    by (auto simp: owed_interval_eq [OF j p] k_def Let_def split: if_splits)
  show "0 \<le> k" using n(1) p by (simp add: k_def seconds_pos pos_imp_zdiv_nonneg_iff)
  show "ow_due ow \<le> now" using reached_iff [OF p, of anchor k now] by (simp add: ow k_def)
  show "now < tick_at anchor period (k + 1)" using passed_iff [OF p, of now anchor "k + 1"] by (simp add: k_def)
  show "ow_missed ow = min max_counted (nat (k - first_index anchor period after))"
    by (auto simp: ow min_def)
qed (use o in \<open>auto simp: owed_interval_eq [OF j p] k_def Let_def split: if_splits\<close>)

lemma earlier_ticks:
  assumes "0 < period"
  shows "{i. 0 \<le> i \<and> i < k \<and> after < tick_at anchor period i} = {first_index anchor period after..<k}"
proof (rule set_eqI)
  fix i
  show "i \<in> {i. 0 \<le> i \<and> i < k \<and> after < tick_at anchor period i} \<longleftrightarrow>
      i \<in> {first_index anchor period after..<k}"
    using first_index_iff [OF assms, of i after anchor] first_index_nonneg [OF assms, of anchor after]
    by (cases "0 \<le> i") auto
qed

lemma owed_interval_none:
  assumes j: "cj_interval j = Some period" "cj_anchor j = Some anchor" and p: "0 < period"
    and n: "owed_interval_fire j after now = None" and i: "0 \<le> i" "tick_at anchor period i \<le> now"
  shows "tick_at anchor period i \<le> after"
proof -
  let ?k = "(now - anchor) div seconds (int period)"
  have "i \<le> ?k" using i(2) reached_iff [OF p] by simp
  moreover have "\<not> now < anchor"
    using calculation i(1) p div_neg_pos_less0 [of "now - anchor" "seconds (int period)"]
    by (auto simp: seconds_pos)
  moreover have "tick_at anchor period i \<le> tick_at anchor period ?k"
    using calculation(1) tick_mono [OF p, of anchor ?k i] by linarith
  ultimately show ?thesis using n by (auto simp: owed_interval_eq [OF j p] Let_def split: if_splits)
qed

lemma next_interval_eq:
  assumes j: "cj_interval j = Some period" "cj_anchor j = Some anchor" and p: "0 < period"
  shows "next_interval_fire j reference = Inr (tick_at anchor period (first_index anchor period reference))"
  by (simp add: next_interval_fire_def j tick_at_def first_index_def seconds_def)

subsection \<open>The ticks of a window\<close>

lemma ceil_div_iff: "0 < s \<Longrightarrow> ceil_div x s \<le> k \<longleftrightarrow> x \<le> k * s"
  using le_div_iff [of s "- k" "- x"] by (simp add: ceil_div_def) linarith

lemma before_iff:
  assumes "0 < period"
  shows "tick_at anchor period k < t \<longleftrightarrow> k < ceil_div (t - anchor) (seconds (int period))"
  using ceil_div_iff [of "seconds (int period)" "t - anchor" k] assms
  by (simp add: seconds_pos tick_at_def seconds_mult) linarith

lemma interval_ticks_take:
  "0 < period \<Longrightarrow> interval_ticks anchor period window_end k cap =
    map (tick_at anchor period) (take cap [k..ceil_div (window_end - anchor) (seconds (int period)) - 1])"
proof (induction cap arbitrary: k)
  case (Suc cap)
  let ?last = "ceil_div (window_end - anchor) (seconds (int period)) - 1"
  have "tick_at anchor period k < window_end \<longleftrightarrow> k \<le> ?last" using before_iff [OF Suc.prems] by simp
  then show ?case using Suc upto_rec1 [of k ?last] by (simp add: tick_at_def Let_def)
qed simp

lemma project_interval_eq:
  assumes j: "cj_interval j = Some period" "cj_anchor j = Some anchor" and p: "0 < period"
  shows "project_interval j window_start window_end cap =
    take cap (map (tick_at anchor period)
      [max 1 (ceil_div (window_start - anchor) (seconds (int period)))..
       ceil_div (window_end - anchor) (seconds (int period)) - 1])"
proof -
  have "ceil_div (window_start - anchor) (seconds (int period)) \<le> 1" if "\<not> 0 < window_start - anchor"
    using that ceil_div_iff [of "seconds (int period)" "window_start - anchor" 1] p seconds_pos [of "int period"]
    by simp
  then show ?thesis
    by (auto simp: project_interval_def j Let_def interval_ticks_take [OF p] take_map max_def)
qed

lemma strictly_sorted_ticks:
  "0 < period \<Longrightarrow> sorted_wrt (<) (map (tick_at anchor period) [i..k])"
  by (induction i k rule: upto.induct) (auto simp: upto_rec1 tick_mono sorted_wrt_map)

text \<open>The ticks of a window, the anchor itself left out.\<close>

lemma window_ticks:
  assumes "0 < period"
  shows "set (map (tick_at anchor period)
      [max 1 (ceil_div (window_start - anchor) (seconds (int period)))..
       ceil_div (window_end - anchor) (seconds (int period)) - 1]) =
    {t. window_start \<le> t \<and> t < window_end \<and> (\<exists>k \<ge> 1. t = tick_at anchor period k)}"
proof -
  have "window_start \<le> tick_at anchor period k \<longleftrightarrow>
      ceil_div (window_start - anchor) (seconds (int period)) \<le> k" for k
    using before_iff [OF assms, of anchor k window_start] by linarith
  moreover have "tick_at anchor period k < window_end \<longleftrightarrow>
      k \<le> ceil_div (window_end - anchor) (seconds (int period)) - 1" for k
    using before_iff [OF assms, of anchor k window_end] by linarith
  ultimately show ?thesis by auto
qed

subsection \<open>Searching ticks\<close>

text \<open>What \<open>croniter\<close> documents: \<open>get_next\<close> goes forward and \<open>get_prev\<close> backward. Offsets from UTC are
  less than a day.\<close>

definition forward :: "(wall \<Rightarrow> wall option) \<Rightarrow> bool" where
  "forward f \<longleftrightarrow> (\<forall>w v. f w = Some v \<longrightarrow> w < v)"

definition backward :: "(wall \<Rightarrow> wall option) \<Rightarrow> bool" where
  "backward f \<longleftrightarrow> (\<forall>w v. f w = Some v \<longrightarrow> v < w)"

definition near_utc :: "zone \<Rightarrow> bool" where
  "near_utc z \<longleftrightarrow> (\<forall>w. abs (w - zn_resolve z w) < one_day)"

lemma forwardD: "forward f \<Longrightarrow> f w = Some v \<Longrightarrow> w < v"
  by (simp add: forward_def)

lemma backwardD: "backward f \<Longrightarrow> f w = Some v \<Longrightarrow> v < w"
  by (simp add: backward_def)

lemma near_utcD: "near_utc z \<Longrightarrow> w < zn_resolve z w + one_day \<and> zn_resolve z w < w + one_day"
  unfolding near_utc_def by (metis abs_diff_less_iff abs_minus_commute diff_less_eq add.commute less_diff_eq)

definition future_found :: "zone \<Rightarrow> (wall \<Rightarrow> wall option) \<Rightarrow> instant \<Rightarrow> cron_error + wall \<Rightarrow> bool" where
  "future_found z f reference r \<longleftrightarrow>
     (\<forall>e. r = Inl e \<longrightarrow> e = No_Tick) \<and> (\<forall>v. r = Inr v \<longrightarrow> reference < zn_resolve z v \<and> (\<exists>u. f u = Some v))"

lemma future_tick_found:
  assumes "future_tick z f reference w = Some r"
  shows "future_found z f reference r"
proof (rule future_tick.raw_induct [where P = "\<lambda>z f reference w. future_found z f reference", OF _ assms])
  fix g z f reference w r
  assume IH: "\<And>z f reference w r. g z f reference w = Some r \<Longrightarrow> future_found z f reference r"
    and r: "(case f w of None \<Rightarrow> Some (Inl No_Tick)
       | Some v \<Rightarrow> if reference < zn_resolve z v then Some (Inr v) else g z f reference v) = Some r"
  show "future_found z f reference r"
  proof (cases "f w")
    case None
    then show ?thesis using r by (auto simp: future_found_def)
  next
    case (Some v)
    show ?thesis
    proof (cases "reference < zn_resolve z v")
      case True
      then show ?thesis using r Some by (auto simp: future_found_def)
    next
      case False
      then show ?thesis using r Some IH [of z f reference v r] by simp
    qed
  qed
qed

lemma future_tick_returns:
  assumes "forward f" "near_utc z"
  shows "future_tick z f reference w \<noteq> None"
proof (induction "nat (reference + one_day - w)" arbitrary: w rule: less_induct)
  case less
  show ?case
  proof (cases "f w")
    case (Some v)
    have "future_tick z f reference v \<noteq> None" if "\<not> reference < zn_resolve z v"
    proof (rule less)
      have "w < v" "v < zn_resolve z v + one_day" using forwardD [OF assms(1) Some] near_utcD [OF assms(2)] by auto
      then show "nat (reference + one_day - v) < nat (reference + one_day - w)" using that by linarith
    qed
    then show ?thesis using Some by (subst future_tick.simps) auto
  qed (subst future_tick.simps, simp)
qed

text \<open>What the search backwards keeps: every tick it remembers is due.\<close>

definition due_by :: "instant \<Rightarrow> instant option \<Rightarrow> bool" where
  "due_by reference r \<longleftrightarrow> (\<forall>t. r = Some t \<longrightarrow> t \<le> reference)"

lemma past_tick_due:
  assumes "past_tick z f reference best w = Some r" "due_by reference (map_option fst best)"
  shows "due_by reference r"
proof -
  have "due_by reference (map_option fst best) \<longrightarrow> due_by reference r"
  proof (rule past_tick.raw_induct [where
        P = "\<lambda>z f reference best w r. due_by reference (map_option fst best) \<longrightarrow> due_by reference r",
        OF _ assms(1)])
    fix g z f reference best w r
    assume IH: "\<And>z f reference best w r. g z f reference best w = Some r \<Longrightarrow>
        due_by reference (map_option fst best) \<longrightarrow> due_by reference r"
      and r: "(case f w of None \<Rightarrow> Some (map_option fst best)
        | Some v \<Rightarrow>
            (case best of
               None \<Rightarrow>
                 if reference < zn_resolve z v then g z f reference None v
                 else if zn_offset z (zn_resolve z v) \<le> zn_offset z (zn_resolve z v - one_day)
                 then Some (Some (zn_resolve z v))
                 else g z f reference (Some (zn_resolve z v, zn_offset z (zn_resolve z v - one_day))) v
             | Some (latest, prior) \<Rightarrow>
                 if v - prior \<le> latest then Some (Some latest)
                 else g z f reference
                        (if zn_resolve z v \<le> reference then Some (max latest (zn_resolve z v), prior) else best) v))
        = Some r"
    show "due_by reference (map_option fst best) \<longrightarrow> due_by reference r"
    proof (cases "f w")
      case None
      then show ?thesis using r by auto
    next
      case (Some v)
      show ?thesis
      proof (cases best)
        case None
        then show ?thesis
          using r Some IH [of z f reference None v r]
            IH [of z f reference "Some (zn_resolve z v, zn_offset z (zn_resolve z v - one_day))" v r]
          by (auto simp: due_by_def split: if_splits)
      next
        case (Some b)
        obtain latest prior where b: "b = (latest, prior)" by (cases b)
        let ?best = "if zn_resolve z v \<le> reference then Some (max latest (zn_resolve z v), prior) else best"
        have "due_by reference (map_option fst best) \<Longrightarrow> due_by reference (map_option fst ?best)"
          using Some b by (auto simp: due_by_def)
        moreover have "(if v - prior \<le> latest then Some (Some latest) else g z f reference ?best v) = Some r"
          using r Some b \<open>f w = Some v\<close> by simp
        ultimately show ?thesis
          using IH [of z f reference ?best v r] Some b by (cases "v - prior \<le> latest") auto
      qed
    qed
  qed
  then show ?thesis using assms(2) by blast
qed

lemma past_tick_returns_later:
  assumes "backward f"
  shows "past_tick z f reference (Some (latest, prior)) w \<noteq> None"
proof (induction "nat (w - (latest + prior))" arbitrary: w latest rule: less_induct)
  case less
  show ?case
  proof (cases "f w")
    case (Some v)
    then have v: "v < w" by (rule backwardD [OF assms])
    have "past_tick z f reference (if zn_resolve z v \<le> reference then Some (max latest (zn_resolve z v), prior)
        else Some (latest, prior)) v \<noteq> None" if "\<not> v - prior \<le> latest"
      using less [of v latest] less [of v "max latest (zn_resolve z v)"] that v by auto
    then show ?thesis using Some by (subst past_tick.simps) auto
  qed (subst past_tick.simps, simp)
qed

lemma past_tick_returns:
  assumes "backward f" "near_utc z"
  shows "past_tick z f reference None w \<noteq> None"
proof (induction "nat (w + one_day - reference)" arbitrary: w rule: less_induct)
  case less
  show ?case
  proof (cases "f w")
    case (Some v)
    have "past_tick z f reference None v \<noteq> None" if "reference < zn_resolve z v"
    proof (rule less)
      show "nat (v + one_day - reference) < nat (w + one_day - reference)"
        using backwardD [OF assms(1) Some] near_utcD [OF assms(2), of v] that by linarith
    qed
    moreover have "past_tick z f reference None w =
        (if reference < zn_resolve z v then past_tick z f reference None v
         else if zn_offset z (zn_resolve z v) \<le> zn_offset z (zn_resolve z v - one_day)
         then Some (Some (zn_resolve z v))
         else past_tick z f reference (Some (zn_resolve z v, zn_offset z (zn_resolve z v - one_day))) v)"
      by (subst past_tick.simps) (simp add: Some)
    moreover note past_tick_returns_later
      [OF assms(1), of z reference "zn_resolve z v" "zn_offset z (zn_resolve z v - one_day)" v]
    ultimately show ?thesis by (auto split: if_splits)
  qed (subst past_tick.simps, simp)
qed

subsection \<open>What the searches find\<close>

text \<open>An instant some tick resolves to.\<close>

definition fires_at :: "zone \<Rightarrow> (wall \<Rightarrow> wall option) \<Rightarrow> instant \<Rightarrow> bool" where
  "fires_at z f t \<longleftrightarrow> (\<exists>u v. f u = Some v \<and> t = zn_resolve z v)"

lemma beat_gap_found:
  assumes "beat_gap_tick z f reference w = Inr t" "reference < zn_resolve z w" "f u = Some w"
  shows "reference < t \<and> fires_at z f t"
  using assms by (auto simp: beat_gap_tick_def fires_at_def Let_def split: if_splits option.splits)

lemma beat_moved_found:
  assumes "beat_moved_tick z f reference due = Inr t" "reference < due" "fires_at z f due"
  shows "reference < t \<and> fires_at z f t"
  using assms by (auto simp: beat_moved_tick_def fires_at_def Let_def split: if_splits option.splits)

lemma next_cron_found:
  assumes "next_cron_fire z f reference = Inr t"
  shows "reference < t \<and> fires_at z f t"
proof -
  obtain w due where w: "future_tick z f reference (wall_at z reference) = Some (Inr w)"
      and due: "beat_gap_tick z f reference w = Inr due" "beat_moved_tick z f reference due = Inr t"
    using assms by (auto simp: next_cron_fire_def split: option.splits sum.splits)
  obtain u where "reference < zn_resolve z w" "f u = Some w"
    using future_tick_found [OF w] by (auto simp: future_found_def)
  then show ?thesis using beat_gap_found [OF due(1)] beat_moved_found [OF due(2)] by blast
qed

lemma next_cron_returns:
  "forward f \<Longrightarrow> near_utc z \<Longrightarrow> next_cron_fire z f reference \<noteq> Inl Not_Returned"
  using future_tick_found [of z f reference "wall_at z reference" "Inl Not_Returned"]
    future_tick_returns [of f z reference "wall_at z reference"]
  by (auto simp: next_cron_fire_def future_found_def beat_gap_tick_def beat_moved_tick_def Let_def
      split: option.splits sum.splits if_splits)

lemma next_cron_errors: "next_cron_fire z f reference = Inl e \<Longrightarrow> e = No_Tick \<or> e = Not_Returned"
  using future_tick_found [of z f reference "wall_at z reference"]
  by (auto simp: next_cron_fire_def future_found_def beat_gap_tick_def beat_moved_tick_def Let_def
      split: option.splits sum.splits if_splits)

lemma previous_cron_due: "previous_cron_fire z f reference = Inr (Some t) \<Longrightarrow> t \<le> reference"
  using past_tick_due [of z f reference None "search_start z reference" "Some t"]
  by (auto simp: previous_cron_fire_def due_by_def split: option.splits)

lemma previous_cron_returns: "backward f \<Longrightarrow> near_utc z \<Longrightarrow> previous_cron_fire z f reference \<noteq> Inl Not_Returned"
  using past_tick_returns [of f z reference] by (simp add: previous_cron_fire_def split: option.splits)

lemma cron_ticks_returns:
  assumes "forward f" "near_utc z"
  shows "cron_ticks z f window_start window_end cap cursor ticks \<noteq> None
    \<and> cron_ticks z f window_start window_end cap cursor ticks \<noteq> Some (Inl Not_Returned)"
proof (induction "nat (window_end - cursor)" arbitrary: cursor ticks rule: less_induct)
  case less
  let ?run = "cron_ticks z f window_start window_end cap"
  show ?case
  proof (cases "next_cron_fire z f cursor")
    case (Inl e)
    then show ?thesis
      using next_cron_returns [OF assms, of cursor] by (subst (1 2) cron_ticks.simps) auto
  next
    case (Inr t)
    have "?run cursor ticks = (if cap \<le> length ticks then Some (Inr ticks) else if window_end \<le> t then Some (Inr ticks)
        else ?run t (if window_start \<le> t then ticks @ [t] else ticks))"
      by (subst cron_ticks.simps) (simp add: Inr)
    moreover have "?run t ts \<noteq> None \<and> ?run t ts \<noteq> Some (Inl Not_Returned)" if "\<not> window_end \<le> t" for ts
    proof (rule less)
      show "nat (window_end - t) < nat (window_end - cursor)" using next_cron_found [OF Inr] that by linarith
    qed
    moreover note this [of "if window_start \<le> t then ticks @ [t] else ticks"]
    ultimately show ?thesis by simp
  qed
qed

lemma project_cron_returns:
  assumes "\<And>e. forward (tk_next tk e)" "near_utc z"
  shows "project_cron z tk j window_start window_end cap \<noteq> Inl Not_Returned"
proof (cases "cj_expression j")
  case (Some e)
  let ?start = "max window_start (cj_created j)"
  show ?thesis
    using cron_ticks_returns [OF assms(1,2), of e ?start window_end cap "?start - 1" "[]"] Some
    by (auto simp: project_cron_def Let_def)
qed (simp add: project_cron_def)

lemma count_missed_over: "due \<le> cursor \<Longrightarrow> count_missed z f due n cursor = Inr 0"
  by (cases n) simp_all

lemma count_missed_returns:
  "forward f \<Longrightarrow> near_utc z \<Longrightarrow> count_missed z f due n cursor \<noteq> Inl Not_Returned"
proof (induction z f due n cursor rule: count_missed.induct)
  case (2 z f due k cursor)
  then show ?case
    using next_cron_returns [OF 2(2,3), of cursor]
    by (cases "next_cron_fire z f cursor"; cases "due \<le> cursor")
      (auto simp: map_sum_def split: sum.splits)
qed simp

lemma owed_fire_returns:
  assumes "\<And>e. forward (tk_next tk e)" "\<And>e. backward (tk_prev tk e)" "near_utc z"
  shows "owed_fire z tk now j \<noteq> Inl Not_Returned"
proof -
  have "owed_cron_fire z tk e after now \<noteq> Inl Not_Returned" for e after
    using next_cron_returns [OF assms(1,3), of e] previous_cron_returns [OF assms(2,3), of e now]
      count_missed_returns [OF assms(1,3), of e]
    by (auto simp: owed_cron_fire_def map_sum_def split: sum.splits option.splits)
  then show ?thesis by (auto simp: owed_fire_def split: option.splits)
qed

lemma next_fire_returns:
  assumes "\<And>e. forward (tk_next tk e)" "near_utc z"
  shows "next_fire_at z tk now j \<noteq> Inl Not_Returned"
  using next_cron_returns [OF assms(1,2)]
  by (auto simp: next_fire_at_def next_interval_fire_def map_sum_def split: option.splits sum.splits)

lemma covered_mono: "cj_created j \<le> covered_until j" "cj_attempt j = Some t \<Longrightarrow> t \<le> covered_until j"
  by (auto simp: covered_until_def max_def split: option.splits)

lemma owed_cron_bounds:
  "owed_cron_fire z tk e after now = Inr (Some ow) \<Longrightarrow> after < ow_due ow \<and> ow_due ow \<le> now"
  using previous_cron_due [of z "tk_prev tk e" now]
  by (auto simp: owed_cron_fire_def map_sum_def split: sum.splits option.splits if_splits)

lemma owed_interval_bounds:
  "owed_interval_fire j after now = Some ow \<Longrightarrow> after < ow_due ow \<and> ow_due ow \<le> now"
proof -
  assume o: "owed_interval_fire j after now = Some ow"
  then obtain period anchor where j: "cj_interval j = Some period" "cj_anchor j = Some anchor"
    by (auto simp: owed_interval_fire_def split: option.splits)
  show ?thesis
  proof (cases "0 < period")
    case True
    then show ?thesis using owed_interval_some [OF j True o] by simp
  next
    case False
    then show ?thesis using o j by (auto simp: owed_interval_fire_def Let_def seconds_def split: if_splits)
  qed
qed

subsection \<open>Gaps\<close>

lemma gap_end_first:
  "low < high \<Longrightarrow> skipped z low \<Longrightarrow> \<not> skipped z high \<Longrightarrow>
     low < gap_end z low high \<and> gap_end z low high \<le> high
     \<and> \<not> skipped z (gap_end z low high) \<and> skipped z (gap_end z low high - 1)"
proof (induction z low high rule: gap_end.induct)
  case (1 z low high)
  let ?m = "low + (high - low) div 2"
  show ?case
  proof (cases "high - low \<le> 1")
    case True
    then have "high = low + 1" using 1(3) by linarith
    then have "gap_end z low high = high" by (subst gap_end.simps) simp
    then show ?thesis using 1(3-5) \<open>high = low + 1\<close> by simp
  next
    case False
    then have m: "low < ?m" "?m < high" by linarith+
    have eq: "gap_end z low high = (if skipped z ?m then gap_end z ?m high else gap_end z low ?m)"
      by (subst gap_end.simps) (simp only: False if_False Let_def)
    show ?thesis
    proof (cases "skipped z ?m")
      case True
      then show ?thesis using eq 1(1) [OF False refl True] 1(5) m by simp
    next
      case not_skipped: False
      then show ?thesis using eq 1(2) [OF False refl not_skipped] 1(4) m by simp
    qed
  qed
qed

subsection \<open>Zones without jumps\<close>

definition fixed_zone :: "int \<Rightarrow> zone" where
  "fixed_zone offset = \<lparr>zn_offset = \<lambda>_. offset, zn_resolve = \<lambda>w. w - offset\<rparr>"

lemma fixed_zone_simps [simp]:
  "zn_offset (fixed_zone n) t = n" "zn_resolve (fixed_zone n) w = w - n" "wall_at (fixed_zone n) t = t + n"
  by (simp_all add: fixed_zone_def wall_at_def)

lemma fixed_zone_near: "abs n < one_day \<Longrightarrow> near_utc (fixed_zone n)"
  by (simp add: near_utc_def)

lemma fixed_next:
  assumes "forward f"
  shows "next_cron_fire (fixed_zone n) f reference =
    (case f (reference + n) of None \<Rightarrow> Inl No_Tick | Some v \<Rightarrow> Inr (v - n))"
proof (cases "f (reference + n)")
  case None
  then show ?thesis by (subst next_cron_fire_def, subst future_tick.simps) simp
next
  case (Some v)
  then have "future_tick (fixed_zone n) f reference (reference + n) = Some (Inr v)"
    using forwardD [OF assms Some] by (subst future_tick.simps) auto
  then show ?thesis using Some by (simp add: next_cron_fire_def beat_gap_tick_def beat_moved_tick_def Let_def)
qed

lemma fixed_previous:
  assumes "backward f"
  shows "previous_cron_fire (fixed_zone n) f reference = Inr (map_option (\<lambda>v. v - n) (f (reference + n + 1)))"
proof -
  have start: "search_start (fixed_zone n) reference = reference + n + 1"
    by (simp add: search_start_def folded_def)
  have "past_tick (fixed_zone n) f reference None (reference + n + 1) = Some (map_option (\<lambda>v. v - n) (f (reference + n + 1)))"
    using backwardD [OF assms, of "reference + n + 1"]
    by (subst past_tick.simps) (force split: option.splits)
  then show ?thesis by (simp add: previous_cron_fire_def start)
qed

end
