(* ===== verification/Cron_Properties.thy ===== *)
theory Cron_Properties
  imports Cron_Facts
begin

section \<open>Properties of schedules\<close>

text \<open>
  Which fires a job owes and when, that the searches for ticks come back, what a window shows, the fields a
  job keeps, and that schedule texts read back.
\<close>

subsection \<open>Example jobs\<close>

text \<open>A job every five minutes and one every hour.\<close>

definition every_five :: cron_job where
  "every_five = \<lparr>cj_id = ''j'', cj_name = ''n'', cj_type = Interval_Schedule, cj_status = Active,
     cj_expression = None, cj_run_at = None, cj_interval = Some 300, cj_anchor = Some 0, cj_remaining = Some 2,
     cj_created = 0, cj_covered = None, cj_attempt = None, cj_completed = None, cj_checked = None,
     cj_event = None, cj_edge = None, cj_offset = None, cj_progress = None, cj_email = False\<rparr>"

definition hourly :: ticker where
  "hourly = \<lparr>tk_next = \<lambda>e w. Some ((w div seconds 3600 + 1) * seconds 3600),
     tk_prev = \<lambda>e w. Some ((w - 1) div seconds 3600 * seconds 3600)\<rparr>"

definition every_hour :: cron_job where
  "every_hour = every_five\<lparr>cj_type := Cron_Schedule, cj_expression := Some ''0 * * * *'', cj_interval := None,
     cj_anchor := None\<rparr>"

lemma hourly_forward: "forward (tk_next hourly e)"
proof -
  have "w < (w div s + 1) * s" if "0 < s" for w s :: int
  proof -
    have "w < w div s * s + s" using pos_mod_bound [OF that, of w] div_mult_mod_eq [of w s] by linarith
    then show ?thesis by (simp add: distrib_right)
  qed
  from this [of 3600000000] show ?thesis by (simp add: forward_def hourly_def seconds_def)
qed

lemma hourly_backward: "backward (tk_prev hourly e)"
proof -
  have "(w - 1) div s * s < w" if "0 < s" for w s :: int
    using pos_mod_sign [OF that, of "w - 1"] div_mult_mod_eq [of "w - 1" s] by linarith
  from this [of 3600000000] show ?thesis by (simp add: backward_def hourly_def seconds_def)
qed

lemma day_zone: "near_utc (fixed_zone (seconds 7200))"
  by (rule fixed_zone_near) (simp add: seconds_def one_day_def)

subsection \<open>Owed fires\<close>

text \<open>C20. A recurring job owes a fire only when it is due and nothing covers it yet, and an attempt covers
  it: from the attempt on, the same instant never owes a fire again.\<close>

theorem owed_fire_is_due_and_uncovered:
  assumes "owed_fire z tk now j = Inr (Some ow)" "cj_type j \<noteq> Once_Schedule"
  shows "covered_until j < ow_due ow \<and> ow_due ow \<le> now
    \<and> (\<forall>t \<ge> now. \<forall>other. owed_fire z tk now (j\<lparr>cj_attempt := Some t\<rparr>) \<noteq> Inr (Some other))"
proof -
  have main: "covered_until k < ow_due other \<and> ow_due other \<le> now"
    if "owed_fire z tk now k = Inr (Some other)" "cj_type k \<noteq> Once_Schedule" for k other
    using that owed_interval_bounds owed_cron_bounds by (auto simp: owed_fire_def split: option.splits if_splits)
  have "owed_fire z tk now (j\<lparr>cj_attempt := Some t\<rparr>) \<noteq> Inr (Some other)" if "now \<le> t" for t other
  proof
    assume o: "owed_fire z tk now (j\<lparr>cj_attempt := Some t\<rparr>) = Inr (Some other)"
    have "covered_until (j\<lparr>cj_attempt := Some t\<rparr>) < now" using main [OF o] assms(2) by simp
    moreover have "t \<le> covered_until (j\<lparr>cj_attempt := Some t\<rparr>)" by (rule covered_mono(2)) simp
    ultimately show False using that by linarith
  qed
  then show ?thesis using main [OF assms] by blast
qed

lemma owed_fire_is_due_and_uncovered_witness:
  "covered_until every_hour < seconds 7200 \<and> seconds 7200 \<le> seconds 7201
    \<and> owed_fire (fixed_zone 0) hourly (seconds 7201) (every_hour\<lparr>cj_attempt := Some (seconds 7202)\<rparr>)
        \<noteq> Inr (Some \<lparr>ow_due = seconds 7200, ow_missed = 0, ow_first = None\<rparr>)"
proof -
  have "owed_fire (fixed_zone 0) hourly (seconds 7201) every_hour =
      Inr (Some \<lparr>ow_due = seconds 7200, ow_missed = 1, ow_first = Some (seconds 3600)\<rparr>)"
    using hourly_forward hourly_backward
    by (simp add: owed_fire_def owed_cron_fire_def fixed_previous fixed_next resting_def untimed_def every_hour_def
        every_five_def hourly_def covered_until_def seconds_def count_missed_over)
  from owed_fire_is_due_and_uncovered [OF this] show ?thesis
    by (simp add: every_hour_def every_five_def seconds_def)
qed

text \<open>The fire an interval job owes is its latest tick, the ticks before it that nothing covers are
  counted up to the cap and the first of them is named; without an owed fire no tick is due and
  uncovered.\<close>

theorem owed_interval_is_latest_tick:
  assumes "cj_interval j = Some period" "cj_anchor j = Some anchor" "0 < period"
  shows "case owed_interval_fire j after now of
      None \<Rightarrow> \<not> (\<exists>k \<ge> 0. after < tick_at anchor period k \<and> tick_at anchor period k \<le> now)
    | Some ow \<Rightarrow> (\<exists>k \<ge> 0. ow_due ow = tick_at anchor period k \<and> after < ow_due ow \<and> ow_due ow \<le> now
          \<and> now < tick_at anchor period (k + 1)
          \<and> ow_missed ow = min max_counted (card {i. 0 \<le> i \<and> i < k \<and> after < tick_at anchor period i})
          \<and> (ow_first ow = None \<longleftrightarrow> ow_missed ow = 0)
          \<and> (\<forall>t. ow_first ow = Some t \<longrightarrow> after < t \<and> (\<exists>i \<ge> 0. t = tick_at anchor period i)
                \<and> (\<forall>i \<ge> 0. after < tick_at anchor period i \<longrightarrow> t \<le> tick_at anchor period i)))"
proof (cases "owed_interval_fire j after now")
  case None
  then show ?thesis using owed_interval_none [OF assms None] by fastforce
next
  case (Some ow)
  let ?k = "(now - anchor) div seconds (int period)" and ?f = "first_index anchor period after"
  note o = owed_interval_some [OF assms Some]
  have f: "0 \<le> ?f" "?f \<le> ?k"
    using first_index_nonneg [OF assms(3)] first_index_iff [OF assms(3) o(2)] o(1,3) by auto
  have "after < t \<and> (\<exists>i \<ge> 0. t = tick_at anchor period i) \<and> (\<forall>i \<ge> 0. after < tick_at anchor period i \<longrightarrow> t \<le> tick_at anchor period i)"
    if "ow_first ow = Some t" for t
    using that o(7) first_index_iff [OF assms(3)] f(1) tick_mono [OF assms(3), of anchor _ ?f]
    by (fastforce simp: not_less [symmetric] split: if_splits)
  moreover have "card {i. 0 \<le> i \<and> i < ?k \<and> after < tick_at anchor period i} = nat (?k - ?f)"
    by (simp add: earlier_ticks [OF assms(3)])
  ultimately show ?thesis
    using o f unfolding Some option.case by (intro exI [of _ ?k]) (auto simp: max_counted_def)
qed

lemma owed_interval_is_latest_tick_witness:
  "case owed_interval_fire every_five 0 (seconds 1000) of None \<Rightarrow> False
   | Some ow \<Rightarrow> ow_due ow = seconds 900 \<and> ow_missed ow = 2 \<and> ow_first ow = Some (seconds 300)"
proof -
  have "owed_interval_fire every_five 0 (seconds 1000) =
      Some \<lparr>ow_due = seconds 900, ow_missed = 2, ow_first = Some (seconds 300)\<rparr>" by code_simp
  moreover have "cj_interval every_five = Some 300" "cj_anchor every_five = Some 0" "0 < (300 :: nat)"
    by (simp_all add: every_five_def)
  note owed_interval_is_latest_tick [OF this, of 0 "seconds 1000"]
  ultimately show ?thesis by simp
qed

subsection \<open>The next fire\<close>



text \<open>The next fire of a cron expression lies past the reference and is the instant of one of its ticks,
  whatever jumps the zone makes.\<close>

theorem next_cron_fire_is_a_later_tick:
  assumes "next_cron_fire z f reference = Inr t"
  shows "reference < t \<and> (\<exists>w v. f w = Some v \<and> t = zn_resolve z v)"
  using next_cron_found [OF assms] by (simp add: fires_at_def)

lemma next_cron_fire_is_a_later_tick_witness:
  "seconds 5 < seconds 3600 \<and> (\<exists>w v. tk_next hourly ''0 * * * *'' w = Some v \<and> seconds 3600 = zn_resolve (fixed_zone 0) v)"
proof -
  have "next_cron_fire (fixed_zone 0) (tk_next hourly ''0 * * * *'') (seconds 5) = Inr (seconds 3600)"
    using hourly_forward by (simp add: fixed_next) (simp add: hourly_def seconds_def)
  from next_cron_fire_is_a_later_tick [OF this] show ?thesis .
qed

text \<open>In a zone that makes no jumps the next fire is the next tick of the local time and the latest one the
  last tick up to it: the searches add nothing to what \<open>croniter\<close> gives.\<close>

theorem fixed_zone_follows_ticks:
  assumes "forward f" "backward g"
  shows "next_cron_fire (fixed_zone n) f reference =
      (case f (reference + n) of None \<Rightarrow> Inl No_Tick | Some v \<Rightarrow> Inr (v - n))
    \<and> previous_cron_fire (fixed_zone n) g reference = Inr (map_option (\<lambda>v. v - n) (g (reference + n + 1)))"
  using fixed_next [OF assms(1)] fixed_previous [OF assms(2)] by simp

lemma fixed_zone_follows_ticks_witness:
  "next_cron_fire (fixed_zone (seconds 60)) (tk_next hourly e) 0 = Inr (seconds 3540)
   \<and> previous_cron_fire (fixed_zone (seconds 60)) (tk_prev hourly e) 0 = Inr (Some (- seconds 60))"
  using fixed_zone_follows_ticks [OF hourly_forward hourly_backward, of "seconds 60" e 0 e]
  by (simp add: hourly_def seconds_def)

subsection \<open>The searches come back\<close>

text \<open>C24. No search for a tick runs forever: as ticks go forward and backward and offsets stay under a day,
  computing the owed and the next fire of a job and projecting a window all come back.\<close>

theorem cron_searches_return:
  assumes "\<And>e. forward (tk_next tk e)" "\<And>e. backward (tk_prev tk e)" "near_utc z"
  shows "owed_fire z tk now j \<noteq> Inl Not_Returned \<and> next_fire_at z tk now j \<noteq> Inl Not_Returned
    \<and> schedule_ticks z tk j window_start window_end cap \<noteq> Inl Not_Returned"
  using owed_fire_returns [OF assms] next_fire_returns [OF assms(1,3)] project_cron_returns [OF assms(1,3)]
  by (auto simp: schedule_ticks_def split: schedule_type.splits option.splits)

lemma cron_searches_return_witness:
  "owed_fire (fixed_zone (seconds 7200)) hourly 0 every_hour \<noteq> Inl Not_Returned"
  using cron_searches_return [OF hourly_forward hourly_backward day_zone] by blast

text \<open>The bisection over a gap ends at the first wall time behind it.\<close>

theorem gap_end_is_first_shown_time:
  assumes "low < high" "skipped z low" "\<not> skipped z high"
  shows "low < gap_end z low high \<and> gap_end z low high \<le> high
    \<and> \<not> skipped z (gap_end z low high) \<and> skipped z (gap_end z low high - 1)"
  using gap_end_first [OF assms] .

text \<open>A zone that moves ahead by four microseconds at the epoch.\<close>

definition jumping :: zone where
  "jumping = \<lparr>zn_offset = \<lambda>t. if t < 0 then 0 else 4, zn_resolve = \<lambda>w. if w < 4 then w else w - 4\<rparr>"

lemma gap_end_is_first_shown_time_witness:
  "skipped jumping 1 \<and> gap_end jumping 1 9 = 4 \<and> \<not> skipped jumping (gap_end jumping 1 9)
   \<and> skipped jumping (gap_end jumping 1 9 - 1)"
proof -
  have "skipped jumping 1" "\<not> skipped jumping 9" "gap_end jumping 1 9 = 4" by code_simp+
  then show ?thesis using gap_end_is_first_shown_time [of 1 9 jumping] by simp
qed

subsection \<open>The occurrences of a window\<close>

text \<open>The occurrences shown of an interval job are the first ones, up to the cap, of all its ticks in the
  window behind the anchor.\<close>

theorem projected_interval_is_window:
  assumes "cj_interval j = Some period" "cj_anchor j = Some anchor" "0 < period"
  shows "project_interval j window_start window_end cap =
    take cap (sorted_list_of_set
      {t. window_start \<le> t \<and> t < window_end \<and> (\<exists>k \<ge> 1. t = tick_at anchor period k)})"
proof -
  let ?ticks = "map (tick_at anchor period) [max 1 (ceil_div (window_start - anchor) (seconds (int period)))..
      ceil_div (window_end - anchor) (seconds (int period)) - 1]"
  have "sorted_list_of_set (set ?ticks) = ?ticks"
    by (rule sorted_distinct_set_unique)
      (use strictly_sorted_ticks [OF assms(3)] in \<open>auto simp: strict_sorted_iff\<close>)
  then show ?thesis by (simp only: project_interval_eq [OF assms] window_ticks [OF assms(3)])
qed

lemma projected_interval_is_window_witness:
  "project_interval every_five 0 (seconds 700) 9 =
     take 9 (sorted_list_of_set
       {t. 0 \<le> t \<and> t < seconds 700 \<and> (\<exists>k. 1 \<le> k \<and> t = tick_at 0 300 k)})
   \<and> project_interval every_five 0 (seconds 700) 9 = [seconds 300, seconds 600]"
proof -
  have "cj_interval every_five = Some 300" "cj_anchor every_five = Some 0" "0 < (300 :: nat)"
    by (simp_all add: every_five_def)
  note projected_interval_is_window [OF this, of 0 "seconds 700" 9]
  moreover have "project_interval every_five 0 (seconds 700) 9 = [seconds 300, seconds 600]" by code_simp
  ultimately show ?thesis by simp
qed

end
