(* ===== verification/Schedule_Properties.thy ===== *)
theory Schedule_Properties
  imports Cron_Properties Py_Ip
begin

section \<open>Properties of schedule texts and fields\<close>

text \<open>
  Schedule and event time texts read back, a normalized job is settled, coming occurrences stay within the
  Runs a job has left, and the waits between attempts are bounded.
\<close>

subsection \<open>Texts\<close>

lemma digits_of_length: "0 < k \<Longrightarrow> n < 10 ^ k \<Longrightarrow> length (digits_of 10 n) \<le> k"
proof (induction k arbitrary: n)
  case (Suc k)
  show ?case
  proof (cases "n < 10")
    case True
    then show ?thesis by (subst digits_of.simps) simp
  next
    case False
    then have "0 < k" using Suc.prems(2) by (cases k) auto
    moreover have "n div 10 < 10 ^ k" using Suc.prems(2) by (simp add: less_mult_imp_div_less mult.commute)
    ultimately show ?thesis using Suc.IH [of "n div 10"] False by (subst digits_of.simps) simp
  qed
qed simp

lemma is_amount_digits: "0 < n \<Longrightarrow> is_amount (digits_of 10 n)"
  using digits_of_10_digits digits_of_10_no_leading_zero by (auto simp: is_amount_def list_all_iff)

lemma whole_units: "n mod u = 0 \<Longrightarrow> 0 < n \<Longrightarrow> n div u * u = n \<and> 0 < n div u" for n u :: nat
  by (metis add.right_neutral div_mult_mod_eq gr0I mult_0)

text \<open>A multiple of a minute is written in its largest unit.\<close>

lemma format_duration_form:
  assumes "0 < n" "n mod 60 = 0"
  shows "\<exists>m u v. format_duration n = digits_of 10 m @ [u] \<and> 0 < m \<and> m \<le> n \<and> duration_unit u = Some v \<and> m * v = n"
proof -
  consider "n mod 86400 = 0" | "n mod 86400 \<noteq> 0" "n mod 3600 = 0" | "n mod 86400 \<noteq> 0" "n mod 3600 \<noteq> 0" by blast
  then show ?thesis
  proof cases
    case 1
    then have "n div 86400 * 86400 = n" "0 < n div 86400" using whole_units [of n 86400] assms(1) by simp_all
    then show ?thesis using 1
      by (intro exI [of _ "n div 86400"] exI [of _ "CHR ''d''"] exI [of _ 86400]) (simp add: format_duration_def duration_unit_def)
  next
    case 2
    then have "n div 3600 * 3600 = n" "0 < n div 3600" using whole_units [of n 3600] assms(1) by simp_all
    then show ?thesis using 2
      by (intro exI [of _ "n div 3600"] exI [of _ "CHR ''h''"] exI [of _ 3600]) (simp add: format_duration_def duration_unit_def)
  next
    case 3
    then have "n div 60 * 60 = n" "0 < n div 60" using whole_units [of n 60] assms by simp_all
    then show ?thesis using 3
      by (intro exI [of _ "n div 60"] exI [of _ "CHR ''m''"] exI [of _ 60]) (simp add: format_duration_def duration_unit_def)
  qed
qed

lemma duration_reads_back:
  assumes "0 < n" "n mod 60 = 0" "n < 10 ^ max_digits"
  shows "parse_duration_seconds (format_duration n) = Inr n"
proof -
  obtain m u v where f: "format_duration n = digits_of 10 m @ [u]" "0 < m" "m \<le> n" "duration_unit u = Some v" "m * v = n"
    using format_duration_form [OF assms(1,2)] by blast
  have "length (digits_of 10 m) \<le> max_digits"
  proof (rule digits_of_length)
    show "m < 10 ^ max_digits" using f(3) assms(3) by (rule le_less_trans)
  qed (simp add: max_digits_def)
  then show ?thesis
    using f(2,4,5) by (simp add: parse_duration_seconds_def f(1) is_amount_digits int_of_digits_digits_of)
qed

lemma digit_not_space: "is_digit c \<Longrightarrow> \<not> is_space c"
  by (auto simp: is_digit_def is_space_def Let_def)

lemma digits_no_space: "c \<in> set (digits_of 10 n) \<Longrightarrow> \<not> is_space c"
  by (rule digit_not_space) (rule digits_of_10_digits)

lemma unit_no_space: "duration_unit u = Some v \<Longrightarrow> \<not> is_space u"
  by (auto simp: duration_unit_def is_space_def code_def split: if_splits)

text \<open>C36. The schedule text of an interval job reads back as the same interval, from the time it is read.\<close>

theorem interval_schedule_reads_back:
  assumes "cj_type j = Interval_Schedule" "cj_interval j = Some n" "0 < n" "n mod 60 = 0"
    and "n < 10 ^ max_digits" "reference + seconds (int n) \<le> max_instant"
  shows "parse_schedule sr reference (format_schedule iso_text j) =
    Inr ((only_type Interval_Schedule)\<lparr>ps_interval := Some n, ps_anchor := Some reference\<rparr>)"
proof -
  obtain m u v where f: "format_duration n = digits_of 10 m @ [u]" "0 < m" "duration_unit u = Some v"
    using format_duration_form [OF assms(3,4)] by blast
  let ?d = "format_duration n"
  have t: "format_schedule iso_text j = join '' '' [''every'', ?d]"
    using assms(1,2) by (simp add: format_schedule_def)
  have d: "?d \<noteq> [] \<and> (\<forall>c \<in> set ?d. \<not> is_space c)"
    using f digits_no_space unit_no_space by auto
  have w: "words (join '' '' [''every'', ?d]) = [''every'', ?d]"
    by (rule words_join_spaces) (use d in \<open>auto simp: is_space_def code_def\<close>)
  have single: "single_spaced (join '' '' [''every'', ?d]) = ''every '' @ ?d"
    unfolding single_spaced_def w by simp
  have "strip (''every '' @ ?d) \<noteq> []"
  proof -
    have "\<not> is_space (CHR ''e'')" by (simp add: is_space_def code_def)
    then show ?thesis by (auto simp: strip_def rdrop_while_def dropWhile_eq_Nil_conv)
  qed
  moreover have "casefold (''every '' @ ?d) \<noteq> ''webhook''" "casefold (''every '' @ ?d) \<noteq> ''email''"
    by (simp_all add: casefold_def lower_char_def)
  moreover have "partition_on (CHR '' '') (''every '' @ ?d) = (''every'', True, ?d)"
    by (simp add: partition_on_def)
  ultimately show ?thesis
    using assms(6) duration_reads_back [OF assms(3-5)] single
    by (simp add: parse_schedule_def t Let_def parse_relative_def)
qed

text \<open>A reader in UTC that knows durations only.\<close>

definition plain_reader :: schedule_reader where
  "plain_reader = \<lparr>sr_zone = fixed_zone 0, sr_iso = (\<lambda>_. None), sr_schedulable = (\<lambda>_. False)\<rparr>"

lemma interval_schedule_reads_back_witness:
  "parse_schedule plain_reader 0 (format_schedule (\<lambda>_. ''now'') every_five) =
    Inr ((only_type Interval_Schedule)\<lparr>ps_interval := Some 300, ps_anchor := Some 0\<rparr>)"
proof (rule interval_schedule_reads_back)
  have "(300 :: nat) < 10 ^ 3" by simp
  also have "\<dots> \<le> 10 ^ max_digits" by (rule power_increasing) (simp_all add: max_digits_def)
  finally show "(300 :: nat) < 10 ^ max_digits" .
qed (simp_all add: every_five_def seconds_def max_instant_def)

text \<open>The amount of an event time in its largest unit.\<close>

definition offset_amount :: "nat \<Rightarrow> string" where
  "offset_amount n =
     (if n mod (24 * 60) = 0 then digits_of 10 (n div (24 * 60)) @ ''d''
      else if n mod 60 = 0 then digits_of 10 (n div 60) @ ''h''
      else digits_of 10 n @ ''m'')"

lemma offset_amount_form:
  assumes "0 < n"
  shows "\<exists>m u v. offset_amount n = digits_of 10 m @ [u] \<and> 0 < m \<and> m \<le> n \<and> minutes_unit u = Some v \<and> m * v = n"
proof -
  consider "n mod 1440 = 0" | "n mod 1440 \<noteq> 0" "n mod 60 = 0" | "n mod 1440 \<noteq> 0" "n mod 60 \<noteq> 0" by blast
  then show ?thesis
  proof cases
    case 1
    then have "n div 1440 * 1440 = n" "0 < n div 1440" using whole_units [of n 1440] assms by simp_all
    then show ?thesis using 1
      by (intro exI [of _ "n div 1440"] exI [of _ "CHR ''d''"] exI [of _ 1440]) (simp add: offset_amount_def minutes_unit_def)
  next
    case 2
    then have "n div 60 * 60 = n" "0 < n div 60" using whole_units [of n 60] assms by simp_all
    then show ?thesis using 2
      by (intro exI [of _ "n div 60"] exI [of _ "CHR ''h''"] exI [of _ 60]) (simp add: offset_amount_def minutes_unit_def)
  next
    case 3
    then show ?thesis using assms
      by (intro exI [of _ n] exI [of _ "CHR ''m''"] exI [of _ 1]) (simp add: offset_amount_def minutes_unit_def)
  qed
qed

lemma minutes_unit_plain:
  "minutes_unit u = Some v \<Longrightarrow> \<not> is_space u \<and> \<not> is_digit u \<and> lower_char u = u"
  by (auto simp: minutes_unit_def is_space_def is_digit_def code_def lower_char_def Let_def split: if_splits)

lemma lower_digit: "is_digit c \<Longrightarrow> lower_char c = c"
  by (simp add: lower_char_def is_digit_def Let_def)

lemma match_offset_text:
  assumes "0 < m" "minutes_unit u = Some v"
  shows "match_offset ('' '' @ (if negative then ''-'' else ''+'') @ '' '' @ digits_of 10 m @ [u]) =
    Some (negative, digits_of 10 m, v)"
proof -
  let ?d = "digits_of 10 m"
  have d: "list_all is_digit ?d" using digits_of_10_digits by (auto simp: list_all_iff)
  have sp: "is_space (CHR '' '')" "\<not> is_space (CHR ''-'')" "\<not> is_space (CHR ''+'')" by (simp_all add: is_space_def code_def)
  have first: "\<not> is_space (hd ?d)" by (rule digits_no_space [of _ m]) simp
  then have skip: "dropWhile is_space ('' '' @ ?d @ [u]) = ?d @ [u]"
    using sp by (cases ?d) auto
  have "takeWhile is_digit (?d @ [u]) = ?d" "dropWhile is_digit (?d @ [u]) = [u]"
    using d minutes_unit_plain [OF assms(2)] by (simp_all add: takeWhile_append2 dropWhile_append2 list_all_iff)
  then show ?thesis
    using sp skip assms minutes_unit_plain [OF assms(2)] is_amount_digits [OF assms(1)]
    by (cases negative) (simp_all add: match_offset_def Let_def)
qed

text \<open>Event times read back: whatever edge and offset within 31 days a job has, its canonical text parses
  to them.\<close>

theorem event_time_reads_back:
  assumes "abs n \<le> int max_event_offset"
  shows "parse_event_time (format_event_time (Some e) (Some n)) = Inr (e, n)"
proof (cases "n = 0")
  case True
  have "parse_event_time ''start'' = Inr (Edge_Start, 0)" "parse_event_time ''end'' = Inr (Edge_End, 0)" by code_simp+
  then show ?thesis using True by (cases e) (simp_all add: format_event_time_def edge_text_def)
next
  case False
  let ?sign = "if n < 0 then ''-'' else ''+''" and ?amount = "offset_amount (nat (abs n))"
  obtain m u v where a: "?amount = digits_of 10 m @ [u]" "0 < m" "m \<le> nat (abs n)" "minutes_unit u = Some v"
      "m * v = nat (abs n)"
    using offset_amount_form [of "nat (abs n)"] False by auto
  note u = minutes_unit_plain [OF a(4)]
  let ?words = "[edge_text e, ?sign, ?amount]"
  have form: "format_event_time (Some e) (Some n) = join '' '' ?words"
    using False by (simp add: format_event_time_def offset_amount_def Let_def)
  have "\<forall>w \<in> set ?words. w \<noteq> [] \<and> (\<forall>c \<in> set w. \<not> is_space c)"
    using u digits_no_space by (cases e) (auto simp: a(1) edge_text_def is_space_def code_def)
  then have spaced: "single_spaced (join '' '' ?words) = join '' '' ?words"
    unfolding single_spaced_def by (subst words_join_spaces) simp_all
  have lower_digits: "lower (digits_of 10 m) = digits_of 10 m"
    using digits_of_10_digits lower_digit unfolding lower_def by (intro map_idI) blast
  have plain: "lower ''start'' = ''start''" "lower ''end'' = ''end''" "lower ''-'' = ''-''" "lower ''+'' = ''+''"
      "lower '' '' = '' ''" by code_simp+
  have "lower (edge_text e) = edge_text e" using plain by (cases e) (simp_all add: edge_text_def)
  moreover have "lower ?sign = ?sign" using plain by simp
  ultimately have low: "lower (join '' '' ?words) = join '' '' ?words"
    using lower_digits plain(5) u by (simp add: a(1) lower_def)
  have "match_event_time (join '' '' ?words) = Some (e, Some (n < 0, digits_of 10 m, v))"
    using match_offset_text [OF a(2,4), of "n < 0"]
    by (cases e) (simp_all add: match_event_time_def edge_text_def a(1) Let_def)
  moreover have "length (digits_of 10 m) \<le> max_digits"
  proof -
    have "m < 10 ^ 5" using a(3) assms by (simp add: max_event_offset_def)
    then have "length (digits_of 10 m) \<le> 5" by (intro digits_of_length) simp_all
    then show ?thesis by (simp add: max_digits_def)
  qed
  moreover have "m * v \<le> max_event_offset" using a(5) assms by linarith
  ultimately show ?thesis
    using a(5) unfolding parse_event_time_def form spaced low
    by (auto simp: int_of_digits_digits_of Let_def)
qed

lemma event_time_reads_back_witness:
  "parse_event_time (format_event_time (Some Edge_Start) (Some (- 30))) = Inr (Edge_Start, - 30)
   \<and> format_event_time (Some Edge_Start) (Some (- 30)) = ''start - 30m''"
proof -
  have "abs (- 30) \<le> int max_event_offset" by (simp add: max_event_offset_def)
  moreover have "format_event_time (Some Edge_Start) (Some (- 30)) = ''start - 30m''" by code_simp
  ultimately show ?thesis using event_time_reads_back [of "- 30" Edge_Start] by simp
qed

subsection \<open>Normal jobs\<close>

text \<open>A job holds the schedule fields of its type and no others.\<close>

definition own_fields :: "cron_job \<Rightarrow> bool" where
  "own_fields j \<longleftrightarrow>
     (cj_expression j \<noteq> None \<longleftrightarrow> cj_type j = Cron_Schedule)
     \<and> (cj_interval j \<noteq> None \<longleftrightarrow> cj_type j = Interval_Schedule)
     \<and> (cj_anchor j \<noteq> None \<longleftrightarrow> cj_type j = Interval_Schedule)
     \<and> (cj_run_at j \<noteq> None \<longleftrightarrow> cj_type j = Once_Schedule)
     \<and> (cj_event j \<noteq> None \<longleftrightarrow> cj_type j = Event_Schedule) \<and> (cj_edge j \<noteq> None \<longleftrightarrow> cj_type j = Event_Schedule)
     \<and> (cj_offset j \<noteq> None \<longleftrightarrow> cj_type j = Event_Schedule)
     \<and> (cj_email j \<longleftrightarrow> cj_type j = Email_Schedule)"

lemma strip_idem: "strip (strip t) = strip t"
proof (cases "strip t = []")
  case False
  let ?d = "dropWhile is_space t"
  have "hd (rdrop_while is_space ?d) = hd ?d"
    using False prefix_rdrop_while [of is_space ?d] by (metis hd_append2 prefix_def strip_def)
  moreover have "?d \<noteq> []" using False by (metis rdrop_while_Nil strip_def)
  ultimately have "\<not> is_space (hd (strip t))" by (metis hd_dropWhile strip_def)
  then have "dropWhile is_space (strip t) = strip t" using False by (cases "strip t") auto
  then show ?thesis using rdrop_while_last [of is_space ?d] by (simp add: strip_def)
qed (simp add: strip_def)

lemmas normalize_defs = normalize_job_schedule_def own_fields_def without_event_def without_times_def Let_def strip_idem

lemma count_missed_errors: "count_missed z f due k cursor = Inl e \<Longrightarrow> e = No_Tick \<or> e = Not_Returned"
  by (induction k arbitrary: cursor) (auto simp: map_sum_def next_cron_errors split: if_splits sum.splits)

lemma owed_cron_errors: "owed_cron_fire z tk x after now = Inl e \<Longrightarrow> e = No_Tick \<or> e = Not_Returned"
  by (auto simp: owed_cron_fire_def previous_cron_fire_def map_sum_def next_cron_errors count_missed_errors
      split: if_splits sum.splits option.splits)

text \<open>C35. What normalization accepts is settled: it keeps the job's type, leaves exactly the fields of that type
  and does not change the job again; its fires, owed and next, compute without an error, except that the search
  for the ticks of a cron expression may find none or not come back.\<close>

theorem normalized_job_is_settled:
  assumes "normalize_job_schedule sr j = Inr k"
  shows "cj_type k = cj_type j \<and> own_fields k \<and> normalize_job_schedule sr k = Inr k
    \<and> (\<forall>n. cj_interval k = Some n \<longrightarrow> 60 \<le> n \<and> n mod 60 = 0)
    \<and> (\<forall>e. next_fire_at z tk now k = Inl e \<or> owed_fire z tk now k = Inl e \<longrightarrow>
         cj_type k = Cron_Schedule \<and> (e = No_Tick \<or> e = Not_Returned))"
proof -
  have settled: "cj_type k = cj_type j \<and> own_fields k \<and> normalize_job_schedule sr k = Inr k
      \<and> (\<forall>n. cj_interval k = Some n \<longrightarrow> 60 \<le> n \<and> n mod 60 = 0)"
  proof (cases "cj_type j")
    case Cron_Schedule
    then show ?thesis
      using assms by (auto simp: normalize_defs normalize_cron_def split: option.splits if_splits)
  next
    case Interval_Schedule
    then show ?thesis
      using assms by (auto simp: normalize_defs normalize_interval_def split: option.splits if_splits)
  next
    case Once_Schedule
    then show ?thesis
      using assms by (auto simp: normalize_defs normalize_once_def split: option.splits if_splits)
  next
    case Event_Schedule
    then show ?thesis
      using assms by (auto simp: normalize_defs normalize_event_def split: option.splits if_splits)
  qed (use assms in \<open>auto simp: normalize_defs split: if_splits\<close>)
  then have "cj_type k = Cron_Schedule \<and> (e = No_Tick \<or> e = Not_Returned)"
    if "next_fire_at z tk now k = Inl e \<or> owed_fire z tk now k = Inl e" for e
    using that next_cron_errors [of z _ now] owed_cron_errors [of z tk _ "covered_until k" now]
    by (auto simp: next_fire_at_def owed_fire_def own_fields_def resting_def untimed_def next_interval_fire_def map_sum_def
        split: sum.splits option.splits schedule_type.splits if_splits)
  then show ?thesis using settled by blast
qed

lemma normalized_job_is_settled_witness:
  "own_fields every_five \<and> normalize_job_schedule plain_reader every_five = Inr every_five"
proof -
  have "normalize_job_schedule plain_reader every_five = Inr every_five"
    by (simp add: normalize_defs normalize_interval_def every_five_def max_instant_def seconds_def)
  from normalized_job_is_settled [OF this] show ?thesis by blast
qed

subsection \<open>Runs left and waits\<close>

text \<open>A window shows no more coming fires than the job has Runs left: the occurrences are the first of the
  job's ticks, cut at the first coming one too many.\<close>

theorem projected_fires_keep_to_budget:
  assumes "project_occurrences z tk j window_start window_end now cap = Inr os" "cj_remaining j = Some n"
  shows "\<exists>ticks. schedule_ticks z tk j window_start window_end cap = Inr ticks
    \<and> prefix (map co_fire os) ticks
    \<and> length (filter (\<lambda>t. now \<le> t) (map co_fire os)) = min n (length (filter (\<lambda>t. now \<le> t) ticks))"
proof -
  have limit: "prefix (limit_future now b ts) ts
      \<and> length (filter (\<lambda>t. now \<le> t) (limit_future now b ts)) = min b (length (filter (\<lambda>t. now \<le> t) ts))" for b ts
    by (induction now b ts rule: limit_future.induct) (auto split: nat.splits)
  obtain ticks where ticks: "schedule_ticks z tk j window_start window_end cap = Inr ticks"
    using assms(1) by (auto simp: project_occurrences_def map_sum_def split: sum.splits)
  have "map co_fire os = limit_future now n ticks"
    using assms ticks by (auto simp: project_occurrences_def o_def)
  then show ?thesis using ticks limit by auto
qed

lemma projected_fires_keep_to_budget_witness:
  "length (filter (\<lambda>t. 0 \<le> t) (map co_fire (case project_occurrences (fixed_zone 0) hourly every_five 0 (seconds 1000) 0 9
      of Inr os \<Rightarrow> os | Inl e \<Rightarrow> []))) = 2"
proof -
  let ?r = "project_occurrences (fixed_zone 0) hourly every_five 0 (seconds 1000) 0 9"
  have t: "schedule_ticks (fixed_zone 0) hourly every_five 0 (seconds 1000) 9 = Inr [seconds 300, seconds 600, seconds 900]"
    unfolding schedule_ticks_def by code_simp
  then obtain os where os: "?r = Inr os" by (auto simp: project_occurrences_def)
  have "cj_remaining every_five = Some 2" by (simp add: every_five_def)
  from projected_fires_keep_to_budget [OF os this] show ?thesis using t os by (simp add: seconds_def)
qed

text \<open>The wait before a further attempt is a minute at first, doubles with every failure and never passes an
  hour.\<close>

theorem retry_delay_is_bounded:
  "60 \<le> once_retry_delay n \<and> once_retry_delay n \<le> 3600 \<and> once_retry_delay n \<le> once_retry_delay (n + 1)
   \<and> (1 \<le> n \<longrightarrow> once_retry_delay (n + 1) = min (2 * once_retry_delay n) 3600) \<and> once_retry_delay 1 = 60"
proof -
  have early: "once_retry_delay m = 60" if "m \<le> 1" for m using that by (simp add: once_retry_delay_def)
  have late: "once_retry_delay m = 3600" if "7 \<le> m" for m using that by (simp add: once_retry_delay_def)
  have middle: "once_retry_delay 2 = 120" "once_retry_delay 3 = 240" "once_retry_delay 4 = 480"
      "once_retry_delay 5 = 960" "once_retry_delay 6 = 1920" by code_simp+
  consider "n \<le> 0" | "n = 1" | "n = 2" | "n = 3" | "n = 4" | "n = 5" | "n = 6" | "7 \<le> n" by linarith
  then show ?thesis by cases (simp_all add: early late middle)
qed

lemma retry_delay_is_bounded_witness: "once_retry_delay 3 = min (2 * once_retry_delay 2) 3600"
  using retry_delay_is_bounded [of 2] by simp

end
