(* ===== verification/Cron_Events.thy ===== *)
theory Cron_Events
  imports Cron_Schedule "HOL-Library.Product_Lexorder" "HOL-Library.List_Lexorder" "HOL-Library.Char_ord"
begin

section \<open>Jobs bound to calendar events\<close>

text \<open>
  \<open>core/automation/_cron_events.py\<close>: when an event job is due for the occurrences of its event, which one it
  owes, and what it has consumed. The calendar is a parameter: for a job's event and an instant, the
  occurrences that end after it in start order, as the iterator yields them, one by one. The texts of the
  note for the Run are not modelled.
\<close>

record occurrence =
  oc_id :: string
  oc_start :: instant
  oc_end :: instant

type_synonym occurrences = "nat \<Rightarrow> occurrence option"

type_synonym event_calendar = "instant \<Rightarrow> occurrences"

definition event_offset :: "cron_job \<Rightarrow> int" where
  "event_offset j = (case cj_offset j of None \<Rightarrow> 0 | Some n \<Rightarrow> seconds (n * 60))"

definition due_at :: "cron_job \<Rightarrow> occurrence \<Rightarrow> instant" where
  "due_at j oc = (if cj_edge j = Some Edge_Start then oc_start oc else oc_end oc) + event_offset j"

subsection \<open>Coverage\<close>

definition coverage :: "cron_job \<Rightarrow> instant" where
  "coverage j = (case cj_covered j of None \<Rightarrow> cj_created j | Some t \<Rightarrow> max (cj_created j) t)"

definition consumed_at :: "cron_job \<Rightarrow> instant \<Rightarrow> string list option" where
  "consumed_at j t =
     (case cj_progress j of
        None \<Rightarrow> None
      | Some p \<Rightarrow> if coverage j \<noteq> t \<or> ep_due p \<noteq> t then None else Some (ep_ids p))"

definition consume :: "cron_job \<Rightarrow> occurrence \<times> instant \<Rightarrow> cron_job" where
  "consume j due =
     (let consumed = (case consumed_at j (snd due) of None \<Rightarrow> [] | Some ids \<Rightarrow> ids) in
      j\<lparr>cj_covered := Some (snd due),
        cj_progress := Some \<lparr>ep_due = snd due, ep_ids = consumed @ [oc_id (fst due)]\<rparr>\<rparr>)"

subsection \<open>Due occurrences\<close>

text \<open>The loop over the iterator; \<open>None\<close> never comes to its end.\<close>

partial_function (option) scan_dues ::
  "occurrences \<Rightarrow> cron_job \<Rightarrow> instant \<Rightarrow> instant \<Rightarrow> (occurrence \<times> instant) list \<Rightarrow> nat \<Rightarrow>
     (occurrence \<times> instant) list option" where
  "scan_dues ocs j after until found i =
     (case ocs i of
        None \<Rightarrow> Some found
      | Some oc \<Rightarrow>
          if until < oc_start oc + event_offset j then Some found
          else scan_dues ocs j after until
                 (if after < due_at j oc \<and> due_at j oc \<le> until then found @ [(oc, due_at j oc)] else found) (Suc i))"

text \<open>They are sorted by due time, start and id.\<close>

definition due_key :: "occurrence \<times> instant \<Rightarrow> instant \<times> instant \<times> string" where
  "due_key due = (snd due, oc_start (fst due), oc_id (fst due))"

definition dues_between ::
  "event_calendar \<Rightarrow> cron_job \<Rightarrow> instant \<Rightarrow> instant \<Rightarrow> (occurrence \<times> instant) list option" where
  "dues_between cal j after until =
     map_option (sort_key due_key)
       (scan_dues (cal (after - event_offset j)) j after until [] 0)"

definition dues_in_window ::
  "event_calendar \<Rightarrow> cron_job \<Rightarrow> instant \<Rightarrow> instant \<Rightarrow> nat \<Rightarrow> (occurrence \<times> instant) list option" where
  "dues_in_window cal j window_start window_end limit =
     map_option (take limit) (dues_between cal j (window_start - 1) (window_end - 1))"

text \<open>Until when an occurrence can still start; the inner \<open>None\<close> is no limit.\<close>

partial_function (option) first_start_after :: "occurrences \<Rightarrow> instant \<Rightarrow> nat \<Rightarrow> instant option option" where
  "first_start_after ocs t i =
     (case ocs i of
        None \<Rightarrow> Some None
      | Some oc \<Rightarrow> if t < oc_start oc then Some (Some (oc_start oc)) else first_start_after ocs t (Suc i))"

definition closes_at :: "event_calendar \<Rightarrow> occurrence \<Rightarrow> instant \<Rightarrow> instant option option" where
  "closes_at cal oc t =
     (if t < oc_start oc then Some (Some (oc_start oc))
      else if t < oc_end oc then Some (Some (oc_end oc))
      else first_start_after (cal t) t 0)"

subsection \<open>Owed occurrences\<close>

definition still_open :: "event_calendar \<Rightarrow> instant \<Rightarrow> occurrence \<times> instant \<Rightarrow> bool option" where
  "still_open cal now due =
     map_option (\<lambda>closing. case closing of None \<Rightarrow> True | Some t \<Rightarrow> now < t) (closes_at cal (fst due) (snd due))"

fun first_owed ::
  "event_calendar \<Rightarrow> instant \<Rightarrow> instant \<Rightarrow> string list \<Rightarrow> (occurrence \<times> instant) list \<Rightarrow>
     (occurrence \<times> instant) option option" where
  "first_owed cal now floor consumed [] = Some None"
| "first_owed cal now floor consumed (due # dues) =
     (if snd due = floor \<and> oc_id (fst due) \<in> set consumed then first_owed cal now floor consumed dues
      else (case still_open cal now due of
              None \<Rightarrow> None
            | Some True \<Rightarrow> Some (Some due)
            | Some False \<Rightarrow> first_owed cal now floor consumed dues))"

definition owed_occurrence ::
  "event_calendar \<Rightarrow> cron_job \<Rightarrow> instant \<Rightarrow> instant option \<Rightarrow> (occurrence \<times> instant) option option" where
  "owed_occurrence cal j now after =
     (let floor = (case after of None \<Rightarrow> coverage j | Some t \<Rightarrow> max (coverage j) t);
          consumed = consumed_at j floor;
          with_boundary = (consumed \<noteq> None \<and> (case after of None \<Rightarrow> True | Some t \<Rightarrow> t < floor));
          start = (if with_boundary then floor - 1 else floor) in
      Option.bind (dues_between cal j start now)
        (first_owed cal now floor (case consumed of None \<Rightarrow> [] | Some ids \<Rightarrow> ids)))"

subsection \<open>The next due occurrence\<close>

partial_function (option) scan_next ::
  "occurrences \<Rightarrow> cron_job \<Rightarrow> instant \<Rightarrow> (occurrence \<times> instant) option \<Rightarrow> nat \<Rightarrow>
     (occurrence \<times> instant) option option" where
  "scan_next ocs j after best i =
     (case ocs i of
        None \<Rightarrow> Some best
      | Some oc \<Rightarrow>
          if (case best of None \<Rightarrow> False | Some b \<Rightarrow> snd b \<le> oc_start oc + event_offset j) then Some best
          else scan_next ocs j after
                 (if after < due_at j oc \<and> (case best of None \<Rightarrow> True | Some b \<Rightarrow> due_at j oc < snd b)
                  then Some (oc, due_at j oc) else best) (Suc i))"

definition next_due :: "event_calendar \<Rightarrow> cron_job \<Rightarrow> instant \<Rightarrow> (occurrence \<times> instant) option option" where
  "next_due cal j after = scan_next (cal (after - event_offset j)) j after None 0"

definition can_fire :: "event_calendar \<Rightarrow> cron_job \<Rightarrow> instant \<Rightarrow> bool option" where
  "can_fire cal j now =
     (case (if cj_status j = Active then owed_occurrence cal j now None else Some None) of
        None \<Rightarrow> None
      | Some (Some due) \<Rightarrow> Some True
      | Some None \<Rightarrow> map_option (\<lambda>due. due \<noteq> None) (next_due cal j now))"

declare scan_dues.simps [code] first_start_after.simps [code] scan_next.simps [code]

end
