(* ===== verification/Event_Properties.thy ===== *)
theory Event_Properties
  imports Cron_Events
begin

section \<open>Properties of event jobs\<close>

text \<open>
  What the calendar promises, that the scans over it come back with the due occurrences of a window, and
  that each occurrence is owed until a fire consumes exactly it.
\<close>

subsection \<open>The calendar's promises\<close>

text \<open>An iterator yields occurrences in start order, and only finitely many start before any instant. The
  one for an instant yields the event's occurrences that end after it.\<close>

definition sequence_ok :: "occurrences \<Rightarrow> bool" where
  "sequence_ok ocs \<longleftrightarrow>
     (\<forall>i. ocs i = None \<longrightarrow> ocs (Suc i) = None)
     \<and> (\<forall>i k a b. i \<le> k \<longrightarrow> ocs i = Some a \<longrightarrow> ocs k = Some b \<longrightarrow> oc_start a \<le> oc_start b)
     \<and> (\<forall>i a. ocs i = Some a \<longrightarrow> oc_start a \<le> oc_end a)
     \<and> (\<forall>t. \<exists>i. case ocs i of None \<Rightarrow> True | Some a \<Rightarrow> t < oc_start a)"

definition yielded_by :: "occurrences \<Rightarrow> nat \<Rightarrow> occurrence set" where
  "yielded_by ocs i = {oc. \<exists>k \<ge> i. ocs k = Some oc}"

definition calendar_ok :: "occurrence set \<Rightarrow> event_calendar \<Rightarrow> bool" where
  "calendar_ok event cal \<longleftrightarrow>
     (\<forall>t. sequence_ok (cal t) \<and> yielded_by (cal t) 0 = {oc \<in> event. t < oc_end oc})
     \<and> (\<forall>oc \<in> event. oc_start oc \<le> oc_end oc)"

lemma none_stays: "sequence_ok ocs \<Longrightarrow> ocs i = None \<Longrightarrow> i \<le> k \<Longrightarrow> ocs k = None"
  by (induction k) (auto simp: sequence_ok_def le_Suc_eq)

lemma starts_grow: "sequence_ok ocs \<Longrightarrow> i \<le> k \<Longrightarrow> ocs i = Some a \<Longrightarrow> ocs k = Some b \<Longrightarrow> oc_start a \<le> oc_start b"
  by (auto simp: sequence_ok_def)

lemma starts_first: "sequence_ok ocs \<Longrightarrow> ocs i = Some a \<Longrightarrow> oc_start a \<le> oc_end a"
  by (auto simp: sequence_ok_def)

lemma starts_pass: "sequence_ok ocs \<Longrightarrow> \<exists>i. case ocs i of None \<Rightarrow> True | Some a \<Rightarrow> t < oc_start a"
  by (auto simp: sequence_ok_def)

lemma yielded_Suc:
  "yielded_by ocs i = (case ocs i of None \<Rightarrow> {} | Some oc \<Rightarrow> {oc}) \<union> yielded_by ocs (Suc i)"
proof -
  have "i \<le> k \<longleftrightarrow> k = i \<or> Suc i \<le> k" for k by auto
  then show ?thesis unfolding yielded_by_def by (cases "ocs i") auto
qed

lemma due_after_start: "oc_start oc \<le> oc_end oc \<Longrightarrow> oc_start oc + event_offset j \<le> due_at j oc \<and> due_at j oc \<le> oc_end oc + event_offset j"
  by (simp add: due_at_def)

subsection \<open>Scanning\<close>

definition dues_of :: "cron_job \<Rightarrow> occurrence set \<Rightarrow> instant \<Rightarrow> instant \<Rightarrow> (occurrence \<times> instant) set" where
  "dues_of j event after until = {(oc, t). oc \<in> event \<and> t = due_at j oc \<and> after < t \<and> t \<le> until}"

text \<open>From an index on whose occurrence starts too late, nothing is due.\<close>

lemma nothing_later:
  assumes "sequence_ok ocs" "case ocs n of None \<Rightarrow> True | Some a \<Rightarrow> until < oc_start a + event_offset j" "n \<le> i"
  shows "dues_of j (yielded_by ocs i) after until = {}"
proof -
  have "until < due_at j oc" if "i \<le> k" "ocs k = Some oc" for k oc
  proof (cases "ocs n")
    case None
    then show ?thesis using none_stays [OF assms(1) None, of k] assms(3) that by simp
  next
    case (Some a)
    then show ?thesis
      using starts_grow [OF assms(1) _ Some that(2)] assms(2,3) that(1) due_after_start [of oc j]
        starts_first [OF assms(1) that(2)] by simp
  qed
  then show ?thesis by (fastforce simp: dues_of_def yielded_by_def)
qed

lemma scan_dues_finds:
  assumes "sequence_ok ocs"
  shows "\<exists>ys. scan_dues ocs j after until found i = Some (found @ ys)
    \<and> set ys = dues_of j (yielded_by ocs i) after until"
proof -
  obtain n where n: "case ocs n of None \<Rightarrow> True | Some a \<Rightarrow> until - event_offset j < oc_start a"
    using starts_pass [OF assms] by blast
  then have n': "case ocs n of None \<Rightarrow> True | Some a \<Rightarrow> until < oc_start a + event_offset j"
    by (auto split: option.splits)
  show ?thesis
  proof (induction "n - i" arbitrary: i found rule: less_induct)
    case less
    show ?case
    proof (cases "ocs i")
      case None
      then have "dues_of j (yielded_by ocs i) after until = {}"
        by (intro nothing_later [OF assms, where n = i]) simp_all
      then show ?thesis using None by (subst scan_dues.simps) simp
    next
      case (Some oc)
      show ?thesis
      proof (cases "until < oc_start oc + event_offset j")
        case True
        then have "dues_of j (yielded_by ocs i) after until = {}"
          using Some by (intro nothing_later [OF assms, where n = i]) simp_all
        then show ?thesis using Some True by (subst scan_dues.simps) simp
      next
        case False
        have "i < n"
        proof (rule ccontr)
          assume "\<not> i < n"
          then have "n \<le> i" by simp
          then obtain a where a: "ocs n = Some a" using none_stays [OF assms, of n i] Some by (cases "ocs n") auto
          then show False
            using n' False starts_grow [OF assms \<open>n \<le> i\<close> a Some] by simp
        qed
        then have smaller: "n - Suc i < n - i" by simp
        let ?new = "if after < due_at j oc \<and> due_at j oc \<le> until then [(oc, due_at j oc)] else []"
        obtain ys where ys: "scan_dues ocs j after until (found @ ?new) (Suc i) = Some ((found @ ?new) @ ys)"
            "set ys = dues_of j (yielded_by ocs (Suc i)) after until"
          using less [OF smaller] by blast
        have "scan_dues ocs j after until found i = Some (found @ ?new @ ys)"
          using ys(1) by (subst scan_dues.simps) (cases "after < due_at j oc \<and> due_at j oc \<le> until"; auto simp: Some False)
        moreover have "set (?new @ ys) = dues_of j (yielded_by ocs i) after until"
          using ys(2) Some by (subst yielded_Suc) (auto simp: dues_of_def)
        ultimately show ?thesis by blast
      qed
    qed
  qed
qed

text \<open>The calendar of an event with listed occurrences.\<close>

definition listed :: "occurrence list \<Rightarrow> event_calendar" where
  "listed ocs t i =
     (let left = filter (\<lambda>oc. t < oc_end oc) ocs in if i < length left then Some (left ! i) else None)"

lemma listed_ok:
  assumes "sorted (map oc_start ocs)" "\<forall>oc \<in> set ocs. oc_start oc \<le> oc_end oc"
  shows "calendar_ok (set ocs) (listed ocs)"
proof -
  have "sequence_ok (listed ocs t) \<and> yielded_by (listed ocs t) 0 = {oc \<in> set ocs. t < oc_end oc}" for t
  proof -
    let ?left = "filter (\<lambda>oc. t < oc_end oc) ocs"
    have listed: "listed ocs t i = (if i < length ?left then Some (?left ! i) else None)" for i
      by (simp add: listed_def Let_def)
    have sorted: "sorted (map oc_start ?left)" using assms(1) by (rule sorted_filter)
    have "sequence_ok (listed ocs t)"
      unfolding sequence_ok_def
    proof (intro conjI allI impI)
      fix i k a b assume ik: "i \<le> k" "listed ocs t i = Some a" "listed ocs t k = Some b"
      then have "k < length ?left" "a = ?left ! i" "b = ?left ! k" by (simp_all add: listed split: if_splits)
      then show "oc_start a \<le> oc_start b" using ik(1) sorted_nth_mono [OF sorted, of i k] by simp
    next
      fix i a assume "listed ocs t i = Some a"
      then have "i < length ?left" "a = ?left ! i" by (simp_all add: listed split: if_splits)
      then have "a \<in> set ?left" using nth_mem by blast
      then show "oc_start a \<le> oc_end a" using assms(2) by simp
    next
      fix u show "\<exists>i. case listed ocs t i of None \<Rightarrow> True | Some a \<Rightarrow> u < oc_start a"
        by (rule exI [of _ "length ?left"]) (simp add: listed)
    qed (simp add: listed split: if_splits)
    moreover have "yielded_by (listed ocs t) 0 = set ?left"
    proof (rule set_eqI)
      fix oc
      show "oc \<in> yielded_by (listed ocs t) 0 \<longleftrightarrow> oc \<in> set ?left"
        unfolding yielded_by_def listed in_set_conv_nth by (simp split: if_splits) metis
    qed
    ultimately show ?thesis by auto
  qed
  then show ?thesis using assms(2) by (simp add: calendar_ok_def)
qed

definition two_at_once :: "occurrence list" where
  "two_at_once = [\<lparr>oc_id = ''a'', oc_start = 100, oc_end = 200\<rparr>, \<lparr>oc_id = ''b'', oc_start = 100, oc_end = 300\<rparr>]"

definition at_start :: cron_job where
  "at_start = \<lparr>cj_id = ''j'', cj_name = ''n'', cj_type = Event_Schedule, cj_status = Active,
     cj_expression = None, cj_run_at = None, cj_interval = None, cj_anchor = None, cj_remaining = None,
     cj_created = 0, cj_covered = None, cj_attempt = None, cj_completed = None, cj_checked = None,
     cj_event = Some ''e'', cj_edge = Some Edge_Start, cj_offset = Some 0, cj_progress = None, cj_email = False\<rparr>"

lemma two_at_once_ok: "calendar_ok (set two_at_once) (listed two_at_once)"
  by (rule listed_ok) (simp_all add: two_at_once_def)

lemma calendar_sequence: "calendar_ok event cal \<Longrightarrow> sequence_ok (cal t)"
  by (simp add: calendar_ok_def)

text \<open>Looking for the occurrences due in a span comes back with exactly those of the event that are due in
  it, by due time, even for an event that recurs forever.\<close>

theorem dues_between_finds_window:
  assumes "calendar_ok event cal"
  shows "\<exists>dues. dues_between cal j after until = Some dues \<and> set dues = dues_of j event after until
    \<and> sorted (map snd dues)"
proof -
  obtain ys where ys: "scan_dues (cal (after - event_offset j)) j after until [] 0 = Some ys"
      "set ys = dues_of j (yielded_by (cal (after - event_offset j)) 0) after until"
    using scan_dues_finds [OF calendar_sequence [OF assms], of "after - event_offset j" j after until "[]" 0] by auto
  have "dues_of j {oc \<in> event. after - event_offset j < oc_end oc} after until = dues_of j event after until"
    using assms due_after_start [of _ j] by (fastforce simp: dues_of_def calendar_ok_def)
  then have set: "set ys = dues_of j event after until" using ys(2) assms by (simp add: calendar_ok_def)
  have "sorted (map due_key (sort_key due_key ys))" by (rule sorted_sort_key)
  then have "sorted (map fst (map due_key (sort_key due_key ys)))"
    by (rule sorted_map_mono) (auto simp: monotone_on_def less_eq_prod_def)
  moreover have "fst \<circ> due_key = snd" by (simp add: fun_eq_iff due_key_def)
  ultimately have "sorted (map snd (sort_key due_key ys))" by (simp only: map_map)
  then show ?thesis using ys(1) set by (auto simp: dues_between_def)
qed

lemma dues_between_finds_window_witness:
  "\<exists>dues. dues_between (listed two_at_once) at_start 0 150 = Some dues \<and> set dues = dues_of at_start (set two_at_once) 0 150
    \<and> sorted (map snd dues)"
  by (rule dues_between_finds_window [OF two_at_once_ok])

subsection \<open>Owing and consuming\<close>

lemma first_start_returns:
  assumes "sequence_ok ocs"
  shows "first_start_after ocs t i \<noteq> None"
proof -
  obtain n where n: "case ocs n of None \<Rightarrow> True | Some a \<Rightarrow> t < oc_start a" using starts_pass [OF assms] by blast
  show ?thesis
  proof (induction "n - i" arbitrary: i rule: less_induct)
    case less
    show ?case
    proof (cases "ocs i")
      case (Some oc)
      show ?thesis
      proof (cases "t < oc_start oc")
        case False
        have "i < n"
        proof (rule ccontr)
          assume "\<not> i < n"
          then have "n \<le> i" by simp
          then obtain a where a: "ocs n = Some a" using none_stays [OF assms, of n i] Some by (cases "ocs n") auto
          then show False using n False starts_grow [OF assms \<open>n \<le> i\<close> a Some] by simp
        qed
        then show ?thesis using less [of "Suc i"] Some False by (subst first_start_after.simps) simp
      qed (subst first_start_after.simps, simp add: Some)
    qed (subst first_start_after.simps, simp)
  qed
qed

lemma still_open_returns: "calendar_ok event cal \<Longrightarrow> \<exists>b. still_open cal now due = Some b"
  using first_start_returns [OF calendar_sequence, of event cal]
  by (auto simp: still_open_def closes_at_def)

definition skipped_over :: "instant \<Rightarrow> string list \<Rightarrow> occurrence \<times> instant \<Rightarrow> bool" where
  "skipped_over floor consumed due \<longleftrightarrow> snd due = floor \<and> oc_id (fst due) \<in> set consumed"

text \<open>The first of a list that is neither consumed nor closed.\<close>

lemma first_owed_first:
  assumes "\<And>due. \<exists>b. still_open cal now due = Some b"
  shows "first_owed cal now floor consumed dues =
    Some (find (\<lambda>due. \<not> skipped_over floor consumed due \<and> still_open cal now due = Some True) dues)"
proof (induction dues)
  case (Cons due dues)
  obtain b where "still_open cal now due = Some b" using assms by blast
  then show ?case using Cons by (cases b) (auto simp: skipped_over_def)
qed simp

definition owed_from :: "cron_job \<Rightarrow> instant" where
  "owed_from j = (if consumed_at j (coverage j) = None then coverage j else coverage j - 1)"

definition consumed_ids :: "cron_job \<Rightarrow> string list" where
  "consumed_ids j = (case consumed_at j (coverage j) of None \<Rightarrow> [] | Some ids \<Rightarrow> ids)"

lemma owed_occurrence_eq:
  assumes "calendar_ok event cal"
  shows "\<exists>dues. set dues = dues_of j event (owed_from j) now \<and> sorted (map snd dues)
    \<and> owed_occurrence cal j now None =
        Some (find (\<lambda>due. \<not> skipped_over (coverage j) (consumed_ids j) due \<and> still_open cal now due = Some True) dues)"
proof -
  obtain dues where d: "dues_between cal j (owed_from j) now = Some dues" "set dues = dues_of j event (owed_from j) now"
      "sorted (map snd dues)"
    using dues_between_finds_window [OF assms] by blast
  have "owed_occurrence cal j now None = first_owed cal now (coverage j) (consumed_ids j) dues"
  proof (cases "consumed_at j (coverage j)")
    case None
    then have "owed_from j = coverage j" "consumed_ids j = []" by (simp_all add: owed_from_def consumed_ids_def)
    then show ?thesis using d(1) None by (simp add: owed_occurrence_def)
  next
    case (Some ids)
    then have "owed_from j = coverage j - 1" "consumed_ids j = ids" by (simp_all add: owed_from_def consumed_ids_def)
    then show ?thesis using d(1) Some by (simp add: owed_occurrence_def)
  qed
  moreover note first_owed_first [of cal now "coverage j" "consumed_ids j" dues, OF still_open_returns [OF assms]]
  ultimately show ?thesis using d(2,3) by (intro exI [of _ dues]) simp
qed

text \<open>An occurrence of the event that is due, not covered, not consumed and can still start.\<close>

definition awaits_fire :: "occurrence set \<Rightarrow> event_calendar \<Rightarrow> cron_job \<Rightarrow> instant \<Rightarrow> occurrence \<times> instant \<Rightarrow> bool" where
  "awaits_fire event cal j now due \<longleftrightarrow>
     due \<in> dues_of j event (owed_from j) now \<and> \<not> skipped_over (coverage j) (consumed_ids j) due
     \<and> still_open cal now due = Some True"

lemma owed_earliest:
  assumes "calendar_ok event cal"
  shows "case owed_occurrence cal j now None of
      None \<Rightarrow> False
    | Some None \<Rightarrow> \<forall>due. \<not> awaits_fire event cal j now due
    | Some (Some due) \<Rightarrow> awaits_fire event cal j now due
        \<and> (\<forall>other. awaits_fire event cal j now other \<longrightarrow> snd due \<le> snd other)"
proof -
  let ?P = "\<lambda>due. \<not> skipped_over (coverage j) (consumed_ids j) due \<and> still_open cal now due = Some True"
  obtain dues where d: "set dues = dues_of j event (owed_from j) now" "sorted (map snd dues)"
      "owed_occurrence cal j now None = Some (find ?P dues)"
    using owed_occurrence_eq [OF assms] by blast
  have awaits: "awaits_fire event cal j now due \<longleftrightarrow> due \<in> set dues \<and> ?P due" for due
    by (auto simp: awaits_fire_def d(1))
  show ?thesis
  proof (cases "find ?P dues")
    case None
    then show ?thesis unfolding d(3) None option.case using awaits find_None_iff [of ?P dues] None by blast
  next
    case (Some due)
    then obtain i where i: "i < length dues" "?P (dues ! i)" "due = dues ! i" "\<forall>k < i. \<not> ?P (dues ! k)"
      by (auto simp: find_Some_iff)
    have "snd due \<le> snd other" if "awaits_fire event cal j now other" for other
    proof -
      have other: "other \<in> set dues" "?P other" using that unfolding awaits by simp_all
      obtain k where k: "k < length dues" "dues ! k = other"
        using other(1) unfolding in_set_conv_nth by (elim exE conjE)
      have "\<not> k < i"
      proof
        assume "k < i"
        from i(4) [rule_format, OF this] show False using k(2) other(2) by simp
      qed
      then have "i \<le> k" by simp
      from sorted_nth_mono [OF d(2) this] show ?thesis using i(1,3) k(1,2) by simp
    qed
    moreover have "awaits_fire event cal j now due" using awaits i nth_mem by blast
    ultimately show ?thesis unfolding d(3) Some option.case by blast
  qed
qed

text \<open>C25. The occurrence an event job owes is the earliest of those that await a fire, and one is owed
  whenever one does.\<close>

theorem owed_occurrence_is_earliest:
  assumes "calendar_ok event cal"
  shows "case owed_occurrence cal j now None of
      None \<Rightarrow> False
    | Some None \<Rightarrow> \<forall>due. \<not> awaits_fire event cal j now due
    | Some (Some due) \<Rightarrow> awaits_fire event cal j now due
        \<and> (\<forall>other. awaits_fire event cal j now other \<longrightarrow> snd due \<le> snd other)"
  by (rule owed_earliest [OF assms])

lemma two_at_once_owed:
  "owed_occurrence (listed two_at_once) at_start 150 None = Some (Some (hd two_at_once, 100))"
  by code_simp

lemma owed_occurrence_is_earliest_witness:
  "awaits_fire (set two_at_once) (listed two_at_once) at_start 150 (hd two_at_once, 100)"
  using owed_occurrence_is_earliest [OF two_at_once_ok, of at_start 150] two_at_once_owed by simp

text \<open>A fire consumes the occurrence it is for.\<close>

lemma consume_facts:
  assumes "coverage j \<le> snd due"
  shows "coverage (consume j due) = snd due" "owed_from (consume j due) = snd due - 1"
    "consumed_ids (consume j due) =
       (case consumed_at j (snd due) of None \<Rightarrow> [] | Some ids \<Rightarrow> ids) @ [oc_id (fst due)]"
    "due_at (consume j due) oc = due_at j oc"
proof -
  have c: "cj_created j \<le> snd due" using assms by (auto simp: coverage_def split: option.splits)
  then show cov: "coverage (consume j due) = snd due" by (simp add: consume_def coverage_def Let_def)
  then have "consumed_at (consume j due) (snd due) =
      Some ((case consumed_at j (snd due) of None \<Rightarrow> [] | Some ids \<Rightarrow> ids) @ [oc_id (fst due)])"
    by (simp add: consumed_at_def [of "consume j due"]) (simp add: consume_def Let_def)
  then show "owed_from (consume j due) = snd due - 1"
    "consumed_ids (consume j due) =
       (case consumed_at j (snd due) of None \<Rightarrow> [] | Some ids \<Rightarrow> ids) @ [oc_id (fst due)]"
    by (simp_all add: owed_from_def consumed_ids_def cov)
  show "due_at (consume j due) oc = due_at j oc" by (simp add: due_at_def event_offset_def consume_def Let_def)
qed

text \<open>Fires of one job, one after the other: each consumes what the job owes then, on a calendar that may have
  changed, at an instant of any kind.\<close>

inductive fires_event :: "cron_job \<Rightarrow> (occurrence \<times> instant) list \<Rightarrow> cron_job \<Rightarrow> bool" for j where
  unfired: "fires_event j [] j"
| fires: "fires_event j fired k \<Longrightarrow> calendar_ok event cal \<Longrightarrow>
     owed_occurrence cal k now None = Some (Some due) \<Longrightarrow> fires_event j (fired @ [due]) (consume k due)"

definition fire_key :: "occurrence \<times> instant \<Rightarrow> instant \<times> string" where
  "fire_key due = (snd due, oc_id (fst due))"

text \<open>What fired lies behind the coverage, or at it and is recorded as consumed.\<close>

definition behind :: "cron_job \<Rightarrow> occurrence \<times> instant \<Rightarrow> bool" where
  "behind k due \<longleftrightarrow> snd due < coverage k \<or>
     snd due = coverage k \<and> consumed_at k (coverage k) \<noteq> None \<and> oc_id (fst due) \<in> set (consumed_ids k)"

lemma owed_awaits:
  assumes "calendar_ok event cal" "owed_occurrence cal k now None = Some (Some due)"
  shows "awaits_fire event cal k now due" "awaits_fire event cal k now other \<Longrightarrow> snd due \<le> snd other"
proof -
  have e: "awaits_fire event cal k now due \<and> (\<forall>other. awaits_fire event cal k now other \<longrightarrow> snd due \<le> snd other)"
    using owed_earliest [OF assms(1), of k now] unfolding assms(2) option.case .
  show "awaits_fire event cal k now due" using e ..
  show "snd due \<le> snd other" if "awaits_fire event cal k now other" using e that by blast
qed

lemma awaits_ahead: "awaits_fire event cal k now due \<Longrightarrow> coverage k \<le> snd due"
  by (auto simp: awaits_fire_def dues_of_def owed_from_def split: if_splits)

lemma behind_fired: "awaits_fire event cal k now due \<Longrightarrow> behind k d \<Longrightarrow> snd d \<le> snd due \<and> fire_key d \<noteq> fire_key due"
  by (auto simp: behind_def fire_key_def awaits_fire_def dues_of_def owed_from_def skipped_over_def split: if_splits)

lemma behind_consume:
  assumes "coverage k \<le> snd due"
  shows "behind (consume k due) due" "behind k d \<Longrightarrow> behind (consume k due) d"
proof -
  note c = consume_facts [OF assms]
  have at: "consumed_at (consume k due) (snd due) \<noteq> None"
    using c(1) by (simp add: consumed_at_def [of "consume k due"]) (simp add: consume_def Let_def)
  then show "behind (consume k due) due" using c(1,3) by (simp add: behind_def)
  show "behind (consume k due) d" if "behind k d"
    using that assms c(1,3) at
    by (cases "coverage k = snd due") (auto simp: behind_def consumed_ids_def split: option.splits)
qed

lemma fires_behind: "fires_event j fired k \<Longrightarrow> d \<in> set fired \<Longrightarrow> behind k d"
proof (induction rule: fires_event.induct)
  case (fires fired k event cal now due)
  note c = behind_consume [OF awaits_ahead [OF owed_awaits(1) [OF fires(2,3)]]]
  consider "d = due" | "d \<in> set fired" using fires.prems by auto
  then show ?case using c(1) c(2) [OF fires.IH] by cases simp_all
qed simp

lemma fires_in_order:
  "fires_event j fired k \<Longrightarrow> sorted (map snd fired) \<and> distinct (map fire_key fired)"
proof (induction rule: fires_event.induct)
  case (fires fired k event cal now due)
  have "snd d \<le> snd due \<and> fire_key d \<noteq> fire_key due" if "d \<in> set fired" for d
    by (rule behind_fired [OF owed_awaits(1) [OF fires(2,3)] fires_behind [OF fires(1) that]])
  then have "\<forall>d \<in> set fired. snd d \<le> snd due" "fire_key due \<notin> fire_key ` set fired" by (blast, force)
  then show ?case using fires.IH by (simp add: sorted_append)
qed simp

text \<open>C11. No occurrence fires twice: over any sequence of fires of a job, on calendars that may change between
  them, due times never go back and no occurrence is fired again for the same due time, also among several due at
  once; and a fire takes no other occurrence that awaits one, as long as that can still start.\<close>

theorem consumed_occurrence_fires_once:
  assumes "fires_event j fired k" "calendar_ok event cal" "owed_occurrence cal k now None = Some (Some due)"
  shows "sorted (map snd (fired @ [due])) \<and> distinct (map fire_key (fired @ [due]))
    \<and> (\<forall>later other. awaits_fire event cal k now other \<and> fire_key other \<noteq> fire_key due
        \<and> now \<le> later \<and> still_open cal later other = Some True \<longrightarrow> awaits_fire event cal (consume k due) later other)"
proof (intro conjI allI impI)
  have more: "fires_event j (fired @ [due]) (consume k due)" by (rule fires_event.fires [OF assms])
  show "sorted (map snd (fired @ [due]))" "distinct (map fire_key (fired @ [due]))"
    using fires_in_order [OF more] by simp_all
  fix later other
  assume other: "awaits_fire event cal k now other \<and> fire_key other \<noteq> fire_key due
    \<and> now \<le> later \<and> still_open cal later other = Some True"
  note due = owed_awaits [OF assms(2,3)]
  note c = consume_facts [OF awaits_ahead [OF due(1)]]
  have le: "snd due \<le> snd other" using due(2) other by blast
  have "\<not> skipped_over (snd due) (consumed_ids (consume k due)) other"
    using other awaits_ahead [of event cal k now other] unfolding c(3)
    by (auto simp: skipped_over_def fire_key_def awaits_fire_def consumed_ids_def consumed_at_def split: option.splits if_splits)
  then show "awaits_fire event cal (consume k due) later other"
    using other le by (auto simp: awaits_fire_def dues_of_def c(1,2,4))
qed

lemma two_at_once_next:
  "owed_occurrence (listed two_at_once) (consume at_start (hd two_at_once, 100)) 160 None =
     Some (Some (last two_at_once, 100))"
  by code_simp

lemma consumed_occurrence_fires_once_witness:
  "distinct (map fire_key [(hd two_at_once, 100), (last two_at_once, 100)])"
proof -
  have "fires_event at_start ([] @ [(hd two_at_once, 100)]) (consume at_start (hd two_at_once, 100))"
    by (rule fires_event.fires [OF unfired two_at_once_ok two_at_once_owed])
  from consumed_occurrence_fires_once [OF this two_at_once_ok two_at_once_next] show ?thesis by simp
qed

end
