(* ===== verification/Once_Jobs.thy ===== *)
theory Once_Jobs
  imports Cron_Schedule State_Machines
begin

section \<open>The fire of a once job, across crashes\<close>

text \<open>
  The one fire of a once job and what survives a crash of it: \<open>start\<close> and \<open>_run_once_job\<close> with its helpers in
  \<open>core/automation/_cron_scheduler.py\<close>, the part of \<open>_trigger_job_run\<close> in \<open>_cron_execution.py\<close> that
  changes the job, and the claims of \<open>_cron_claims.py\<close>. Memory, the jobs file and the claim file are the
  state; whether a write, a removal or a read works is the input of an operation. A crash loses the memory.
  Edits of the job while its fire is under way are not modelled.
\<close>

subsection \<open>State\<close>

datatype run_outcome = Succeeded | Run_Failed | Run_Cancelled | Unknown_Outcome

record job_record =
  jr_status :: job_status
  jr_left :: nat
  jr_outcome :: "run_outcome option"

text \<open>Where the job's task stands; the number counts its failed fires.\<close>

datatype task_phase = Down | Idle | Held | Sleeping_Until nat | Claimed nat | Running

record once_job =
  oj_memory :: job_record
  oj_file :: job_record
  oj_claim :: bool
  oj_phase :: task_phase
  oj_admitted :: nat

definition armed :: job_record where
  "armed = \<lparr>jr_status = Active, jr_left = 1, jr_outcome = None\<rparr>"

text \<open>A job created for the future, while no process runs it.\<close>

definition new_once_job :: once_job where
  "new_once_job = \<lparr>oj_memory = armed, oj_file = armed, oj_claim = False, oj_phase = Down, oj_admitted = 0\<rparr>"

definition save_jobs :: "bool \<Rightarrow> once_job \<Rightarrow> once_job" where
  "save_jobs works s = (if works then s\<lparr>oj_file := oj_memory s\<rparr> else s)"

definition remove_claim :: "bool \<Rightarrow> once_job \<Rightarrow> once_job" where
  "remove_claim works s = (if works then s\<lparr>oj_claim := False\<rparr> else s)"

definition in_phase :: "task_phase \<Rightarrow> once_job \<Rightarrow> once_job" where
  "in_phase p s = s\<lparr>oj_phase := p\<rparr>"

subsection \<open>Starting\<close>

datatype claim_read = Absent | Present | Unreadable

text \<open>A file that is there reads as a claim, or not at all.\<close>

definition reads_as :: "once_job \<Rightarrow> claim_read \<Rightarrow> bool" where
  "reads_as s r \<longleftrightarrow> (case r of Unreadable \<Rightarrow> True | Present \<Rightarrow> oj_claim s | Absent \<Rightarrow> \<not> oj_claim s)"

definition start_job :: "claim_read \<Rightarrow> bool \<Rightarrow> bool \<Rightarrow> once_job \<Rightarrow> once_job" where
  "start_job r saves removes s =
     (let loaded = s\<lparr>oj_memory := oj_file s\<rparr>;
          m = oj_file s in
      if jr_status m \<noteq> Active then in_phase Idle loaded
      else (case r of
              Unreadable \<Rightarrow> in_phase Held loaded
            | Present \<Rightarrow>
                (let done_job = save_jobs saves
                   (loaded\<lparr>oj_memory := m\<lparr>jr_status := Completed, jr_outcome := Some Unknown_Outcome\<rparr>\<rparr>) in
                 in_phase Idle (if saves then remove_claim removes done_job else done_job))
            | Absent \<Rightarrow>
                if jr_left m = 0
                then in_phase Idle (save_jobs saves
                       (loaded\<lparr>oj_memory := m\<lparr>jr_status := Completed,
                          jr_outcome := Some (case jr_outcome m of None \<Rightarrow> Unknown_Outcome | Some c \<Rightarrow> c)\<rparr>\<rparr>))
                else in_phase (Sleeping_Until 0) loaded))"

subsection \<open>Firing\<close>

definition max_fire_attempts :: nat where
  "max_fire_attempts = 5"

text \<open>\<open>_back_off_or_abandon_once_job\<close> after a fire that failed for the given time.\<close>

definition back_off_or_abandon :: "nat \<Rightarrow> bool \<Rightarrow> bool \<Rightarrow> once_job \<Rightarrow> once_job" where
  "back_off_or_abandon attempts saves removes s =
     (if max_fire_attempts \<le> attempts
      then in_phase Idle (remove_claim removes (save_jobs saves
             (s\<lparr>oj_memory := (oj_memory s)\<lparr>jr_status := Failed\<rparr>\<rparr>)))
      else in_phase (Sleeping_Until attempts) s)"

text \<open>The claim is written before the Run is asked for; a write that fails may have left it all the same.\<close>

definition claim_fire :: "nat \<Rightarrow> bool \<Rightarrow> bool \<Rightarrow> bool \<Rightarrow> bool \<Rightarrow> once_job \<Rightarrow> once_job" where
  "claim_fire n writes left_anyway saves removes s =
     (if jr_status (oj_memory s) \<noteq> Active then in_phase Idle s
      else if writes then in_phase (Claimed n) (s\<lparr>oj_claim := True\<rparr>)
      else back_off_or_abandon (Suc n) saves removes (s\<lparr>oj_claim := oj_claim s \<or> left_anyway\<rparr>))"

datatype admission = Admitted | Not_Admitted | Cancelled_First

text \<open>The attempt is saved first. An admitted Run uses up the job's one fire; the file takes that in at one of
  three saves or not at all. Without a Run the failure is saved, the claim is withdrawn, and the status of a job
  that gives up is saved on its own.\<close>

definition trigger_once ::
  "nat \<Rightarrow> admission \<Rightarrow> bool \<Rightarrow> bool \<Rightarrow> bool \<Rightarrow> bool \<Rightarrow> bool \<Rightarrow> once_job \<Rightarrow> once_job" where
  "trigger_once n a saves_attempt saves removes saves_failed abandon_removes s =
     (let s1 = save_jobs saves_attempt s;
          m = oj_memory s1 in
      case a of
        Admitted \<Rightarrow>
          in_phase Running (save_jobs saves
            (s1\<lparr>oj_memory := m\<lparr>jr_left := jr_left m - 1\<rparr>, oj_admitted := Suc (oj_admitted s1)\<rparr>))
      | Cancelled_First \<Rightarrow>
          (let s2 = save_jobs saves (s1\<lparr>oj_memory := m\<lparr>jr_outcome := Some Run_Failed\<rparr>\<rparr>) in
           in_phase Idle (remove_claim removes (save_jobs saves_failed
             (s2\<lparr>oj_memory := (oj_memory s2)\<lparr>jr_status := Failed\<rparr>\<rparr>))))
      | Not_Admitted \<Rightarrow>
          (let s2 = remove_claim removes (save_jobs saves (s1\<lparr>oj_memory := m\<lparr>jr_outcome := Some Run_Failed\<rparr>\<rparr>)) in
           if jr_left (oj_memory s2) = 0 \<or> jr_status (oj_memory s2) \<noteq> Active then in_phase Idle s2
           else back_off_or_abandon (Suc n) saves_failed abandon_removes s2))"

text \<open>\<open>_finalize_exhausted_job\<close> and the end of \<open>_run_once_job\<close>: the claim goes only once the file has the
  final state.\<close>

definition finalize :: "job_record \<Rightarrow> job_record" where
  "finalize m =
     (if jr_status m = Active \<and> jr_left m = 0
      then m\<lparr>jr_status := (if jr_outcome m = Some Succeeded then Completed else Failed)\<rparr> else m)"

definition end_run :: "run_outcome \<Rightarrow> bool \<Rightarrow> bool \<Rightarrow> bool \<Rightarrow> bool \<Rightarrow> bool \<Rightarrow> once_job \<Rightarrow> once_job" where
  "end_run c notifies saves_outcome saves_final saves removes s =
     (let s1 = save_jobs saves_outcome (s\<lparr>oj_memory := (oj_memory s)\<lparr>jr_outcome := Some c\<rparr>\<rparr>);
          ended = finalize (oj_memory s1);
          s2 = (if ended = oj_memory s1 then s1 else save_jobs saves_final (s1\<lparr>oj_memory := ended\<rparr>));
          s3 = (if c = Succeeded \<and> (saves_outcome \<or> \<not> notifies) \<and> jr_status (oj_memory s2) = Active
                then s2\<lparr>oj_memory := (oj_memory s2)\<lparr>jr_status := Completed\<rparr>\<rparr> else s2);
          s4 = save_jobs saves s3 in
      in_phase Idle (if saves then remove_claim removes s4 else s4))"

subsection \<open>Steps\<close>

text \<open>Any save of the jobs file, for whatever job, takes this job's memory with it. Stopping cancels the task;
  one that is writing its claim withdraws it.\<close>

inductive once_step :: "once_job \<Rightarrow> once_job \<Rightarrow> bool" where
  starts: "oj_phase s = Down \<Longrightarrow> reads_as s r \<Longrightarrow> once_step s (start_job r saves removes s)"
| claims: "oj_phase s = Sleeping_Until n \<Longrightarrow> once_step s (claim_fire n writes left_anyway saves removes s)"
| triggers: "oj_phase s = Claimed n \<Longrightarrow>
     once_step s (trigger_once n a saves_attempt saves removes saves_failed abandon_removes s)"
| ends: "oj_phase s = Running \<Longrightarrow> c \<noteq> Unknown_Outcome \<Longrightarrow>
     once_step s (end_run c notifies saves_outcome saves_final saves removes s)"
| another_save: "oj_phase s \<noteq> Down \<Longrightarrow> once_step s (save_jobs True s)"
| withdraws: "oj_phase s = Sleeping_Until n \<Longrightarrow> once_step s (in_phase Down (remove_claim removes (s\<lparr>oj_claim := oj_claim s \<or> written\<rparr>)))"
| crashes: "oj_phase s \<noteq> Down \<Longrightarrow> once_step s (in_phase Down s)"

inductive_cases once_stepE: "once_step s t"

end
