(* ===== verification/Once_Properties.thy ===== *)
theory Once_Properties
  imports Once_Jobs
begin

section \<open>Properties of once jobs\<close>

text \<open>
  The invariant that ties a job's memory, its file, its claim and its Runs together, that every step keeps
  it, and what follows: one Run at most, and an end of the attempts.
\<close>

subsection \<open>The invariant\<close>

text \<open>Once a Run was admitted, the claim or the file tells the next process so.\<close>

definition spent_on_disk :: "once_job \<Rightarrow> bool" where
  "spent_on_disk s \<longleftrightarrow> oj_claim s \<or> jr_status (oj_file s) \<noteq> Active \<or> jr_left (oj_file s) = 0"

definition spent :: "job_record \<Rightarrow> bool" where
  "spent m \<longleftrightarrow> jr_status m \<noteq> Active \<or> jr_left m = 0"

definition phase_ok :: "once_job \<Rightarrow> bool" where
  "phase_ok s \<longleftrightarrow>
     (case oj_phase s of
        Down \<Rightarrow> True
      | Idle \<Rightarrow> spent (oj_memory s)
      | Held \<Rightarrow> oj_memory s = oj_file s
      | Sleeping_Until n \<Rightarrow> oj_admitted s = 0 \<and> n < max_fire_attempts \<and> \<not> spent (oj_memory s)
      | Claimed n \<Rightarrow> oj_admitted s = 0 \<and> n < max_fire_attempts \<and> oj_claim s \<and> \<not> spent (oj_memory s)
      | Running \<Rightarrow> oj_claim s \<and> jr_left (oj_memory s) = 0)"

definition once_ok :: "once_job \<Rightarrow> bool" where
  "once_ok s \<longleftrightarrow>
     oj_admitted s \<le> 1 \<and> (oj_admitted s = 1 \<longrightarrow> spent_on_disk s) \<and> jr_left (oj_file s) \<le> 1
     \<and> (oj_phase s \<noteq> Down \<longrightarrow> jr_left (oj_memory s) \<le> 1) \<and> phase_ok s"

lemmas once_defs = once_ok_def spent_on_disk_def spent_def phase_ok_def

lemmas once_ops = save_jobs_def remove_claim_def in_phase_def Let_def

lemma save_jobs_keeps [simp]:
  "oj_memory (save_jobs b s) = oj_memory s" "oj_claim (save_jobs b s) = oj_claim s"
  "oj_phase (save_jobs b s) = oj_phase s" "oj_admitted (save_jobs b s) = oj_admitted s"
  by (simp_all add: save_jobs_def)

lemma remove_claim_keeps [simp]:
  "oj_memory (remove_claim b s) = oj_memory s" "oj_file (remove_claim b s) = oj_file s"
  "oj_phase (remove_claim b s) = oj_phase s" "oj_admitted (remove_claim b s) = oj_admitted s"
  by (simp_all add: remove_claim_def)

lemma back_off_sets_phase:
  "back_off_or_abandon n saves removes (s\<lparr>oj_phase := p\<rparr>) = back_off_or_abandon n saves removes s"
  by (simp add: back_off_or_abandon_def once_ops)

lemma start_ok:
  assumes "once_ok s" "reads_as s r"
  shows "once_ok (start_job r saves removes s)"
  using assms by (cases r; cases saves; cases removes)
    (auto simp: once_defs once_ops start_job_def reads_as_def max_fire_attempts_def)

lemma back_off_ok:
  assumes "once_ok s" "oj_admitted s = 0" "\<not> spent (oj_memory s)" "oj_phase s \<noteq> Down"
  shows "once_ok (back_off_or_abandon n saves removes s)"
  using assms by (cases saves; cases removes) (auto simp: once_defs once_ops back_off_or_abandon_def)

lemma end_ok:
  assumes "once_ok s" "oj_phase s = Running" "c \<noteq> Unknown_Outcome"
  shows "once_ok (end_run c notifies saves_outcome saves_final saves removes s)"
proof -
  have s: "oj_claim s" "jr_left (oj_memory s) = 0" "oj_admitted s \<le> 1" "jr_left (oj_file s) \<le> 1"
    using assms(1,2) by (auto simp: once_defs)
  show ?thesis
    using s by (cases saves_outcome; cases saves_final; cases saves; cases removes)
      (auto simp: once_defs once_ops end_run_def finalize_def)
qed

lemma claim_ok:
  assumes "once_ok s" "oj_phase s = Sleeping_Until n"
  shows "once_ok (claim_fire n writes left_anyway saves removes s)"
proof (cases writes)
  case True
  then show ?thesis using assms by (auto simp: once_defs once_ops claim_fire_def)
next
  case False
  have "once_ok (back_off_or_abandon (Suc n) saves removes (s\<lparr>oj_claim := oj_claim s \<or> left_anyway\<rparr>))"
    by (rule back_off_ok) (use assms in \<open>auto simp: once_defs\<close>)
  moreover have "jr_status (oj_memory s) = Active" using assms by (simp add: once_defs)
  ultimately show ?thesis using False by (simp add: claim_fire_def)
qed

lemma trigger_ok:
  assumes "once_ok s" "oj_phase s = Claimed n"
  shows "once_ok (trigger_once n a saves_attempt saves removes saves_failed abandon_removes s)"
proof (cases a)
  case Admitted
  then show ?thesis
    using assms by (cases saves_attempt; cases saves) (auto simp: once_defs once_ops trigger_once_def)
next
  case Not_Admitted
  let ?s = "remove_claim removes (save_jobs saves
      ((save_jobs saves_attempt s)\<lparr>oj_memory := (oj_memory (save_jobs saves_attempt s))\<lparr>jr_outcome := Some Run_Failed\<rparr>\<rparr>))"
  have "once_ok (back_off_or_abandon (Suc n) saves_failed abandon_removes
      (?s\<lparr>oj_phase := Sleeping_Until n\<rparr>))"
    using assms by (intro back_off_ok) (cases saves_attempt; cases saves; cases removes; auto simp: once_defs once_ops)+
  moreover have "jr_left (oj_memory s) \<noteq> 0 \<and> jr_status (oj_memory s) = Active"
    using assms by (simp add: once_defs)
  ultimately show ?thesis
    using Not_Admitted by (simp add: trigger_once_def Let_def back_off_sets_phase)
next
  case Cancelled_First
  then show ?thesis
    using assms by (cases saves_attempt; cases saves; cases removes; cases saves_failed) (auto simp: once_defs once_ops trigger_once_def)
qed

lemma once_step_ok: "once_step s t \<Longrightarrow> once_ok s \<Longrightarrow> once_ok t"
proof (induction rule: once_step.induct)
  case (another_save s)
  then show ?case by (cases "oj_phase s") (auto simp: once_defs once_ops)
next
  case (withdraws s n removes written)
  then show ?case by (cases removes) (auto simp: once_defs once_ops)
next
  case (crashes s)
  then show ?case by (auto simp: once_defs once_ops)
qed (simp_all add: start_ok claim_ok trigger_ok end_ok)

interpretation once_inv: preserving once_step once_ok
  by unfold_locales (rule once_step_ok)

lemma new_once_ok: "once_ok new_once_job"
  by (simp add: once_defs new_once_job_def armed_def)

subsection \<open>One Run\<close>

text \<open>C6. A once job fires at most once: whatever fails to be written, removed or read, and however often the
  process crashes and starts again at any point, no second Run is ever admitted, and after the first the
  claim or the saved job keeps the next process from one.\<close>

theorem once_job_fires_at_most_once:
  assumes "once_step\<^sup>*\<^sup>* new_once_job s"
  shows "oj_admitted s \<le> 1 \<and> (oj_admitted s = 1 \<longrightarrow>
    (\<forall>r saves removes n. reads_as s r \<longrightarrow> oj_phase (start_job r saves removes s) \<noteq> Sleeping_Until n))"
proof -
  have "once_ok s" using once_inv.steps_ok [OF assms new_once_ok] .
  then show ?thesis
    by (auto simp: once_ok_def spent_on_disk_def start_job_def reads_as_def once_ops
        split: claim_read.splits if_splits)
qed

text \<open>A job that fired and crashed before its Run ended.\<close>

definition fired_once :: once_job where
  "fired_once = trigger_once 0 Admitted False False False False False
     (claim_fire 0 True False False False (start_job Absent True True new_once_job))"

lemma fired_once_reached: "once_step\<^sup>*\<^sup>* new_once_job fired_once"
proof -
  let ?s1 = "start_job Absent True True new_once_job" and ?s2 = "claim_fire 0 True False False False (start_job Absent True True new_once_job)"
  have "oj_phase new_once_job = Down" "reads_as new_once_job Absent" "oj_phase ?s1 = Sleeping_Until 0"
      "oj_phase ?s2 = Claimed 0"
    by code_simp+
  then have "once_step new_once_job ?s1" "once_step ?s1 ?s2" "once_step ?s2 fired_once"
    unfolding fired_once_def by (auto intro: starts claims triggers)
  then show ?thesis by (meson rtranclp.rtrancl_refl rtranclp.rtrancl_into_rtrancl)
qed

lemma once_job_fires_at_most_once_witness:
  "oj_phase (start_job Present True True (in_phase Down fired_once)) \<noteq> Sleeping_Until 0 \<and> oj_admitted fired_once = 1"
proof -
  have c: "oj_phase fired_once \<noteq> Down" "oj_admitted fired_once = 1" "oj_admitted (in_phase Down fired_once) = 1"
      "reads_as (in_phase Down fired_once) Present"
    by code_simp+
  have "once_step\<^sup>*\<^sup>* new_once_job (in_phase Down fired_once)"
    using fired_once_reached crashes [OF c(1)] by (rule rtranclp.rtrancl_into_rtrancl)
  from once_job_fires_at_most_once [OF this] show ?thesis using c by blast
qed

text \<open>The attempts of a once job come to an end: a fire that fails for the fifth time leaves the job failed
  and its task done, and before that the job sleeps again with one attempt fewer left.\<close>

theorem once_attempts_are_bounded:
  assumes "once_step\<^sup>*\<^sup>* new_once_job s" "oj_phase s = Claimed n"
  shows "n < max_fire_attempts \<and>
    (let t = trigger_once n Not_Admitted saves_attempt saves removes saves_failed abandon_removes s in
     if Suc n = max_fire_attempts then oj_phase t = Idle \<and> jr_status (oj_memory t) = Failed
     else oj_phase t = Sleeping_Until (Suc n) \<and> jr_status (oj_memory t) = Active)"
proof -
  have ok: "once_ok s" using once_inv.steps_ok [OF assms(1) new_once_ok] .
  then have "n < max_fire_attempts" "jr_status (oj_memory s) = Active" "jr_left (oj_memory s) \<noteq> 0" using assms(2) by (auto simp: once_defs)
  then show ?thesis
    by (auto simp: trigger_once_def back_off_or_abandon_def in_phase_def Let_def max_fire_attempts_def)
qed

lemma once_attempts_are_bounded_witness:
  "\<exists>s. oj_phase (trigger_once 0 Not_Admitted True True True True True s) = Sleeping_Until 1"
proof -
  let ?s1 = "start_job Absent True True new_once_job"
  let ?s2 = "claim_fire 0 True False False False ?s1"
  have c: "oj_phase new_once_job = Down" "reads_as new_once_job Absent" "oj_phase ?s1 = Sleeping_Until 0"
      "oj_phase ?s2 = Claimed 0"
    by code_simp+
  then have "once_step\<^sup>*\<^sup>* new_once_job ?s2"
    by (meson starts claims rtranclp.rtrancl_refl rtranclp.rtrancl_into_rtrancl)
  from once_attempts_are_bounded [OF this c(4), of True True True True True] show ?thesis
    by (simp add: Let_def max_fire_attempts_def) blast
qed

end
