(* ===== verification/Recurring_Jobs.thy ===== *)
theory Recurring_Jobs
  imports Once_Jobs
begin

section \<open>The task of a recurring job\<close>

text \<open>
  Cron and interval jobs over their whole life: \<open>start\<close>, \<open>_run_recurring_job\<close> and \<open>_on_job_task_done\<close> in
  \<open>core/automation/_cron_scheduler.py\<close>, and \<open>_trigger_job_run\<close> with its helpers in \<open>_cron_execution.py\<close> as far
  as they change such a job. Memory, the jobs file and the wall clock are the state. The zone and \<open>croniter\<close>
  may be others at each step, and whether a save works is the input of an operation; a crash loses the memory.
  Edits of the job, watched outputs, the excerpts of results, alerts and log lines are not modelled.
\<close>

subsection \<open>State\<close>

record kept_job =
  kj_job :: cron_job
  kj_outcome :: "run_outcome option"
  kj_failures :: nat

text \<open>Where the task stands: at the top of its loop, asleep until a fire, waiting for a slot with an owed fire,
  with the attempt recorded, behind its Run, or returned; or no process runs.\<close>

datatype task_stage =
    Off | Looking | Sleeps instant | Queues owed_fire_at | Attempting owed_fire_at | Awaiting owed_fire_at | Returned_Task

record recurring =
  rc_memory :: kept_job
  rc_file :: kept_job
  rc_stage :: task_stage
  rc_clock :: instant
  rc_fired :: "instant list"

definition save_kept :: "bool \<Rightarrow> recurring \<Rightarrow> recurring" where
  "save_kept works s = (if works then s\<lparr>rc_file := rc_memory s\<rparr> else s)"

definition at_stage :: "task_stage \<Rightarrow> recurring \<Rightarrow> recurring" where
  "at_stage p s = s\<lparr>rc_stage := p\<rparr>"

definition kept_status :: "kept_job \<Rightarrow> job_status" where
  "kept_status k = cj_status (kj_job k)"

definition with_status :: "job_status \<Rightarrow> kept_job \<Rightarrow> kept_job" where
  "with_status v k = k\<lparr>kj_job := (kj_job k)\<lparr>cj_status := v\<rparr>\<rparr>"

subsection \<open>Accounting\<close>

definition max_failures :: nat where
  "max_failures = 5"

text \<open>\<open>_count_consecutive_failure\<close> of a job that is not a once job.\<close>

definition count_failure :: "kept_job \<Rightarrow> kept_job" where
  "count_failure k =
     (let n = Suc (kj_failures k); counted = k\<lparr>kj_failures := n\<rparr> in
      if kept_status k \<noteq> Failed \<and> max_failures \<le> n then with_status Failed counted else counted)"

definition note_failure :: "instant \<Rightarrow> run_outcome \<Rightarrow> kept_job \<Rightarrow> kept_job" where
  "note_failure now c k =
     count_failure (k\<lparr>kj_job := (kj_job k)\<lparr>cj_completed := Some now\<rparr>, kj_outcome := Some c\<rparr>)"

definition note_success :: "instant \<Rightarrow> kept_job \<Rightarrow> kept_job" where
  "note_success now k =
     k\<lparr>kj_job := (kj_job k)\<lparr>cj_completed := Some now\<rparr>, kj_outcome := Some Succeeded, kj_failures := 0\<rparr>"

definition finalize_kept :: "kept_job \<Rightarrow> kept_job" where
  "finalize_kept k =
     (if kept_status k = Active \<and> cj_remaining (kj_job k) = Some 0
      then with_status (if kj_outcome k = Some Succeeded then Completed else Failed) k else k)"

definition use_up :: "cron_job \<Rightarrow> cron_job" where
  "use_up j = j\<lparr>cj_remaining := map_option (\<lambda>n. n - 1) (cj_remaining j)\<rparr>"

subsection \<open>The loop\<close>

text \<open>A task that raised is counted as a failure and started again, unless the job stops.\<close>

definition task_start :: "kept_job \<Rightarrow> task_stage" where
  "task_start k = (if kept_status k \<noteq> Active \<or> cj_remaining (kj_job k) = Some 0 then Returned_Task else Looking)"

definition task_raised :: "bool \<Rightarrow> recurring \<Rightarrow> recurring" where
  "task_raised saves s =
     (let s1 = save_kept saves (s\<lparr>rc_memory := note_failure (rc_clock s) Run_Failed (rc_memory s)\<rparr>) in
      at_stage (task_start (rc_memory s1)) s1)"

text \<open>From the top of the loop to the next wait; \<open>None\<close> never gets there.\<close>

definition look :: "zone \<Rightarrow> ticker \<Rightarrow> bool \<Rightarrow> recurring \<Rightarrow> recurring option" where
  "look z tk saves s =
     (let j = kj_job (rc_memory s) in
      if cj_status j \<noteq> Active then Some (at_stage Returned_Task s)
      else if cj_type j = Cron_Schedule \<and> cj_expression j = None then Some (task_raised saves s)
      else (case owed_fire z tk (rc_clock s) j of
              Inl e \<Rightarrow> if e = Not_Returned then None else Some (task_raised saves s)
            | Inr (Some ow) \<Rightarrow> Some (at_stage (Queues ow) s)
            | Inr None \<Rightarrow>
                (case next_fire_at z tk (rc_clock s) j of
                   Inl e \<Rightarrow> if e = Not_Returned then None else Some (task_raised saves s)
                 | Inr None \<Rightarrow> Some (at_stage Returned_Task s)
                 | Inr (Some t) \<Rightarrow> Some (at_stage (Sleeps t) s))))"

text \<open>The sleep has reached its instant.\<close>

definition wake_up :: "zone \<Rightarrow> ticker \<Rightarrow> bool \<Rightarrow> recurring \<Rightarrow> recurring option" where
  "wake_up z tk saves s =
     (let j = kj_job (rc_memory s) in
      if cj_status j \<noteq> Active then Some (at_stage Returned_Task s)
      else (case owed_fire z tk (rc_clock s) j of
              Inl e \<Rightarrow> if e = Not_Returned then None else Some (task_raised saves s)
            | Inr (Some ow) \<Rightarrow> Some (at_stage (Queues ow) s)
            | Inr None \<Rightarrow> Some (at_stage Looking s)))"

subsection \<open>Firing\<close>

text \<open>With a slot, the attempt is recorded first; a save that fails does not hold it up.\<close>

definition record_attempt :: "owed_fire_at \<Rightarrow> bool \<Rightarrow> recurring \<Rightarrow> recurring" where
  "record_attempt ow saves s =
     (let k = rc_memory s in
      if kept_status k \<noteq> Active then at_stage Looking s
      else at_stage (Attempting ow)
             (save_kept saves (s\<lparr>rc_memory := k\<lparr>kj_job := (kj_job k)\<lparr>cj_attempt := Some (rc_clock s)\<rparr>\<rparr>\<rparr>)))"

text \<open>How asking for the Run ends: it is admitted, its target is missing, which counts or does not, or
  anything else keeps it from starting.\<close>

datatype start_outcome = Admitted_Run | Target_Missing bool | Not_Started

definition ask_for_run :: "owed_fire_at \<Rightarrow> start_outcome \<Rightarrow> bool \<Rightarrow> recurring \<Rightarrow> recurring" where
  "ask_for_run ow a saves s =
     (let k = rc_memory s in
      case a of
        Admitted_Run \<Rightarrow>
          at_stage (Awaiting ow)
            (save_kept saves (s\<lparr>rc_memory := k\<lparr>kj_job := use_up (kj_job k)\<rparr>, rc_fired := rc_fired s @ [ow_due ow]\<rparr>))
      | Target_Missing counts \<Rightarrow>
          at_stage Looking (save_kept saves
            (s\<lparr>rc_memory := (if counts then count_failure else id) (k\<lparr>kj_outcome := Some Run_Failed\<rparr>)\<rparr>))
      | Not_Started \<Rightarrow>
          at_stage Looking (save_kept saves (s\<lparr>rc_memory := k\<lparr>kj_outcome := Some Run_Failed\<rparr>\<rparr>)))"

definition run_ended :: "run_outcome \<Rightarrow> bool \<Rightarrow> bool \<Rightarrow> recurring \<Rightarrow> recurring" where
  "run_ended c saves saves_final s =
     (let k = rc_memory s;
          noted = (if c = Succeeded then note_success (rc_clock s) k else note_failure (rc_clock s) c k);
          s1 = save_kept saves (s\<lparr>rc_memory := noted\<rparr>);
          ended = finalize_kept noted in
      at_stage Looking (if ended = noted then s1 else save_kept saves_final (s1\<lparr>rc_memory := ended\<rparr>)))"

subsection \<open>Starting\<close>

definition start_recurring :: "bool \<Rightarrow> recurring \<Rightarrow> recurring" where
  "start_recurring saves s =
     (let k = rc_file s in
      if kept_status k = Active \<and> cj_remaining (kj_job k) = Some 0
      then at_stage Returned_Task (save_kept saves
             (s\<lparr>rc_memory := (with_status Completed k)
                 \<lparr>kj_outcome := Some (case kj_outcome k of None \<Rightarrow> Unknown_Outcome | Some c \<Rightarrow> c)\<rparr>\<rparr>))
      else at_stage (task_start k) (s\<lparr>rc_memory := k\<rparr>))"

subsection \<open>Steps\<close>

text \<open>\<open>durable\<close> tells whether every save of the jobs file works, \<open>sudden\<close> whether a crash may fall between the
  start of a Run and the save that counts it. A crash before the first save of any other operation is one before
  the operation. Saves for other jobs take this one's memory along; a timezone change wakes a sleeping cron job; the
  wall clock never steps back.\<close>

definition crash :: "recurring \<Rightarrow> recurring" where
  "crash s = s\<lparr>rc_memory := rc_file s, rc_stage := Off\<rparr>"

inductive recurring_step :: "bool \<Rightarrow> bool \<Rightarrow> recurring \<Rightarrow> recurring \<Rightarrow> bool" for durable sudden where
  starts: "rc_stage s = Off \<Longrightarrow> (durable \<longrightarrow> saves) \<Longrightarrow> recurring_step durable sudden s (start_recurring saves s)"
| looks: "rc_stage s = Looking \<Longrightarrow> (durable \<longrightarrow> saves) \<Longrightarrow> look z tk saves s = Some t \<Longrightarrow> recurring_step durable sudden s t"
| wakes: "rc_stage s = Sleeps due \<Longrightarrow> due \<le> rc_clock s \<Longrightarrow> (durable \<longrightarrow> saves) \<Longrightarrow> wake_up z tk saves s = Some t \<Longrightarrow>
     recurring_step durable sudden s t"
| rezoned: "rc_stage s = Sleeps due \<Longrightarrow> recurring_step durable sudden s (at_stage Looking s)"
| attempts: "rc_stage s = Queues ow \<Longrightarrow> (durable \<longrightarrow> saves) \<Longrightarrow> recurring_step durable sudden s (record_attempt ow saves s)"
| asks: "rc_stage s = Attempting ow \<Longrightarrow> (durable \<longrightarrow> saves) \<Longrightarrow> recurring_step durable sudden s (ask_for_run ow a saves s)"
| ends: "rc_stage s = Awaiting ow \<Longrightarrow> c \<noteq> Unknown_Outcome \<Longrightarrow> (durable \<longrightarrow> saves \<and> saves_final) \<Longrightarrow>
     recurring_step durable sudden s (run_ended c saves saves_final s)"
| another_save: "rc_stage s \<noteq> Off \<Longrightarrow> recurring_step durable sudden s (save_kept True s)"
| ticks: "rc_clock s \<le> now \<Longrightarrow> recurring_step durable sudden s (s\<lparr>rc_clock := now\<rparr>)"
| crashes: "recurring_step durable sudden s (crash s)"
| uncounted: "sudden \<Longrightarrow> rc_stage s = Attempting ow \<Longrightarrow>
     recurring_step durable sudden s (crash (ask_for_run ow Admitted_Run False s))"
| unfinished: "rc_stage s = Awaiting ow \<Longrightarrow> c \<noteq> Unknown_Outcome \<Longrightarrow>
     recurring_step durable sudden s (crash (run_ended c True False s))"

end
