(* ===== verification/Recurring_Properties.thy ===== *)
theory Recurring_Properties
  imports Recurring_Jobs Cron_Properties
begin

section \<open>Properties of recurring jobs\<close>

text \<open>
  A job that is active keeps a task that gets to its next fire, one that keeps failing stops for good, and as
  long as the jobs file can be written no due time starts a second Run, across any crashes.
\<close>

lemmas rc_ops = save_kept_def at_stage_def kept_status_def with_status_def

lemma save_kept_keeps [simp]:
  "rc_memory (save_kept b s) = rc_memory s" "rc_stage (save_kept b s) = rc_stage s"
  "rc_clock (save_kept b s) = rc_clock s" "rc_fired (save_kept b s) = rc_fired s"
  "rc_file (save_kept b s) = (if b then rc_memory s else rc_file s)"
  by (simp_all add: save_kept_def)

lemma at_stage_keeps [simp]:
  "rc_memory (at_stage p s) = rc_memory s" "rc_file (at_stage p s) = rc_file s" "rc_stage (at_stage p s) = p"
  "rc_clock (at_stage p s) = rc_clock s" "rc_fired (at_stage p s) = rc_fired s"
  by (simp_all add: at_stage_def)

lemma crash_keeps [simp]:
  "rc_memory (crash s) = rc_file s" "rc_file (crash s) = rc_file s" "rc_stage (crash s) = Off"
  "rc_clock (crash s) = rc_clock s" "rc_fired (crash s) = rc_fired s"
  by (simp_all add: crash_def)

subsection \<open>The task\<close>

definition recurs :: "kept_job \<Rightarrow> bool" where
  "recurs k \<longleftrightarrow> cj_type (kj_job k) \<in> {Cron_Schedule, Interval_Schedule}
     \<and> (kept_status k = Active \<longrightarrow> kj_failures k < max_failures)"

definition task_ok :: "recurring \<Rightarrow> bool" where
  "task_ok s \<longleftrightarrow> recurs (rc_memory s) \<and> recurs (rc_file s)
     \<and> (case rc_stage s of
          Off \<Rightarrow> True
        | Looking \<Rightarrow> kept_status (rc_memory s) = Active \<longrightarrow> cj_remaining (kj_job (rc_memory s)) \<noteq> Some 0
        | Returned_Task \<Rightarrow> kept_status (rc_memory s) \<noteq> Active
        | Awaiting ow \<Rightarrow> kept_status (rc_memory s) = Active
        | _ \<Rightarrow> kept_status (rc_memory s) = Active \<and> cj_remaining (kj_job (rc_memory s)) \<noteq> Some 0)"

lemma count_recurs: "cj_type (kj_job k) \<in> {Cron_Schedule, Interval_Schedule} \<Longrightarrow> recurs (count_failure k)"
  by (auto simp: recurs_def count_failure_def rc_ops Let_def)

lemma count_failure_keeps [simp]:
  "cj_type (kj_job (count_failure k)) = cj_type (kj_job k)" "cj_remaining (kj_job (count_failure k)) = cj_remaining (kj_job k)"
  "covered_until (kj_job (count_failure k)) = covered_until (kj_job k)" "kj_outcome (count_failure k) = kj_outcome k"
  "cj_attempt (kj_job (count_failure k)) = cj_attempt (kj_job k)"
  "cj_completed (kj_job (count_failure k)) = cj_completed (kj_job k)"
  "kept_status (count_failure k) = Active \<Longrightarrow> kept_status k = Active"
  by (simp_all add: count_failure_def rc_ops Let_def covered_until_def split: if_splits)

lemma note_recurs:
  "recurs k \<Longrightarrow> recurs (note_failure now c k)" "recurs k \<Longrightarrow> recurs (note_success now k)"
proof -
  show "recurs k \<Longrightarrow> recurs (note_failure now c k)"
    unfolding note_failure_def by (rule count_recurs) (simp add: recurs_def)
  show "recurs k \<Longrightarrow> recurs (note_success now k)" by (simp add: recurs_def note_success_def rc_ops max_failures_def)
qed

lemma note_keeps [simp]:
  "cj_remaining (kj_job (note_failure now c k)) = cj_remaining (kj_job k)"
  "cj_remaining (kj_job (note_success now k)) = cj_remaining (kj_job k)"
  "kept_status (note_success now k) = kept_status k"
  by (simp_all add: note_failure_def note_success_def kept_status_def)

lemma note_active: "kept_status (note_failure now c k) = Active \<Longrightarrow> kept_status k = Active"
  using count_failure_keeps(7) [of "k\<lparr>kj_job := (kj_job k)\<lparr>cj_completed := Some now\<rparr>, kj_outcome := Some c\<rparr>"]
  by (simp add: note_failure_def kept_status_def)

lemma finalize_recurs: "recurs k \<Longrightarrow> recurs (finalize_kept k)"
  by (auto simp: recurs_def finalize_kept_def rc_ops)

lemma finalize_left: "kept_status (finalize_kept k) = Active \<Longrightarrow> cj_remaining (kj_job (finalize_kept k)) \<noteq> Some 0"
  by (auto simp: finalize_kept_def rc_ops split: if_splits)

lemma raised_ok:
  assumes "task_ok s" "kept_status (rc_memory s) = Active \<Longrightarrow> cj_remaining (kj_job (rc_memory s)) \<noteq> Some 0"
  shows "task_ok (task_raised saves s)"
proof -
  let ?n = "note_failure (rc_clock s) Run_Failed (rc_memory s)"
  have "recurs (rc_memory s)" and r: "recurs (rc_file s)" using assms(1) by (simp_all add: task_ok_def)
  then have n: "recurs ?n" by (simp add: note_recurs)
  have left: "kept_status ?n = Active \<Longrightarrow> cj_remaining (kj_job ?n) \<noteq> Some 0"
    by (simp add: assms(2) [OF note_active])
  have m: "rc_memory (task_raised saves s) = ?n" "rc_file (task_raised saves s) = (if saves then ?n else rc_file s)"
    "rc_stage (task_raised saves s) = task_start ?n"
    by (simp_all add: task_raised_def Let_def)
  show ?thesis
  proof (cases "kept_status ?n = Active")
    case True
    then have l: "cj_remaining (kj_job ?n) \<noteq> Some 0" by (rule left)
    then have "task_start ?n = Looking" using True by (simp add: task_start_def)
    then show ?thesis unfolding task_ok_def m using n r l by simp
  next
    case False
    then have "task_start ?n = Returned_Task" by (simp add: task_start_def)
    then show ?thesis unfolding task_ok_def m using n r False by simp
  qed
qed

text \<open>A job whose task looks for a fire and finds none to wait for has stopped.\<close>

lemma rests_without_next:
  assumes "cj_type j \<in> {Cron_Schedule, Interval_Schedule}" "cj_type j = Cron_Schedule \<Longrightarrow> cj_expression j \<noteq> None"
    "next_fire_at z tk now j = Inr None"
  shows "cj_status j \<noteq> Active \<or> cj_remaining j = Some 0"
proof (rule ccontr)
  assume "\<not> ?thesis"
  then have "\<not> resting j" using assms(1) by (auto simp: resting_def untimed_def)
  then show False
    using assms by (auto simp: next_fire_at_def map_sum_def split: if_splits option.splits sum.splits)
qed

lemma look_ok:
  assumes "task_ok s" "rc_stage s = Looking" "look z tk saves s = Some t"
  shows "task_ok t"
proof -
  let ?j = "kj_job (rc_memory s)"
  have r: "recurs (rc_memory s)" "recurs (rc_file s)" using assms(1) by (simp_all add: task_ok_def)
  have left: "cj_status ?j = Active \<Longrightarrow> cj_remaining ?j \<noteq> Some 0"
    using assms(1,2) by (simp add: task_ok_def kept_status_def)
  have none: "cj_status ?j \<noteq> Active" if "next_fire_at z tk now ?j = Inr None" "cj_type ?j = Cron_Schedule \<Longrightarrow> cj_expression ?j \<noteq> None" for now
    using rests_without_next [OF _ that(2) that(1)] r(1) left by (auto simp: recurs_def)
  consider "t = at_stage Returned_Task s" "cj_status ?j \<noteq> Active" | "t = task_raised saves s"
    | ow where "t = at_stage (Queues ow) s" "cj_status ?j = Active" | due where "t = at_stage (Sleeps due) s" "cj_status ?j = Active"
    using assms(3) none
    by (auto simp: look_def Let_def split: if_splits sum.splits option.splits)
  then show ?thesis
  proof cases
    case 2
    then show ?thesis using raised_ok [OF assms(1)] left by (simp add: kept_status_def)
  qed (use r left in \<open>auto simp: task_ok_def kept_status_def\<close>)
qed

lemma wake_task_ok:
  assumes "task_ok s" "rc_stage s = Sleeps due" "wake_up z tk saves s = Some t"
  shows "task_ok t"
proof -
  have r: "recurs (rc_memory s)" "recurs (rc_file s)" "kept_status (rc_memory s) = Active"
    "cj_remaining (kj_job (rc_memory s)) \<noteq> Some 0"
    using assms(1,2) by (simp_all add: task_ok_def)
  consider "t = task_raised saves s" | ow where "t = at_stage (Queues ow) s" | "t = at_stage Looking s"
    using assms(3) r(3)
    by (auto simp: wake_up_def Let_def kept_status_def split: if_splits sum.splits option.splits)
  then show ?thesis
    using raised_ok [OF assms(1)] r by cases (simp_all add: task_ok_def)
qed

lemma attempt_ok:
  assumes "task_ok s" "rc_stage s = Queues ow"
  shows "task_ok (record_attempt ow saves s)"
  using assms by (auto simp: task_ok_def record_attempt_def Let_def recurs_def kept_status_def)

lemma ask_task_ok:
  assumes "task_ok s" "rc_stage s = Attempting ow"
  shows "task_ok (ask_for_run ow a saves s)"
proof -
  let ?k = "rc_memory s"
  have r: "recurs ?k" "recurs (rc_file s)" "kept_status ?k = Active" "cj_remaining (kj_job ?k) \<noteq> Some 0"
    using assms by (simp_all add: task_ok_def)
  have a: "recurs (?k\<lparr>kj_job := use_up (kj_job ?k)\<rparr>)" "kept_status (?k\<lparr>kj_job := use_up (kj_job ?k)\<rparr>) = Active"
    "recurs (?k\<lparr>kj_outcome := Some c\<rparr>)" "recurs (count_failure (?k\<lparr>kj_outcome := Some c\<rparr>))" for c
    using r(1,3) by (simp_all add: recurs_def kept_status_def use_up_def count_recurs [unfolded recurs_def kept_status_def])
  show ?thesis
    using r a by (auto simp: task_ok_def ask_for_run_def Let_def split: start_outcome.split)
qed

lemma ended_task_ok:
  assumes "task_ok s" "rc_stage s = Awaiting ow"
  shows "task_ok (run_ended c saves saves_final s)"
proof -
  have r: "recurs (rc_memory s)" "recurs (rc_file s)" using assms by (simp_all add: task_ok_def)
  define noted where "noted = (if c = Succeeded then note_success (rc_clock s) (rc_memory s) else note_failure (rc_clock s) c (rc_memory s))"
  have n: "recurs noted" using r(1) note_recurs by (simp add: noted_def)
  have m: "rc_memory (run_ended c saves saves_final s) = finalize_kept noted"
    "rc_file (run_ended c saves saves_final s) \<in> {rc_file s, noted, finalize_kept noted}"
    "rc_stage (run_ended c saves saves_final s) = Looking"
    by (auto simp: run_ended_def Let_def noted_def [symmetric])
  then have "recurs (rc_file (run_ended c saves saves_final s))" using r(2) n finalize_recurs by auto
  then show ?thesis using m(1,3) finalize_recurs [OF n] finalize_left by (simp add: task_ok_def)
qed

lemma start_recurring_ok: "task_ok s \<Longrightarrow> task_ok (start_recurring saves s)"
  by (auto simp: task_ok_def start_recurring_def Let_def task_start_def recurs_def kept_status_def with_status_def
      split: if_splits)

lemma crash_ok: "task_ok s \<Longrightarrow> task_ok (crash s)"
  by (simp add: task_ok_def)

lemma task_step: "recurring_step durable sudden s t \<Longrightarrow> task_ok s \<Longrightarrow> task_ok t"
proof (induction rule: recurring_step.induct)
  case (rezoned s due)
  then show ?case by (simp add: task_ok_def)
next
  case (another_save s)
  then show ?case by (simp add: task_ok_def split: task_stage.splits)
next
  case (ticks s now)
  then show ?case by (simp add: task_ok_def split: task_stage.splits)
next
  case (crashes s)
  then show ?case by (rule crash_ok)
next
  case (uncounted s ow)
  then show ?case by (simp add: crash_ok ask_task_ok)
next
  case (unfinished s ow c)
  then show ?case by (simp add: crash_ok ended_task_ok)
next
  case (starts s saves)
  then show ?case by (simp add: start_recurring_ok)
next
  case (looks s saves z tk t)
  then show ?case by (blast intro: look_ok)
next
  case (wakes s due saves z tk t)
  then show ?case by (blast intro: wake_task_ok)
next
  case (attempts s ow saves)
  then show ?case by (simp add: attempt_ok)
next
  case (asks s ow saves a)
  then show ?case by (simp add: ask_task_ok)
next
  case (ends s ow c saves saves_final)
  then show ?case by (simp add: ended_task_ok)
qed

interpretation recurring_task: preserving "recurring_step durable sudden" task_ok for durable sudden
  by unfold_locales (rule task_step)

definition new_recurring :: "cron_job \<Rightarrow> instant \<Rightarrow> recurring" where
  "new_recurring j now =
     (let k = \<lparr>kj_job = j\<lparr>cj_status := Active, cj_attempt := None, cj_completed := None\<rparr>, kj_outcome = None, kj_failures = 0\<rparr> in
      \<lparr>rc_memory = k, rc_file = k, rc_stage = Off, rc_clock = now, rc_fired = []\<rparr>)"

lemma new_task_ok: "cj_type j \<in> {Cron_Schedule, Interval_Schedule} \<Longrightarrow> task_ok (new_recurring j now)"
  by (simp add: new_recurring_def Let_def task_ok_def recurs_def kept_status_def max_failures_def)

subsection \<open>Fires\<close>

text \<open>As long as saves work the file has what memory has, each fire lies past the ones before it, and the
  recorded attempt covers it.\<close>

definition covered_time :: "recurring \<Rightarrow> instant" where
  "covered_time s = covered_until (kj_job (rc_memory s))"

definition past_times :: "instant \<Rightarrow> kept_job \<Rightarrow> bool" where
  "past_times now k \<longleftrightarrow>
     (\<forall>t. cj_attempt (kj_job k) = Some t \<longrightarrow> t \<le> now) \<and> (\<forall>t. cj_completed (kj_job k) = Some t \<longrightarrow> t \<le> now)"

definition budget_ok :: "nat option \<Rightarrow> recurring \<Rightarrow> bool" where
  "budget_ok budget s \<longleftrightarrow>
     (case budget of
        None \<Rightarrow> cj_remaining (kj_job (rc_memory s)) = None
      | Some n \<Rightarrow> \<exists>m. cj_remaining (kj_job (rc_memory s)) = Some m \<and> m + length (rc_fired s) = n)"

definition fires_ok :: "bool \<Rightarrow> nat option \<Rightarrow> recurring \<Rightarrow> bool" where
  "fires_ok sudden budget s \<longleftrightarrow>
     task_ok s \<and> rc_file s = rc_memory s \<and> past_times (rc_clock s) (rc_memory s) \<and> (sudden \<or> budget_ok budget s)
     \<and> sorted_wrt (<) (rc_fired s) \<and> (\<forall>d \<in> set (rc_fired s). d \<le> covered_time s)
     \<and> (case rc_stage s of
          Queues ow \<Rightarrow> covered_time s < ow_due ow \<and> ow_due ow \<le> rc_clock s
        | Attempting ow \<Rightarrow> ow_due ow \<le> covered_time s \<and> (\<forall>d \<in> set (rc_fired s). d < ow_due ow)
        | _ \<Rightarrow> True)"

lemma budget_cong:
  "cj_remaining (kj_job (rc_memory t)) = cj_remaining (kj_job (rc_memory s)) \<Longrightarrow> rc_fired t = rc_fired s \<Longrightarrow>
   budget_ok budget t = budget_ok budget s"
  by (cases budget) (simp_all add: budget_ok_def)

lemma covered_grows:
  "(\<And>u. cj_attempt j = Some u \<Longrightarrow> u \<le> t) \<Longrightarrow> covered_until j \<le> covered_until (j\<lparr>cj_attempt := Some t\<rparr>)"
  "(\<And>u. cj_completed j = Some u \<Longrightarrow> u \<le> t) \<Longrightarrow> covered_until j \<le> covered_until (j\<lparr>cj_completed := Some t\<rparr>)"
  by (auto simp: covered_until_def max_def split: option.splits)

lemma owed_bounds:
  "owed_fire z tk now j = Inr (Some ow) \<Longrightarrow> cj_type j \<in> {Cron_Schedule, Interval_Schedule} \<Longrightarrow>
   covered_until j < ow_due ow \<and> ow_due ow \<le> now"
  using owed_interval_bounds owed_cron_bounds by (auto simp: owed_fire_def split: option.splits if_splits)

text \<open>A step that fires nothing and rests in a stage without an owed fire.\<close>

lemma fires_unfired:
  assumes "fires_ok sudden budget s" "task_ok t" "rc_file t = rc_memory t" "rc_fired t = rc_fired s" "rc_clock t = rc_clock s"
    "past_times (rc_clock s) (rc_memory t)" "covered_time s \<le> covered_time t"
    "cj_remaining (kj_job (rc_memory t)) = cj_remaining (kj_job (rc_memory s))"
    "\<And>ow. rc_stage t \<noteq> Queues ow \<and> rc_stage t \<noteq> Attempting ow"
  shows "fires_ok sudden budget t"
proof -
  have "case rc_stage t of
          Queues ow \<Rightarrow> covered_time t < ow_due ow \<and> ow_due ow \<le> rc_clock t
        | Attempting ow \<Rightarrow> ow_due ow \<le> covered_time t \<and> (\<forall>d \<in> set (rc_fired t). d < ow_due ow)
        | _ \<Rightarrow> True"
    using assms(9) by (simp split: task_stage.split)
  moreover have "d \<le> covered_time t" if "d \<in> set (rc_fired s)" for d
    using assms(1,7) that by (fastforce simp: fires_ok_def)
  ultimately show ?thesis using assms(1-6) budget_cong [OF assms(8,4)] by (simp add: fires_ok_def)
qed

lemma noted_covers:
  assumes "past_times now k"
  shows "covered_until (kj_job k) \<le> covered_until (kj_job (note_failure now c k))"
    "covered_until (kj_job k) \<le> covered_until (kj_job (note_success now k))"
    "past_times now (note_failure now c k)" "past_times now (note_success now k)"
  using assms covered_grows(2) [of "kj_job k" now]
  by (simp_all add: note_failure_def note_success_def past_times_def)

lemma fires_raised:
  assumes "fires_ok sudden budget s" "task_ok (task_raised True s)"
  shows "fires_ok sudden budget (task_raised True s)"
proof (rule fires_unfired [OF assms])
  have p: "past_times (rc_clock s) (rc_memory s)" using assms(1) by (simp add: fires_ok_def)
  show "covered_time s \<le> covered_time (task_raised True s)" "past_times (rc_clock s) (rc_memory (task_raised True s))"
    using noted_covers [OF p] by (simp_all add: task_raised_def Let_def covered_time_def)
qed (simp_all add: task_raised_def Let_def task_start_def)

lemma fires_staged:
  assumes "fires_ok sudden budget s" "task_ok (at_stage p s)" "\<And>ow. p \<noteq> Queues ow \<and> p \<noteq> Attempting ow"
  shows "fires_ok sudden budget (at_stage p s)"
  by (rule fires_unfired [OF assms(1,2)]) (use assms(1,3) in \<open>simp_all add: fires_ok_def covered_time_def\<close>)

lemma fires_queued:
  assumes "fires_ok sudden budget s" "task_ok (at_stage (Queues ow) s)"
    "owed_fire z tk (rc_clock s) (kj_job (rc_memory s)) = Inr (Some ow)"
  shows "fires_ok sudden budget (at_stage (Queues ow) s)"
proof -
  have "recurs (rc_memory s)" using assms(1) by (simp add: fires_ok_def task_ok_def)
  then have "covered_time s < ow_due ow \<and> ow_due ow \<le> rc_clock s"
    using owed_bounds [OF assms(3)] by (simp add: covered_time_def recurs_def)
  then show ?thesis
    using assms(1,2) budget_cong [of "at_stage (Queues ow) s" s] by (simp add: fires_ok_def covered_time_def)
qed

lemma fires_look:
  assumes "fires_ok sudden budget s" "rc_stage s = Looking" "look z tk True s = Some t"
  shows "fires_ok sudden budget t"
proof -
  have "task_ok s" using assms(1) by (simp add: fires_ok_def)
  then have t: "task_ok t" using look_ok assms(2,3) by blast
  consider "t = task_raised True s" | "t = at_stage Returned_Task s" | due where "t = at_stage (Sleeps due) s"
    | ow where "t = at_stage (Queues ow) s" "owed_fire z tk (rc_clock s) (kj_job (rc_memory s)) = Inr (Some ow)"
    using assms(3) by (auto simp: look_def Let_def split: if_splits sum.splits option.splits)
  then show ?thesis
    using t fires_raised [OF assms(1)] fires_staged [OF assms(1)] fires_queued [OF assms(1)] by cases auto
qed

lemma fires_wake:
  assumes "fires_ok sudden budget s" "rc_stage s = Sleeps due" "wake_up z tk True s = Some t"
  shows "fires_ok sudden budget t"
proof -
  have "task_ok s" using assms(1) by (simp add: fires_ok_def)
  then have t: "task_ok t" using wake_task_ok assms(2,3) by blast
  consider "t = task_raised True s" | "t = at_stage Returned_Task s" | "t = at_stage Looking s"
    | ow where "t = at_stage (Queues ow) s" "owed_fire z tk (rc_clock s) (kj_job (rc_memory s)) = Inr (Some ow)"
    using assms(3) by (auto simp: wake_up_def Let_def split: if_splits sum.splits option.splits)
  then show ?thesis
    using t fires_raised [OF assms(1)] fires_staged [OF assms(1)] fires_queued [OF assms(1)] by cases auto
qed

lemma fires_attempt:
  assumes "fires_ok sudden budget s" "rc_stage s = Queues ow"
  shows "fires_ok sudden budget (record_attempt ow True s)"
proof -
  let ?t = "record_attempt ow True s"
  have s: "task_ok s" "past_times (rc_clock s) (rc_memory s)" "covered_time s < ow_due ow" "ow_due ow \<le> rc_clock s"
    "kept_status (rc_memory s) = Active"
    using assms by (simp_all add: fires_ok_def task_ok_def)
  have m: "rc_memory ?t = (rc_memory s)\<lparr>kj_job := (kj_job (rc_memory s))\<lparr>cj_attempt := Some (rc_clock s)\<rparr>\<rparr>"
    "rc_file ?t = rc_memory ?t" "rc_stage ?t = Attempting ow" "rc_fired ?t = rc_fired s" "rc_clock ?t = rc_clock s"
    using s(5) by (simp_all add: record_attempt_def Let_def)
  have "covered_time s \<le> covered_time ?t" using covered_grows(1) s(2) by (simp add: covered_time_def m(1) past_times_def)
  moreover have "rc_clock s \<le> covered_time ?t" unfolding covered_time_def m(1) by (rule covered_mono(2)) simp
  moreover have "past_times (rc_clock s) (rc_memory ?t)" using s(2) by (simp add: m(1) past_times_def)
  moreover have "task_ok ?t" by (rule attempt_ok [OF s(1) assms(2)])
  moreover have "sudden \<or> budget_ok budget ?t" using assms(1) budget_cong [of ?t s] m by (simp add: fires_ok_def)
  ultimately show ?thesis using assms(1) s(3,4) m by (fastforce simp: fires_ok_def)
qed

lemma fires_ask:
  assumes "fires_ok sudden budget s" "rc_stage s = Attempting ow"
  shows "fires_ok sudden budget (ask_for_run ow a True s)"
proof -
  let ?t = "ask_for_run ow a True s"
  have s: "task_ok s" "past_times (rc_clock s) (rc_memory s)" "ow_due ow \<le> covered_time s"
    "\<forall>d \<in> set (rc_fired s). d < ow_due ow" "cj_remaining (kj_job (rc_memory s)) \<noteq> Some 0"
    using assms by (simp_all add: fires_ok_def task_ok_def)
  have t: "task_ok ?t" by (rule ask_task_ok [OF s(1) assms(2)])
  show ?thesis
  proof (cases "a = Admitted_Run")
    case True
    have c: "covered_until (use_up j) = covered_until j" for j by (simp add: use_up_def covered_until_def)
    have m: "rc_memory ?t = (rc_memory s)\<lparr>kj_job := use_up (kj_job (rc_memory s))\<rparr>" "rc_file ?t = rc_memory ?t"
      "rc_fired ?t = rc_fired s @ [ow_due ow]" "rc_clock ?t = rc_clock s" "rc_stage ?t = Awaiting ow"
      using True by (simp_all add: ask_for_run_def Let_def)
    have "past_times (rc_clock s) (rc_memory ?t)" using s(2) by (simp add: m(1) past_times_def use_up_def)
    moreover have "covered_time ?t = covered_time s" by (simp add: covered_time_def m(1) c)
    moreover have "budget_ok budget ?t" if b: "budget_ok budget s"
    proof (cases budget)
      case None
      then show ?thesis using b by (simp add: budget_ok_def m use_up_def)
    next
      case (Some n)
      then obtain l where l: "cj_remaining (kj_job (rc_memory s)) = Some l" "l + length (rc_fired s) = n"
        using b by (auto simp: budget_ok_def)
      then show ?thesis using s(5) Some by (simp add: budget_ok_def m use_up_def)
    qed
    moreover have "sorted_wrt (<) (rc_fired s)" "\<forall>d \<in> set (rc_fired s). d \<le> covered_time s"
      using assms(1) by (simp_all add: fires_ok_def)
    ultimately show ?thesis using assms(1) t s(3,4) m by (auto simp: fires_ok_def sorted_wrt_append)
  next
    case False
    show ?thesis
      by (rule fires_unfired [OF assms(1) t])
        (use False s(2) in \<open>cases a; auto simp: ask_for_run_def Let_def covered_time_def past_times_def\<close>)+
  qed
qed

lemma fires_ended:
  assumes "fires_ok sudden budget s" "rc_stage s = Awaiting ow"
  shows "fires_ok sudden budget (run_ended c True True s)"
proof -
  have s: "task_ok s" "past_times (rc_clock s) (rc_memory s)" using assms by (simp_all add: fires_ok_def)
  define noted where "noted = (if c = Succeeded then note_success (rc_clock s) (rc_memory s) else note_failure (rc_clock s) c (rc_memory s))"
  have m: "rc_memory (run_ended c True True s) = finalize_kept noted" "rc_file (run_ended c True True s) = finalize_kept noted"
    by (auto simp: run_ended_def Let_def noted_def [symmetric])
  have n: "covered_until (kj_job (rc_memory s)) \<le> covered_until (kj_job noted)" "past_times (rc_clock s) noted"
    "cj_remaining (kj_job noted) = cj_remaining (kj_job (rc_memory s))"
    using noted_covers [OF s(2)] by (simp_all add: noted_def)
  have f: "covered_until (kj_job (finalize_kept noted)) = covered_until (kj_job noted)"
    "past_times now (finalize_kept noted) = past_times now noted"
    "cj_remaining (kj_job (finalize_kept noted)) = cj_remaining (kj_job noted)" for now
    by (simp_all add: finalize_kept_def with_status_def covered_until_def past_times_def)
  show ?thesis
    by (rule fires_unfired [OF assms(1) ended_task_ok [OF s(1) assms(2)]])
      (simp_all add: m n f covered_time_def, simp_all add: run_ended_def Let_def)
qed

lemma fires_started:
  assumes "fires_ok sudden budget s" "rc_stage s = Off"
  shows "fires_ok sudden budget (start_recurring True s)"
  by (rule fires_unfired [OF assms(1) start_recurring_ok])
    (use assms(1) in \<open>simp_all add: fires_ok_def start_recurring_def Let_def task_start_def covered_time_def with_status_def
      covered_until_def past_times_def\<close>)

lemma fires_crash: "fires_ok sudden budget s \<Longrightarrow> fires_ok sudden budget (crash s)"
  by (rule fires_unfired) (simp_all add: fires_ok_def crash_ok covered_time_def)

lemma fires_uncounted:
  assumes "fires_ok True budget s" "rc_stage s = Attempting ow"
  shows "fires_ok True budget (crash (ask_for_run ow Admitted_Run False s))"
proof -
  have "task_ok (crash (ask_for_run ow Admitted_Run False s))"
    using assms by (simp add: fires_ok_def crash_ok ask_task_ok)
  then show ?thesis
    using assms by (auto simp: fires_ok_def ask_for_run_def Let_def covered_time_def sorted_wrt_append)
qed

lemma fires_unfinished:
  assumes "fires_ok sudden budget s" "rc_stage s = Awaiting ow"
  shows "fires_ok sudden budget (crash (run_ended c True False s))"
proof -
  have s: "task_ok s" "past_times (rc_clock s) (rc_memory s)" using assms by (simp_all add: fires_ok_def)
  define noted where "noted = (if c = Succeeded then note_success (rc_clock s) (rc_memory s) else note_failure (rc_clock s) c (rc_memory s))"
  have f: "rc_file (run_ended c True False s) = noted"
    by (simp add: run_ended_def Let_def noted_def [symmetric])
  have n: "covered_until (kj_job (rc_memory s)) \<le> covered_until (kj_job noted)" "past_times (rc_clock s) noted"
    "cj_remaining (kj_job noted) = cj_remaining (kj_job (rc_memory s))"
    using noted_covers [OF s(2)] by (simp_all add: noted_def)
  show ?thesis
    by (rule fires_unfired [OF assms(1) crash_ok [OF ended_task_ok [OF s(1) assms(2)]]])
      (simp_all add: f n covered_time_def, simp_all add: run_ended_def Let_def)
qed

lemma fires_step: "recurring_step True sudden s t \<Longrightarrow> fires_ok sudden budget s \<Longrightarrow> fires_ok sudden budget t"
proof (induction rule: recurring_step.induct)
  case (starts s saves)
  then show ?case by (simp add: fires_started)
next
  case (looks s saves z tk t)
  then have "look z tk True s = Some t" by simp
  with looks show ?case by (blast intro: fires_look)
next
  case (wakes s due saves z tk t)
  then have "wake_up z tk True s = Some t" by simp
  with wakes show ?case by (blast intro: fires_wake)
next
  case (rezoned s due)
  then have "task_ok (at_stage Looking s)" by (simp add: fires_ok_def task_ok_def)
  then show ?case using rezoned by (simp add: fires_staged)
next
  case (attempts s ow saves)
  then show ?case by (simp add: fires_attempt)
next
  case (asks s ow saves a)
  then show ?case by (simp add: fires_ask)
next
  case (ends s ow c saves saves_final)
  then show ?case by (simp add: fires_ended)
next
  case (another_save s)
  then have "save_kept True s = s" by (simp add: fires_ok_def save_kept_def)
  then show ?case using another_save by simp
next
  case (ticks s now)
  have "task_ok (s\<lparr>rc_clock := now\<rparr>)" using task_step [OF recurring_step.ticks [OF ticks(1)]] ticks(2) by (simp add: fires_ok_def)
  moreover have "sudden \<or> budget_ok budget (s\<lparr>rc_clock := now\<rparr>)" using ticks(2) budget_cong [of "s\<lparr>rc_clock := now\<rparr>" s] by (simp add: fires_ok_def)
  moreover have "past_times now (rc_memory s)" using ticks by (fastforce simp: fires_ok_def past_times_def)
  ultimately show ?case using ticks by (auto simp: fires_ok_def covered_time_def split: task_stage.splits)
next
  case (crashes s)
  then show ?case by (rule fires_crash)
next
  case (uncounted s ow)
  then show ?case by (simp add: fires_uncounted)
next
  case (unfinished s ow c)
  then show ?case by (simp add: fires_unfinished)
qed

interpretation recurring_fires: preserving "recurring_step True sudden" "fires_ok sudden budget" for sudden budget
  by unfold_locales (rule fires_step)

lemma new_fires_ok:
  "cj_type j \<in> {Cron_Schedule, Interval_Schedule} \<Longrightarrow> fires_ok sudden (cj_remaining j) (new_recurring j now)"
  using new_task_ok by (auto simp: fires_ok_def new_recurring_def Let_def past_times_def budget_ok_def split: option.split)

subsection \<open>No due time twice\<close>

text \<open>An hourly job whose process crashed right after it started the Run, before anything was saved of it.\<close>

definition hourly_begun :: recurring where
  "hourly_begun = (new_recurring every_hour (seconds 3601))\<lparr>rc_stage := Looking\<rparr>"

definition hourly_due :: owed_fire_at where
  "hourly_due = \<lparr>ow_due = seconds 3600, ow_missed = 0, ow_first = None\<rparr>"

definition hourly_crashed :: recurring where
  "hourly_crashed = crash (ask_for_run hourly_due Admitted_Run False (record_attempt hourly_due True
     (at_stage (Queues hourly_due) hourly_begun)))"

lemma hourly_crashed_reached: "(recurring_step True True)\<^sup>*\<^sup>* (new_recurring every_hour (seconds 3601)) hourly_crashed"
proof -
  let ?q = "at_stage (Queues hourly_due) hourly_begun"
  let ?a = "record_attempt hourly_due True ?q"
  have "owed_fire (fixed_zone 0) hourly (seconds 3601) (kj_job (rc_memory hourly_begun)) = Inr (Some hourly_due)"
    using hourly_forward hourly_backward
    by (simp add: owed_fire_def owed_cron_fire_def fixed_previous fixed_next resting_def untimed_def every_hour_def
        every_five_def hourly_def covered_until_def seconds_def hourly_begun_def new_recurring_def Let_def hourly_due_def)
  then have l: "look (fixed_zone 0) hourly True hourly_begun = Some ?q"
    by (simp add: look_def Let_def hourly_begun_def new_recurring_def every_hour_def)
  have "hourly_begun = start_recurring True (new_recurring every_hour (seconds 3601))"
    by (simp add: hourly_begun_def start_recurring_def new_recurring_def Let_def task_start_def kept_status_def at_stage_def
        every_hour_def every_five_def)
  moreover have "recurring_step True True (new_recurring every_hour (seconds 3601)) (start_recurring True (new_recurring every_hour (seconds 3601)))"
    by (rule recurring_step.starts) (simp_all add: new_recurring_def Let_def)
  moreover have "recurring_step True True hourly_begun ?q"
    by (rule recurring_step.looks [OF _ _ l]) (simp_all add: hourly_begun_def)
  moreover have "recurring_step True True ?q ?a" by (rule recurring_step.attempts) simp_all
  moreover have "rc_stage ?a = Attempting hourly_due"
    by (simp add: record_attempt_def Let_def kept_status_def hourly_begun_def new_recurring_def)
  then have "recurring_step True True ?a hourly_crashed"
    unfolding hourly_crashed_def by (rule recurring_step.uncounted [OF TrueI])
  ultimately show ?thesis by (metis converse_rtranclp_into_rtranclp rtranclp.rtrancl_refl)
qed

text \<open>C7. No due time starts a second Run: as long as the jobs file can be written, each Run a recurring job starts
  is for a later due time than all before it, which is not in the future, across any crashes and restarts and
  whatever becomes of its Runs, while the wall clock does not step back; and a job with a number of Runs never
  starts more, unless a crash falls between the start of a Run and the save that counts it.\<close>

theorem recurring_fires_move_ahead:
  assumes "cj_type j = Cron_Schedule \<or> cj_type j = Interval_Schedule"
    "(recurring_step True sudden)\<^sup>*\<^sup>* (new_recurring j now) s"
  shows "sorted_wrt (<) (rc_fired s)
    \<and> (sudden \<or> (case cj_remaining j of None \<Rightarrow> True | Some n \<Rightarrow> length (rc_fired s) \<le> n))
    \<and> (rc_stage s = Queues ow \<longrightarrow> ow_due ow \<le> rc_clock s \<and> list_all (\<lambda>d. d < ow_due ow) (rc_fired s))"
proof -
  have "fires_ok sudden (cj_remaining j) s"
    by (rule recurring_fires.steps_ok [OF assms(2) new_fires_ok]) (use assms(1) in auto)
  then show ?thesis by (auto simp: fires_ok_def budget_ok_def list_all_iff split: option.splits)
qed

lemma recurring_fires_move_ahead_witness:
  "rc_fired hourly_crashed = [seconds 3600] \<and> sorted_wrt (<) (rc_fired hourly_crashed)"
proof -
  have "cj_type every_hour = Cron_Schedule \<or> cj_type every_hour = Interval_Schedule" by (simp add: every_hour_def)
  from recurring_fires_move_ahead [OF this hourly_crashed_reached] show ?thesis
    by (simp add: hourly_crashed_def ask_for_run_def record_attempt_def Let_def kept_status_def hourly_begun_def
        new_recurring_def hourly_due_def)
qed

subsection \<open>Stopping\<close>

text \<open>C16. An active job's task never returns while the process lives, and the job has failed fewer than five times in a row;
  from the top of its loop the task comes to a wait or a fire unless the job stops as failed. None of this needs a
  working jobs file.\<close>

theorem active_job_keeps_its_task:
  assumes "cj_type j = Cron_Schedule \<or> cj_type j = Interval_Schedule"
    "(recurring_step durable sudden)\<^sup>*\<^sup>* (new_recurring j now) s" "kept_status (rc_memory s) = Active"
  shows "rc_stage s \<noteq> Returned_Task \<and> kj_failures (rc_memory s) < max_failures
    \<and> (rc_stage s = Looking \<longrightarrow> look z tk saves s = None \<or>
         (\<exists>t. look z tk saves s = Some t \<and> (rc_stage t = Returned_Task \<longrightarrow> kept_status (rc_memory t) = Failed)))"
proof -
  have ok: "task_ok s" by (rule recurring_task.steps_ok [OF assms(2) new_task_ok]) (use assms(1) in auto)
  have "kept_status (rc_memory t) = Failed"
    if l: "rc_stage s = Looking" "look z tk saves s = Some t" "rc_stage t = Returned_Task" for t
  proof -
    have "task_ok t" by (rule look_ok [OF ok l(1,2)])
    then have inactive: "kept_status (rc_memory t) \<noteq> Active" using l(3) by (simp add: task_ok_def)
    have "t = task_raised saves s \<or> rc_memory t = rc_memory s"
      using l(2) by (auto simp: look_def Let_def split: if_splits sum.splits option.splits)
    then have "t = task_raised saves s" using inactive assms(3) by auto
    then show ?thesis
      using inactive assms(3)
      by (auto simp: task_raised_def Let_def note_failure_def count_failure_def kept_status_def with_status_def split: if_splits)
  qed
  then show ?thesis
    using ok assms(3) by (cases "look z tk saves s") (auto simp: task_ok_def recurs_def)
qed

lemma active_job_keeps_its_task_witness:
  "rc_stage (start_recurring True hourly_crashed) \<noteq> Returned_Task"
proof -
  have a: "cj_type every_hour = Cron_Schedule \<or> cj_type every_hour = Interval_Schedule" by (simp add: every_hour_def)
  have "recurring_step True True hourly_crashed (start_recurring True hourly_crashed)"
    by (rule recurring_step.starts) (simp_all add: hourly_crashed_def)
  with hourly_crashed_reached
  have r: "(recurring_step True True)\<^sup>*\<^sup>* (new_recurring every_hour (seconds 3601)) (start_recurring True hourly_crashed)"
    by (rule rtranclp.rtrancl_into_rtrancl)
  have "kept_status (rc_memory (start_recurring True hourly_crashed)) = Active"
    by (simp add: start_recurring_def hourly_crashed_def ask_for_run_def record_attempt_def Let_def kept_status_def
        hourly_begun_def new_recurring_def use_up_def every_hour_def every_five_def)
  from active_job_keeps_its_task [OF a r this] show ?thesis by blast
qed

end
