(* ===== verification/Spec2Isabelle.thy ===== *)
theory Spec2Isabelle
  imports Path_Properties Rule_Properties Boundary_Properties Editor_Properties Command_Properties
    Approval_Properties Run_Approval_Properties Event_Stream_Properties
    Run_Life_Properties Run_Queue_Properties
    Schedule_Properties Event_Properties Once_Properties Recurring_Properties
begin

text \<open>
  vBot runs agents: a Run of an agent calls tools, and every call passes the agent's permissions; Cron jobs
  start Runs without a user; clients follow Runs over event streams. This development models the parts of
  \<open>src/core\<close> that decide these things, in Isabelle definitions translated from the Python source, and proves
  what makes them correct. Every definition that models code is computable, so that the witnesses of the
  properties evaluate it on concrete inputs.

  \<^bold>\<open>How the parts interact.\<close> A stored rule set (\<open>_rules.py\<close>) is checked and normalized, the Editor
  (\<open>_presets.py\<close>, \<open>_describe.py\<close>) shows what it will do, and a Run's layers (\<open>_layers.py\<close>) are compiled into a
  boundary (\<open>permissions.py\<close>). Tools ask the boundary about paths, folders, hosts and URLs; the shell tools ask
  the command checker (\<open>_command_check.py\<close>), which analyzes a command line and judges the plan against the
  boundary. A refusal that a grant would lift becomes a request to the user (\<open>core/runs/_approvals.py\<close>), whose
  answer lets one call through (\<open>_approval_access.py\<close>) or widens the Run for the rest of the Session
  (\<open>_session_grants.py\<close>). The manager of Runs (\<open>core/runs/runs.py\<close>) starts, queues and drains
  them, one at a time for a Session; a Run (\<open>run.py\<close>) publishes its progress on a replayed stream
  (\<open>core/event_stream.py\<close>) until it ends. Cron
  (\<open>core/automation\<close>) computes the fires of a job from its schedule or from a calendar and starts the Runs.

  \<^bold>\<open>Foundations.\<close>
  \<^item> \<open>Prelude\<close>: the result type of the fallible operations, generic lemmas on lists, options and maps, and the
    collections of facts the components share.
  \<^item> \<open>State_Machines\<close>: the locale \<open>preserving\<close> of a step relation with an invariant; every state machine below
    interprets it on its own steps and rests its invariants on the interpretation.
  \<^item> \<open>Py_Text\<close>, \<open>Py_Path\<close>, \<open>Py_Glob\<close>, \<open>Py_Ip\<close>, \<open>Py_Url\<close>, \<open>Py_Json\<close>: what the source uses of Python's standard
    library: strings and their case mapping, pure paths of both platforms, \<open>fnmatch\<close> and the regular expressions
    it compiles, \<open>ipaddress\<close>, \<open>urllib.parse\<close>, and the values of \<open>json\<close>.

  \<^bold>\<open>Permissions.\<close>
  \<^item> \<open>Addresses\<close> (\<open>_addresses.py\<close>): the spellings of IPv4 addresses that \<open>inet_aton\<close> accepts.
  \<^item> \<open>Globs\<close>, \<open>Paths\<close> (\<open>_paths.py\<close>), with \<open>Glob_Facts\<close>, \<open>Path_Facts\<close> and \<open>Path_Properties\<close>: the lexical and the
    resolved form of a path, compiled path patterns, what lies below a folder. The operating system's
    \<open>realpath\<close> and its relatives are fields of the record \<open>world\<close>.
  \<^item> \<open>Rules\<close> (\<open>_rules.py\<close>), with \<open>Host_Facts\<close>, \<open>Rule_Facts\<close>, \<open>Trip_Facts\<close> and \<open>Rule_Properties\<close>: the rule language,
    the strict normalizer, the checker of the editor, the resolution of levels.
  \<^item> \<open>Refusal\<close> (\<open>_refusal.py\<close>): the refusals and the sentences of both voices.
  \<^item> \<open>Layers\<close> (\<open>_layers.py\<close>): layers, ceilings, their stored form and joins.
  \<^item> \<open>Boundary\<close>, \<open>Checks\<close> (\<open>permissions.py\<close>), with \<open>Check_Facts\<close> and \<open>Boundary_Properties\<close>: the boundary and its
    checks. Abstract policies say when an access is permitted; the checks refine them.
  \<^item> \<open>Presets\<close>, \<open>Describe\<close> and \<open>Editor_Properties\<close>: what the editor shows.
  \<^item> \<open>Shell_Aliases\<close>, \<open>Command_Patterns\<close> (\<open>commands/_patterns.py\<close>), with \<open>Command_Pattern_Facts\<close>: patterns of Shell
    rules over commands with dynamic words.
  \<^item> \<open>Command_Check\<close>, \<open>Command_Checker\<close> (\<open>_command_check.py\<close>) and \<open>Command_Properties\<close>: the decision about a command
    plan, which refines an abstract policy, and the life of the checker. The plan itself is a parameter.

  \<^bold>\<open>Approvals and streams.\<close>
  \<^item> \<open>Approvals\<close> (\<open>_approval_access.py\<close>), \<open>Session_Grants\<close> (\<open>_session_grants.py\<close>) and \<open>Approval_Properties\<close>: the
    overlay of an approved call, and the rules suggested for a Session.
  \<^item> \<open>Run_Approvals\<close> (\<open>core/runs/_approvals.py\<close>), with \<open>Run_Approval_Facts\<close> and \<open>Run_Approval_Properties\<close>: pending
    requests, rejections and the futures calls wait on, as steps that interleave at the \<open>await\<close>.
  \<^item> \<open>Event_Stream\<close> (\<open>core/event_stream.py\<close>), with \<open>Event_Stream_Facts\<close> and \<open>Event_Stream_Properties\<close>: retention,
    queues and subscriptions; each subscription runs from one suspension to the next, in any interleaving.

  \<^bold>\<open>Runs.\<close>
  \<^item> \<open>Run_Life\<close> (\<open>core/runs/run.py\<close>, and the end of \<open>_execute\<close> in \<open>core/runs/runs.py\<close>), with
    \<open>Run_Life_Properties\<close>: the events of a Run, its cancellation, its Tool calls and its one end, as steps
    (\<open>life_step\<close>) in any order; a callback is a number, and calling it appends the number.
  \<^item> \<open>Run_Queue\<close> (\<open>ChatRunManager\<close> in \<open>core/runs/runs.py\<close>): the record \<open>manager\<close> has the fields of the class, the
    Future of an input is a ticket, and each operation is a function on the record. A coroutine that waits for
    persistence with the lock leaves what it goes on with in \<open>mg_lock\<close>; \<open>mg_step\<close> interleaves all operations,
    the lives of the Runs and the ends of the waits.
  \<^item> \<open>Run_Queue_Facts\<close> (tables, living Runs, service and guards), \<open>Run_Queue_Waiting\<close> (tickets),
    \<open>Run_Queue_Limit\<close> (the limit): the invariants of \<open>mg_step\<close>, each an interpretation of \<open>preserving\<close>, on which
    \<open>Run_Queue_Properties\<close> rests. Whether the withdrawal of a refused input always comes back is the parameter
    \<open>reliable\<close>; what holds without it and what fails is stated.

  \<^bold>\<open>Cron.\<close>
  \<^item> \<open>Cron_Time\<close> (\<open>_cron_timing.py\<close> and the texts of durations and event times in \<open>_cron_jobs.py\<close> and
    \<open>_cron_events.py\<close>): instants are whole microseconds.
  \<^item> \<open>Cron_Schedule\<close> (\<open>_cron_schedule.py\<close>), with \<open>Cron_Facts\<close> and \<open>Cron_Properties\<close>: owed and next fires over
    zones that jump, and the occurrences of a window.
  \<^item> \<open>Schedule_Text\<close> (\<open>_cron_schedule.py\<close>) and \<open>Schedule_Properties\<close>: schedule texts and the normal form of a job.
  \<^item> \<open>Cron_Events\<close> (\<open>_cron_events.py\<close>) and \<open>Event_Properties\<close>: jobs bound to calendar events.
  \<^item> \<open>Once_Jobs\<close> (\<open>_cron_scheduler.py\<close>, \<open>_cron_execution.py\<close>, \<open>_cron_claims.py\<close>) and \<open>Once_Properties\<close>: the one
    fire of a once job over memory, the jobs file and the claim file, with crashes and failed writes.
  \<^item> \<open>Recurring_Jobs\<close> (the same files) and \<open>Recurring_Properties\<close>: the task of a cron or interval job, the
    accounting of its Runs and failures, crashes and restarts. A crash loses the memory; it may fall between any
    two operations, and within those that save more than once or start a Run.

  \<^bold>\<open>Conventions.\<close> An exception of the source is a constructor of an error type, with the values its sentence
  names, or \<open>None\<close> where the code raises one kind only. Records stand for the dataclasses and keep the order of
  their fields. Code that is not in the repository is a parameter: the file system and \<open>idna\<close> (record
  \<open>world\<close>), the analysis of command lines, \<open>croniter\<close> (record \<open>ticker\<close>), the zone database (record \<open>zone\<close>) and
  the calendar. Where a property needs a promise of such code, the promise is a hypothesis over the parameter
  and the witness meets it with a concrete function: \<open>forward\<close> and \<open>backward\<close> (a tick lies past, or before, the
  time asked for), \<open>near_utc\<close> (offsets stay below a day), \<open>calendar_ok\<close> (an iterator yields the occurrences in
  start order, finitely many before any instant). What the admission validator, the preparation of an executor
  and the persistence of Runs answer are arguments of the steps, so that the properties hold for all answers.

  \<^bold>\<open>Loops and bounds.\<close> Loops over lists are structural; the search for the end of a gap halves the distance;
  digits of a number shrink it; \<open>clear_loop\<close> of the Run queues takes off an input or a whole queue in each
  round. Loops that the code itself does not bound (the searches for cron ticks, the
  scans over a calendar, a subscription's rounds) are partial functions whose \<open>None\<close> is not coming back, and
  that they come back is proved. No fuel is used. Elapsed times are exact integers; the floating point seconds
  of \<open>_cron_schedule.py\<close> agree with them for spans below 2^31 seconds. Text is Latin-1, as far as patterns,
  rules and schedules depend on single characters.

  \<^bold>\<open>Not modelled.\<close> The analysis of command lines (\<open>core/permissions/commands\<close> apart from the patterns) works on
  the parse trees of third-party grammars and of a PowerShell process; its plan is a parameter of the decision.
  Of Runs, the timeline shown to accessors (\<open>_timeline.py\<close>), the copies of retained errors (\<open>_errors.py\<close>), the
  callbacks of observers and log lines. Of Cron, the service around the jobs (\<open>cron.py\<close>, edits of a job whose
  task runs, watched outputs, inboxes, deliveries) and the loop of event jobs around their fires. Chat and Sessions are mostly persistence and calls to model providers;
  providers, storage, the server, the desktop and the Web UI are input and output over the core.
\<close>

end
